(* ===== verification/C_Memory.thy ===== *)
theory C_Memory
  imports Main "HOL-Library.Word" "HOL-Library.Monad_Syntax"
begin

text \<open>
  The prelude: the fragment of C that the TLS backends under \<^verbatim>\<open>src/examples\<close> use, and the lemmas
  about byte arrays and machine words that every component shares.

  \<^item> A \<^verbatim>\<open>uint8_t\<close> is an 8-bit word, a \<^verbatim>\<open>size_t\<close> a 64-bit word, an \<^verbatim>\<open>int\<close> and a \<^verbatim>\<open>uint32_t\<close> a
    32-bit word (read with \<open>sint\<close> where the code compares an \<^verbatim>\<open>int\<close> with zero). Arithmetic wraps.
    The diagnostic counters of type \<^verbatim>\<open>int\<close> wrap as well, where C leaves the overflow after
    \<open>2 ^ 31\<close> increments undefined.
  \<^item> A computation that may have undefined behaviour has an option type: \<^term>\<open>None\<close> is an access
    outside the object a pointer points into, or through a null pointer.
  \<^item> A pointer argument is \<^term>\<open>None\<close> for \<^verbatim>\<open>NULL\<close> or \<^term>\<open>Some bs\<close> for the bytes accessible from
    the address on. Copying zero bytes is a no-op for every pointer.
  \<^item> A fixed array \<^verbatim>\<open>uint8_t a[N]\<close> is a byte list of length \<open>N\<close>; its companion length field says how
    many of the bytes at its front are in use.
\<close>

section \<open>Types\<close>

type_synonym byte = "8 word"
type_synonym size_t = "64 word"
type_synonym cint = "32 word"
type_synonym uint32 = "32 word"
type_synonym ptr = "byte list option"

section \<open>Memory operations\<close>

definition read_bytes :: "ptr \<Rightarrow> size_t \<Rightarrow> byte list option" where
  "read_bytes p n =
     (if n = 0 then Some []
      else case p of
        None \<Rightarrow> None
      | Some bs \<Rightarrow> if unat n \<le> length bs then Some (take (unat n) bs) else None)"

definition splice :: "byte list \<Rightarrow> nat \<Rightarrow> byte list \<Rightarrow> byte list" where
  "splice dst i bs = take i dst @ bs @ drop (i + length bs) dst"

definition store_bytes :: "byte list \<Rightarrow> size_t \<Rightarrow> byte list \<Rightarrow> byte list option" where
  "store_bytes dst off bs =
     (if unat off + length bs \<le> length dst then Some (splice dst (unat off) bs) else None)"

text \<open>\<^verbatim>\<open>memcpy(dst + off, src, n)\<close> into an array \<open>dst\<close> of the program.\<close>

definition memcpy :: "byte list \<Rightarrow> size_t \<Rightarrow> ptr \<Rightarrow> size_t \<Rightarrow> byte list option" where
  "memcpy dst off src n = do { bs \<leftarrow> read_bytes src n; store_bytes dst off bs }"

text \<open>\<^verbatim>\<open>memmove(dst, dst + off, n)\<close> within one array.\<close>

definition memmove :: "byte list \<Rightarrow> size_t \<Rightarrow> size_t \<Rightarrow> byte list option" where
  "memmove dst off n = do { bs \<leftarrow> read_bytes (Some (drop (unat off) dst)) n; store_bytes dst 0 bs }"

text \<open>\<^verbatim>\<open>memcpy(out, src, n)\<close> from an array of the program to a caller's buffer.\<close>

definition memcpy_out :: "ptr \<Rightarrow> byte list \<Rightarrow> size_t \<Rightarrow> ptr option" where
  "memcpy_out out src n =
     (if n = 0 then Some out
      else do {
        bs \<leftarrow> read_bytes (Some src) n;
        dst \<leftarrow> out;
        dst' \<leftarrow> store_bytes dst 0 bs;
        Some (Some dst')
      })"

definition c_bool :: "bool \<Rightarrow> cint" where
  "c_bool b = (if b then 1 else 0)"

section \<open>What a caller must provide\<close>

definition readable :: "ptr \<Rightarrow> size_t \<Rightarrow> bool" where
  "readable p n \<longleftrightarrow> read_bytes p n \<noteq> None"

definition bytes_at :: "ptr \<Rightarrow> size_t \<Rightarrow> byte list" where
  "bytes_at p n = (case p of None \<Rightarrow> [] | Some bs \<Rightarrow> take (unat n) bs)"

definition writable :: "ptr \<Rightarrow> size_t \<Rightarrow> bool" where
  "writable p n \<longleftrightarrow> n = 0 \<or> (\<exists>bs. p = Some bs \<and> unat n \<le> length bs)"

section \<open>Arrays with a length field\<close>

definition buf_ok :: "nat \<Rightarrow> byte list \<Rightarrow> size_t \<Rightarrow> bool" where
  "buf_ok cap buf len \<longleftrightarrow> length buf = cap \<and> unat len \<le> cap"

definition content :: "byte list \<Rightarrow> size_t \<Rightarrow> byte list" where
  "content buf len = take (unat len) buf"

section \<open>Lemmas on words\<close>

text \<open>
  The guard \<^verbatim>\<open>n > sizeof(buf) - len\<close> that precedes every append is the comparison of
  natural numbers that it means, as long as the length field is within the array.
\<close>

lemma guard_exceeds:
  fixes cap len n :: size_t
  assumes "unat len \<le> unat cap"
  shows "cap - len < n \<longleftrightarrow> unat cap < unat len + unat n"
proof -
  have "unat (cap - len) = unat cap - unat len"
    using assms by (simp add: unat_sub word_le_nat_alt)
  with assms show ?thesis by (auto simp: word_less_nat_alt)
qed

lemma unat_add_within:
  fixes a b :: size_t
  assumes "unat a + unat b \<le> c" and "c < 2 ^ 64"
  shows "unat (a + b) = unat a + unat b"
  using assms by (intro unat_add_lem [THEN iffD1]) simp

lemma unat_sub_within:
  fixes a b :: size_t
  assumes "unat b \<le> unat a"
  shows "unat (a - b) = unat a - unat b"
  using assms by (simp add: unat_sub word_le_nat_alt)

section \<open>Lemmas on memory operations\<close>

lemma length_bytes_at [simp]: "readable p n \<Longrightarrow> length (bytes_at p n) = unat n"
  by (auto simp: readable_def read_bytes_def bytes_at_def split: option.splits if_splits)

lemma read_bytes_readable [simp]: "readable p n \<Longrightarrow> read_bytes p n = Some (bytes_at p n)"
  by (auto simp: readable_def read_bytes_def bytes_at_def split: option.splits if_splits)

lemma readable_Some [simp]: "readable (Some bs) n \<longleftrightarrow> unat n \<le> length bs"
  by (auto simp: readable_def read_bytes_def)

lemma readable_None [simp]: "readable None n \<longleftrightarrow> n = 0"
  by (auto simp: readable_def read_bytes_def)

lemma bytes_at_Some [simp]: "bytes_at (Some bs) n = take (unat n) bs"
  by (simp add: bytes_at_def)

lemma bytes_at_zero [simp]: "bytes_at p 0 = []"
  by (simp add: bytes_at_def split: option.splits)

lemma length_splice [simp]: "i + length bs \<le> length dst \<Longrightarrow> length (splice dst i bs) = length dst"
  by (simp add: splice_def)

lemma take_splice: "i \<le> length dst \<Longrightarrow> take (i + length bs) (splice dst i bs) = take i dst @ bs"
  by (simp add: splice_def)

lemma take_splice_before: "j \<le> i \<Longrightarrow> i \<le> length dst \<Longrightarrow> take j (splice dst i bs) = take j dst"
  by (simp add: splice_def min_def)

lemma splice_Nil [simp]: "splice dst i [] = dst"
  by (simp add: splice_def)

lemma memcpy_within [simp]:
  "readable p n \<Longrightarrow> unat off + unat n \<le> length dst \<Longrightarrow>
     memcpy dst off p n = Some (splice dst (unat off) (bytes_at p n))"
  by (simp add: memcpy_def store_bytes_def)

lemma memmove_within [simp]:
  "unat off + unat n \<le> length dst \<Longrightarrow>
     memmove dst off n = Some (splice dst 0 (take (unat n) (drop (unat off) dst)))"
proof -
  assume within: "unat off + unat n \<le> length dst"
  then have "readable (Some (drop (unat off) dst)) n" by simp
  with within show ?thesis by (simp add: memmove_def store_bytes_def)
qed

definition put_bytes :: "ptr \<Rightarrow> byte list \<Rightarrow> ptr" where
  "put_bytes out bs = map_option (\<lambda>dst. splice dst 0 bs) out"

lemma memcpy_out_writable [simp]:
  "writable out n \<Longrightarrow> unat n \<le> length src \<Longrightarrow>
     memcpy_out out src n = Some (put_bytes out (take (unat n) src))"
  by (cases "n = 0") (auto simp: memcpy_out_def writable_def put_bytes_def store_bytes_def option.map_ident)

lemma writable_mono: "writable p m \<Longrightarrow> unat n \<le> unat m \<Longrightarrow> writable p n"
  by (auto simp: writable_def unat_eq_zero)

lemma memcpy_out_not_writable:
  "\<not> writable out n \<Longrightarrow> memcpy_out out src n = None"
  by (cases out; cases "unat n \<le> length src")
    (auto simp: memcpy_out_def writable_def store_bytes_def read_bytes_def)

lemma bytes_at_put_bytes [simp]:
  "writable out n \<Longrightarrow> unat n = length bs \<Longrightarrow> bytes_at (put_bytes out bs) n = bs"
  by (auto simp: writable_def put_bytes_def bytes_at_def splice_def split: option.splits)

lemma writable_put_bytes [simp]:
  "writable out n \<Longrightarrow> length bs \<le> unat n \<Longrightarrow> writable (put_bytes out bs) n"
  by (auto simp: writable_def put_bytes_def)

section \<open>Lemmas on arrays with a length field\<close>

lemma length_content [simp]: "buf_ok cap buf len \<Longrightarrow> length (content buf len) = unat len"
  by (simp add: buf_ok_def content_def)

lemma content_zero [simp]: "content buf 0 = []"
  by (simp add: content_def)

lemma buf_ok_zero [simp]: "buf_ok cap buf 0 \<longleftrightarrow> length buf = cap"
  by (simp add: buf_ok_def)

lemma buf_ok_splice:
  assumes "buf_ok cap buf len" and "readable p n" and "unat len + unat n \<le> cap" and "cap < 2 ^ 64"
  shows "buf_ok cap (splice buf (unat len) (bytes_at p n)) (len + n)"
  using assms by (simp add: buf_ok_def unat_add_within)

lemma content_splice:
  assumes "buf_ok cap buf len" and "readable p n" and "unat len + unat n \<le> cap" and "cap < 2 ^ 64"
  shows "content (splice buf (unat len) (bytes_at p n)) (len + n) = content buf len @ bytes_at p n"
  using assms take_splice [of "unat len" buf "bytes_at p n"]
  by (simp add: buf_ok_def content_def unat_add_within)

text \<open>The same two facts for a copy that replaces the contents from the front.\<close>

lemma buf_ok_fill:
  "length buf = cap \<Longrightarrow> readable p n \<Longrightarrow> unat n \<le> cap \<Longrightarrow> buf_ok cap (splice buf 0 (bytes_at p n)) n"
  by (simp add: buf_ok_def)

lemma content_fill:
  "readable p n \<Longrightarrow> content (splice buf 0 (bytes_at p n)) n = bytes_at p n"
  using take_splice [of 0 buf "bytes_at p n"] by (simp add: content_def)

lemma content_take: "unat m \<le> unat len \<Longrightarrow> content buf m = take (unat m) (content buf len)"
  by (simp add: content_def min_def)

lemma memcpy_out_content:
  assumes "buf_ok cap buf len" and "writable out out_len" and "unat len \<le> unat out_len"
  shows "memcpy_out out buf len = Some (put_bytes out (content buf len))"
proof -
  have "writable out len" using assms(2,3) by (rule writable_mono)
  with assms(1) show ?thesis by (simp add: buf_ok_def content_def)
qed

lemma word_of_nat_length_content [simp]:
  "buf_ok cap buf len \<Longrightarrow> (word_of_nat (length (content buf len)) :: size_t) = len"
  by simp

text \<open>Appending to the bytes in use, and dropping bytes from the front of them.\<close>

lemma memcpy_append:
  assumes "buf_ok cap buf len" and "readable p n" and "unat len + unat n \<le> cap" and "cap < 2 ^ 64"
  shows "\<exists>dst. memcpy buf len p n = Some dst \<and> buf_ok cap dst (len + n) \<and>
    content dst (len + n) = content buf len @ bytes_at p n \<and>
    (\<forall>m. unat m \<le> unat len \<longrightarrow> content dst m = content buf m)"
proof -
  have "memcpy buf len p n = Some (splice buf (unat len) (bytes_at p n))"
    using assms(1-3) by (simp add: buf_ok_def)
  moreover have "content (splice buf (unat len) (bytes_at p n)) m = content buf m" if "unat m \<le> unat len" for m
    using assms(1) that by (simp add: content_def take_splice_before buf_ok_def)
  ultimately show ?thesis
    using buf_ok_splice [OF assms] content_splice [OF assms] by blast
qed

lemma memmove_consume:
  assumes "buf_ok cap buf len" and "unat r \<le> unat len" and "unat n < unat r"
  shows "\<exists>dst. memmove buf n (r - n) = Some dst \<and> buf_ok cap dst (r - n) \<and>
    content dst (r - n) = drop (unat n) (take (unat r) (content buf len))"
proof -
  let ?rest = "take (unat r - unat n) (drop (unat n) buf)"
  have sub: "unat (r - n) = unat r - unat n" using assms(3) by (simp add: unat_sub_within)
  have len: "length ?rest = unat r - unat n" using assms by (auto simp: buf_ok_def)
  have "memmove buf n (r - n) = Some (splice buf 0 ?rest)"
    using assms sub by (simp add: buf_ok_def)
  moreover have "buf_ok cap (splice buf 0 ?rest) (r - n)"
    using assms sub by (auto simp: buf_ok_def)
  moreover have "take (unat r) (content buf len) = take (unat r) buf"
    using assms(2) by (simp add: content_def min_def)
  ultimately show ?thesis
    using take_splice [of 0 buf ?rest, unfolded len] by (simp add: content_def sub drop_take)
qed

end
