(* ===== verification/Tls_Abi.thy ===== *)
theory Tls_Abi
  imports C_Memory
begin

text \<open>
  The C ABI between the transport and a TLS backend (\<^verbatim>\<open>src/examples/tls_backend_c_abi.h\<close>): status
  codes, packet-space tags, the two structs of traffic secrets. The locale \<open>mailbox\<close> is the
  contract the transport relies on for the outputs that a backend hands over once: what was
  deposited comes out whole at the next pull with enough room, and a further pull is pending.
\<close>

section \<open>Status codes, packet spaces, secrets\<close>

datatype quicz_tls_backend_status =
    QUICZ_TLS_BACKEND_OK
  | QUICZ_TLS_BACKEND_PENDING
  | QUICZ_TLS_BACKEND_BUFFER_TOO_SMALL
  | QUICZ_TLS_BACKEND_CRYPTO_ERROR
  | QUICZ_TLS_BACKEND_INTERNAL

text \<open>A C enum argument is an \<^verbatim>\<open>int\<close>; values other than the three tags reach the backend too.\<close>

definition QUICZ_TLS_BACKEND_INITIAL :: cint where
  "QUICZ_TLS_BACKEND_INITIAL = 0"

definition QUICZ_TLS_BACKEND_HANDSHAKE :: cint where
  "QUICZ_TLS_BACKEND_HANDSHAKE = 1"

definition QUICZ_TLS_BACKEND_APPLICATION :: cint where
  "QUICZ_TLS_BACKEND_APPLICATION = 2"

lemmas packet_space_defs =
  QUICZ_TLS_BACKEND_INITIAL_def QUICZ_TLS_BACKEND_HANDSHAKE_def QUICZ_TLS_BACKEND_APPLICATION_def

record quicz_handshake_traffic_secrets =
  hs_local :: "byte list"
  hs_peer :: "byte list"

record quicz_one_rtt_traffic_secrets =
  one_rtt_local :: "byte list"
  one_rtt_peer :: "byte list"

definition hs_secrets_ok :: "quicz_handshake_traffic_secrets \<Rightarrow> bool" where
  "hs_secrets_ok x \<longleftrightarrow> length (hs_local x) = 32 \<and> length (hs_peer x) = 32"

definition one_rtt_secrets_ok :: "quicz_one_rtt_traffic_secrets \<Rightarrow> bool" where
  "one_rtt_secrets_ok x \<longleftrightarrow> length (one_rtt_local x) = 32 \<and> length (one_rtt_peer x) = 32"

text \<open>The result of a pull: status, backend state, caller's buffer, \<^verbatim>\<open>*written_len\<close>.\<close>

type_synonym 's pulled = "quicz_tls_backend_status \<times> 's \<times> ptr \<times> size_t"

text \<open>A call seen as an offer that is taken or not.\<close>

definition accepted :: "(quicz_tls_backend_status \<times> 's) option \<Rightarrow> (bool \<times> 's) option" where
  "accepted r = map_option (\<lambda>(st, s). (st = QUICZ_TLS_BACKEND_OK, s)) r"

lemma accepted_Some [simp]: "accepted (Some (st, s)) = Some (st = QUICZ_TLS_BACKEND_OK, s)"
  by (simp add: accepted_def)

lemma accepted_True: "accepted r = Some (True, s) \<longleftrightarrow> r = Some (QUICZ_TLS_BACKEND_OK, s)"
  by (auto simp: accepted_def)

section \<open>Outputs handed over once\<close>

text \<open>
  \<open>mail\<close> is what waits to be pulled. \<open>clear\<close> is what a pull does to \<^verbatim>\<open>*written_len\<close> when it
  delivers nothing: some backends zero it, others leave it as the caller set it.
\<close>

locale mailbox =
  fixes invar :: "'s \<Rightarrow> bool"
    and mail :: "'s \<Rightarrow> byte list option"
    and cap :: nat
    and deposit :: "ptr \<Rightarrow> size_t \<Rightarrow> 's \<Rightarrow> (bool \<times> 's) option"
    and pull :: "ptr \<Rightarrow> size_t \<Rightarrow> size_t \<Rightarrow> 's \<Rightarrow> 's pulled option"
    and clear :: "size_t \<Rightarrow> size_t"
  assumes cap_size: "cap < 2 ^ 64"
    and clear_zero: "clear 0 = 0"
    and mail_bound: "invar s \<Longrightarrow> mail s = Some bs \<Longrightarrow> length bs \<le> cap"
    and deposit_fits: "invar s \<Longrightarrow> readable p n \<Longrightarrow> unat n \<le> cap \<Longrightarrow>
         \<exists>s'. deposit p n s = Some (True, s') \<and> invar s' \<and> mail s' = Some (bytes_at p n)"
    and deposit_too_long: "invar s \<Longrightarrow> cap < unat n \<Longrightarrow> deposit p n s = Some (False, s)"
    and pull_delivers: "invar s \<Longrightarrow> mail s = Some bs \<Longrightarrow> length bs \<le> unat out_len \<Longrightarrow>
         writable out out_len \<Longrightarrow>
         \<exists>s'. pull out out_len w s =
                Some (QUICZ_TLS_BACKEND_OK, s', put_bytes out bs, word_of_nat (length bs)) \<and>
              invar s' \<and> mail s' = None"
    and pull_too_small: "invar s \<Longrightarrow> mail s = Some bs \<Longrightarrow> unat out_len < length bs \<Longrightarrow>
         pull out out_len w s = Some (QUICZ_TLS_BACKEND_BUFFER_TOO_SMALL, s, out, clear w)"
    and pull_empty: "invar s \<Longrightarrow> mail s = None \<Longrightarrow>
         pull out out_len w s = Some (QUICZ_TLS_BACKEND_PENDING, s, out, clear w)"
begin

lemma pull_total:
  assumes "invar s" and "writable out out_len"
  shows "\<exists>st s' out' w'. pull out out_len w s = Some (st, s', out', w') \<and> invar s' \<and>
           (st = QUICZ_TLS_BACKEND_OK \<longrightarrow> unat w' \<le> unat out_len) \<and>
           (st \<noteq> QUICZ_TLS_BACKEND_OK \<longrightarrow> s' = s \<and> out' = out \<and> w' = clear w)"
proof (cases "mail s")
  case None
  then show ?thesis using pull_empty [OF assms(1)] assms(1) by simp
next
  case (Some bs)
  have unat: "unat (word_of_nat (length bs) :: size_t) = length bs"
    using mail_bound [OF assms(1) Some] cap_size by (simp add: unat_of_nat)
  show ?thesis
  proof (cases "length bs \<le> unat out_len")
    case True
    with pull_delivers [OF assms(1) Some True assms(2)] unat show ?thesis by fastforce
  next
    case False
    with pull_too_small [OF assms(1) Some] assms(1) show ?thesis by simp
  qed
qed

text \<open>The round trip, and that nothing is handed over twice.\<close>

lemma deposit_pull:
  assumes "invar s" and "readable p n" and "unat n \<le> cap"
    and "unat n \<le> unat out_len" and "writable out out_len"
  shows "\<exists>s1 s2. deposit p n s = Some (True, s1) \<and>
           pull out out_len w s1 = Some (QUICZ_TLS_BACKEND_OK, s2, put_bytes out (bytes_at p n), n) \<and>
           (\<forall>out' out_len' w'. pull out' out_len' w' s2 =
              Some (QUICZ_TLS_BACKEND_PENDING, s2, out', clear w'))"
proof -
  obtain s1 where s1: "deposit p n s = Some (True, s1)" "invar s1" "mail s1 = Some (bytes_at p n)"
    using deposit_fits [OF assms(1-3)] by blast
  have "length (bytes_at p n) = unat n" using assms(2) by simp
  with pull_delivers [OF s1(2,3) _ assms(5), of w] assms(4) obtain s2 where
      "pull out out_len w s1 = Some (QUICZ_TLS_BACKEND_OK, s2, put_bytes out (bytes_at p n), n)"
      "invar s2" "mail s2 = None"
    by auto
  with s1 pull_empty show ?thesis by blast
qed

text \<open>A pull with too little room loses nothing: the retry with enough room gets the bytes.\<close>

lemma pull_retry:
  assumes "invar s" and "mail s = Some bs" and "unat small < length bs"
    and "length bs \<le> unat out_len" and "writable out out_len"
  shows "\<exists>s'. pull out0 small w s = Some (QUICZ_TLS_BACKEND_BUFFER_TOO_SMALL, s, out0, clear w) \<and>
           pull out out_len w' s =
             Some (QUICZ_TLS_BACKEND_OK, s', put_bytes out bs, word_of_nat (length bs))"
  using pull_too_small [OF assms(1-3)] pull_delivers [OF assms(1,2,4,5)] by blast

end

end
