(* ===== verification/Byte_Queue.thy ===== *)
theory Byte_Queue
  imports C_Memory
begin

text \<open>
  The interface behind every CRYPTO buffer of the C backends: a family of bounded byte queues,
  one per encryption level, that accept a chunk whole or refuse it whole. \<open>admit\<close> is the abstract
  specification; the locale \<open>byte_queue\<close> states what one append of an implementation promises and
  derives that any sequence of appends behaves as \<open>admit\<close>. Implementations interpret it in their
  own theories (the demo backend's inbound buffer, the OpenSSL adapter's inbound and outbound
  buffers, the endpoint buffers of the pair transcript).
\<close>

section \<open>Abstract specification\<close>

fun admit :: "nat \<Rightarrow> ('l \<Rightarrow> byte list) \<Rightarrow> ('l \<times> byte list) list \<Rightarrow> ('l \<Rightarrow> byte list)" where
  "admit cap q [] = q"
| "admit cap q ((l, bs) # cs) =
     admit cap (if length (q l) + length bs \<le> cap then q(l := q l @ bs) else q) cs"

fun chunks_for :: "'l \<Rightarrow> ('l \<times> byte list) list \<Rightarrow> byte list" where
  "chunks_for l [] = []"
| "chunks_for l ((l', bs) # cs) = (if l' = l then bs else []) @ chunks_for l cs"

lemma admit_bounded: "length (q l) \<le> cap \<Longrightarrow> length (admit cap q cs l) \<le> cap"
  by (induction cap q cs rule: admit.induct) auto

lemma admit_extends: "\<exists>bs. admit cap q cs l = q l @ bs"
proof (induction cs arbitrary: q)
  case (Cons c cs)
  obtain l' bs where c: "c = (l', bs)" by (cases c)
  show ?case
    using Cons.IH [of q] Cons.IH [of "q(l' := q l' @ bs)"] by (auto simp: c fun_upd_def)
qed simp

text \<open>When everything offered to a level fits, everything offered to it is there, in order.\<close>

lemma admit_all:
  "length (q l) + length (chunks_for l cs) \<le> cap \<Longrightarrow> admit cap q cs l = q l @ chunks_for l cs"
proof (induction cs arbitrary: q)
  case (Cons c cs)
  obtain l' bs where c: "c = (l', bs)" by (cases c)
  show ?case
    using Cons.prems Cons.IH [of q] Cons.IH [of "q(l' := q l' @ bs)"] by (auto simp: c fun_upd_def)
qed simp

section \<open>Implementations\<close>

fun push_all ::
  "('l \<Rightarrow> ptr \<Rightarrow> size_t \<Rightarrow> 's \<Rightarrow> (bool \<times> 's) option) \<Rightarrow> ('l \<times> byte list) list \<Rightarrow> 's \<Rightarrow> 's option" where
  "push_all push [] s = Some s"
| "push_all push ((l, bs) # cs) s =
     do { (_, s') \<leftarrow> push l (Some bs) (word_of_nat (length bs)) s; push_all push cs s' }"

locale byte_queue =
  fixes invar :: "'s \<Rightarrow> bool"
    and level :: "'l \<Rightarrow> bool"
    and contents :: "'l \<Rightarrow> 's \<Rightarrow> byte list"
    and cap :: nat
    and push :: "'l \<Rightarrow> ptr \<Rightarrow> size_t \<Rightarrow> 's \<Rightarrow> (bool \<times> 's) option"
  assumes push_accepts:
      "invar s \<Longrightarrow> level l \<Longrightarrow> readable p n \<Longrightarrow> length (contents l s) + unat n \<le> cap \<Longrightarrow>
         \<exists>s'. push l p n s = Some (True, s') \<and> invar s' \<and>
           (\<forall>l'. level l' \<longrightarrow> contents l' s' =
              (if l' = l then contents l s @ bytes_at p n else contents l' s))"
    and push_refuses:
      "invar s \<Longrightarrow> level l \<Longrightarrow> cap < length (contents l s) + unat n \<Longrightarrow>
         \<exists>s'. push l p n s = Some (False, s') \<and> invar s' \<and>
           (\<forall>l'. level l' \<longrightarrow> contents l' s' = contents l' s)"
begin

lemma push_one_admit:
  assumes "invar s" and "level l" and "length bs < 2 ^ 64"
  shows "\<exists>ok s'. push l (Some bs) (word_of_nat (length bs)) s = Some (ok, s') \<and> invar s' \<and>
           (\<forall>l'. level l' \<longrightarrow> contents l' s' = admit cap (\<lambda>l. contents l s) [(l, bs)] l')"
proof -
  have unat: "unat (word_of_nat (length bs) :: size_t) = length bs"
    using assms(3) by (simp add: unat_of_nat)
  show ?thesis
  proof (cases "length (contents l s) + length bs \<le> cap")
    case True
    then show ?thesis
      using push_accepts [of s l "Some bs" "word_of_nat (length bs)"] assms unat by fastforce
  next
    case False
    then show ?thesis
      using push_refuses [of s l "word_of_nat (length bs)" "Some bs"] assms unat by fastforce
  qed
qed

lemma admit_cong:
  "(\<forall>l. level l \<longrightarrow> q l = r l) \<Longrightarrow> (\<forall>c \<in> set cs. level (fst c)) \<Longrightarrow> level l \<Longrightarrow>
     admit cap q cs l = admit cap r cs l"
proof (induction cs arbitrary: q r)
  case (Cons c cs)
  obtain l' bs where c: "c = (l', bs)" by (cases c)
  with Cons.prems show ?case by (auto intro!: Cons.IH)
qed simp

lemma push_all_admit:
  assumes "invar s" and "\<forall>c \<in> set cs. level (fst c) \<and> length (snd c) < 2 ^ 64"
  shows "\<exists>s'. push_all push cs s = Some s' \<and> invar s' \<and>
           (\<forall>l. level l \<longrightarrow> contents l s' = admit cap (\<lambda>l. contents l s) cs l)"
  using assms
proof (induction cs arbitrary: s)
  case (Cons c cs)
  obtain l bs where c: "c = (l, bs)" by (cases c)
  with Cons.prems obtain ok s1 where
      s1: "push l (Some bs) (word_of_nat (length bs)) s = Some (ok, s1)" "invar s1"
    and cont: "\<forall>l'. level l' \<longrightarrow> contents l' s1 = admit cap (\<lambda>l. contents l s) [(l, bs)] l'"
    using push_one_admit [of s l bs] by auto
  from Cons.IH [OF s1(2)] Cons.prems(2) c obtain s2 where
      s2: "push_all push cs s1 = Some s2" "invar s2"
    and cont2: "\<forall>l. level l \<longrightarrow> contents l s2 = admit cap (\<lambda>l. contents l s1) cs l"
    by auto
  have "contents l' s2 = admit cap (\<lambda>l. contents l s) (c # cs) l'" if "level l'" for l'
  proof -
    have "admit cap (\<lambda>l. contents l s1) cs l' = admit cap (admit cap (\<lambda>l. contents l s) [(l, bs)]) cs l'"
      using cont Cons.prems(2) that by (intro admit_cong) auto
    with cont2 that show ?thesis by (simp add: c)
  qed
  with s1 s2 c show ?case by auto
qed simp

end

end
