(* ===== verification/Demo_Backend.thy ===== *)
theory Demo_Backend
  imports Tls_Abi Byte_Queue
begin

text \<open>
  The C demo backend (\<^verbatim>\<open>src/examples/tls_c_abi_demo_backend.c\<close>): a TLS backend without TLS that
  replays configured bytes through the ABI. Its file-level statics are the record \<open>demo\<close>, each
  C function is one definition. The lemmas show that every sequence of calls stays within the
  static arrays, that inbound CRYPTO bytes accumulate in order (an interpretation of
  \<open>byte_queue\<close>), and that the configured outputs are mailboxes (two interpretations).
\<close>

section \<open>State\<close>

record demo =
  demo_local_transport_parameters :: "byte list"
  demo_local_transport_parameters_len :: size_t
  demo_inbound_crypto :: "byte list"
  demo_inbound_crypto_len :: size_t
  demo_peer_transport_parameters :: "byte list"
  demo_peer_transport_parameters_len :: size_t
  demo_peer_transport_parameters_sent :: bool
  demo_outbound_crypto :: "byte list"
  demo_outbound_crypto_len :: size_t
  demo_outbound_crypto_sent :: bool
  demo_handshake_secrets :: quicz_handshake_traffic_secrets
  demo_handshake_secrets_sent :: bool

definition zero_secrets :: quicz_handshake_traffic_secrets where
  "zero_secrets = \<lparr>hs_local = replicate 32 0, hs_peer = replicate 32 0\<rparr>"

text \<open>Statics start zeroed.\<close>

definition demo_static :: demo where
  "demo_static =
     \<lparr>demo_local_transport_parameters = replicate 256 0, demo_local_transport_parameters_len = 0,
      demo_inbound_crypto = replicate 128 0, demo_inbound_crypto_len = 0,
      demo_peer_transport_parameters = replicate 128 0, demo_peer_transport_parameters_len = 0,
      demo_peer_transport_parameters_sent = False,
      demo_outbound_crypto = replicate 128 0, demo_outbound_crypto_len = 0,
      demo_outbound_crypto_sent = False,
      demo_handshake_secrets = zero_secrets, demo_handshake_secrets_sent = False\<rparr>"

section \<open>Operations\<close>

definition quicz_tls_c_demo_reset :: "demo \<Rightarrow> demo" where
  "quicz_tls_c_demo_reset d =
     d\<lparr>demo_local_transport_parameters_len := 0,
       demo_inbound_crypto_len := 0,
       demo_peer_transport_parameters_len := 0,
       demo_peer_transport_parameters_sent := False,
       demo_outbound_crypto_len := 0,
       demo_outbound_crypto_sent := False,
       demo_handshake_secrets := zero_secrets,
       demo_handshake_secrets_sent := False\<rparr>"

definition quicz_tls_c_demo_set_peer_transport_parameters ::
  "ptr \<Rightarrow> size_t \<Rightarrow> demo \<Rightarrow> (quicz_tls_backend_status \<times> demo) option" where
  "quicz_tls_c_demo_set_peer_transport_parameters data data_len d =
     (if data_len > 128 then Some (QUICZ_TLS_BACKEND_BUFFER_TOO_SMALL, d)
      else do {
        buf \<leftarrow> memcpy (demo_peer_transport_parameters d) 0 data data_len;
        Some (QUICZ_TLS_BACKEND_OK,
          d\<lparr>demo_peer_transport_parameters := buf,
            demo_peer_transport_parameters_len := data_len,
            demo_peer_transport_parameters_sent := False\<rparr>)
      })"

definition quicz_tls_c_demo_set_outbound_crypto ::
  "ptr \<Rightarrow> size_t \<Rightarrow> demo \<Rightarrow> (quicz_tls_backend_status \<times> demo) option" where
  "quicz_tls_c_demo_set_outbound_crypto data data_len d =
     (if data_len > 128 then Some (QUICZ_TLS_BACKEND_BUFFER_TOO_SMALL, d)
      else do {
        buf \<leftarrow> memcpy (demo_outbound_crypto d) 0 data data_len;
        Some (QUICZ_TLS_BACKEND_OK,
          d\<lparr>demo_outbound_crypto := buf,
            demo_outbound_crypto_len := data_len,
            demo_outbound_crypto_sent := False\<rparr>)
      })"

definition quicz_tls_c_demo_set_handshake_secrets ::
  "ptr \<Rightarrow> ptr \<Rightarrow> size_t \<Rightarrow> demo \<Rightarrow> demo option" where
  "quicz_tls_c_demo_set_handshake_secrets local_ptr peer_ptr secret_len d =
     (let n = (if secret_len > 32 then 32 else secret_len) in do {
        l \<leftarrow> memcpy (hs_local (demo_handshake_secrets d)) 0 local_ptr n;
        p \<leftarrow> memcpy (hs_peer (demo_handshake_secrets d)) 0 peer_ptr n;
        Some (d\<lparr>demo_handshake_secrets := \<lparr>hs_local = l, hs_peer = p\<rparr>,
                demo_handshake_secrets_sent := False\<rparr>)
      })"

definition quicz_tls_c_demo_receive ::
  "cint \<Rightarrow> ptr \<Rightarrow> size_t \<Rightarrow> demo \<Rightarrow> (quicz_tls_backend_status \<times> demo) option" where
  "quicz_tls_c_demo_receive space data data_len d =
     (if space \<noteq> QUICZ_TLS_BACKEND_HANDSHAKE then Some (QUICZ_TLS_BACKEND_CRYPTO_ERROR, d)
      else if data_len > 128 - demo_inbound_crypto_len d
      then Some (QUICZ_TLS_BACKEND_BUFFER_TOO_SMALL, d)
      else do {
        buf \<leftarrow> memcpy (demo_inbound_crypto d) (demo_inbound_crypto_len d) data data_len;
        Some (QUICZ_TLS_BACKEND_OK,
          d\<lparr>demo_inbound_crypto := buf,
            demo_inbound_crypto_len := demo_inbound_crypto_len d + data_len\<rparr>)
      })"

definition quicz_tls_c_demo_pull ::
  "cint \<Rightarrow> ptr \<Rightarrow> size_t \<Rightarrow> size_t \<Rightarrow> demo \<Rightarrow> demo pulled option" where
  "quicz_tls_c_demo_pull space out out_len written_len d =
     (if space \<noteq> QUICZ_TLS_BACKEND_HANDSHAKE
      then Some (QUICZ_TLS_BACKEND_CRYPTO_ERROR, d, out, written_len)
      else if demo_outbound_crypto_sent d
      then Some (QUICZ_TLS_BACKEND_PENDING, d, out, written_len)
      else if out_len < demo_outbound_crypto_len d
      then Some (QUICZ_TLS_BACKEND_BUFFER_TOO_SMALL, d, out, written_len)
      else do {
        out' \<leftarrow> memcpy_out out (demo_outbound_crypto d) (demo_outbound_crypto_len d);
        Some (QUICZ_TLS_BACKEND_OK, d\<lparr>demo_outbound_crypto_sent := True\<rparr>, out',
          demo_outbound_crypto_len d)
      })"

definition quicz_tls_c_demo_set_local_transport_parameters ::
  "ptr \<Rightarrow> size_t \<Rightarrow> demo \<Rightarrow> (quicz_tls_backend_status \<times> demo) option" where
  "quicz_tls_c_demo_set_local_transport_parameters data data_len d =
     (if data_len > 256 then Some (QUICZ_TLS_BACKEND_BUFFER_TOO_SMALL, d)
      else do {
        buf \<leftarrow> memcpy (demo_local_transport_parameters d) 0 data data_len;
        Some (QUICZ_TLS_BACKEND_OK,
          d\<lparr>demo_local_transport_parameters := buf,
            demo_local_transport_parameters_len := data_len\<rparr>)
      })"

definition quicz_tls_c_demo_pull_peer_transport_parameters ::
  "ptr \<Rightarrow> size_t \<Rightarrow> size_t \<Rightarrow> demo \<Rightarrow> demo pulled option" where
  "quicz_tls_c_demo_pull_peer_transport_parameters out out_len written_len d =
     (if demo_peer_transport_parameters_sent d
      then Some (QUICZ_TLS_BACKEND_PENDING, d, out, written_len)
      else if out_len < demo_peer_transport_parameters_len d
      then Some (QUICZ_TLS_BACKEND_BUFFER_TOO_SMALL, d, out, written_len)
      else do {
        out' \<leftarrow> memcpy_out out (demo_peer_transport_parameters d) (demo_peer_transport_parameters_len d);
        Some (QUICZ_TLS_BACKEND_OK, d\<lparr>demo_peer_transport_parameters_sent := True\<rparr>, out',
          demo_peer_transport_parameters_len d)
      })"

definition quicz_tls_c_demo_pull_handshake_traffic_secrets ::
  "quicz_handshake_traffic_secrets \<Rightarrow> demo \<Rightarrow>
     quicz_tls_backend_status \<times> demo \<times> quicz_handshake_traffic_secrets" where
  "quicz_tls_c_demo_pull_handshake_traffic_secrets out d =
     (if demo_handshake_secrets_sent d then (QUICZ_TLS_BACKEND_PENDING, d, out)
      else (QUICZ_TLS_BACKEND_OK, d\<lparr>demo_handshake_secrets_sent := True\<rparr>, demo_handshake_secrets d))"

definition quicz_tls_c_demo_handshake_confirmed :: "demo \<Rightarrow> bool" where
  "quicz_tls_c_demo_handshake_confirmed d = True"

definition quicz_tls_c_demo_local_transport_parameters_len :: "demo \<Rightarrow> size_t" where
  "quicz_tls_c_demo_local_transport_parameters_len d = demo_local_transport_parameters_len d"

definition quicz_tls_c_demo_inbound_crypto_len :: "demo \<Rightarrow> size_t" where
  "quicz_tls_c_demo_inbound_crypto_len d = demo_inbound_crypto_len d"

definition quicz_tls_c_demo_inbound_crypto_matches :: "ptr \<Rightarrow> size_t \<Rightarrow> demo \<Rightarrow> bool option" where
  "quicz_tls_c_demo_inbound_crypto_matches data data_len d =
     (if demo_inbound_crypto_len d \<noteq> data_len then Some False
      else do {
        a \<leftarrow> read_bytes (Some (demo_inbound_crypto d)) data_len;
        b \<leftarrow> read_bytes data data_len;
        Some (a = b)
      })"

lemmas demo_op_defs =
  quicz_tls_c_demo_reset_def quicz_tls_c_demo_set_peer_transport_parameters_def
  quicz_tls_c_demo_set_outbound_crypto_def quicz_tls_c_demo_set_handshake_secrets_def
  quicz_tls_c_demo_receive_def quicz_tls_c_demo_pull_def
  quicz_tls_c_demo_set_local_transport_parameters_def
  quicz_tls_c_demo_pull_peer_transport_parameters_def
  quicz_tls_c_demo_pull_handshake_traffic_secrets_def

section \<open>Invariant\<close>

definition demo_ok :: "demo \<Rightarrow> bool" where
  "demo_ok d \<longleftrightarrow>
     buf_ok 256 (demo_local_transport_parameters d) (demo_local_transport_parameters_len d) \<and>
     buf_ok 128 (demo_inbound_crypto d) (demo_inbound_crypto_len d) \<and>
     buf_ok 128 (demo_peer_transport_parameters d) (demo_peer_transport_parameters_len d) \<and>
     buf_ok 128 (demo_outbound_crypto d) (demo_outbound_crypto_len d) \<and>
     hs_secrets_ok (demo_handshake_secrets d)"

lemma demo_ok_static: "demo_ok demo_static"
  by (simp add: demo_ok_def demo_static_def zero_secrets_def hs_secrets_ok_def)

lemma demo_ok_reset: "demo_ok d \<Longrightarrow> demo_ok (quicz_tls_c_demo_reset d)"
  by (simp add: demo_ok_def quicz_tls_c_demo_reset_def zero_secrets_def hs_secrets_ok_def buf_ok_def)

lemma demo_receive_fits:
  assumes "demo_ok d" and "readable p n" and "unat (demo_inbound_crypto_len d) + unat n \<le> 128"
  shows "quicz_tls_c_demo_receive QUICZ_TLS_BACKEND_HANDSHAKE p n d =
           Some (QUICZ_TLS_BACKEND_OK,
             d\<lparr>demo_inbound_crypto :=
                 splice (demo_inbound_crypto d) (unat (demo_inbound_crypto_len d)) (bytes_at p n),
               demo_inbound_crypto_len := demo_inbound_crypto_len d + n\<rparr>)"
  using assms guard_exceeds [of "demo_inbound_crypto_len d" 128 n]
  by (simp add: quicz_tls_c_demo_receive_def demo_ok_def buf_ok_def)

lemma demo_receive_full:
  assumes "demo_ok d" and "128 < unat (demo_inbound_crypto_len d) + unat n"
  shows "quicz_tls_c_demo_receive QUICZ_TLS_BACKEND_HANDSHAKE p n d =
           Some (QUICZ_TLS_BACKEND_BUFFER_TOO_SMALL, d)"
  using assms guard_exceeds [of "demo_inbound_crypto_len d" 128 n]
  by (simp add: quicz_tls_c_demo_receive_def demo_ok_def buf_ok_def)

lemma demo_set_peer_fits:
  "demo_ok d \<Longrightarrow> readable p n \<Longrightarrow> unat n \<le> 128 \<Longrightarrow>
     quicz_tls_c_demo_set_peer_transport_parameters p n d =
       Some (QUICZ_TLS_BACKEND_OK,
         d\<lparr>demo_peer_transport_parameters := splice (demo_peer_transport_parameters d) 0 (bytes_at p n),
           demo_peer_transport_parameters_len := n,
           demo_peer_transport_parameters_sent := False\<rparr>)"
  by (simp add: quicz_tls_c_demo_set_peer_transport_parameters_def demo_ok_def buf_ok_def
      word_less_nat_alt)

lemma demo_set_outbound_fits:
  "demo_ok d \<Longrightarrow> readable p n \<Longrightarrow> unat n \<le> 128 \<Longrightarrow>
     quicz_tls_c_demo_set_outbound_crypto p n d =
       Some (QUICZ_TLS_BACKEND_OK,
         d\<lparr>demo_outbound_crypto := splice (demo_outbound_crypto d) 0 (bytes_at p n),
           demo_outbound_crypto_len := n,
           demo_outbound_crypto_sent := False\<rparr>)"
  by (simp add: quicz_tls_c_demo_set_outbound_crypto_def demo_ok_def buf_ok_def word_less_nat_alt)

lemma demo_pull_peer_delivers:
  assumes "demo_ok d" and "\<not> demo_peer_transport_parameters_sent d"
    and "unat (demo_peer_transport_parameters_len d) \<le> unat out_len" and "writable out out_len"
  shows "quicz_tls_c_demo_pull_peer_transport_parameters out out_len w d =
           Some (QUICZ_TLS_BACKEND_OK, d\<lparr>demo_peer_transport_parameters_sent := True\<rparr>,
             put_bytes out
               (content (demo_peer_transport_parameters d) (demo_peer_transport_parameters_len d)),
             demo_peer_transport_parameters_len d)"
proof -
  have "buf_ok 128 (demo_peer_transport_parameters d) (demo_peer_transport_parameters_len d)"
    using assms(1) by (simp add: demo_ok_def)
  from memcpy_out_content [OF this assms(4,3)] assms(2,3) show ?thesis
    by (simp add: quicz_tls_c_demo_pull_peer_transport_parameters_def word_less_nat_alt)
qed

lemma demo_pull_delivers:
  assumes "demo_ok d" and "\<not> demo_outbound_crypto_sent d"
    and "unat (demo_outbound_crypto_len d) \<le> unat out_len" and "writable out out_len"
  shows "quicz_tls_c_demo_pull QUICZ_TLS_BACKEND_HANDSHAKE out out_len w d =
           Some (QUICZ_TLS_BACKEND_OK, d\<lparr>demo_outbound_crypto_sent := True\<rparr>,
             put_bytes out (content (demo_outbound_crypto d) (demo_outbound_crypto_len d)),
             demo_outbound_crypto_len d)"
proof -
  have "buf_ok 128 (demo_outbound_crypto d) (demo_outbound_crypto_len d)"
    using assms(1) by (simp add: demo_ok_def)
  from memcpy_out_content [OF this assms(4,3)] assms(2,3) show ?thesis
    by (simp add: quicz_tls_c_demo_pull_def word_less_nat_alt)
qed

section \<open>Interfaces\<close>

interpretation demo_in: byte_queue demo_ok "\<lambda>_. True"
  "\<lambda>_::unit. \<lambda>d. content (demo_inbound_crypto d) (demo_inbound_crypto_len d)" 128
  "\<lambda>_ p n d. accepted (quicz_tls_c_demo_receive QUICZ_TLS_BACKEND_HANDSHAKE p n d)"
proof (unfold_locales, goal_cases)
  case (1 d l p n)
  then have ok: "buf_ok 128 (demo_inbound_crypto d) (demo_inbound_crypto_len d)"
    and fits: "unat (demo_inbound_crypto_len d) + unat n \<le> 128"
    by (auto simp: demo_ok_def)
  with 1 show ?case
    by (simp add: demo_receive_fits content_splice [OF ok] buf_ok_splice [OF ok] demo_ok_def)
next
  case (2 d l n p)
  then have "128 < unat (demo_inbound_crypto_len d) + unat n"
    by (auto simp: demo_ok_def)
  with 2 show ?case by (simp add: demo_receive_full)
qed

definition demo_peer_mail :: "demo \<Rightarrow> byte list option" where
  "demo_peer_mail d =
     (if demo_peer_transport_parameters_sent d then None
      else Some (content (demo_peer_transport_parameters d) (demo_peer_transport_parameters_len d)))"

definition demo_outbound_mail :: "demo \<Rightarrow> byte list option" where
  "demo_outbound_mail d =
     (if demo_outbound_crypto_sent d then None
      else Some (content (demo_outbound_crypto d) (demo_outbound_crypto_len d)))"

interpretation demo_peer: mailbox demo_ok demo_peer_mail 128
  "\<lambda>p n d. accepted (quicz_tls_c_demo_set_peer_transport_parameters p n d)"
  quicz_tls_c_demo_pull_peer_transport_parameters "\<lambda>w. w"
proof (unfold_locales, goal_cases)
  case (3 d bs)
  then show ?case by (auto simp: demo_ok_def demo_peer_mail_def buf_ok_def split: if_splits)
next
  case (4 d p n)
  then show ?case
    by (simp add: demo_set_peer_fits demo_peer_mail_def content_fill)
      (simp add: demo_ok_def buf_ok_def)
next
  case (5 d n p)
  then show ?case
    by (simp add: quicz_tls_c_demo_set_peer_transport_parameters_def word_less_nat_alt)
next
  case (6 d bs out_len out w)
  then have "\<not> demo_peer_transport_parameters_sent d"
    and bs: "bs = content (demo_peer_transport_parameters d) (demo_peer_transport_parameters_len d)"
    by (auto simp: demo_peer_mail_def split: if_splits)
  moreover from 6(1) have
    ok: "buf_ok 128 (demo_peer_transport_parameters d) (demo_peer_transport_parameters_len d)"
    by (simp add: demo_ok_def)
  ultimately show ?case
    using 6 demo_pull_peer_delivers [of d out_len out w]
    by (simp add: demo_peer_mail_def) (simp add: demo_ok_def)
next
  case (7 d bs out_len out w)
  then show ?case
    by (auto simp: quicz_tls_c_demo_pull_peer_transport_parameters_def demo_peer_mail_def demo_ok_def
        word_less_nat_alt split: if_splits)
next
  case (8 d out out_len w)
  then show ?case
    by (simp add: quicz_tls_c_demo_pull_peer_transport_parameters_def demo_peer_mail_def split: if_splits)
qed simp_all

interpretation demo_out: mailbox demo_ok demo_outbound_mail 128
  "\<lambda>p n d. accepted (quicz_tls_c_demo_set_outbound_crypto p n d)"
  "quicz_tls_c_demo_pull QUICZ_TLS_BACKEND_HANDSHAKE" "\<lambda>w. w"
proof (unfold_locales, goal_cases)
  case (3 d bs)
  then show ?case by (auto simp: demo_ok_def demo_outbound_mail_def buf_ok_def split: if_splits)
next
  case (4 d p n)
  then show ?case
    by (simp add: demo_set_outbound_fits demo_outbound_mail_def content_fill)
      (simp add: demo_ok_def buf_ok_def)
next
  case (5 d n p)
  then show ?case
    by (simp add: quicz_tls_c_demo_set_outbound_crypto_def word_less_nat_alt)
next
  case (6 d bs out_len out w)
  then have "\<not> demo_outbound_crypto_sent d"
    and bs: "bs = content (demo_outbound_crypto d) (demo_outbound_crypto_len d)"
    by (auto simp: demo_outbound_mail_def split: if_splits)
  moreover from 6(1) have ok: "buf_ok 128 (demo_outbound_crypto d) (demo_outbound_crypto_len d)"
    by (simp add: demo_ok_def)
  ultimately show ?case
    using 6 demo_pull_delivers [of d out_len out w]
    by (simp add: demo_outbound_mail_def) (simp add: demo_ok_def)
next
  case (7 d bs out_len out w)
  then show ?case
    by (auto simp: quicz_tls_c_demo_pull_def demo_outbound_mail_def demo_ok_def word_less_nat_alt
        split: if_splits)
next
  case (8 d out out_len w)
  then show ?case
    by (simp add: quicz_tls_c_demo_pull_def demo_outbound_mail_def split: if_splits)
qed simp_all

section \<open>Sequences of calls\<close>

datatype demo_op =
    Demo_reset
  | Demo_set_peer_transport_parameters ptr size_t
  | Demo_set_outbound_crypto ptr size_t
  | Demo_set_handshake_secrets ptr ptr size_t
  | Demo_receive cint ptr size_t
  | Demo_pull cint ptr size_t
  | Demo_set_local_transport_parameters ptr size_t
  | Demo_pull_peer_transport_parameters ptr size_t
  | Demo_pull_handshake_traffic_secrets
  | Demo_inbound_crypto_matches ptr size_t

text \<open>One call, as far as the statics are concerned; \<^term>\<open>None\<close> is undefined behaviour.\<close>

fun demo_step :: "demo_op \<Rightarrow> demo \<Rightarrow> demo option" where
  "demo_step Demo_reset d = Some (quicz_tls_c_demo_reset d)"
| "demo_step (Demo_set_peer_transport_parameters p n) d =
     map_option snd (quicz_tls_c_demo_set_peer_transport_parameters p n d)"
| "demo_step (Demo_set_outbound_crypto p n) d =
     map_option snd (quicz_tls_c_demo_set_outbound_crypto p n d)"
| "demo_step (Demo_set_handshake_secrets l p n) d = quicz_tls_c_demo_set_handshake_secrets l p n d"
| "demo_step (Demo_receive space p n) d = map_option snd (quicz_tls_c_demo_receive space p n d)"
| "demo_step (Demo_pull space out n) d =
     map_option (fst \<circ> snd) (quicz_tls_c_demo_pull space out n 0 d)"
| "demo_step (Demo_set_local_transport_parameters p n) d =
     map_option snd (quicz_tls_c_demo_set_local_transport_parameters p n d)"
| "demo_step (Demo_pull_peer_transport_parameters out n) d =
     map_option (fst \<circ> snd) (quicz_tls_c_demo_pull_peer_transport_parameters out n 0 d)"
| "demo_step Demo_pull_handshake_traffic_secrets d =
     Some (fst (snd (quicz_tls_c_demo_pull_handshake_traffic_secrets zero_secrets d)))"
| "demo_step (Demo_inbound_crypto_matches p n) d =
     map_option (\<lambda>_. d) (quicz_tls_c_demo_inbound_crypto_matches p n d)"

fun demo_run :: "demo_op list \<Rightarrow> demo \<Rightarrow> demo option" where
  "demo_run [] d = Some d"
| "demo_run (x # xs) d = do { d' \<leftarrow> demo_step x d; demo_run xs d' }"

text \<open>
  The caller's side of the contract: a buffer passed with a length has at least that many bytes.
  The secrets setter clips the length to 32 and reads no more than that.
\<close>

fun demo_call_ok :: "demo_op \<Rightarrow> bool" where
  "demo_call_ok (Demo_set_peer_transport_parameters p n) = readable p n"
| "demo_call_ok (Demo_set_outbound_crypto p n) = readable p n"
| "demo_call_ok (Demo_set_handshake_secrets l p n) = (readable l (min n 32) \<and> readable p (min n 32))"
| "demo_call_ok (Demo_receive space p n) = readable p n"
| "demo_call_ok (Demo_pull space out n) = writable out n"
| "demo_call_ok (Demo_set_local_transport_parameters p n) = readable p n"
| "demo_call_ok (Demo_pull_peer_transport_parameters out n) = writable out n"
| "demo_call_ok (Demo_inbound_crypto_matches p n) = readable p n"
| "demo_call_ok _ = True"

lemma demo_step_set_local:
  assumes "demo_ok d" and "readable p n"
  shows "\<exists>d'. demo_step (Demo_set_local_transport_parameters p n) d = Some d' \<and> demo_ok d'"
proof (cases "unat n \<le> 256")
  case True
  with assms show ?thesis
    by (simp add: quicz_tls_c_demo_set_local_transport_parameters_def word_less_nat_alt)
      (simp add: demo_ok_def buf_ok_def)
next
  case False
  with assms show ?thesis
    by (simp add: quicz_tls_c_demo_set_local_transport_parameters_def word_less_nat_alt)
qed

lemma demo_step_set_secrets:
  assumes "demo_ok d" and "readable l (min n 32)" and "readable p (min n 32)"
  shows "\<exists>d'. demo_step (Demo_set_handshake_secrets l p n) d = Some d' \<and> demo_ok d'"
proof -
  define k where "k = (if n > 32 then 32 else n)"
  have k: "k = min n 32" and le: "unat k \<le> 32"
    by (auto simp: k_def min_def word_le_nat_alt word_less_nat_alt)
  have "length (hs_local (demo_handshake_secrets d)) = 32"
    "length (hs_peer (demo_handshake_secrets d)) = 32"
    using assms(1) by (simp_all add: demo_ok_def hs_secrets_ok_def)
  moreover have "readable l k" "readable p k"
    using assms(2,3) by (simp_all add: k)
  ultimately show ?thesis
    using le assms(1)
    by (simp add: quicz_tls_c_demo_set_handshake_secrets_def k_def [symmetric] Let_def)
      (simp add: demo_ok_def hs_secrets_ok_def)
qed

lemma demo_step_matches:
  assumes "demo_ok d" and "readable p n"
  shows "demo_step (Demo_inbound_crypto_matches p n) d = Some d"
  using assms by (auto simp: quicz_tls_c_demo_inbound_crypto_matches_def demo_ok_def buf_ok_def)

lemma demo_step_safe:
  assumes "demo_ok d" and "demo_call_ok x"
  shows "\<exists>d'. demo_step x d = Some d' \<and> demo_ok d'"
proof (cases x)
  case (Demo_set_peer_transport_parameters p n)
  then show ?thesis
    using assms demo_peer.deposit_fits [of d p n] demo_peer.deposit_too_long [of d n p]
    by (cases "unat n \<le> 128") (auto simp: accepted_def)
next
  case (Demo_set_outbound_crypto p n)
  then show ?thesis
    using assms demo_out.deposit_fits [of d p n] demo_out.deposit_too_long [of d n p]
    by (cases "unat n \<le> 128") (auto simp: accepted_def)
next
  case (Demo_receive space p n)
  have "quicz_tls_c_demo_receive space p n d = Some (QUICZ_TLS_BACKEND_CRYPTO_ERROR, d)"
    if "space \<noteq> QUICZ_TLS_BACKEND_HANDSHAKE"
    using that by (simp add: quicz_tls_c_demo_receive_def)
  then show ?thesis
    using assms Demo_receive demo_in.push_accepts [of d p n] demo_in.push_refuses [of d n p]
    by (cases "space = QUICZ_TLS_BACKEND_HANDSHAKE";
        cases "length (content (demo_inbound_crypto d) (demo_inbound_crypto_len d)) + unat n \<le> 128")
      (auto simp: accepted_def)
next
  case (Demo_pull space out n)
  have "quicz_tls_c_demo_pull space out n 0 d = Some (QUICZ_TLS_BACKEND_CRYPTO_ERROR, d, out, 0)"
    if "space \<noteq> QUICZ_TLS_BACKEND_HANDSHAKE"
    using that by (simp add: quicz_tls_c_demo_pull_def)
  then show ?thesis
    using assms Demo_pull demo_out.pull_total [of d out n 0]
    by (cases "space = QUICZ_TLS_BACKEND_HANDSHAKE") auto
next
  case (Demo_pull_peer_transport_parameters out n)
  then show ?thesis using assms demo_peer.pull_total [of d out n 0] by auto
next
  case Demo_pull_handshake_traffic_secrets
  then show ?thesis
    using assms by (simp add: quicz_tls_c_demo_pull_handshake_traffic_secrets_def demo_ok_def)
qed (use assms demo_ok_reset demo_step_set_local demo_step_set_secrets demo_step_matches in auto)

text \<open>
  Property C14. Whatever sequence of ABI calls reaches the demo backend, with buffers as long as the
  lengths passed with them, no call copies outside the static arrays or the caller's buffers, and
  every length field stays within its array.
\<close>

theorem demo_run_safe:
  assumes "\<forall>x \<in> set xs. demo_call_ok x"
  shows "\<exists>d. demo_run xs demo_static = Some d \<and> demo_ok d"
proof -
  have "\<exists>d'. demo_run xs d = Some d' \<and> demo_ok d'" if "demo_ok d" for d
    using assms that
  proof (induction xs arbitrary: d)
    case (Cons x xs)
    then obtain d1 where "demo_step x d = Some d1" "demo_ok d1"
      using demo_step_safe [of d x] by auto
    with Cons show ?case by auto
  qed simp
  then show ?thesis using demo_ok_static by blast
qed

theorem demo_run_safe_witness:
  "\<exists>d. demo_run [Demo_receive 1 (Some [7, 8]) 2, Demo_pull 1 (Some [0]) 1] demo_static = Some d \<and>
     demo_ok d"
  by (rule demo_run_safe) (simp add: writable_def)

section \<open>Functional behaviour\<close>

definition demo_receive_all :: "byte list list \<Rightarrow> demo \<Rightarrow> demo option" where
  "demo_receive_all chunks d =
     push_all (\<lambda>_ p n d. accepted (quicz_tls_c_demo_receive QUICZ_TLS_BACKEND_HANDSHAKE p n d))
       (map (Pair ()) chunks) d"

text \<open>
  Handing the demo backend a sequence of Handshake CRYPTO chunks leaves exactly the chunks
  that fit its 128-byte buffer, concatenated in the order of arrival (a chunk that does not fit is
  dropped whole), and \<open>inbound_crypto_matches\<close> tells whether given bytes are those bytes.
\<close>

theorem demo_inbound_accumulates:
  assumes "\<forall>c \<in> set chunks. length c < 2 ^ 64" and "length data < 2 ^ 64"
  shows "\<exists>d. demo_receive_all chunks demo_static = Some d \<and>
           quicz_tls_c_demo_inbound_crypto_matches (Some data) (word_of_nat (length data)) d =
             Some (data = admit 128 (\<lambda>_. []) (map (Pair ()) chunks) ())"
proof -
  from demo_in.push_all_admit [OF demo_ok_static, of "map (Pair ()) chunks"] assms(1) obtain d where
      d: "demo_receive_all chunks demo_static = Some d" "demo_ok d"
    and cont: "content (demo_inbound_crypto d) (demo_inbound_crypto_len d) =
      admit 128 (\<lambda>_. []) (map (Pair ()) chunks) ()"
    by (auto simp: demo_receive_all_def demo_static_def)
  let ?n = "word_of_nat (length data) :: size_t"
  have n: "unat ?n = length data" using assms(2) by (simp add: unat_of_nat)
  have ok: "buf_ok 128 (demo_inbound_crypto d) (demo_inbound_crypto_len d)"
    using d(2) by (simp add: demo_ok_def)
  have "quicz_tls_c_demo_inbound_crypto_matches (Some data) ?n d =
      Some (content (demo_inbound_crypto d) (demo_inbound_crypto_len d) = data)"
  proof (cases "demo_inbound_crypto_len d = ?n")
    case True
    with ok n show ?thesis
      by (auto simp: quicz_tls_c_demo_inbound_crypto_matches_def buf_ok_def content_def)
  next
    case False
    then have "length (content (demo_inbound_crypto d) (demo_inbound_crypto_len d)) \<noteq> length data"
      using length_content [OF ok] n by (simp add: word_unat_eq_iff)
    with False show ?thesis
      by (auto simp: quicz_tls_c_demo_inbound_crypto_matches_def)
  qed
  with d(1) cont show ?thesis by auto
qed

theorem demo_inbound_accumulates_witness:
  "\<exists>d. demo_receive_all [[1, 2], [3]] demo_static = Some d \<and>
     quicz_tls_c_demo_inbound_crypto_matches (Some [1, 2, 3]) 3 d = Some True"
  using demo_inbound_accumulates [of "[[1, 2], [3]]" "[1, 2, 3]"] by simp

text \<open>
  Round trip of the demo backend's outbound CRYPTO bytes: what was configured comes out of
  the next Handshake pull with enough room, byte for byte and with its length, and every later pull is
  pending and leaves the caller's buffer and length alone.
\<close>

theorem demo_outbound_roundtrip:
  assumes "demo_ok d" and "readable p n" and "unat n \<le> 128"
    and "unat n \<le> unat out_len" and "writable out out_len"
  shows "\<exists>d1 d2.
     quicz_tls_c_demo_set_outbound_crypto p n d = Some (QUICZ_TLS_BACKEND_OK, d1) \<and>
     quicz_tls_c_demo_pull QUICZ_TLS_BACKEND_HANDSHAKE out out_len w d1 =
       Some (QUICZ_TLS_BACKEND_OK, d2, put_bytes out (bytes_at p n), n) \<and>
     (\<forall>out' out_len' w'. quicz_tls_c_demo_pull QUICZ_TLS_BACKEND_HANDSHAKE out' out_len' w' d2 =
       Some (QUICZ_TLS_BACKEND_PENDING, d2, out', w'))"
  using demo_out.deposit_pull [OF assms, of w] by (simp add: accepted_True)

theorem demo_outbound_roundtrip_witness:
  "\<exists>d1 d2.
     quicz_tls_c_demo_set_outbound_crypto (Some [5, 6]) 2 demo_static = Some (QUICZ_TLS_BACKEND_OK, d1) \<and>
     quicz_tls_c_demo_pull QUICZ_TLS_BACKEND_HANDSHAKE (Some [0, 0, 0]) 3 0 d1 =
       Some (QUICZ_TLS_BACKEND_OK, d2, Some [5, 6, 0], 2)"
  using demo_outbound_roundtrip [of demo_static "Some [5, 6]" 2 3 "Some [0, 0, 0]" 0] demo_ok_static
  by (auto simp: writable_def put_bytes_def splice_def)

text \<open>
  A demo backend that was reset and not configured does not answer \<open>pending\<close>: the pull
  of CRYPTO bytes succeeds with zero bytes and the pull of Handshake secrets hands out two all-zero
  secrets, once.
\<close>

theorem demo_unconfigured_not_pending:
  "quicz_tls_c_demo_pull QUICZ_TLS_BACKEND_HANDSHAKE out out_len w (quicz_tls_c_demo_reset d) =
     Some (QUICZ_TLS_BACKEND_OK, (quicz_tls_c_demo_reset d)\<lparr>demo_outbound_crypto_sent := True\<rparr>, out, 0) \<and>
   quicz_tls_c_demo_pull_handshake_traffic_secrets any (quicz_tls_c_demo_reset d) =
     (QUICZ_TLS_BACKEND_OK, (quicz_tls_c_demo_reset d)\<lparr>demo_handshake_secrets_sent := True\<rparr>,
      zero_secrets)"
  by (simp add: quicz_tls_c_demo_pull_def quicz_tls_c_demo_pull_handshake_traffic_secrets_def
      quicz_tls_c_demo_reset_def memcpy_out_def)

end
