(* ===== verification/OpenSSL_Api.thy ===== *)
theory OpenSSL_Api
  imports C_Memory
begin

text \<open>
  OpenSSL as the C backends see it. The library is not part of the repository, so it is a parameter:
  the record \<open>openssl\<close> holds one field per library function that the backends call, over a library
  state \<open>'w\<close> that nothing is assumed about, and SSL objects are opaque handles.

  \<^verbatim>\<open>SSL_do_handshake\<close> is the one call that calls back. It yields an \<open>engine\<close>: either the call is over,
  or the library invokes one of the callbacks and goes on in a way that may depend on the answer. An
  engine is a well-founded tree, so one call of \<^verbatim>\<open>SSL_do_handshake\<close> makes finitely many callbacks,
  but how many, which and with what arguments is arbitrary. \<open>run_engine\<close> plays an engine against a
  table of callbacks (the backends' \<^verbatim>\<open>OSSL_DISPATCH\<close> table). The locale \<open>callback_contract\<close> turns facts
  about single callbacks into facts about whole handshake calls.
\<close>

section \<open>Handshake calls\<close>

datatype 'w engine =
    Engine_done cint 'w
  | Engine_crypto_send "byte list" "cint \<Rightarrow> size_t \<Rightarrow> 'w engine"
  | Engine_crypto_recv_rcd "cint \<Rightarrow> ptr \<Rightarrow> size_t \<Rightarrow> 'w engine"
  | Engine_crypto_release_rcd size_t "cint \<Rightarrow> 'w engine"
  | Engine_yield_secret uint32 cint "byte list" "cint \<Rightarrow> 'w engine"
  | Engine_got_transport_params "byte list" "cint \<Rightarrow> 'w engine"
  | Engine_alert byte "cint \<Rightarrow> 'w engine"
  | Engine_keylog "string option" "'w engine"

text \<open>
  The callbacks, over the state \<open>'s\<close> that the \<^verbatim>\<open>arg\<close> pointer points to. Out-parameters
  (\<^verbatim>\<open>*consumed\<close>, \<^verbatim>\<open>*buf\<close>, \<^verbatim>\<open>*bytes_read\<close>) are components of the result.
\<close>

record 's callbacks =
  cb_crypto_send :: "ptr \<Rightarrow> size_t \<Rightarrow> size_t \<Rightarrow> 's \<Rightarrow> (cint \<times> size_t \<times> 's) option"
  cb_crypto_recv_rcd :: "'s \<Rightarrow> cint \<times> ptr \<times> size_t \<times> 's"
  cb_crypto_release_rcd :: "size_t \<Rightarrow> 's \<Rightarrow> (cint \<times> 's) option"
  cb_yield_secret :: "uint32 \<Rightarrow> cint \<Rightarrow> ptr \<Rightarrow> size_t \<Rightarrow> 's \<Rightarrow> (cint \<times> 's) option"
  cb_got_transport_params :: "ptr \<Rightarrow> size_t \<Rightarrow> 's \<Rightarrow> (cint \<times> 's) option"
  cb_alert :: "byte \<Rightarrow> 's \<Rightarrow> cint \<times> 's"
  cb_keylog :: "string option \<Rightarrow> 's \<Rightarrow> 's"

primrec run_engine :: "'s callbacks \<Rightarrow> 'w engine \<Rightarrow> 's \<Rightarrow> (cint \<times> 'w \<times> 's) option" where
  "run_engine cbs (Engine_done rc w) = (\<lambda>s. Some (rc, w, s))"
| "run_engine cbs (Engine_crypto_send bs k) = (\<lambda>s. do {
     (rc, consumed, s') \<leftarrow> cb_crypto_send cbs (Some bs) (word_of_nat (length bs)) 0 s;
     run_engine cbs (k rc consumed) s' })"
| "run_engine cbs (Engine_crypto_recv_rcd k) = (\<lambda>s.
     case cb_crypto_recv_rcd cbs s of (rc, buf, n, s') \<Rightarrow> run_engine cbs (k rc buf n) s')"
| "run_engine cbs (Engine_crypto_release_rcd n k) = (\<lambda>s. do {
     (rc, s') \<leftarrow> cb_crypto_release_rcd cbs n s;
     run_engine cbs (k rc) s' })"
| "run_engine cbs (Engine_yield_secret lvl dir bs k) = (\<lambda>s. do {
     (rc, s') \<leftarrow> cb_yield_secret cbs lvl dir (Some bs) (word_of_nat (length bs)) s;
     run_engine cbs (k rc) s' })"
| "run_engine cbs (Engine_got_transport_params bs k) = (\<lambda>s. do {
     (rc, s') \<leftarrow> cb_got_transport_params cbs (Some bs) (word_of_nat (length bs)) s;
     run_engine cbs (k rc) s' })"
| "run_engine cbs (Engine_alert code k) = (\<lambda>s.
     case cb_alert cbs code s of (rc, s') \<Rightarrow> run_engine cbs (k rc) s')"
| "run_engine cbs (Engine_keylog line k) = (\<lambda>s. run_engine cbs k (cb_keylog cbs line s))"

section \<open>The library\<close>

text \<open>
  A handle is a number; \<^term>\<open>None\<close> is a null pointer. \<^verbatim>\<open>TLS_client_method()\<close> and
  \<^verbatim>\<open>TLS_server_method()\<close> are told apart by a boolean. Functions without a result that matters to the
  callers (setters of callbacks and roles) only change the library state.
\<close>

record 'w openssl =
  calloc :: "'w \<Rightarrow> bool \<times> 'w"
  SSL_CTX_new :: "bool \<Rightarrow> 'w \<Rightarrow> nat option \<times> 'w"
  SSL_CTX_set_min_proto_version :: "nat \<Rightarrow> cint \<Rightarrow> 'w \<Rightarrow> cint \<times> 'w"
  SSL_CTX_set_max_proto_version :: "nat \<Rightarrow> cint \<Rightarrow> 'w \<Rightarrow> cint \<times> 'w"
  SSL_CTX_set_cipher_list :: "nat \<Rightarrow> string \<Rightarrow> 'w \<Rightarrow> cint \<times> 'w"
  SSL_CTX_set_ciphersuites :: "nat \<Rightarrow> string \<Rightarrow> 'w \<Rightarrow> cint \<times> 'w"
  SSL_CTX_set_psk_callbacks :: "nat \<Rightarrow> 'w \<Rightarrow> 'w"
  SSL_CTX_set_alpn_select_cb :: "nat \<Rightarrow> 'w \<Rightarrow> 'w"
  SSL_CTX_set_keylog_callback :: "nat \<Rightarrow> 'w \<Rightarrow> 'w"
  SSL_CTX_free :: "nat option \<Rightarrow> 'w \<Rightarrow> 'w"
  SSL_new :: "nat \<Rightarrow> 'w \<Rightarrow> nat option \<times> 'w"
  SSL_free :: "nat option \<Rightarrow> 'w \<Rightarrow> 'w"
  SSL_set_app_data :: "nat \<Rightarrow> 'w \<Rightarrow> 'w"
  SSL_set_alpn_protos :: "nat \<Rightarrow> byte list \<Rightarrow> 'w \<Rightarrow> cint \<times> 'w"
  SSL_set_quic_tls_cbs :: "nat \<Rightarrow> 'w \<Rightarrow> cint \<times> 'w"
  SSL_set_quic_tls_transport_params :: "nat \<Rightarrow> ptr \<Rightarrow> size_t \<Rightarrow> 'w \<Rightarrow> cint \<times> 'w"
  SSL_is_quic :: "nat \<Rightarrow> 'w \<Rightarrow> cint"
  SSL_set_connect_state :: "nat \<Rightarrow> 'w \<Rightarrow> 'w"
  SSL_set_accept_state :: "nat \<Rightarrow> 'w \<Rightarrow> 'w"
  SSL_do_handshake :: "nat \<Rightarrow> 'w \<Rightarrow> 'w engine"
  SSL_get_error :: "nat \<Rightarrow> cint \<Rightarrow> 'w \<Rightarrow> cint"
  SSL_get0_alpn_selected :: "nat \<Rightarrow> 'w \<Rightarrow> ptr \<times> uint32"
  SSL_select_next_proto :: "byte list \<Rightarrow> ptr \<Rightarrow> uint32 \<Rightarrow> cint \<times> ptr \<times> byte"
  ERR_peek_error :: "'w \<Rightarrow> 64 word"
  TLS1_3_VERSION :: cint
  SSL_ERROR_NONE :: cint
  SSL_ERROR_WANT_READ :: cint
  SSL_ERROR_WANT_WRITE :: cint
  OPENSSL_NPN_NEGOTIATED :: cint
  SSL_TLSEXT_ERR_OK :: cint
  SSL_TLSEXT_ERR_NOACK :: cint

text \<open>
  The record protection levels of \<^verbatim>\<open>openssl/core_dispatch.h\<close>. The repository relies on these values:
  \<^verbatim>\<open>packetNumberSpaceForOpenSslLevel\<close> in \<^verbatim>\<open>src/examples/tls_openssl_pair_transcript.zig\<close> maps 0, 2
  and 3 to the Initial, Handshake and Application packet number spaces.
\<close>

definition OSSL_RECORD_PROTECTION_LEVEL_NONE :: uint32 where
  "OSSL_RECORD_PROTECTION_LEVEL_NONE = 0"

definition OSSL_RECORD_PROTECTION_LEVEL_HANDSHAKE :: uint32 where
  "OSSL_RECORD_PROTECTION_LEVEL_HANDSHAKE = 2"

definition OSSL_RECORD_PROTECTION_LEVEL_APPLICATION :: uint32 where
  "OSSL_RECORD_PROTECTION_LEVEL_APPLICATION = 3"

lemmas ossl_level_defs =
  OSSL_RECORD_PROTECTION_LEVEL_NONE_def OSSL_RECORD_PROTECTION_LEVEL_HANDSHAKE_def
  OSSL_RECORD_PROTECTION_LEVEL_APPLICATION_def

section \<open>Allocation events\<close>

text \<open>
  What a constructor or destructor allocates and releases, in order. \<open>balance\<close> is the multiset of
  resources that a sequence of events leaves allocated, or \<^term>\<open>None\<close> when something is released
  that is not allocated (a double free).
\<close>

datatype resource = Backend_mem | Endpoint_mem bool | Context_mem | Ctx nat | Ssl nat

datatype heap_event = Acquire resource | Release resource

fun balance :: "heap_event list \<Rightarrow> resource list \<Rightarrow> resource list option" where
  "balance [] live = Some live"
| "balance (Acquire r # es) live = balance es (r # live)"
| "balance (Release r # es) live = (if r \<in> set live then balance es (remove1 r live) else None)"

lemma balance_append: "balance (es @ fs) live = balance es live \<bind> balance fs"
  by (induction es live rule: balance.induct) auto

section \<open>Callbacks that keep an invariant\<close>

text \<open>
  \<open>R\<close> relates the state before a callback to the state after it: what callbacks may and may not
  change. It is a preorder, so that it carries over to sequences.
\<close>

locale callback_contract =
  fixes cbs :: "'s callbacks"
    and invar :: "'s \<Rightarrow> bool"
    and R :: "'s \<Rightarrow> 's \<Rightarrow> bool"
  assumes R_refl: "R s s"
    and R_trans: "R s t \<Longrightarrow> R t u \<Longrightarrow> R s u"
    and send_ok: "invar s \<Longrightarrow> readable p n \<Longrightarrow>
        \<exists>rc consumed s'. cb_crypto_send cbs p n c s = Some (rc, consumed, s') \<and> invar s' \<and> R s s'"
    and recv_ok: "invar s \<Longrightarrow> cb_crypto_recv_rcd cbs s = (rc, buf, m, s') \<Longrightarrow> invar s' \<and> R s s'"
    and release_ok: "invar s \<Longrightarrow>
        \<exists>rc s'. cb_crypto_release_rcd cbs n s = Some (rc, s') \<and> invar s' \<and> R s s'"
    and yield_ok: "invar s \<Longrightarrow> readable p n \<Longrightarrow>
        \<exists>rc s'. cb_yield_secret cbs lvl dir p n s = Some (rc, s') \<and> invar s' \<and> R s s'"
    and params_ok: "invar s \<Longrightarrow> readable p n \<Longrightarrow>
        \<exists>rc s'. cb_got_transport_params cbs p n s = Some (rc, s') \<and> invar s' \<and> R s s'"
    and alert_ok: "invar s \<Longrightarrow> cb_alert cbs code s = (rc, s') \<Longrightarrow> invar s' \<and> R s s'"
    and keylog_ok: "invar s \<Longrightarrow> invar (cb_keylog cbs line s) \<and> R s (cb_keylog cbs line s)"
begin

lemma run_engine_then:
  "R s t \<Longrightarrow> \<exists>rc w u. run_engine cbs e t = Some (rc, w, u) \<and> invar u \<and> R t u \<Longrightarrow>
     \<exists>rc w u. run_engine cbs e t = Some (rc, w, u) \<and> invar u \<and> R s u"
  by (blast intro: R_trans)

lemma run_engine_ok:
  "invar s \<Longrightarrow>
     \<exists>rc w s'. run_engine cbs e s = Some (rc, w, s') \<and> invar s' \<and> R s s'"
proof (induction e arbitrary: s)
  case (Engine_done rc w)
  then show ?case using R_refl by simp
next
  case (Engine_crypto_send bs k)
  have "readable (Some bs) (word_of_nat (length bs))" by (simp add: unat_of_nat)
  then obtain rc c s1 where s1: "invar s1" "R s s1"
      "cb_crypto_send cbs (Some bs) (word_of_nat (length bs)) 0 s = Some (rc, c, s1)"
    using send_ok Engine_crypto_send.prems by blast
  then show ?case
    using run_engine_then [OF s1(2) Engine_crypto_send.IH [OF rangeI rangeI]] by simp
next
  case (Engine_crypto_recv_rcd k)
  obtain rc buf n s1 where s1: "cb_crypto_recv_rcd cbs s = (rc, buf, n, s1)"
    by (cases "cb_crypto_recv_rcd cbs s")
  then have s1': "invar s1" "R s s1" using recv_ok Engine_crypto_recv_rcd.prems by blast+
  then show ?case
    using run_engine_then [OF s1'(2) Engine_crypto_recv_rcd.IH [OF rangeI rangeI rangeI]] s1 by simp
next
  case (Engine_crypto_release_rcd n k)
  then obtain rc s1 where
      s1: "cb_crypto_release_rcd cbs n s = Some (rc, s1)" "invar s1" "R s s1"
    using release_ok by blast
  then show ?case
    using run_engine_then [OF s1(3) Engine_crypto_release_rcd.IH [OF rangeI]] by simp
next
  case (Engine_yield_secret lvl dir bs k)
  have "readable (Some bs) (word_of_nat (length bs))" by (simp add: unat_of_nat)
  then obtain rc s1 where s1: "invar s1" "R s s1"
      "cb_yield_secret cbs lvl dir (Some bs) (word_of_nat (length bs)) s = Some (rc, s1)"
    using yield_ok Engine_yield_secret.prems by blast
  then show ?case
    using run_engine_then [OF s1(2) Engine_yield_secret.IH [OF rangeI]] by simp
next
  case (Engine_got_transport_params bs k)
  have "readable (Some bs) (word_of_nat (length bs))" by (simp add: unat_of_nat)
  then obtain rc s1 where s1: "invar s1" "R s s1"
      "cb_got_transport_params cbs (Some bs) (word_of_nat (length bs)) s = Some (rc, s1)"
    using params_ok Engine_got_transport_params.prems by blast
  then show ?case
    using run_engine_then [OF s1(2) Engine_got_transport_params.IH [OF rangeI]] by simp
next
  case (Engine_alert code k)
  obtain rc s1 where s1: "cb_alert cbs code s = (rc, s1)" by (cases "cb_alert cbs code s")
  then have s1': "invar s1" "R s s1" using alert_ok Engine_alert.prems by blast+
  then show ?case
    using run_engine_then [OF s1'(2) Engine_alert.IH [OF rangeI]] s1 by simp
next
  case (Engine_keylog line k)
  then have s1: "invar (cb_keylog cbs line s)" "R s (cb_keylog cbs line s)" using keylog_ok by blast+
  then show ?case using run_engine_then [OF s1(2) Engine_keylog.IH] by simp
qed

end

section \<open>Observing a handshake call\<close>

text \<open>
  \<open>observe\<close> wraps a callback table so that it records the CRYPTO bytes that the library handed over
  and the callback took, and what each release that the callback accepts gives back: \<open>level_of\<close> tells the level
  a send is for, \<open>released_of\<close> the level of a release, the bytes that the library reports as consumed, and the
  bytes that arrived at the level after those that the library holds. Bytes of the last kind are recorded as
  passed over: the library has not seen them. The recording changes nothing else (\<open>run_engine_observe\<close>).
\<close>

datatype io_event = Sent nat "byte list" | Consumed nat "byte list" | Passed_over nat "byte list"

fun sent_at :: "nat \<Rightarrow> io_event list \<Rightarrow> byte list" where
  "sent_at l [] = []"
| "sent_at l (Sent l' bs # es) = (if l' = l then bs else []) @ sent_at l es"
| "sent_at l (Consumed l' bs # es) = sent_at l es"
| "sent_at l (Passed_over l' bs # es) = sent_at l es"

fun consumed_at :: "nat \<Rightarrow> io_event list \<Rightarrow> byte list" where
  "consumed_at l [] = []"
| "consumed_at l (Sent l' bs # es) = consumed_at l es"
| "consumed_at l (Consumed l' bs # es) = (if l' = l then bs else []) @ consumed_at l es"
| "consumed_at l (Passed_over l' bs # es) = consumed_at l es"

fun passed_over_at :: "nat \<Rightarrow> io_event list \<Rightarrow> byte list" where
  "passed_over_at l [] = []"
| "passed_over_at l (Sent l' bs # es) = passed_over_at l es"
| "passed_over_at l (Consumed l' bs # es) = passed_over_at l es"
| "passed_over_at l (Passed_over l' bs # es) = (if l' = l then bs else []) @ passed_over_at l es"

lemma sent_at_append [simp]: "sent_at l (es @ fs) = sent_at l es @ sent_at l fs"
  by (induction l es rule: sent_at.induct) auto

lemma consumed_at_append [simp]: "consumed_at l (es @ fs) = consumed_at l es @ consumed_at l fs"
  by (induction l es rule: consumed_at.induct) auto

lemma passed_over_at_append [simp]: "passed_over_at l (es @ fs) = passed_over_at l es @ passed_over_at l fs"
  by (induction l es rule: passed_over_at.induct) auto

definition observe ::
  "('s \<Rightarrow> nat) \<Rightarrow> ('s \<Rightarrow> size_t \<Rightarrow> nat \<times> byte list \<times> byte list) \<Rightarrow> 's callbacks \<Rightarrow> ('s \<times> io_event list) callbacks" where
  "observe level_of released_of cbs =
     \<lparr>cb_crypto_send = (\<lambda>p n c (s, log). do {
        (rc, c', s') \<leftarrow> cb_crypto_send cbs p n c s;
        Some (rc, c', s', if rc = 0 then log else log @ [Sent (level_of s) (bytes_at p n)]) }),
      cb_crypto_recv_rcd = (\<lambda>(s, log).
        case cb_crypto_recv_rcd cbs s of (rc, buf, n, s') \<Rightarrow> (rc, buf, n, s', log)),
      cb_crypto_release_rcd = (\<lambda>n (s, log). do {
        (rc, s') \<leftarrow> cb_crypto_release_rcd cbs n s;
        Some (rc, s', if rc = 0 then log
          else log @ (case released_of s n of (l, used, late) \<Rightarrow> [Consumed l used, Passed_over l late])) }),
      cb_yield_secret = (\<lambda>lvl dir p n (s, log). do {
        (rc, s') \<leftarrow> cb_yield_secret cbs lvl dir p n s; Some (rc, s', log) }),
      cb_got_transport_params = (\<lambda>p n (s, log). do {
        (rc, s') \<leftarrow> cb_got_transport_params cbs p n s; Some (rc, s', log) }),
      cb_alert = (\<lambda>code (s, log). case cb_alert cbs code s of (rc, s') \<Rightarrow> (rc, s', log)),
      cb_keylog = (\<lambda>line (s, log). (cb_keylog cbs line s, log))\<rparr>"

lemma run_engine_observe:
  "map_option (\<lambda>(rc, w, s, log). (rc, w, s)) (run_engine (observe lv cs cbs) e (s, log)) =
     run_engine cbs e s"
proof (induction e arbitrary: s log)
  case (Engine_done rc w)
  then show ?case by simp
next
  case (Engine_crypto_send bs k)
  then show ?case
    by (cases "cb_crypto_send cbs (Some bs) (word_of_nat (length bs)) 0 s")
      (auto simp: observe_def [of lv cs cbs] Engine_crypto_send.IH [OF rangeI rangeI, unfolded observe_def])
next
  case (Engine_crypto_recv_rcd k)
  then show ?case
    by (cases "cb_crypto_recv_rcd cbs s")
      (auto simp: observe_def Engine_crypto_recv_rcd.IH [OF rangeI rangeI rangeI, unfolded observe_def])
next
  case (Engine_crypto_release_rcd n k)
  then show ?case
    by (cases "cb_crypto_release_rcd cbs n s")
      (auto simp: observe_def Engine_crypto_release_rcd.IH [OF rangeI, unfolded observe_def])
next
  case (Engine_yield_secret lvl dir bs k)
  then show ?case
    by (cases "cb_yield_secret cbs lvl dir (Some bs) (word_of_nat (length bs)) s")
      (auto simp: observe_def Engine_yield_secret.IH [OF rangeI, unfolded observe_def])
next
  case (Engine_got_transport_params bs k)
  then show ?case
    by (cases "cb_got_transport_params cbs (Some bs) (word_of_nat (length bs)) s")
      (auto simp: observe_def Engine_got_transport_params.IH [OF rangeI, unfolded observe_def])
next
  case (Engine_alert code k)
  then show ?case
    by (cases "cb_alert cbs code s")
      (auto simp: observe_def Engine_alert.IH [OF rangeI, unfolded observe_def])
next
  case (Engine_keylog line k)
  then show ?case by (simp add: observe_def)
qed

lemma run_engine_observeD:
  "run_engine (observe lv cs cbs) e (s, log) = Some (rc, w, s', log') \<Longrightarrow>
     run_engine cbs e s = Some (rc, w, s')"
  using run_engine_observe [of lv cs cbs e s log] by simp

section \<open>Scripted libraries\<close>

text \<open>A library for examples: every call succeeds, and a handshake call is the given one.\<close>

definition scripted_openssl :: "unit engine \<Rightarrow> unit openssl" where
  "scripted_openssl e =
     \<lparr>calloc = (\<lambda>w. (True, w)), SSL_CTX_new = (\<lambda>_ w. (Some 7, w)),
      SSL_CTX_set_min_proto_version = (\<lambda>_ _ w. (1, w)), SSL_CTX_set_max_proto_version = (\<lambda>_ _ w. (1, w)),
      SSL_CTX_set_cipher_list = (\<lambda>_ _ w. (1, w)), SSL_CTX_set_ciphersuites = (\<lambda>_ _ w. (1, w)),
      SSL_CTX_set_psk_callbacks = (\<lambda>_ w. w), SSL_CTX_set_alpn_select_cb = (\<lambda>_ w. w),
      SSL_CTX_set_keylog_callback = (\<lambda>_ w. w), SSL_CTX_free = (\<lambda>_ w. w),
      SSL_new = (\<lambda>_ w. (Some 8, w)), SSL_free = (\<lambda>_ w. w), SSL_set_app_data = (\<lambda>_ w. w),
      SSL_set_alpn_protos = (\<lambda>_ _ w. (0, w)), SSL_set_quic_tls_cbs = (\<lambda>_ w. (1, w)),
      SSL_set_quic_tls_transport_params = (\<lambda>_ _ _ w. (1, w)), SSL_is_quic = (\<lambda>_ _. 1),
      SSL_set_connect_state = (\<lambda>_ w. w), SSL_set_accept_state = (\<lambda>_ w. w),
      SSL_do_handshake = (\<lambda>_ _. e), SSL_get_error = (\<lambda>_ _ _. 2),
      SSL_get0_alpn_selected = (\<lambda>_ _. (None, 0)), SSL_select_next_proto = (\<lambda>_ _ _. (0, None, 0)),
      ERR_peek_error = (\<lambda>_. 0), TLS1_3_VERSION = 772, SSL_ERROR_NONE = 0, SSL_ERROR_WANT_READ = 2,
      SSL_ERROR_WANT_WRITE = 3, OPENSSL_NPN_NEGOTIATED = 1, SSL_TLSEXT_ERR_OK = 0,
      SSL_TLSEXT_ERR_NOACK = 3\<rparr>"

end
