(* ===== verification/OpenSSL_Backend.thy ===== *)
theory OpenSSL_Backend
  imports Tls_Abi Byte_Queue OpenSSL_Api
begin

text \<open>
  The OpenSSL-backed TLS backend (\<^verbatim>\<open>src/examples/tls_openssl_backend_adapter.c\<close>): its state, the
  callbacks it registers with OpenSSL, its constructor and destructor and the functions of the TLS
  backend ABI. This theory holds the definitions; \<open>OpenSSL_Backend_Proofs\<close> holds the invariant and
  the properties.

  A field of the C struct \<^verbatim>\<open>quicz_openssl_tls_backend\<close> is the record field of the same name with the
  prefix \<open>be_\<close>. A \<^verbatim>\<open>void *context\<close> argument is \<^term>\<open>None\<close> for \<^verbatim>\<open>NULL\<close>.
\<close>

section \<open>State\<close>

record quicz_openssl_tls_backend =
  be_ctx :: "nat option"
  be_ssl :: "nat option"
  be_callbacks_set :: cint
  be_local_transport_parameters_set :: cint
  be_ssl_is_quic_after_callbacks :: cint
  be_local_transport_parameters_len :: size_t
  be_peer_transport_parameters :: "byte list"
  be_peer_transport_parameters_len :: size_t
  be_peer_transport_parameters_available :: cint
  be_peer_transport_parameters_sent :: cint
  be_got_transport_params_callbacks :: cint
  be_keylog_callbacks :: cint
  be_keylog_bytes :: size_t
  be_handshake_secrets :: quicz_handshake_traffic_secrets
  be_handshake_local_secret_available :: cint
  be_handshake_peer_secret_available :: cint
  be_handshake_secrets_sent :: cint
  be_one_rtt_secrets :: quicz_one_rtt_traffic_secrets
  be_one_rtt_local_secret_available :: cint
  be_one_rtt_peer_secret_available :: cint
  be_one_rtt_secrets_sent :: cint
  be_yield_secret_callbacks :: cint
  be_received_crypto_len :: size_t
  be_inbound_crypto :: "byte list list"
  be_inbound_crypto_len :: "size_t list"
  be_inbound_crypto_read_len :: "size_t list"
  be_inbound_crypto_released_len :: size_t
  be_read_level :: uint32
  be_write_level :: uint32
  be_inbound_crypto_recv_callbacks :: cint
  be_inbound_crypto_release_callbacks :: cint
  be_outbound_crypto :: "byte list list"
  be_outbound_crypto_len :: "size_t list"
  be_total_outbound_crypto_len :: size_t
  be_outbound_crypto_overflow :: cint
  be_handshake_drive_calls :: cint
  be_last_ssl_error :: cint

type_synonym backend = quicz_openssl_tls_backend

text \<open>What \<^verbatim>\<open>calloc\<close> returns.\<close>

definition be_zero :: backend where
  "be_zero =
     \<lparr>be_ctx = None, be_ssl = None, be_callbacks_set = 0, be_local_transport_parameters_set = 0,
      be_ssl_is_quic_after_callbacks = 0, be_local_transport_parameters_len = 0,
      be_peer_transport_parameters = replicate 512 0, be_peer_transport_parameters_len = 0,
      be_peer_transport_parameters_available = 0, be_peer_transport_parameters_sent = 0,
      be_got_transport_params_callbacks = 0, be_keylog_callbacks = 0, be_keylog_bytes = 0,
      be_handshake_secrets = \<lparr>hs_local = replicate 32 0, hs_peer = replicate 32 0\<rparr>,
      be_handshake_local_secret_available = 0, be_handshake_peer_secret_available = 0,
      be_handshake_secrets_sent = 0,
      be_one_rtt_secrets = \<lparr>one_rtt_local = replicate 32 0, one_rtt_peer = replicate 32 0\<rparr>,
      be_one_rtt_local_secret_available = 0, be_one_rtt_peer_secret_available = 0,
      be_one_rtt_secrets_sent = 0, be_yield_secret_callbacks = 0, be_received_crypto_len = 0,
      be_inbound_crypto = replicate 4 (replicate 8192 0), be_inbound_crypto_len = replicate 4 0,
      be_inbound_crypto_read_len = replicate 4 0, be_inbound_crypto_released_len = 0,
      be_read_level = 0, be_write_level = 0, be_inbound_crypto_recv_callbacks = 0,
      be_inbound_crypto_release_callbacks = 0,
      be_outbound_crypto = replicate 4 (replicate 8192 0), be_outbound_crypto_len = replicate 4 0,
      be_total_outbound_crypto_len = 0, be_outbound_crypto_overflow = 0,
      be_handshake_drive_calls = 0, be_last_ssl_error = 0\<rparr>"

section \<open>Constants\<close>

definition quicz_openssl_backend_demo_psk :: "byte list" where
  "quicz_openssl_backend_demo_psk =
     [0x00, 0x01, 0x02, 0x03, 0x04, 0x05, 0x06, 0x07,
      0x08, 0x09, 0x0a, 0x0b, 0x0c, 0x0d, 0x0e, 0x0f,
      0x10, 0x11, 0x12, 0x13, 0x14, 0x15, 0x16, 0x17,
      0x18, 0x19, 0x1a, 0x1b, 0x1c, 0x1d, 0x1e, 0x1f]"

definition char_bytes :: "string \<Rightarrow> byte list" where
  "char_bytes s = map (\<lambda>c. word_of_nat (of_char c)) s"

definition quicz_alpn_protos :: "byte list" where
  "quicz_alpn_protos = 11 # char_bytes ''hq-interop''"

section \<open>Callbacks\<close>

definition alpn_select_cb :: "'w openssl \<Rightarrow> ptr \<Rightarrow> uint32 \<Rightarrow> cint \<times> ptr \<times> byte" where
  "alpn_select_cb L client_protos client_protos_len =
     (case SSL_select_next_proto L quicz_alpn_protos client_protos client_protos_len of
        (status, out, outlen) \<Rightarrow>
          (if status = OPENSSL_NPN_NEGOTIATED L then SSL_TLSEXT_ERR_OK L else SSL_TLSEXT_ERR_NOACK L,
           out, outlen))"

definition crypto_send_cb ::
  "ptr \<Rightarrow> size_t \<Rightarrow> size_t \<Rightarrow> backend option \<Rightarrow> (cint \<times> size_t \<times> backend option) option" where
  "crypto_send_cb buf buf_len consumed arg =
     (case arg of
        None \<Rightarrow> Some (0, consumed, None)
      | Some b \<Rightarrow>
        if be_write_level b \<ge> 4 then Some (0, consumed, Some b)
        else let l = unat (be_write_level b); len = be_outbound_crypto_len b ! l in
        if buf_len > 8192 - len
        then Some (0, consumed, Some (b\<lparr>be_outbound_crypto_overflow := 1\<rparr>))
        else do {
          dst \<leftarrow> memcpy (be_outbound_crypto b ! l) len buf buf_len;
          Some (1, buf_len, Some (b\<lparr>
            be_outbound_crypto := (be_outbound_crypto b)[l := dst],
            be_outbound_crypto_len := (be_outbound_crypto_len b)[l := len + buf_len],
            be_total_outbound_crypto_len := be_total_outbound_crypto_len b + buf_len\<rparr>))
        })"

definition crypto_recv_rcd_cb :: "backend option \<Rightarrow> cint \<times> ptr \<times> size_t \<times> backend option" where
  "crypto_recv_rcd_cb arg =
     (case arg of
        None \<Rightarrow> (1, None, 0, None)
      | Some b \<Rightarrow>
        let l = unat (be_read_level b) in
        if be_read_level b \<ge> 4 \<or> be_inbound_crypto_read_len b ! l \<noteq> 0 then (1, None, 0, Some b)
        else
        let b' = b\<lparr>be_inbound_crypto_recv_callbacks := be_inbound_crypto_recv_callbacks b + 1\<rparr> in
        if be_inbound_crypto_len b ! l \<noteq> 0
        then (1, Some (be_inbound_crypto b ! l), be_inbound_crypto_len b ! l,
              Some (b'\<lparr>be_inbound_crypto_read_len :=
                (be_inbound_crypto_read_len b)[l := be_inbound_crypto_len b ! l]\<rparr>))
        else (1, None, 0, Some b'))"

definition crypto_release_rcd_cb :: "size_t \<Rightarrow> backend option \<Rightarrow> (cint \<times> backend option) option" where
  "crypto_release_rcd_cb bytes_read arg =
     (case arg of
        None \<Rightarrow> Some (0, None)
      | Some b \<Rightarrow>
        let l = unat (be_read_level b); read_len = be_inbound_crypto_read_len b ! l in
        if be_read_level b \<ge> 4 \<or> bytes_read > read_len then Some (0, Some b)
        else
        let b' = b\<lparr>be_inbound_crypto_release_callbacks := be_inbound_crypto_release_callbacks b + 1,
                   be_inbound_crypto_released_len := be_inbound_crypto_released_len b + bytes_read,
                   be_inbound_crypto_read_len := (be_inbound_crypto_read_len b)[l := 0]\<rparr> in
        if bytes_read < read_len
        then let remaining = read_len - bytes_read in do {
          dst \<leftarrow> memmove (be_inbound_crypto b ! l) bytes_read remaining;
          Some (1, Some (b'\<lparr>be_inbound_crypto := (be_inbound_crypto b)[l := dst],
                            be_inbound_crypto_len := (be_inbound_crypto_len b)[l := remaining]\<rparr>))
        }
        else Some (1, Some (b'\<lparr>be_inbound_crypto_len := (be_inbound_crypto_len b)[l := 0]\<rparr>)))"

text \<open>Lines 165 to 172: the callback count and the level the new secret is for.\<close>

definition yield_switch_level :: "uint32 \<Rightarrow> cint \<Rightarrow> backend \<Rightarrow> backend" where
  "yield_switch_level prot_level direction b =
     (let b1 = b\<lparr>be_yield_secret_callbacks := be_yield_secret_callbacks b + 1\<rparr> in
      if prot_level < 4
      then if direction = 0 then b1\<lparr>be_read_level := prot_level\<rparr>
           else if direction = 1 then b1\<lparr>be_write_level := prot_level\<rparr> else b1
      else b1)"

definition yield_secret_cb ::
  "uint32 \<Rightarrow> cint \<Rightarrow> ptr \<Rightarrow> size_t \<Rightarrow> backend option \<Rightarrow> (cint \<times> backend option) option" where
  "yield_secret_cb prot_level direction secret secret_len arg =
     (case arg of
        None \<Rightarrow> Some (0, None)
      | Some b \<Rightarrow>
        let b2 = yield_switch_level prot_level direction b in
        if prot_level \<noteq> OSSL_RECORD_PROTECTION_LEVEL_HANDSHAKE \<and>
           prot_level \<noteq> OSSL_RECORD_PROTECTION_LEVEL_APPLICATION
        then Some (1, Some b2)
        else if secret_len \<noteq> 32 then Some (0, Some b2)
        else if prot_level = OSSL_RECORD_PROTECTION_LEVEL_HANDSHAKE
        then if direction = 1 then do {
               x \<leftarrow> memcpy (hs_local (be_handshake_secrets b2)) 0 secret secret_len;
               Some (1, Some (b2\<lparr>be_handshake_secrets := (be_handshake_secrets b2)\<lparr>hs_local := x\<rparr>,
                                 be_handshake_local_secret_available := 1,
                                 be_handshake_secrets_sent := 0\<rparr>))
             }
             else if direction = 0 then do {
               x \<leftarrow> memcpy (hs_peer (be_handshake_secrets b2)) 0 secret secret_len;
               Some (1, Some (b2\<lparr>be_handshake_secrets := (be_handshake_secrets b2)\<lparr>hs_peer := x\<rparr>,
                                 be_handshake_peer_secret_available := 1,
                                 be_handshake_secrets_sent := 0\<rparr>))
             }
             else Some (1, Some b2)
        else if direction = 1 then do {
               x \<leftarrow> memcpy (one_rtt_local (be_one_rtt_secrets b2)) 0 secret secret_len;
               Some (1, Some (b2\<lparr>be_one_rtt_secrets := (be_one_rtt_secrets b2)\<lparr>one_rtt_local := x\<rparr>,
                                 be_one_rtt_local_secret_available := 1,
                                 be_one_rtt_secrets_sent := 0\<rparr>))
             }
        else if direction = 0 then do {
               x \<leftarrow> memcpy (one_rtt_peer (be_one_rtt_secrets b2)) 0 secret secret_len;
               Some (1, Some (b2\<lparr>be_one_rtt_secrets := (be_one_rtt_secrets b2)\<lparr>one_rtt_peer := x\<rparr>,
                                 be_one_rtt_peer_secret_available := 1,
                                 be_one_rtt_secrets_sent := 0\<rparr>))
             }
        else Some (1, Some b2))"

definition got_transport_params_cb ::
  "ptr \<Rightarrow> size_t \<Rightarrow> backend option \<Rightarrow> (cint \<times> backend option) option" where
  "got_transport_params_cb params params_len arg =
     (case arg of
        None \<Rightarrow> Some (0, None)
      | Some b \<Rightarrow>
        if params_len > 512 then Some (0, Some b)
        else do {
          dst \<leftarrow> memcpy (be_peer_transport_parameters b) 0 params params_len;
          Some (1, Some (b\<lparr>be_peer_transport_parameters := dst,
                           be_peer_transport_parameters_len := params_len,
                           be_peer_transport_parameters_available := 1,
                           be_peer_transport_parameters_sent := 0,
                           be_got_transport_params_callbacks :=
                             be_got_transport_params_callbacks b + 1\<rparr>))
        })"

text \<open>The backend is what \<^verbatim>\<open>SSL_get_app_data\<close> returns.\<close>

definition keylog_cb :: "string option \<Rightarrow> backend option \<Rightarrow> backend option" where
  "keylog_cb line app_data =
     (case (app_data, line) of
        (Some b, Some s) \<Rightarrow>
          Some (b\<lparr>be_keylog_callbacks := be_keylog_callbacks b + 1,
                  be_keylog_bytes := be_keylog_bytes b + word_of_nat (length s)\<rparr>)
      | _ \<Rightarrow> app_data)"

definition alert_cb :: "byte \<Rightarrow> backend option \<Rightarrow> cint \<times> backend option" where
  "alert_cb alert_code arg = (1, arg)"

definition quicz_openssl_tls_dispatch :: "backend option callbacks" where
  "quicz_openssl_tls_dispatch =
     \<lparr>cb_crypto_send = crypto_send_cb, cb_crypto_recv_rcd = crypto_recv_rcd_cb,
      cb_crypto_release_rcd = crypto_release_rcd_cb, cb_yield_secret = yield_secret_cb,
      cb_got_transport_params = got_transport_params_cb, cb_alert = alert_cb,
      cb_keylog = keylog_cb\<rparr>"

section \<open>Pre-shared key callbacks\<close>

text \<open>\<^verbatim>\<open>strcmp(a, b) == 0\<close>; \<^term>\<open>None\<close> when the comparison runs off the end of a string.\<close>

fun strcmp_eq :: "byte list \<Rightarrow> byte list \<Rightarrow> bool option" where
  "strcmp_eq (a # as) (b # bs) =
     (if a \<noteq> b then Some False else if a = 0 then Some True else strcmp_eq as bs)"
| "strcmp_eq _ _ = None"

definition psk_identity :: "byte list" where
  "psk_identity = char_bytes ''quicz-psk'' @ [0]"

text \<open>The result is the returned length and the two buffers.\<close>

definition psk_client_cb ::
  "ptr \<Rightarrow> uint32 \<Rightarrow> ptr \<Rightarrow> uint32 \<Rightarrow> (uint32 \<times> ptr \<times> ptr) option" where
  "psk_client_cb identity max_identity_len psk max_psk_len =
     (if 10 > unat max_identity_len \<or> 32 > unat max_psk_len then Some (0, identity, psk)
      else do {
        identity' \<leftarrow> memcpy_out identity psk_identity 10;
        psk' \<leftarrow> memcpy_out psk quicz_openssl_backend_demo_psk 32;
        Some (32, identity', psk')
      })"

definition psk_server_cb :: "ptr \<Rightarrow> ptr \<Rightarrow> uint32 \<Rightarrow> (uint32 \<times> ptr) option" where
  "psk_server_cb identity psk max_psk_len =
     (case identity of
        None \<Rightarrow> Some (0, psk)
      | Some name \<Rightarrow> do {
          same \<leftarrow> strcmp_eq name psk_identity;
          if \<not> same \<or> 32 > unat max_psk_len then Some (0, psk)
          else do {
            psk' \<leftarrow> memcpy_out psk quicz_openssl_backend_demo_psk 32;
            Some (32, psk')
          }
        })"

section \<open>Construction and destruction\<close>

text \<open>The four configuration calls of both constructors, each made only if the ones before succeeded.\<close>

definition configure_ctx :: "'w openssl \<Rightarrow> nat \<Rightarrow> 'w \<Rightarrow> bool \<times> 'w" where
  "configure_ctx L ctx w =
     (let (r1, w) = SSL_CTX_set_min_proto_version L ctx (TLS1_3_VERSION L) w in
      if r1 = 0 then (False, w)
      else let (r2, w) = SSL_CTX_set_max_proto_version L ctx (TLS1_3_VERSION L) w in
      if r2 = 0 then (False, w)
      else let (r3, w) = SSL_CTX_set_cipher_list L ctx ''PSK'' w in
      if r3 = 0 then (False, w)
      else let (r4, w) = SSL_CTX_set_ciphersuites L ctx ''TLS_AES_128_GCM_SHA256'' w in
      (r4 \<noteq> 0, w))"

text \<open>The third component of the result lists the allocations and releases that the call makes.\<close>

definition quicz_openssl_tls_backend_new_for_role ::
  "'w openssl \<Rightarrow> cint \<Rightarrow> 'w \<Rightarrow> backend option \<times> 'w \<times> heap_event list" where
  "quicz_openssl_tls_backend_new_for_role L is_client w =
     (let (allocated, w) = calloc L w in
      if \<not> allocated then (None, w, [])
      else let b = be_zero; (ctx, w) = SSL_CTX_new L (is_client \<noteq> 0) w in
      case ctx of
        None \<Rightarrow> (None, w, [Acquire Backend_mem, Release Backend_mem])
      | Some c \<Rightarrow>
        let b = b\<lparr>be_ctx := Some c\<rparr>; (configured, w) = configure_ctx L c w in
        if \<not> configured
        then (None, SSL_CTX_free L (Some c) w,
              [Acquire Backend_mem, Acquire (Ctx c), Release (Ctx c), Release Backend_mem])
        else let
          w = SSL_CTX_set_psk_callbacks L c w;
          w = (if is_client = 0 then SSL_CTX_set_alpn_select_cb L c w else w);
          (ssl, w) = SSL_new L c w in
        case ssl of
          None \<Rightarrow> (None, SSL_CTX_free L (Some c) w,
                   [Acquire Backend_mem, Acquire (Ctx c), Release (Ctx c), Release Backend_mem])
        | Some s \<Rightarrow>
          let w = SSL_set_app_data L s w;
              w = (if is_client \<noteq> 0 then snd (SSL_set_alpn_protos L s quicz_alpn_protos w) else w);
              w = SSL_CTX_set_keylog_callback L c w;
              (set, w) = SSL_set_quic_tls_cbs L s w;
              b = b\<lparr>be_ssl := Some s, be_callbacks_set := set,
                    be_ssl_is_quic_after_callbacks := SSL_is_quic L s w\<rparr>;
              w = (if is_client \<noteq> 0 then SSL_set_connect_state L s w else SSL_set_accept_state L s w)
          in (Some b, w, [Acquire Backend_mem, Acquire (Ctx c), Acquire (Ssl s)]))"

definition quicz_openssl_tls_backend_new ::
  "'w openssl \<Rightarrow> 'w \<Rightarrow> backend option \<times> 'w \<times> heap_event list" where
  "quicz_openssl_tls_backend_new L w = quicz_openssl_tls_backend_new_for_role L 1 w"

definition quicz_openssl_tls_backend_new_server ::
  "'w openssl \<Rightarrow> 'w \<Rightarrow> backend option \<times> 'w \<times> heap_event list" where
  "quicz_openssl_tls_backend_new_server L w = quicz_openssl_tls_backend_new_for_role L 0 w"

definition quicz_openssl_tls_backend_free ::
  "'w openssl \<Rightarrow> backend option \<Rightarrow> 'w \<Rightarrow> 'w \<times> heap_event list" where
  "quicz_openssl_tls_backend_free L context w =
     (case context of
        None \<Rightarrow> (w, [])
      | Some b \<Rightarrow>
        (SSL_CTX_free L (be_ctx b) (SSL_free L (be_ssl b) w),
         (case be_ssl b of None \<Rightarrow> [] | Some s \<Rightarrow> [Release (Ssl s)]) @
         (case be_ctx b of None \<Rightarrow> [] | Some c \<Rightarrow> [Release (Ctx c)]) @ [Release Backend_mem]))"

section \<open>The TLS backend ABI\<close>

text \<open>The level pointer is \<^term>\<open>None\<close> for \<^verbatim>\<open>NULL\<close>, else the value it points to.\<close>

definition packet_space_level :: "cint \<Rightarrow> uint32 option \<Rightarrow> cint \<times> uint32 option" where
  "packet_space_level space level =
     (case level of
        None \<Rightarrow> (0, None)
      | Some l \<Rightarrow>
        if space = QUICZ_TLS_BACKEND_INITIAL then (1, Some OSSL_RECORD_PROTECTION_LEVEL_NONE)
        else if space = QUICZ_TLS_BACKEND_HANDSHAKE
        then (1, Some OSSL_RECORD_PROTECTION_LEVEL_HANDSHAKE)
        else if space = QUICZ_TLS_BACKEND_APPLICATION
        then (1, Some OSSL_RECORD_PROTECTION_LEVEL_APPLICATION)
        else (0, Some l))"

definition quicz_openssl_tls_backend_receive ::
  "cint \<Rightarrow> ptr \<Rightarrow> size_t \<Rightarrow> backend option \<Rightarrow> (quicz_tls_backend_status \<times> backend option) option" where
  "quicz_openssl_tls_backend_receive space data data_len context =
     (case context of
        None \<Rightarrow> Some (QUICZ_TLS_BACKEND_INTERNAL, None)
      | Some b \<Rightarrow>
        if be_ssl b = None then Some (QUICZ_TLS_BACKEND_INTERNAL, Some b)
        else case packet_space_level space (Some 0) of (found, level) \<Rightarrow>
        if found = 0 then Some (QUICZ_TLS_BACKEND_INTERNAL, Some b)
        else let l = unat (the level); len = be_inbound_crypto_len b ! l in
        if data_len > 8192 - len then Some (QUICZ_TLS_BACKEND_BUFFER_TOO_SMALL, Some b)
        else do {
          dst \<leftarrow> memcpy (be_inbound_crypto b ! l) len data data_len;
          Some (QUICZ_TLS_BACKEND_OK, Some (b\<lparr>
            be_inbound_crypto := (be_inbound_crypto b)[l := dst],
            be_inbound_crypto_len := (be_inbound_crypto_len b)[l := len + data_len],
            be_received_crypto_len := be_received_crypto_len b + data_len\<rparr>))
        })"

definition copy_pending_outbound ::
  "uint32 \<Rightarrow> ptr \<Rightarrow> size_t \<Rightarrow> size_t \<Rightarrow> backend \<Rightarrow> backend pulled option" where
  "copy_pending_outbound level out out_len written_len b =
     (if level \<ge> 4 then Some (QUICZ_TLS_BACKEND_INTERNAL, b, out, written_len)
      else let l = unat level; len = be_outbound_crypto_len b ! l in
      if len = 0 then Some (QUICZ_TLS_BACKEND_PENDING, b, out, written_len)
      else if out_len < len then Some (QUICZ_TLS_BACKEND_BUFFER_TOO_SMALL, b, out, written_len)
      else do {
        out' \<leftarrow> memcpy_out out (be_outbound_crypto b ! l) len;
        Some (QUICZ_TLS_BACKEND_OK,
          b\<lparr>be_outbound_crypto_len := (be_outbound_crypto_len b)[l := 0]\<rparr>, out', len)
      })"

text \<open>
  One call of \<^verbatim>\<open>SSL_do_handshake\<close> with the bookkeeping around it (lines 438 to 444): the return code,
  the library state and the backend after all callbacks.
\<close>

definition drive_backend :: "'w openssl \<Rightarrow> nat \<Rightarrow> 'w \<Rightarrow> backend \<Rightarrow> (cint \<times> 'w \<times> backend) option" where
  "drive_backend L ssl w b = do {
     (rc, w', context) \<leftarrow> run_engine quicz_openssl_tls_dispatch (SSL_do_handshake L ssl w)
       (Some (b\<lparr>be_handshake_drive_calls := be_handshake_drive_calls b + 1\<rparr>));
     b' \<leftarrow> context;
     Some (rc, w', b'\<lparr>be_last_ssl_error :=
       (if rc \<noteq> 1 then SSL_get_error L ssl rc w' else SSL_ERROR_NONE L)\<rparr>)
   }"

definition quicz_openssl_tls_backend_pull ::
  "'w openssl \<Rightarrow> cint \<Rightarrow> ptr \<Rightarrow> size_t \<Rightarrow> size_t \<Rightarrow> 'w \<Rightarrow> backend option \<Rightarrow>
     (backend option pulled \<times> 'w) option" where
  "quicz_openssl_tls_backend_pull L space out out_len written_len w context =
     (case context of
        None \<Rightarrow> Some ((QUICZ_TLS_BACKEND_INTERNAL, None, out, 0), w)
      | Some b \<Rightarrow>
        case be_ssl b of
          None \<Rightarrow> Some ((QUICZ_TLS_BACKEND_INTERNAL, Some b, out, 0), w)
        | Some ssl \<Rightarrow>
          case packet_space_level space (Some 0) of (found, level_ptr) \<Rightarrow>
          if found = 0 then Some ((QUICZ_TLS_BACKEND_INTERNAL, Some b, out, 0), w)
          else let level = the level_ptr in do {
            (pending_status, b1, out1, written1) \<leftarrow> copy_pending_outbound level out out_len 0 b;
            if pending_status \<noteq> QUICZ_TLS_BACKEND_PENDING
            then Some ((pending_status, Some b1, out1, written1), w)
            else if level \<noteq> OSSL_RECORD_PROTECTION_LEVEL_NONE
            then Some ((QUICZ_TLS_BACKEND_PENDING, Some b1, out1, written1), w)
            else do {
              (rc, w2, b2) \<leftarrow> drive_backend L ssl w b1;
              if be_outbound_crypto_overflow b2 \<noteq> 0
              then Some ((QUICZ_TLS_BACKEND_BUFFER_TOO_SMALL, Some b2, out1, written1), w2)
              else do {
                (pending_status, b3, out3, written3) \<leftarrow>
                  copy_pending_outbound level out1 out_len written1 b2;
                if pending_status \<noteq> QUICZ_TLS_BACKEND_PENDING
                then Some ((pending_status, Some b3, out3, written3), w2)
                else if rc = 1 \<or> be_last_ssl_error b3 = SSL_ERROR_WANT_READ L \<or>
                        be_last_ssl_error b3 = SSL_ERROR_WANT_WRITE L
                then Some ((QUICZ_TLS_BACKEND_PENDING, Some b3, out3, written3), w2)
                else Some ((QUICZ_TLS_BACKEND_CRYPTO_ERROR, Some b3, out3, written3), w2)
              }
            }
          })"

definition quicz_openssl_tls_backend_set_local_transport_parameters ::
  "'w openssl \<Rightarrow> ptr \<Rightarrow> size_t \<Rightarrow> 'w \<Rightarrow> backend option \<Rightarrow>
     quicz_tls_backend_status \<times> backend option \<times> 'w" where
  "quicz_openssl_tls_backend_set_local_transport_parameters L data data_len w context =
     (case context of
        None \<Rightarrow> (QUICZ_TLS_BACKEND_INTERNAL, None, w)
      | Some b \<Rightarrow>
        case be_ssl b of
          None \<Rightarrow> (QUICZ_TLS_BACKEND_INTERNAL, Some b, w)
        | Some ssl \<Rightarrow>
          if be_local_transport_parameters_set b \<noteq> 0 then (QUICZ_TLS_BACKEND_OK, Some b, w)
          else case SSL_set_quic_tls_transport_params L ssl data data_len w of (r, w') \<Rightarrow>
            if r = 0 then (QUICZ_TLS_BACKEND_CRYPTO_ERROR, Some b, w')
            else (QUICZ_TLS_BACKEND_OK,
                  Some (b\<lparr>be_local_transport_parameters_set := 1,
                          be_local_transport_parameters_len := data_len\<rparr>), w'))"

definition quicz_openssl_tls_backend_pull_peer_transport_parameters ::
  "ptr \<Rightarrow> size_t \<Rightarrow> size_t \<Rightarrow> backend option \<Rightarrow> backend option pulled option" where
  "quicz_openssl_tls_backend_pull_peer_transport_parameters out out_len written_len context =
     (case context of
        None \<Rightarrow> Some (QUICZ_TLS_BACKEND_INTERNAL, None, out, 0)
      | Some b \<Rightarrow>
        if be_peer_transport_parameters_available b = 0 \<or> be_peer_transport_parameters_sent b \<noteq> 0
        then Some (QUICZ_TLS_BACKEND_PENDING, Some b, out, 0)
        else if out_len < be_peer_transport_parameters_len b
        then Some (QUICZ_TLS_BACKEND_BUFFER_TOO_SMALL, Some b, out, 0)
        else do {
          out' \<leftarrow> memcpy_out out (be_peer_transport_parameters b) (be_peer_transport_parameters_len b);
          Some (QUICZ_TLS_BACKEND_OK, Some (b\<lparr>be_peer_transport_parameters_sent := 1\<rparr>), out',
            be_peer_transport_parameters_len b)
        })"

definition quicz_openssl_tls_backend_pull_handshake_traffic_secrets ::
  "quicz_handshake_traffic_secrets \<Rightarrow> backend option \<Rightarrow>
     quicz_tls_backend_status \<times> backend option \<times> quicz_handshake_traffic_secrets" where
  "quicz_openssl_tls_backend_pull_handshake_traffic_secrets out context =
     (case context of
        None \<Rightarrow> (QUICZ_TLS_BACKEND_INTERNAL, None, out)
      | Some b \<Rightarrow>
        if be_handshake_local_secret_available b = 0 \<or> be_handshake_peer_secret_available b = 0 \<or>
           be_handshake_secrets_sent b \<noteq> 0
        then (QUICZ_TLS_BACKEND_PENDING, Some b, out)
        else (QUICZ_TLS_BACKEND_OK, Some (b\<lparr>be_handshake_secrets_sent := 1\<rparr>),
              be_handshake_secrets b))"

definition quicz_openssl_tls_backend_pull_1rtt_traffic_secrets ::
  "quicz_one_rtt_traffic_secrets \<Rightarrow> backend option \<Rightarrow>
     quicz_tls_backend_status \<times> backend option \<times> quicz_one_rtt_traffic_secrets" where
  "quicz_openssl_tls_backend_pull_1rtt_traffic_secrets out context =
     (case context of
        None \<Rightarrow> (QUICZ_TLS_BACKEND_INTERNAL, None, out)
      | Some b \<Rightarrow>
        if be_one_rtt_local_secret_available b = 0 \<or> be_one_rtt_peer_secret_available b = 0 \<or>
           be_one_rtt_secrets_sent b \<noteq> 0
        then (QUICZ_TLS_BACKEND_PENDING, Some b, out)
        else (QUICZ_TLS_BACKEND_OK, Some (b\<lparr>be_one_rtt_secrets_sent := 1\<rparr>), be_one_rtt_secrets b))"

definition quicz_openssl_tls_backend_handshake_confirmed :: "backend option \<Rightarrow> bool" where
  "quicz_openssl_tls_backend_handshake_confirmed context =
     (case context of
        None \<Rightarrow> False
      | Some b \<Rightarrow>
        be_peer_transport_parameters_available b \<noteq> 0 \<and>
        be_handshake_local_secret_available b \<noteq> 0 \<and>
        be_handshake_peer_secret_available b \<noteq> 0 \<and>
        be_one_rtt_local_secret_available b \<noteq> 0 \<and>
        be_one_rtt_peer_secret_available b \<noteq> 0 \<and>
        be_received_crypto_len b \<noteq> 0 \<and>
        be_inbound_crypto_released_len b = be_received_crypto_len b)"

text \<open>The selected protocol is copied out of OpenSSL's memory: \<open>alpn\<close> is a pointer argument here.\<close>

definition quicz_openssl_tls_backend_pull_negotiated_alpn ::
  "'w openssl \<Rightarrow> ptr \<Rightarrow> size_t \<Rightarrow> size_t \<Rightarrow> 'w \<Rightarrow> backend option \<Rightarrow>
     (quicz_tls_backend_status \<times> ptr \<times> size_t) option" where
  "quicz_openssl_tls_backend_pull_negotiated_alpn L out out_len written_len w context =
     (case context of
        None \<Rightarrow> Some (QUICZ_TLS_BACKEND_INTERNAL, out, written_len)
      | Some b \<Rightarrow>
        case be_ssl b of
          None \<Rightarrow> Some (QUICZ_TLS_BACKEND_INTERNAL, out, written_len)
        | Some ssl \<Rightarrow>
          case SSL_get0_alpn_selected L ssl w of (alpn, alpn_len) \<Rightarrow>
          let n = (ucast alpn_len :: size_t) in
          case alpn of
            None \<Rightarrow> Some (QUICZ_TLS_BACKEND_PENDING, out, written_len)
          | Some proto \<Rightarrow>
            if alpn_len = 0 then Some (QUICZ_TLS_BACKEND_PENDING, out, written_len)
            else if out_len < n then Some (QUICZ_TLS_BACKEND_BUFFER_TOO_SMALL, out, written_len)
            else do {
              out' \<leftarrow> memcpy_out out proto n;
              Some (QUICZ_TLS_BACKEND_OK, out', n)
            })"

section \<open>Accessors\<close>

definition read_field :: "(backend \<Rightarrow> 'a::zero) \<Rightarrow> backend option \<Rightarrow> 'a" where
  "read_field f context = (case context of None \<Rightarrow> 0 | Some b \<Rightarrow> f b)"

definition quicz_openssl_tls_backend_callbacks_set :: "backend option \<Rightarrow> cint" where
  "quicz_openssl_tls_backend_callbacks_set = read_field be_callbacks_set"

definition quicz_openssl_tls_backend_local_transport_parameters_set :: "backend option \<Rightarrow> cint" where
  "quicz_openssl_tls_backend_local_transport_parameters_set = read_field be_local_transport_parameters_set"

definition quicz_openssl_tls_backend_ssl_is_quic_after_callbacks :: "backend option \<Rightarrow> cint" where
  "quicz_openssl_tls_backend_ssl_is_quic_after_callbacks = read_field be_ssl_is_quic_after_callbacks"

definition quicz_openssl_tls_backend_local_transport_parameters_len :: "backend option \<Rightarrow> size_t" where
  "quicz_openssl_tls_backend_local_transport_parameters_len = read_field be_local_transport_parameters_len"

definition quicz_openssl_tls_backend_received_crypto_len :: "backend option \<Rightarrow> size_t" where
  "quicz_openssl_tls_backend_received_crypto_len = read_field be_received_crypto_len"

definition quicz_openssl_tls_backend_peer_transport_parameters_len :: "backend option \<Rightarrow> size_t" where
  "quicz_openssl_tls_backend_peer_transport_parameters_len = read_field be_peer_transport_parameters_len"

definition quicz_openssl_tls_backend_got_transport_params_callbacks :: "backend option \<Rightarrow> cint" where
  "quicz_openssl_tls_backend_got_transport_params_callbacks = read_field be_got_transport_params_callbacks"

definition quicz_openssl_tls_backend_keylog_callbacks :: "backend option \<Rightarrow> cint" where
  "quicz_openssl_tls_backend_keylog_callbacks = read_field be_keylog_callbacks"

definition quicz_openssl_tls_backend_keylog_bytes :: "backend option \<Rightarrow> size_t" where
  "quicz_openssl_tls_backend_keylog_bytes = read_field be_keylog_bytes"

definition quicz_openssl_tls_backend_yield_secret_callbacks :: "backend option \<Rightarrow> cint" where
  "quicz_openssl_tls_backend_yield_secret_callbacks = read_field be_yield_secret_callbacks"

text \<open>The loop of lines 630 to 632 over the levels from \<open>level\<close> to 3.\<close>

fun sum_levels :: "size_t list \<Rightarrow> size_t \<Rightarrow> size_t" where
  "sum_levels [] pending_len = pending_len"
| "sum_levels (len # lens) pending_len = sum_levels lens (pending_len + len)"

definition quicz_openssl_tls_backend_pending_inbound_crypto_len :: "backend option \<Rightarrow> size_t" where
  "quicz_openssl_tls_backend_pending_inbound_crypto_len context =
     (case context of None \<Rightarrow> 0 | Some b \<Rightarrow> sum_levels (take 4 (be_inbound_crypto_len b)) 0)"

definition quicz_openssl_tls_backend_released_inbound_crypto_len :: "backend option \<Rightarrow> size_t" where
  "quicz_openssl_tls_backend_released_inbound_crypto_len = read_field be_inbound_crypto_released_len"

definition quicz_openssl_tls_backend_inbound_crypto_recv_callbacks :: "backend option \<Rightarrow> cint" where
  "quicz_openssl_tls_backend_inbound_crypto_recv_callbacks = read_field be_inbound_crypto_recv_callbacks"

definition quicz_openssl_tls_backend_inbound_crypto_release_callbacks :: "backend option \<Rightarrow> cint" where
  "quicz_openssl_tls_backend_inbound_crypto_release_callbacks = read_field be_inbound_crypto_release_callbacks"

definition quicz_openssl_tls_backend_generated_crypto_len :: "backend option \<Rightarrow> size_t" where
  "quicz_openssl_tls_backend_generated_crypto_len = read_field be_total_outbound_crypto_len"

definition quicz_openssl_tls_backend_handshake_drive_calls :: "backend option \<Rightarrow> cint" where
  "quicz_openssl_tls_backend_handshake_drive_calls = read_field be_handshake_drive_calls"

definition quicz_openssl_tls_backend_last_ssl_error :: "backend option \<Rightarrow> cint" where
  "quicz_openssl_tls_backend_last_ssl_error = read_field be_last_ssl_error"

section \<open>Debug entry points\<close>

definition quicz_openssl_tls_backend_debug_consume_inbound_once ::
  "backend option \<Rightarrow> (quicz_tls_backend_status \<times> backend option) option" where
  "quicz_openssl_tls_backend_debug_consume_inbound_once context =
     (case context of
        None \<Rightarrow> Some (QUICZ_TLS_BACKEND_INTERNAL, None)
      | Some b \<Rightarrow>
        case crypto_recv_rcd_cb (Some b) of (received, buf, bytes_read, b1) \<Rightarrow>
        if received = 0 then Some (QUICZ_TLS_BACKEND_CRYPTO_ERROR, b1)
        else if bytes_read = 0 then Some (QUICZ_TLS_BACKEND_PENDING, b1)
        else if buf = None then Some (QUICZ_TLS_BACKEND_INTERNAL, b1)
        else do {
          (released, b2) \<leftarrow> crypto_release_rcd_cb bytes_read b1;
          if released = 0 then Some (QUICZ_TLS_BACKEND_CRYPTO_ERROR, b2)
          else Some (QUICZ_TLS_BACKEND_OK, b2)
        })"

text \<open>\<open>out\<close> is \<^term>\<open>None\<close> for \<^verbatim>\<open>NULL\<close>, else what it points to.\<close>

definition quicz_openssl_tls_backend_debug_copy_handshake_traffic_secrets ::
  "quicz_handshake_traffic_secrets option \<Rightarrow> backend option \<Rightarrow>
     quicz_tls_backend_status \<times> quicz_handshake_traffic_secrets option" where
  "quicz_openssl_tls_backend_debug_copy_handshake_traffic_secrets out context =
     (case (context, out) of
        (Some b, Some _) \<Rightarrow>
          if be_handshake_local_secret_available b = 0 \<or> be_handshake_peer_secret_available b = 0
          then (QUICZ_TLS_BACKEND_PENDING, out)
          else (QUICZ_TLS_BACKEND_OK, Some (be_handshake_secrets b))
      | _ \<Rightarrow> (QUICZ_TLS_BACKEND_INTERNAL, out))"

definition quicz_openssl_tls_backend_debug_got_transport_parameters ::
  "ptr \<Rightarrow> size_t \<Rightarrow> backend option \<Rightarrow> (quicz_tls_backend_status \<times> backend option) option" where
  "quicz_openssl_tls_backend_debug_got_transport_parameters params params_len context =
     (case context of
        None \<Rightarrow> Some (QUICZ_TLS_BACKEND_INTERNAL, None)
      | Some b \<Rightarrow> do {
          (taken, b') \<leftarrow> got_transport_params_cb params params_len (Some b);
          Some (if taken \<noteq> 0 then QUICZ_TLS_BACKEND_OK else QUICZ_TLS_BACKEND_BUFFER_TOO_SMALL, b')
        })"

definition quicz_openssl_tls_backend_debug_yield_handshake_secret ::
  "cint \<Rightarrow> ptr \<Rightarrow> size_t \<Rightarrow> backend option \<Rightarrow> (quicz_tls_backend_status \<times> backend option) option" where
  "quicz_openssl_tls_backend_debug_yield_handshake_secret direction secret secret_len context =
     (case context of
        None \<Rightarrow> Some (QUICZ_TLS_BACKEND_INTERNAL, None)
      | Some b \<Rightarrow> do {
          (taken, b') \<leftarrow> yield_secret_cb OSSL_RECORD_PROTECTION_LEVEL_HANDSHAKE direction secret
            secret_len (Some b);
          Some (if taken \<noteq> 0 then QUICZ_TLS_BACKEND_OK else QUICZ_TLS_BACKEND_CRYPTO_ERROR, b')
        })"

definition quicz_openssl_tls_backend_debug_yield_application_secret ::
  "cint \<Rightarrow> ptr \<Rightarrow> size_t \<Rightarrow> backend option \<Rightarrow> (quicz_tls_backend_status \<times> backend option) option" where
  "quicz_openssl_tls_backend_debug_yield_application_secret direction secret secret_len context =
     (case context of
        None \<Rightarrow> Some (QUICZ_TLS_BACKEND_INTERNAL, None)
      | Some b \<Rightarrow> do {
          (taken, b') \<leftarrow> yield_secret_cb OSSL_RECORD_PROTECTION_LEVEL_APPLICATION direction secret
            secret_len (Some b);
          Some (if taken \<noteq> 0 then QUICZ_TLS_BACKEND_OK else QUICZ_TLS_BACKEND_CRYPTO_ERROR, b')
        })"

end
