(* ===== verification/OpenSSL_Backend_Callbacks.thy ===== *)
theory OpenSSL_Backend_Callbacks
  imports OpenSSL_Backend
begin

text \<open>
  The invariant of the OpenSSL backend, and what each callback of
  \<^verbatim>\<open>src/examples/tls_openssl_backend_adapter.c\<close> does to a backend that satisfies it: which bytes it
  appends, lends or drops at which level, when it refuses, and what it leaves alone.
\<close>

section \<open>Invariant\<close>

definition be_ok :: "backend \<Rightarrow> bool" where
  "be_ok b \<longleftrightarrow>
     buf_ok 512 (be_peer_transport_parameters b) (be_peer_transport_parameters_len b) \<and>
     hs_secrets_ok (be_handshake_secrets b) \<and> one_rtt_secrets_ok (be_one_rtt_secrets b) \<and>
     length (be_inbound_crypto b) = 4 \<and> length (be_inbound_crypto_len b) = 4 \<and>
     length (be_inbound_crypto_read_len b) = 4 \<and>
     length (be_outbound_crypto b) = 4 \<and> length (be_outbound_crypto_len b) = 4 \<and>
     (\<forall>l < 4. buf_ok 8192 (be_inbound_crypto b ! l) (be_inbound_crypto_len b ! l) \<and>
        unat (be_inbound_crypto_read_len b ! l) \<le> unat (be_inbound_crypto_len b ! l) \<and>
        buf_ok 8192 (be_outbound_crypto b ! l) (be_outbound_crypto_len b ! l)) \<and>
     be_read_level b < 4 \<and> be_write_level b < 4"

text \<open>The inbound and outbound bytes that are pending at a level.\<close>

definition be_in :: "nat \<Rightarrow> backend \<Rightarrow> byte list" where
  "be_in l b = content (be_inbound_crypto b ! l) (be_inbound_crypto_len b ! l)"

definition be_out :: "nat \<Rightarrow> backend \<Rightarrow> byte list" where
  "be_out l b = content (be_outbound_crypto b ! l) (be_outbound_crypto_len b ! l)"

text \<open>The inbound side as a whole: buffers, lengths, bytes lent to OpenSSL, byte counts.\<close>

definition be_inbound :: "backend \<Rightarrow> byte list list \<times> size_t list \<times> size_t list \<times> size_t \<times> size_t" where
  "be_inbound b = (be_inbound_crypto b, be_inbound_crypto_len b, be_inbound_crypto_read_len b,
     be_inbound_crypto_released_len b, be_received_crypto_len b)"

text \<open>What neither a receive nor a release callback touches.\<close>

definition be_kept where
  "be_kept b = (be_ctx b, be_ssl b, be_received_crypto_len b, be_outbound_crypto_overflow b,
     be_peer_transport_parameters_available b,
     be_handshake_local_secret_available b, be_handshake_peer_secret_available b,
     be_one_rtt_local_secret_available b, be_one_rtt_peer_secret_available b)"

lemma be_ok_zero: "be_ok be_zero"
  by (simp add: be_ok_def be_zero_def hs_secrets_ok_def one_rtt_secrets_ok_def buf_ok_def
      nth_replicate)

lemma be_okD:
  assumes "be_ok b"
  shows "length (be_inbound_crypto b) = 4" "length (be_inbound_crypto_len b) = 4"
    "length (be_inbound_crypto_read_len b) = 4" "length (be_outbound_crypto b) = 4"
    "length (be_outbound_crypto_len b) = 4"
    "l < 4 \<Longrightarrow> buf_ok 8192 (be_inbound_crypto b ! l) (be_inbound_crypto_len b ! l)"
    "l < 4 \<Longrightarrow> unat (be_inbound_crypto_read_len b ! l) \<le> unat (be_inbound_crypto_len b ! l)"
    "l < 4 \<Longrightarrow> buf_ok 8192 (be_outbound_crypto b ! l) (be_outbound_crypto_len b ! l)"
    "unat (be_read_level b) < 4" "unat (be_write_level b) < 4"
    "be_read_level b < 4" "be_write_level b < 4"
    "buf_ok 512 (be_peer_transport_parameters b) (be_peer_transport_parameters_len b)"
    "hs_secrets_ok (be_handshake_secrets b)" "one_rtt_secrets_ok (be_one_rtt_secrets b)"
  using assms by (auto simp: be_ok_def word_less_nat_alt)

lemma length_be_out [simp]: "be_ok b \<Longrightarrow> l < 4 \<Longrightarrow> length (be_out l b) = unat (be_outbound_crypto_len b ! l)"
  using length_content [OF be_okD(8)] by (simp add: be_out_def)

lemma length_be_in [simp]: "be_ok b \<Longrightarrow> l < 4 \<Longrightarrow> length (be_in l b) = unat (be_inbound_crypto_len b ! l)"
  using length_content [OF be_okD(6)] by (simp add: be_in_def)

section \<open>The callbacks\<close>

lemma crypto_send_fits:
  assumes "be_ok b" and "readable p n"
    and "length (be_out (unat (be_write_level b)) b) + unat n \<le> 8192"
  shows "\<exists>b'. crypto_send_cb p n c (Some b) = Some (1, n, Some b') \<and> be_ok b' \<and>
      (\<forall>l < 4. be_out l b' =
        (if l = unat (be_write_level b) then be_out l b @ bytes_at p n else be_out l b)) \<and>
      (\<forall>l < 4. be_in l b' = be_in l b) \<and>
      be_total_outbound_crypto_len b' = be_total_outbound_crypto_len b + n \<and>
      be_inbound b' = be_inbound b \<and> be_kept b' = be_kept b \<and> be_write_level b' = be_write_level b"
proof -
  let ?l = "unat (be_write_level b)"
  have l: "?l < 4" and lvl: "\<not> be_write_level b \<ge> 4"
    using be_okD(10,12) [OF assms(1)] by auto
  have ok: "buf_ok 8192 (be_outbound_crypto b ! ?l) (be_outbound_crypto_len b ! ?l)"
    using be_okD(8) [OF assms(1) l] .
  have fits: "unat (be_outbound_crypto_len b ! ?l) + unat n \<le> 8192"
    using assms(1,3) l by simp
  then have "\<not> n > 8192 - be_outbound_crypto_len b ! ?l"
    using ok guard_exceeds [of "be_outbound_crypto_len b ! ?l" 8192 n] by (simp add: buf_ok_def)
  moreover from memcpy_append [OF ok assms(2) fits] obtain dst where
      "memcpy (be_outbound_crypto b ! ?l) (be_outbound_crypto_len b ! ?l) p n = Some dst"
      "buf_ok 8192 dst (be_outbound_crypto_len b ! ?l + n)"
      "content dst (be_outbound_crypto_len b ! ?l + n) =
        content (be_outbound_crypto b ! ?l) (be_outbound_crypto_len b ! ?l) @ bytes_at p n"
    by auto
  ultimately show ?thesis
    using lvl l assms(1)
    by (simp add: crypto_send_cb_def Let_def be_out_def be_in_def be_ok_def nth_list_update be_inbound_def
        be_kept_def)
qed

lemma crypto_send_overflow:
  assumes "be_ok b" and "8192 < length (be_out (unat (be_write_level b)) b) + unat n"
  shows "crypto_send_cb p n c (Some b) = Some (0, c, Some (b\<lparr>be_outbound_crypto_overflow := 1\<rparr>))"
proof -
  let ?l = "unat (be_write_level b)"
  have l: "?l < 4" and lvl: "\<not> be_write_level b \<ge> 4"
    using be_okD(10,12) [OF assms(1)] by auto
  have "buf_ok 8192 (be_outbound_crypto b ! ?l) (be_outbound_crypto_len b ! ?l)"
    using be_okD(8) [OF assms(1) l] .
  then have "n > 8192 - be_outbound_crypto_len b ! ?l"
    using assms l guard_exceeds [of "be_outbound_crypto_len b ! ?l" 8192 n] by (simp add: buf_ok_def)
  with lvl show ?thesis by (simp add: crypto_send_cb_def Let_def)
qed

lemma crypto_recv_cases:
  assumes "be_ok b" and "crypto_recv_rcd_cb (Some b) = (rc, buf, n, c)"
  shows "\<exists>b'. c = Some b' \<and> be_ok b' \<and> rc = 1 \<and>
      (\<forall>l. be_in l b' = be_in l b) \<and> (\<forall>l. be_out l b' = be_out l b) \<and>
      be_inbound_crypto_released_len b' = be_inbound_crypto_released_len b \<and> be_kept b' = be_kept b \<and>
      (let l = unat (be_read_level b) in
       if be_inbound_crypto_read_len b ! l \<noteq> 0 \<or> be_in l b = []
       then n = 0 \<and> buf = None \<and> be_inbound_crypto_read_len b' = be_inbound_crypto_read_len b
       else bytes_at buf n = be_in l b \<and> readable buf n \<and> n = be_inbound_crypto_len b ! l \<and>
            be_inbound_crypto_read_len b' = (be_inbound_crypto_read_len b)[l := n])"
proof -
  let ?l = "unat (be_read_level b)"
  have l: "?l < 4" and lvl: "\<not> be_read_level b \<ge> 4"
    using be_okD(9,11) [OF assms(1)] by auto
  have ok: "buf_ok 8192 (be_inbound_crypto b ! ?l) (be_inbound_crypto_len b ! ?l)"
    using be_okD(6) [OF assms(1) l] .
  have empty: "be_in ?l b = [] \<longleftrightarrow> be_inbound_crypto_len b ! ?l = 0"
    using length_be_in [OF assms(1) l] by (metis length_0_conv unat_eq_zero)
  show ?thesis
    using assms lvl l ok empty
    by (auto simp: crypto_recv_rcd_cb_def Let_def be_in_def be_out_def be_ok_def content_def buf_ok_def
        nth_list_update be_kept_def split: if_splits)
qed

lemma crypto_release_fits:
  assumes "be_ok b" and "unat n \<le> unat (be_inbound_crypto_read_len b ! unat (be_read_level b))"
  shows "\<exists>b'. crypto_release_rcd_cb n (Some b) = Some (1, Some b') \<and> be_ok b' \<and>
      (\<forall>l < 4. be_in l b' =
        (if l = unat (be_read_level b)
         then drop (unat n) (take (unat (be_inbound_crypto_read_len b ! l)) (be_in l b))
         else be_in l b)) \<and>
      (\<forall>l. be_out l b' = be_out l b) \<and>
      be_inbound_crypto_read_len b' = (be_inbound_crypto_read_len b)[unat (be_read_level b) := 0] \<and>
      be_inbound_crypto_released_len b' = be_inbound_crypto_released_len b + n \<and>
      be_kept b' = be_kept b"
proof -
  let ?l = "unat (be_read_level b)"
  let ?r = "be_inbound_crypto_read_len b ! ?l"
  let ?buf = "be_inbound_crypto b ! ?l"
  have l: "?l < 4" and lvl: "\<not> be_read_level b \<ge> 4"
    using be_okD(9,11) [OF assms(1)] by auto
  have ok: "buf_ok 8192 ?buf (be_inbound_crypto_len b ! ?l)"
    using be_okD(6) [OF assms(1) l] .
  have r: "unat ?r \<le> unat (be_inbound_crypto_len b ! ?l)"
    using be_okD(7) [OF assms(1) l] .
  have guard: "\<not> n > ?r" using assms(2) by (simp add: word_less_nat_alt)
  show ?thesis
  proof (cases "n < ?r")
    case True
    then have "unat n < unat ?r" by (simp add: word_less_nat_alt)
    from memmove_consume [OF ok r this] obtain dst where
        "memmove ?buf n (?r - n) = Some dst" "buf_ok 8192 dst (?r - n)"
        "content dst (?r - n) = drop (unat n) (take (unat ?r) (be_in ?l b))"
      by (auto simp: be_in_def)
    then show ?thesis
      using True guard lvl l assms(1)
      by (simp add: crypto_release_rcd_cb_def Let_def be_out_def be_in_def be_ok_def nth_list_update
          be_kept_def)
  next
    case False
    with guard have "n = ?r" by simp
    moreover have "drop (unat n) (take (unat n) (be_in ?l b)) = []" by simp
    ultimately show ?thesis
      using lvl l assms(1) ok
      by (simp add: crypto_release_rcd_cb_def Let_def be_out_def be_in_def be_ok_def nth_list_update
          buf_ok_def be_kept_def)
  qed
qed

lemma be_in_len:
  "be_ok b \<Longrightarrow> be_ok b' \<Longrightarrow> l < 4 \<Longrightarrow> be_in l b' = be_in l b \<Longrightarrow>
     be_inbound_crypto_len b' ! l = be_inbound_crypto_len b ! l"
  by (metis length_be_in word_unat_eq_iff)

lemma crypto_release_refused:
  assumes "unat (be_inbound_crypto_read_len b ! unat (be_read_level b)) < unat n"
  shows "crypto_release_rcd_cb n (Some b) = Some (0, Some b)"
  using assms by (simp add: crypto_release_rcd_cb_def Let_def word_less_nat_alt)

text \<open>What the remaining callbacks leave alone: all buffers, lengths and byte counts.\<close>

definition be_queues where
  "be_queues b = (be_inbound b, be_ctx b, be_ssl b, be_outbound_crypto b, be_outbound_crypto_len b, be_total_outbound_crypto_len b,
     be_outbound_crypto_overflow b)"

lemma be_queuesD:
  assumes "be_queues b' = be_queues b"
  shows "be_in l b' = be_in l b" "be_out l b' = be_out l b"
    "be_inbound_crypto_read_len b' = be_inbound_crypto_read_len b"
    "be_inbound_crypto_released_len b' = be_inbound_crypto_released_len b"
    "be_received_crypto_len b' = be_received_crypto_len b"
    "be_total_outbound_crypto_len b' = be_total_outbound_crypto_len b"
    "be_outbound_crypto_overflow b' = be_outbound_crypto_overflow b"
  using assms by (simp_all add: be_queues_def be_inbound_def be_in_def be_out_def)

lemma yield_switch_level_ok:
  assumes "be_ok b"
  shows "be_ok (yield_switch_level lvl dir b)" "be_queues (yield_switch_level lvl dir b) = be_queues b"
    "be_handshake_secrets (yield_switch_level lvl dir b) = be_handshake_secrets b"
    "be_one_rtt_secrets (yield_switch_level lvl dir b) = be_one_rtt_secrets b"
  using assms by (auto simp: yield_switch_level_def be_ok_def be_queues_def be_inbound_def Let_def)

text \<open>A 32-byte secret for the Handshake or Application level, in either direction.\<close>

lemma yield_secret_stored:
  assumes "be_ok b" and "readable p 32"
  shows "yield_secret_cb 2 1 p 32 (Some b) = Some (1, Some ((yield_switch_level 2 1 b)
           \<lparr>be_handshake_secrets := (be_handshake_secrets b)\<lparr>hs_local := bytes_at p 32\<rparr>,
            be_handshake_local_secret_available := 1, be_handshake_secrets_sent := 0\<rparr>))"
    and "yield_secret_cb 2 0 p 32 (Some b) = Some (1, Some ((yield_switch_level 2 0 b)
           \<lparr>be_handshake_secrets := (be_handshake_secrets b)\<lparr>hs_peer := bytes_at p 32\<rparr>,
            be_handshake_peer_secret_available := 1, be_handshake_secrets_sent := 0\<rparr>))"
    and "yield_secret_cb 3 1 p 32 (Some b) = Some (1, Some ((yield_switch_level 3 1 b)
           \<lparr>be_one_rtt_secrets := (be_one_rtt_secrets b)\<lparr>one_rtt_local := bytes_at p 32\<rparr>,
            be_one_rtt_local_secret_available := 1, be_one_rtt_secrets_sent := 0\<rparr>))"
    and "yield_secret_cb 3 0 p 32 (Some b) = Some (1, Some ((yield_switch_level 3 0 b)
           \<lparr>be_one_rtt_secrets := (be_one_rtt_secrets b)\<lparr>one_rtt_peer := bytes_at p 32\<rparr>,
            be_one_rtt_peer_secret_available := 1, be_one_rtt_secrets_sent := 0\<rparr>))"
proof -
  have fill: "memcpy dst 0 p 32 = Some (bytes_at p 32)" if "length dst = 32" for dst
    using assms(2) that by (simp add: splice_def)
  have lens: "length (hs_local (be_handshake_secrets b)) = 32" "length (hs_peer (be_handshake_secrets b)) = 32"
    "length (one_rtt_local (be_one_rtt_secrets b)) = 32" "length (one_rtt_peer (be_one_rtt_secrets b)) = 32"
    using be_okD(14,15) [OF assms(1)] by (auto simp: hs_secrets_ok_def one_rtt_secrets_ok_def)
  note frame = yield_switch_level_ok(3,4) [OF assms(1)]
  show "yield_secret_cb 2 1 p 32 (Some b) = Some (1, Some ((yield_switch_level 2 1 b)
           \<lparr>be_handshake_secrets := (be_handshake_secrets b)\<lparr>hs_local := bytes_at p 32\<rparr>,
            be_handshake_local_secret_available := 1, be_handshake_secrets_sent := 0\<rparr>))"
    using lens by (simp add: yield_secret_cb_def ossl_level_defs frame fill del: memcpy_within)
  show "yield_secret_cb 2 0 p 32 (Some b) = Some (1, Some ((yield_switch_level 2 0 b)
           \<lparr>be_handshake_secrets := (be_handshake_secrets b)\<lparr>hs_peer := bytes_at p 32\<rparr>,
            be_handshake_peer_secret_available := 1, be_handshake_secrets_sent := 0\<rparr>))"
    using lens by (simp add: yield_secret_cb_def ossl_level_defs frame fill del: memcpy_within)
  show "yield_secret_cb 3 1 p 32 (Some b) = Some (1, Some ((yield_switch_level 3 1 b)
           \<lparr>be_one_rtt_secrets := (be_one_rtt_secrets b)\<lparr>one_rtt_local := bytes_at p 32\<rparr>,
            be_one_rtt_local_secret_available := 1, be_one_rtt_secrets_sent := 0\<rparr>))"
    using lens by (simp add: yield_secret_cb_def ossl_level_defs frame fill del: memcpy_within)
  show "yield_secret_cb 3 0 p 32 (Some b) = Some (1, Some ((yield_switch_level 3 0 b)
           \<lparr>be_one_rtt_secrets := (be_one_rtt_secrets b)\<lparr>one_rtt_peer := bytes_at p 32\<rparr>,
            be_one_rtt_peer_secret_available := 1, be_one_rtt_secrets_sent := 0\<rparr>))"
    using lens by (simp add: yield_secret_cb_def ossl_level_defs frame fill del: memcpy_within)
qed

lemma yield_secret_level_only:
  assumes "n \<noteq> 32 \<or> lvl \<noteq> 2 \<and> lvl \<noteq> 3 \<or> dir \<noteq> 0 \<and> dir \<noteq> 1"
  shows "yield_secret_cb lvl dir p n (Some b) =
           Some (c_bool (n = 32 \<or> lvl \<noteq> 2 \<and> lvl \<noteq> 3), Some (yield_switch_level lvl dir b))"
  using assms by (auto simp: yield_secret_cb_def ossl_level_defs Let_def c_bool_def)

lemma yield_secret_ok:
  assumes "be_ok b" and "readable p n"
  shows "\<exists>rc b'. yield_secret_cb lvl dir p n (Some b) = Some (rc, Some b') \<and> be_ok b' \<and>
      be_queues b' = be_queues b"
proof (cases "n = 32 \<and> (lvl = 2 \<or> lvl = 3) \<and> (dir = 0 \<or> dir = 1)")
  case True
  with assms(2) have p: "readable p 32" "length (bytes_at p 32) = 32" by auto
  have ok: "be_ok (yield_switch_level lvl dir b)" "be_queues (yield_switch_level lvl dir b) = be_queues b"
    using yield_switch_level_ok [OF assms(1)] by auto
  have secrets: "hs_secrets_ok (be_handshake_secrets b)" "one_rtt_secrets_ok (be_one_rtt_secrets b)"
    using be_okD(14,15) [OF assms(1)] .
  from True consider "n = 32" "lvl = 2" "dir = 0" | "n = 32" "lvl = 2" "dir = 1"
    | "n = 32" "lvl = 3" "dir = 0" | "n = 32" "lvl = 3" "dir = 1" by blast
  then show ?thesis
    by cases (use ok p secrets yield_secret_stored [OF assms(1) p(1)] in
        \<open>simp add: be_ok_def be_queues_def be_inbound_def hs_secrets_ok_def one_rtt_secrets_ok_def\<close>)+
next
  case False
  then have "n \<noteq> 32 \<or> lvl \<noteq> 2 \<and> lvl \<noteq> 3 \<or> dir \<noteq> 0 \<and> dir \<noteq> 1" by blast
  from yield_secret_level_only [OF this] show ?thesis
    using yield_switch_level_ok [OF assms(1)] by simp
qed

lemma got_transport_params_fits:
  assumes "be_ok b" and "readable p n" and "unat n \<le> 512"
  shows "\<exists>b'. got_transport_params_cb p n (Some b) = Some (1, Some b') \<and> be_ok b' \<and>
      be_queues b' = be_queues b \<and>
      content (be_peer_transport_parameters b') (be_peer_transport_parameters_len b') = bytes_at p n \<and>
      be_peer_transport_parameters_available b' = 1 \<and> be_peer_transport_parameters_sent b' = 0"
proof -
  have "length (be_peer_transport_parameters b) = 512"
    using be_okD(13) [OF assms(1)] by (simp add: buf_ok_def)
  with assms show ?thesis
    by (simp add: got_transport_params_cb_def word_less_nat_alt content_fill be_queues_def be_inbound_def)
      (simp add: be_ok_def buf_ok_def)
qed

lemma got_transport_params_too_long:
  "512 < unat n \<Longrightarrow> got_transport_params_cb p n (Some b) = Some (0, Some b)"
  by (simp add: got_transport_params_cb_def word_less_nat_alt)

lemma keylog_ok: "be_ok b \<Longrightarrow> \<exists>b'. keylog_cb line (Some b) = Some b' \<and> be_ok b' \<and> be_queues b' = be_queues b"
  by (auto simp: keylog_cb_def be_ok_def be_queues_def be_inbound_def split: option.splits)

end
