(* ===== verification/OpenSSL_Backend_Handshake.thy ===== *)
theory OpenSSL_Backend_Handshake
  imports OpenSSL_Backend_Callbacks
begin

text \<open>
  From single callbacks to whole calls of \<^verbatim>\<open>SSL_do_handshake\<close>, by two instances of the callback contract,
  both for every OpenSSL: \<open>be_io\<close> accounts for the CRYPTO bytes that OpenSSL sends and consumes at each level
  and for those that a release passes over; \<open>be_cb\<close> keeps the invariant, the handles, the overflow flag and an
  upper bound on the bytes counted as released.
\<close>

section \<open>A whole handshake call\<close>

text \<open>
  No byte has arrived at a level after OpenSSL was handed the bytes before it: the bytes lent to
  OpenSSL, if any, are all the bytes pending at the level.
\<close>

definition no_late_bytes :: "backend \<Rightarrow> bool" where
  "no_late_bytes b \<longleftrightarrow>
     (\<forall>l < 4. be_inbound_crypto_read_len b ! l = 0 \<or>
        be_inbound_crypto_read_len b ! l = be_inbound_crypto_len b ! l)"

definition no_late_opt :: "backend option \<Rightarrow> bool" where
  "no_late_opt c = (case c of None \<Rightarrow> True | Some b \<Rightarrow> no_late_bytes b)"

definition backend_level :: "backend option \<Rightarrow> nat" where
  "backend_level c = (case c of None \<Rightarrow> 0 | Some b \<Rightarrow> unat (be_write_level b))"

text \<open>
  What a release of \<open>n\<close> bytes means for the backend: the first \<open>n\<close> pending bytes are consumed, and the bytes behind
  those that OpenSSL was lent are passed over.
\<close>

definition backend_released :: "backend option \<Rightarrow> size_t \<Rightarrow> nat \<times> byte list \<times> byte list" where
  "backend_released c n =
     (case c of None \<Rightarrow> (0, [], [])
      | Some b \<Rightarrow> let l = unat (be_read_level b) in
          (l, take (unat n) (be_in l b), drop (unat (be_inbound_crypto_read_len b ! l)) (be_in l b)))"

definition io_invar :: "backend option \<times> io_event list \<Rightarrow> bool" where
  "io_invar s \<longleftrightarrow> (\<exists>b. fst s = Some b \<and> be_ok b)"

definition out_at :: "nat \<Rightarrow> backend option \<Rightarrow> byte list" where
  "out_at l c = (case c of None \<Rightarrow> [] | Some b \<Rightarrow> be_out l b)"

definition in_at :: "nat \<Rightarrow> backend option \<Rightarrow> byte list" where
  "in_at l c = (case c of None \<Rightarrow> [] | Some b \<Rightarrow> be_in l b)"

lemma out_at_Some [simp]: "out_at l (Some b) = be_out l b"
  by (simp add: out_at_def)

lemma in_at_Some [simp]: "in_at l (Some b) = be_in l b"
  by (simp add: in_at_def)

lemma no_late_opt_Some [simp]: "no_late_opt (Some b) = no_late_bytes b"
  by (simp add: no_late_opt_def)

text \<open>Every accepted release gave back at least one byte.\<close>

definition nonempty_releases :: "io_event list \<Rightarrow> bool" where
  "nonempty_releases es \<longleftrightarrow> (\<forall>l. Consumed l [] \<notin> set es)"

lemma nonempty_releases_append [simp]:
  "nonempty_releases (es @ fs) \<longleftrightarrow> nonempty_releases es \<and> nonempty_releases fs"
  by (auto simp: nonempty_releases_def)

text \<open>What the events \<open>new\<close> account for, between two states of the backend.\<close>

definition io_with :: "io_event list \<Rightarrow> backend option \<Rightarrow> backend option \<Rightarrow> bool" where
  "io_with new c c' \<longleftrightarrow>
     (\<forall>l < 4. out_at l c' = out_at l c @ sent_at l new \<and>
        (passed_over_at l new = [] \<longrightarrow> in_at l c = consumed_at l new @ in_at l c')) \<and>
     (no_late_opt c \<and> nonempty_releases new \<longrightarrow> no_late_opt c' \<and> (\<forall>l < 4. passed_over_at l new = []))"

definition io_rel :: "backend option \<times> io_event list \<Rightarrow> backend option \<times> io_event list \<Rightarrow> bool" where
  "io_rel s t \<longleftrightarrow> (\<exists>new. snd t = snd s @ new \<and> io_with new (fst s) (fst t))"

lemma io_relI: "io_with new c c' \<Longrightarrow> io_rel (c, log) (c', log @ new)"
  by (simp add: io_rel_def)

lemma io_with_trans: "io_with m c c' \<Longrightarrow> io_with n c' c'' \<Longrightarrow> io_with (m @ n) c c''"
  by (simp add: io_with_def)

lemma io_rel_trans: "io_rel s t \<Longrightarrow> io_rel t u \<Longrightarrow> io_rel s u"
  unfolding io_rel_def by (metis append.assoc io_with_trans)

lemma io_rel_same:
  assumes "\<forall>l < 4. out_at l c' = out_at l c \<and> in_at l c' = in_at l c" and "no_late_opt c \<Longrightarrow> no_late_opt c'"
  shows "io_rel (c, log) (c', log)"
  using io_relI [of "[]" c c' log] assms by (simp add: io_with_def)

lemma io_rel_refl: "io_rel s s"
  by (cases s) (simp add: io_rel_same)

text \<open>A callback that leaves the queues alone, seen as a step.\<close>

lemma no_late_queues: "be_queues b' = be_queues b \<Longrightarrow> no_late_bytes b \<Longrightarrow> no_late_bytes b'"
  by (simp add: no_late_bytes_def be_queues_def be_inbound_def)

lemma io_queues:
  assumes "be_ok b'" and "be_queues b' = be_queues b"
  shows "io_invar (Some b', log) \<and> io_rel (Some b, log) (Some b', log)"
  using assms no_late_queues be_queuesD(1,2) [OF assms(2)] by (auto simp: io_invar_def intro!: io_rel_same)

lemma io_send:
  assumes "be_ok b" and "readable p n"
  shows "\<exists>rc c' b'. crypto_send_cb p n c (Some b) = Some (rc, c', Some b') \<and> be_ok b' \<and>
      io_rel (Some b, log)
        (Some b', if rc = 0 then log else log @ [Sent (backend_level (Some b)) (bytes_at p n)])"
proof (cases "length (be_out (unat (be_write_level b)) b) + unat n \<le> 8192")
  case True
  from crypto_send_fits [OF assms True, of c] obtain b' where
      b': "crypto_send_cb p n c (Some b) = Some (1, n, Some b')" "be_ok b'"
        "\<forall>l < 4. be_out l b' =
          (if l = unat (be_write_level b) then be_out l b @ bytes_at p n else be_out l b)"
        "\<forall>l < 4. be_in l b' = be_in l b" "be_inbound b' = be_inbound b"
    by blast
  moreover have "no_late_bytes b \<Longrightarrow> no_late_bytes b'"
    using b'(5) by (simp add: no_late_bytes_def be_inbound_def)
  then have "io_rel (Some b, log) (Some b', log @ [Sent (backend_level (Some b)) (bytes_at p n)])"
    using b'(3,4) by (intro io_relI) (simp add: io_with_def backend_level_def)
  ultimately show ?thesis by (intro exI [of _ 1] exI [of _ n] exI [of _ b']) simp
next
  case False
  then have "crypto_send_cb p n c (Some b) = Some (0, c, Some (b\<lparr>be_outbound_crypto_overflow := 1\<rparr>))"
    using crypto_send_overflow [OF assms(1)] by simp
  moreover have "be_ok (b\<lparr>be_outbound_crypto_overflow := 1\<rparr>)"
    using assms by (simp add: be_ok_def)
  moreover have "io_rel (Some b, log) (Some (b\<lparr>be_outbound_crypto_overflow := 1\<rparr>), log)"
    by (rule io_rel_same) (simp_all add: be_out_def be_in_def no_late_bytes_def)
  ultimately show ?thesis by (intro exI [of _ 0] exI [of _ c]) simp
qed

lemma no_late_released:
  assumes "be_ok b" and "be_ok b'" and "no_late_bytes b" and "l = unat (be_read_level b)"
    and "\<forall>k < 4. k \<noteq> l \<longrightarrow> be_in k b' = be_in k b"
    and "be_inbound_crypto_read_len b' = (be_inbound_crypto_read_len b)[l := 0]"
  shows "no_late_bytes b'"
  unfolding no_late_bytes_def
proof (intro allI impI)
  fix k :: nat assume k: "k < 4"
  show "be_inbound_crypto_read_len b' ! k = 0 \<or>
      be_inbound_crypto_read_len b' ! k = be_inbound_crypto_len b' ! k"
  proof (cases "k = l")
    case False
    with assms(5) k have "be_inbound_crypto_len b' ! k = be_inbound_crypto_len b ! k"
      using be_in_len [OF assms(1,2)] by simp
    with False k assms(3,6) show ?thesis by (simp add: no_late_bytes_def)
  qed (use k assms(6) be_okD(3) [OF assms(1)] in simp)
qed

lemma io_release:
  assumes "be_ok b"
  shows "\<exists>rc b'. crypto_release_rcd_cb n (Some b) = Some (rc, Some b') \<and> be_ok b' \<and>
      io_rel (Some b, log)
        (Some b', if rc = 0 then log
           else log @ (case backend_released (Some b) n of (l, used, late) \<Rightarrow> [Consumed l used, Passed_over l late]))"
proof (cases "unat n \<le> unat (be_inbound_crypto_read_len b ! unat (be_read_level b))")
  case True
  let ?l = "unat (be_read_level b)"
  let ?r = "unat (be_inbound_crypto_read_len b ! ?l)"
  have l: "?l < 4" using be_okD(9) [OF assms] .
  from crypto_release_fits [OF assms True] obtain b' where
      b': "crypto_release_rcd_cb n (Some b) = Some (1, Some b')" "be_ok b'"
        "\<forall>l < 4. be_in l b' =
          (if l = ?l then drop (unat n) (take (unat (be_inbound_crypto_read_len b ! l)) (be_in l b))
           else be_in l b)"
        "\<forall>l. be_out l b' = be_out l b"
        "be_inbound_crypto_read_len b' = (be_inbound_crypto_read_len b)[?l := 0]"
    by blast
  have len: "length (be_in ?l b) = unat (be_inbound_crypto_len b ! ?l)" using assms l by simp
  have kept: "be_in ?l b = take (unat n) (be_in ?l b) @ be_in ?l b'" if "drop ?r (be_in ?l b) = []"
    using that b'(3) l by simp
  have none: "drop ?r (be_in ?l b) = []" if "no_late_bytes b" "take (unat n) (be_in ?l b) \<noteq> []"
  proof -
    have "be_inbound_crypto_read_len b ! ?l \<noteq> 0" using True that(2) by auto
    with that(1) l have "be_inbound_crypto_read_len b ! ?l = be_inbound_crypto_len b ! ?l"
      by (auto simp: no_late_bytes_def)
    then show ?thesis using len by simp
  qed
  have "no_late_bytes b'" if "no_late_bytes b"
    by (rule no_late_released [OF assms b'(2) that refl _ b'(5)]) (use b'(3) in simp)
  then have "io_rel (Some b, log) (Some b', log @ [Consumed ?l (take (unat n) (be_in ?l b)), Passed_over ?l (drop ?r (be_in ?l b))])"
    using b'(3,4) kept none by (intro io_relI) (auto simp: io_with_def nonempty_releases_def)
  then show ?thesis
    using b'(1,2) by (intro exI [of _ 1] exI [of _ b']) (simp add: backend_released_def Let_def)
next
  case False
  then have "crypto_release_rcd_cb n (Some b) = Some (0, Some b)"
    using crypto_release_refused by simp
  with assms io_rel_refl show ?thesis by (intro exI [of _ 0] exI [of _ b]) simp
qed

lemma io_recv:
  assumes "be_ok b" and "crypto_recv_rcd_cb (Some b) = (rc, buf, n, c)"
  shows "\<exists>b'. c = Some b' \<and> be_ok b' \<and> io_rel (Some b, log) (Some b', log)"
proof -
  from crypto_recv_cases [OF assms] obtain b' where
      b': "c = Some b'" "be_ok b'" "\<forall>l. be_in l b' = be_in l b" "\<forall>l. be_out l b' = be_out l b"
    and len: "be_inbound_crypto_read_len b' = be_inbound_crypto_read_len b \<or>
      be_inbound_crypto_read_len b' = (be_inbound_crypto_read_len b)
        [unat (be_read_level b) := be_inbound_crypto_len b ! unat (be_read_level b)]"
    by (auto simp: Let_def split: if_splits)
  have "be_inbound_crypto_len b' ! k = be_inbound_crypto_len b ! k" if "k < 4" for k
    using be_in_len [OF assms(1) b'(2) that] b'(3) by simp
  then have "no_late_bytes b'" if "no_late_bytes b"
    using that len be_okD(3,9) [OF assms(1)] unfolding no_late_bytes_def
    by (metis nth_list_update)
  with b' show ?thesis by (auto intro!: io_rel_same)
qed

interpretation be_io: callback_contract
  "observe backend_level backend_released quicz_openssl_tls_dispatch" io_invar io_rel
proof (unfold_locales, goal_cases)
  case (1 s)
  show ?case by (rule io_rel_refl)
next
  case (2 s t u)
  then show ?case by (rule io_rel_trans)
next
  case (3 s p n c)
  then obtain b log where s: "s = (Some b, log)" "be_ok b"
    by (cases s) (auto simp: io_invar_def)
  from io_send [OF s(2) 3(2), of c log] show ?case
    by (auto simp: observe_def quicz_openssl_tls_dispatch_def s(1) io_invar_def)
next
  case (4 s rc buf m s')
  then obtain b log where s: "s = (Some b, log)" "be_ok b"
    by (cases s) (auto simp: io_invar_def)
  obtain c where c: "crypto_recv_rcd_cb (Some b) = (rc, buf, m, c)" "s' = (c, log)"
    using 4(2) by (auto simp: observe_def quicz_openssl_tls_dispatch_def s(1) split: prod.splits)
  from io_recv [OF s(2) c(1), of log] show ?case
    by (auto simp: s(1) c(2) io_invar_def)
next
  case (5 s n)
  then obtain b log where s: "s = (Some b, log)" "be_ok b"
    by (cases s) (auto simp: io_invar_def)
  from io_release [OF s(2), of n log] show ?case
    by (auto simp: observe_def quicz_openssl_tls_dispatch_def s(1) io_invar_def)
next
  case (6 s p n lvl dir)
  then obtain b log where s: "s = (Some b, log)" "be_ok b"
    by (cases s) (auto simp: io_invar_def)
  from yield_secret_ok [OF s(2) 6(2), of lvl dir] obtain rc b' where
    "yield_secret_cb lvl dir p n (Some b) = Some (rc, Some b')" "be_ok b'" "be_queues b' = be_queues b"
    by blast
  with io_queues [of b' b log] show ?case
    by (auto simp: observe_def quicz_openssl_tls_dispatch_def s(1))
next
  case (7 s p n)
  then obtain b log where s: "s = (Some b, log)" "be_ok b"
    by (cases s) (auto simp: io_invar_def)
  show ?case
  proof (cases "unat n \<le> 512")
    case True
    with got_transport_params_fits [OF s(2) 7(2)] io_queues show ?thesis
      by (fastforce simp: observe_def quicz_openssl_tls_dispatch_def s(1))
  next
    case False
    with got_transport_params_too_long [of n p b] io_queues [OF s(2)] show ?thesis
      by (auto simp: observe_def quicz_openssl_tls_dispatch_def s(1))
  qed
next
  case (8 s code rc s')
  then show ?case
    by (auto simp: observe_def quicz_openssl_tls_dispatch_def alert_cb_def io_rel_refl split: prod.splits)
next
  case (9 s line)
  then obtain b log where s: "s = (Some b, log)" "be_ok b"
    by (cases s) (auto simp: io_invar_def)
  from keylog_ok [OF s(2), of line] io_queues [of _ b log] show ?case
    by (auto simp: observe_def quicz_openssl_tls_dispatch_def s(1))
qed

section \<open>Accounting\<close>

definition be_pending :: "backend \<Rightarrow> nat" where
  "be_pending b = (\<Sum>l < 4. length (be_in l b))"

text \<open>
  What may happen to the backend while at most \<open>n\<close> bytes are received: the handles stay, an overflow
  stays, and the bytes counted as released are bytes that are no longer pending.
\<close>

definition track :: "nat \<Rightarrow> backend \<Rightarrow> backend \<Rightarrow> bool" where
  "track n b b' \<longleftrightarrow>
     be_ctx b' = be_ctx b \<and> be_ssl b' = be_ssl b \<and>
     (be_outbound_crypto_overflow b \<noteq> 0 \<longrightarrow> be_outbound_crypto_overflow b' \<noteq> 0) \<and>
     (\<exists>m d. m \<le> n \<and> be_received_crypto_len b' = be_received_crypto_len b + word_of_nat m \<and>
        be_inbound_crypto_released_len b' = be_inbound_crypto_released_len b + word_of_nat d \<and>
        d + be_pending b' \<le> be_pending b + m)"

lemma trackI:
  assumes "be_ctx b' = be_ctx b" and "be_ssl b' = be_ssl b"
    and "be_outbound_crypto_overflow b \<noteq> 0 \<Longrightarrow> be_outbound_crypto_overflow b' \<noteq> 0"
    and "be_received_crypto_len b' = be_received_crypto_len b + word_of_nat m"
    and "be_inbound_crypto_released_len b' = be_inbound_crypto_released_len b + word_of_nat d"
    and "d + be_pending b' \<le> be_pending b + m" and "m \<le> n"
  shows "track n b b'"
  using assms unfolding track_def by blast

lemma track_refl: "track n b b"
  by (rule trackI [where m = 0 and d = 0]) simp_all

lemma track_trans:
  assumes "track m b b'" and "track n b' b''"
  shows "track (m + n) b b''"
proof -
  from assms(1) obtain i d where 1: "i \<le> m"
      "be_received_crypto_len b' = be_received_crypto_len b + word_of_nat i"
      "be_inbound_crypto_released_len b' = be_inbound_crypto_released_len b + word_of_nat d"
      "d + be_pending b' \<le> be_pending b + i"
    unfolding track_def by blast
  from assms(2) obtain j e where 2: "j \<le> n"
      "be_received_crypto_len b'' = be_received_crypto_len b' + word_of_nat j"
      "be_inbound_crypto_released_len b'' = be_inbound_crypto_released_len b' + word_of_nat e"
      "e + be_pending b'' \<le> be_pending b' + j"
    unfolding track_def by blast
  show ?thesis
    by (rule trackI [where m = "i + j" and d = "d + e"])
      (use assms 1 2 in \<open>simp_all add: track_def\<close>)
qed

lemma track_mono: "track m b b' \<Longrightarrow> m \<le> n \<Longrightarrow> track n b b'"
  unfolding track_def by (meson order_trans)

lemma track_inbound:
  assumes "be_inbound b' = be_inbound b" and "be_ctx b' = be_ctx b" and "be_ssl b' = be_ssl b"
    and "be_outbound_crypto_overflow b \<noteq> 0 \<Longrightarrow> be_outbound_crypto_overflow b' \<noteq> 0"
  shows "track n b b'"
  by (rule trackI [where m = 0 and d = 0])
    (use assms in \<open>simp_all add: be_inbound_def be_pending_def be_in_def\<close>)

lemma track_queues: "be_queues b' = be_queues b \<Longrightarrow> track n b b'"
  by (rule track_inbound) (simp_all add: be_queues_def be_inbound_def)

lemma sum_one_level:
  fixes f g :: "nat \<Rightarrow> nat"
  assumes "l < 4" and "\<And>k. k < 4 \<Longrightarrow> k \<noteq> l \<Longrightarrow> f k = g k" and "d + f l \<le> g l + m"
  shows "d + (\<Sum>k < 4. f k) \<le> (\<Sum>k < 4. g k) + m"
proof -
  have "(\<Sum>k \<in> {..<4} - {l}. f k) = (\<Sum>k \<in> {..<4} - {l}. g k)"
    using assms(2) by (intro sum.cong) auto
  with assms(1,3) show ?thesis
    by (simp add: sum.remove [of "{..<4}" l])
qed

lemma track_recv:
  assumes "be_ok b" and "crypto_recv_rcd_cb (Some b) = (rc, buf, n, c)"
  shows "\<exists>b'. c = Some b' \<and> be_ok b' \<and> track 0 b b'"
proof -
  from crypto_recv_cases [OF assms] obtain b' where b': "c = Some b'" "be_ok b'"
      "\<forall>l. be_in l b' = be_in l b"
      "be_inbound_crypto_released_len b' = be_inbound_crypto_released_len b" "be_kept b' = be_kept b"
    by blast
  then have "track 0 b b'"
    by (intro trackI [where m = 0 and d = 0]) (simp_all add: be_kept_def be_pending_def)
  with b' show ?thesis by blast
qed

lemma track_release:
  assumes "be_ok b"
  shows "\<exists>rc b'. crypto_release_rcd_cb n (Some b) = Some (rc, Some b') \<and> be_ok b' \<and> track 0 b b'"
proof (cases "unat n \<le> unat (be_inbound_crypto_read_len b ! unat (be_read_level b))")
  case True
  let ?l = "unat (be_read_level b)"
  have l: "?l < 4" using be_okD(9) [OF assms] .
  from crypto_release_fits [OF assms True] obtain b' where
      b': "crypto_release_rcd_cb n (Some b) = Some (1, Some b')" "be_ok b'"
        "\<forall>l < 4. be_in l b' =
          (if l = ?l then drop (unat n) (take (unat (be_inbound_crypto_read_len b ! l)) (be_in l b))
           else be_in l b)"
        "be_inbound_crypto_released_len b' = be_inbound_crypto_released_len b + n" "be_kept b' = be_kept b"
    by blast
  have "unat n + length (be_in ?l b') \<le> length (be_in ?l b)"
    using b'(3) l True be_okD(7) [OF assms l] assms by (simp add: min_def)
  then have "unat n + be_pending b' \<le> be_pending b"
    unfolding be_pending_def
    using sum_one_level [OF l, of "\<lambda>k. length (be_in k b')" "\<lambda>k. length (be_in k b)" "unat n" 0] b'(3)
    by simp
  then have "track 0 b b'"
    using b'(4,5) by (intro trackI [where m = 0 and d = "unat n"]) (simp_all add: be_kept_def)
  with b' show ?thesis by blast
next
  case False
  then show ?thesis using crypto_release_refused assms track_refl by fastforce
qed

lemma track_send:
  assumes "be_ok b" and "readable p n"
  shows "\<exists>rc c' b'. crypto_send_cb p n c (Some b) = Some (rc, c', Some b') \<and> be_ok b' \<and> track 0 b b'"
proof (cases "length (be_out (unat (be_write_level b)) b) + unat n \<le> 8192")
  case True
  from crypto_send_fits [OF assms True, of c] obtain b' where
      b': "crypto_send_cb p n c (Some b) = Some (1, n, Some b')" "be_ok b'"
        "be_inbound b' = be_inbound b" "be_kept b' = be_kept b"
    by blast
  then have "track 0 b b'" by (intro track_inbound) (simp_all add: be_kept_def)
  with b' show ?thesis by blast
next
  case False
  have "track 0 b (b\<lparr>be_outbound_crypto_overflow := 1\<rparr>)"
    by (rule track_inbound) (simp_all add: be_inbound_def)
  moreover have "be_ok (b\<lparr>be_outbound_crypto_overflow := 1\<rparr>)"
    using assms by (simp add: be_ok_def)
  ultimately show ?thesis using False crypto_send_overflow [OF assms(1)] by simp
qed

section \<open>Handshake calls\<close>

definition be_ok_opt :: "backend option \<Rightarrow> bool" where
  "be_ok_opt c = (case c of None \<Rightarrow> True | Some b \<Rightarrow> be_ok b)"

definition track_opt :: "nat \<Rightarrow> backend option \<Rightarrow> backend option \<Rightarrow> bool" where
  "track_opt n c c' =
     (case c of None \<Rightarrow> c' = None | Some b \<Rightarrow> \<exists>b'. c' = Some b' \<and> track n b b')"

lemma be_ok_opt_simps [simp]: "be_ok_opt None" "be_ok_opt (Some b) = be_ok b"
  by (simp_all add: be_ok_opt_def)

lemma track_opt_simps [simp]:
  "track_opt n None c' = (c' = None)"
  "track_opt n (Some b) c' = (\<exists>b'. c' = Some b' \<and> track n b b')"
  by (simp_all add: track_opt_def)

lemma track_opt_trans: "track_opt m c c' \<Longrightarrow> track_opt n c' c'' \<Longrightarrow> track_opt (m + n) c c''"
  by (cases c) (auto, blast intro: track_trans)

lemma track_opt_refl: "track_opt n c c"
  by (cases c) (auto intro: track_refl)

interpretation be_cb: callback_contract quicz_openssl_tls_dispatch be_ok_opt "track_opt 0"
proof (unfold_locales, goal_cases)
  case (1 s)
  show ?case by (rule track_opt_refl)
next
  case (2 s t u)
  then show ?case using track_opt_trans [of 0 s t 0 u] by simp
next
  case (3 s p n c)
  then show ?case
    using track_send [OF _ 3(2), of _ c]
    by (cases s) (auto simp: quicz_openssl_tls_dispatch_def crypto_send_cb_def [of _ _ _ None],
        metis be_ok_opt_simps(2))
next
  case (4 s rc buf m s')
  then show ?case
    using track_recv
    by (cases s) (auto simp: quicz_openssl_tls_dispatch_def crypto_recv_rcd_cb_def [of None],
        (metis be_ok_opt_simps(2))+)
next
  case (5 s n)
  then show ?case
    using track_release [of _ n]
    by (cases s) (auto simp: quicz_openssl_tls_dispatch_def crypto_release_rcd_cb_def [of _ None],
        metis be_ok_opt_simps(2))
next
  case (6 s p n lvl dir)
  then show ?case
    using yield_secret_ok [OF _ 6(2), of _ lvl dir] track_queues
    by (cases s) (auto simp: quicz_openssl_tls_dispatch_def yield_secret_cb_def [of _ _ _ _ None],
        metis be_ok_opt_simps(2))
next
  case (7 s p n)
  show ?case
  proof (cases "s = None \<or> 512 < unat n")
    case True
    with 7 show ?thesis
      by (cases s) (auto simp: quicz_openssl_tls_dispatch_def got_transport_params_cb_def [of _ _ None]
          got_transport_params_too_long track_refl)
  next
    case False
    with 7 obtain b where "s = Some b" "be_ok b" "unat n \<le> 512" by auto
    with got_transport_params_fits [OF this(2) 7(2) this(3)] show ?thesis
      by (auto simp: quicz_openssl_tls_dispatch_def intro: track_queues)
  qed
next
  case (8 s code rc s')
  then show ?case by (auto simp: quicz_openssl_tls_dispatch_def alert_cb_def track_opt_refl)
next
  case (9 s line)
  then show ?case
    using keylog_ok [of _ line] track_queues
    by (cases s) (auto simp: quicz_openssl_tls_dispatch_def keylog_cb_def [of _ None],
        metis be_ok_opt_simps(2), metis)
qed

lemma drive_backend_ok:
  assumes "be_ok b"
  shows "\<exists>rc w' b'. drive_backend L ssl w b = Some (rc, w', b') \<and> be_ok b' \<and> track 0 b b'"
proof -
  let ?b0 = "b\<lparr>be_handshake_drive_calls := be_handshake_drive_calls b + 1\<rparr>"
  have 0: "be_ok ?b0" "track 0 b ?b0"
    using assms by (simp_all add: be_ok_def track_queues be_queues_def be_inbound_def)
  with be_cb.run_engine_ok [of "Some ?b0" "SSL_do_handshake L ssl w"] obtain rc w' b1 where
      1: "run_engine quicz_openssl_tls_dispatch (SSL_do_handshake L ssl w) (Some ?b0) =
         Some (rc, w', Some b1)" "be_ok b1" "track 0 ?b0 b1"
    by auto
  let ?b2 = "b1\<lparr>be_last_ssl_error := (if rc \<noteq> 1 then SSL_get_error L ssl rc w' else SSL_ERROR_NONE L)\<rparr>"
  have "be_ok ?b2" "track 0 b1 ?b2"
    using 1(2) by (simp_all add: be_ok_def track_queues be_queues_def be_inbound_def)
  with 0 1 track_trans [of 0 b ?b0 0 b1] track_trans [of 0 b b1 0 ?b2] show ?thesis
    by (simp add: drive_backend_def)
qed

end
