(* ===== verification/OpenSSL_Backend_Calls.thy ===== *)
theory OpenSSL_Backend_Calls
  imports OpenSSL_Backend_Handshake
begin

text \<open>
  The functions of the TLS backend ABI on a backend that satisfies the invariant: receiving and pulling
  CRYPTO bytes on every branch, the interfaces that the backend provides (\<open>byte_queue\<close> inbound and outbound,
  \<open>mailbox\<close> for the peer's transport parameters), sequences of calls, the constructor.
\<close>

section \<open>Receiving CRYPTO bytes\<close>

text \<open>The packet number spaces and the record protection level each one is kept at.\<close>

definition is_space :: "cint \<Rightarrow> bool" where
  "is_space s \<longleftrightarrow> s = QUICZ_TLS_BACKEND_INITIAL \<or> s = QUICZ_TLS_BACKEND_HANDSHAKE \<or>
     s = QUICZ_TLS_BACKEND_APPLICATION"

definition space_level :: "cint \<Rightarrow> uint32" where
  "space_level s =
     (if s = QUICZ_TLS_BACKEND_INITIAL then OSSL_RECORD_PROTECTION_LEVEL_NONE
      else if s = QUICZ_TLS_BACKEND_HANDSHAKE then OSSL_RECORD_PROTECTION_LEVEL_HANDSHAKE
      else OSSL_RECORD_PROTECTION_LEVEL_APPLICATION)"

lemma packet_space_level_is [simp]:
  "is_space s \<Longrightarrow> packet_space_level s (Some x) = (1, Some (space_level s))"
  "\<not> is_space s \<Longrightarrow> packet_space_level s (Some x) = (0, Some x)"
  by (auto simp: is_space_def packet_space_level_def space_level_def)

lemma space_level_bound [simp]: "unat (space_level s) < 4" "space_level s < 4"
  by (simp_all add: space_level_def ossl_level_defs)

lemma space_level_inj: "is_space s \<Longrightarrow> is_space t \<Longrightarrow> unat (space_level s) = unat (space_level t) \<longleftrightarrow> s = t"
  by (auto simp: is_space_def space_level_def ossl_level_defs packet_space_defs)

text \<open>The bytes that OpenSSL was handed a pointer to and has not released.\<close>

definition be_lent :: "nat \<Rightarrow> backend \<Rightarrow> byte list" where
  "be_lent l b = content (be_inbound_crypto b ! l) (be_inbound_crypto_read_len b ! l)"

lemma receive_fits:
  assumes "be_ok b" and "be_ssl b \<noteq> None" and "is_space s" and "readable p n"
    and "length (be_in (unat (space_level s)) b) + unat n \<le> 8192"
  shows "\<exists>b'. quicz_openssl_tls_backend_receive s p n (Some b) = Some (QUICZ_TLS_BACKEND_OK, Some b') \<and>
      be_ok b' \<and>
      (\<forall>l < 4. be_in l b' =
        (if l = unat (space_level s) then be_in l b @ bytes_at p n else be_in l b)) \<and>
      (\<forall>l < 4. be_lent l b' = be_lent l b) \<and> (\<forall>l. be_out l b' = be_out l b) \<and>
      be_inbound_crypto_read_len b' = be_inbound_crypto_read_len b \<and>
      be_read_level b' = be_read_level b \<and>
      be_received_crypto_len b' = be_received_crypto_len b + n \<and>
      be_inbound_crypto_released_len b' = be_inbound_crypto_released_len b \<and>
      be_kept (b'\<lparr>be_received_crypto_len := 0\<rparr>) = be_kept (b\<lparr>be_received_crypto_len := 0\<rparr>)"
proof -
  let ?l = "unat (space_level s)"
  have l: "?l < 4" by simp
  have ok: "buf_ok 8192 (be_inbound_crypto b ! ?l) (be_inbound_crypto_len b ! ?l)"
    and read: "unat (be_inbound_crypto_read_len b ! ?l) \<le> unat (be_inbound_crypto_len b ! ?l)"
    using be_okD(6,7) [OF assms(1) l] .
  have fits: "unat (be_inbound_crypto_len b ! ?l) + unat n \<le> 8192"
    using assms(1,5) by simp
  then have "\<not> n > 8192 - be_inbound_crypto_len b ! ?l"
    using ok guard_exceeds [of "be_inbound_crypto_len b ! ?l" 8192 n] by (simp add: buf_ok_def)
  moreover from memcpy_append [OF ok assms(4) fits] read obtain dst where
      "memcpy (be_inbound_crypto b ! ?l) (be_inbound_crypto_len b ! ?l) p n = Some dst"
      "buf_ok 8192 dst (be_inbound_crypto_len b ! ?l + n)"
      "content dst (be_inbound_crypto_len b ! ?l + n) =
        content (be_inbound_crypto b ! ?l) (be_inbound_crypto_len b ! ?l) @ bytes_at p n"
      "content dst (be_inbound_crypto_read_len b ! ?l) =
        content (be_inbound_crypto b ! ?l) (be_inbound_crypto_read_len b ! ?l)"
    by auto
  moreover have "unat (be_inbound_crypto_read_len b ! ?l) \<le> unat (be_inbound_crypto_len b ! ?l + n)"
    using fits read by (simp add: unat_add_within [of _ _ 8192])
  ultimately show ?thesis
    using assms
    by (simp add: quicz_openssl_tls_backend_receive_def Let_def be_out_def be_in_def be_ok_def
        be_lent_def be_kept_def nth_list_update)
qed

lemma receive_refused:
  assumes "be_ok b" and "be_ssl b \<noteq> None" and "is_space s"
    and "8192 < length (be_in (unat (space_level s)) b) + unat n"
  shows "quicz_openssl_tls_backend_receive s p n (Some b) =
           Some (QUICZ_TLS_BACKEND_BUFFER_TOO_SMALL, Some b)"
proof -
  let ?l = "unat (space_level s)"
  have "buf_ok 8192 (be_inbound_crypto b ! ?l) (be_inbound_crypto_len b ! ?l)"
    using be_okD(6) [OF assms(1)] by simp
  then have "n > 8192 - be_inbound_crypto_len b ! ?l"
    using assms guard_exceeds [of "be_inbound_crypto_len b ! ?l" 8192 n] by (simp add: buf_ok_def)
  with assms show ?thesis by (simp add: quicz_openssl_tls_backend_receive_def Let_def)
qed

lemma receive_invalid:
  "be_ssl b = None \<or> \<not> is_space s \<Longrightarrow>
     quicz_openssl_tls_backend_receive s p n (Some b) = Some (QUICZ_TLS_BACKEND_INTERNAL, Some b)"
  by (auto simp: quicz_openssl_tls_backend_receive_def)

lemma track_receive:
  assumes "be_ok b" and "readable p n"
  shows "\<exists>st b'. quicz_openssl_tls_backend_receive s p n (Some b) = Some (st, Some b') \<and> be_ok b' \<and>
      track (unat n) b b'"
proof -
  let ?l = "unat (space_level s)"
  consider "be_ssl b = None \<or> \<not> is_space s" | "be_ssl b \<noteq> None" "is_space s" "8192 < length (be_in ?l b) + unat n"
    | "be_ssl b \<noteq> None" "is_space s" "length (be_in ?l b) + unat n \<le> 8192"
    by linarith
  then show ?thesis
  proof cases
    case 3
    from receive_fits [OF assms(1) 3(1,2) assms(2) 3(3)] obtain b' where
        b': "quicz_openssl_tls_backend_receive s p n (Some b) = Some (QUICZ_TLS_BACKEND_OK, Some b')"
          "be_ok b'" "\<forall>l < 4. be_in l b' = (if l = ?l then be_in l b @ bytes_at p n else be_in l b)"
          "be_received_crypto_len b' = be_received_crypto_len b + n"
          "be_inbound_crypto_released_len b' = be_inbound_crypto_released_len b"
          "be_kept (b'\<lparr>be_received_crypto_len := 0\<rparr>) = be_kept (b\<lparr>be_received_crypto_len := 0\<rparr>)"
      by blast
    have "be_pending b' \<le> be_pending b + unat n"
      unfolding be_pending_def
      using sum_one_level [of ?l "\<lambda>k. length (be_in k b')" "\<lambda>k. length (be_in k b)" 0 "unat n"]
        b'(3) assms by simp
    then have "track (unat n) b b'"
      using b'(4,5,6) by (intro trackI [where m = "unat n" and d = 0]) (simp_all add: be_kept_def)
    with b' show ?thesis by blast
  qed (use assms(1) receive_refused [OF assms(1)] receive_invalid track_refl in auto)
qed

section \<open>Pulling CRYPTO bytes\<close>

lemma be_out_empty: "be_ok b \<Longrightarrow> l < 4 \<Longrightarrow> be_out l b = [] \<longleftrightarrow> be_outbound_crypto_len b ! l = 0"
  using length_be_out by (metis length_0_conv unat_eq_zero)

lemma copy_pending_none:
  "be_ok b \<Longrightarrow> level < 4 \<Longrightarrow> be_out (unat level) b = [] \<Longrightarrow>
     copy_pending_outbound level out out_len written b = Some (QUICZ_TLS_BACKEND_PENDING, b, out, written)"
  by (simp add: copy_pending_outbound_def Let_def be_out_empty word_less_nat_alt word_le_nat_alt)

lemma copy_pending_too_small:
  "be_ok b \<Longrightarrow> level < 4 \<Longrightarrow> unat out_len < length (be_out (unat level) b) \<Longrightarrow>
     copy_pending_outbound level out out_len written b =
       Some (QUICZ_TLS_BACKEND_BUFFER_TOO_SMALL, b, out, written)"
  by (auto simp: copy_pending_outbound_def Let_def word_less_nat_alt word_le_nat_alt)

definition be_drained :: "nat \<Rightarrow> backend \<Rightarrow> backend" where
  "be_drained l b = b\<lparr>be_outbound_crypto_len := (be_outbound_crypto_len b)[l := 0]\<rparr>"

lemma be_drained_ok:
  assumes "be_ok b" and "l < 4"
  shows "be_ok (be_drained l b)" "track n b (be_drained l b)"
    "k < 4 \<Longrightarrow> be_out k (be_drained l b) = (if k = l then [] else be_out k b)"
    "be_in k (be_drained l b) = be_in k b"
  using assms
  by (auto simp: be_drained_def be_ok_def nth_list_update be_out_def be_in_def be_inbound_def
      buf_ok_def intro!: track_inbound)

lemma copy_pending_delivers:
  assumes "be_ok b" and "level < 4" and "be_out (unat level) b \<noteq> []"
    and "length (be_out (unat level) b) \<le> unat out_len" and "writable out out_len"
  shows "copy_pending_outbound level out out_len written b =
    Some (QUICZ_TLS_BACKEND_OK, be_drained (unat level) b, put_bytes out (be_out (unat level) b),
      word_of_nat (length (be_out (unat level) b)))"
proof -
  let ?l = "unat level"
  have l: "?l < 4" using assms(2) by (simp add: word_less_nat_alt)
  have ok: "buf_ok 8192 (be_outbound_crypto b ! ?l) (be_outbound_crypto_len b ! ?l)"
    using be_okD(8) [OF assms(1) l] .
  have "memcpy_out out (be_outbound_crypto b ! ?l) (be_outbound_crypto_len b ! ?l) =
      Some (put_bytes out (be_out ?l b))"
    using memcpy_out_content [OF ok assms(5)] assms(1,4) l by (simp flip: be_out_def)
  moreover have "\<not> level \<ge> 4" "\<not> out_len < be_outbound_crypto_len b ! ?l" "be_outbound_crypto_len b ! ?l \<noteq> 0"
    using assms l by (auto simp: word_less_nat_alt word_le_nat_alt be_out_empty)
  ultimately show ?thesis
    using assms(1) l by (simp add: copy_pending_outbound_def Let_def be_drained_def)
qed

lemma copy_pending_total:
  assumes "be_ok b" and "level < 4" and "writable out out_len"
  shows "\<exists>st b' out' written'.
      copy_pending_outbound level out out_len written b = Some (st, b', out', written') \<and>
      be_ok b' \<and> track 0 b b' \<and>
      (st = QUICZ_TLS_BACKEND_PENDING \<longrightarrow> b' = b \<and> out' = out \<and> written' = written)"
proof -
  let ?l = "unat level"
  have l: "?l < 4" using assms(2) by (simp add: word_less_nat_alt)
  consider "be_out ?l b = []" | "unat out_len < length (be_out ?l b)"
    | "be_out ?l b \<noteq> []" "length (be_out ?l b) \<le> unat out_len" by linarith
  then show ?thesis
    using assms copy_pending_none copy_pending_too_small copy_pending_delivers be_drained_ok [OF assms(1) l]
      track_refl by cases auto
qed

lemma track_pull:
  assumes "be_ok b" and "writable out out_len"
  shows "\<exists>st b' out' written w'.
      quicz_openssl_tls_backend_pull L s out out_len wl w (Some b) = Some ((st, Some b', out', written), w') \<and>
      be_ok b' \<and> track 0 b b'"
proof (cases "be_ssl b = None \<or> \<not> is_space s")
  case True
  with assms(1) track_refl show ?thesis
    by (auto simp: quicz_openssl_tls_backend_pull_def split: option.splits)
next
  case False
  then obtain ssl where ssl: "be_ssl b = Some ssl" and s: "is_space s" by auto
  let ?level = "space_level s"
  obtain st1 b1 out1 written1 where
      1: "copy_pending_outbound ?level out out_len 0 b = Some (st1, b1, out1, written1)" "be_ok b1"
        "track 0 b b1" "st1 = QUICZ_TLS_BACKEND_PENDING \<longrightarrow> b1 = b \<and> out1 = out \<and> written1 = 0"
    using copy_pending_total [OF assms(1) _ assms(2)] space_level_bound by metis
  show ?thesis
  proof (cases "st1 \<noteq> QUICZ_TLS_BACKEND_PENDING \<or> ?level \<noteq> OSSL_RECORD_PROTECTION_LEVEL_NONE")
    case True
    then show ?thesis
      using 1 ssl s by (cases "st1 = QUICZ_TLS_BACKEND_PENDING")
        (auto simp: quicz_openssl_tls_backend_pull_def Let_def)
  next
    case False
    obtain rc w2 b2 where 2: "drive_backend L ssl w b1 = Some (rc, w2, b2)" "be_ok b2" "track 0 b1 b2"
      using drive_backend_ok [OF 1(2), of L ssl w] by blast
    obtain st3 b3 out3 written3 where
        3: "copy_pending_outbound ?level out1 out_len written1 b2 = Some (st3, b3, out3, written3)"
          "be_ok b3" "track 0 b2 b3"
      using copy_pending_total [OF 2(2) _ assms(2)] 1(4) False space_level_bound by metis
    have "track 0 b b2" "track 0 b b3"
      using track_trans [OF 1(3) 2(3)] track_trans [OF _ 3(3), of 0 b] by simp_all
    then show ?thesis
      using 1 2 3 ssl s False by (auto simp: quicz_openssl_tls_backend_pull_def Let_def)
  qed
qed

section \<open>The interfaces that the backend provides\<close>

definition be_live :: "backend option \<Rightarrow> bool" where
  "be_live c \<longleftrightarrow> (\<exists>b. c = Some b \<and> be_ok b \<and> be_ssl b \<noteq> None)"

interpretation be_inq: byte_queue be_live is_space "\<lambda>s c. in_at (unat (space_level s)) c" 8192
  "\<lambda>s p n c. accepted (quicz_openssl_tls_backend_receive s p n c)"
proof (unfold_locales, goal_cases)
  case (1 c s p n)
  then obtain b where b: "c = Some b" "be_ok b" "be_ssl b \<noteq> None" by (auto simp: be_live_def)
  have fits: "length (be_in (unat (space_level s)) b) + unat n \<le> 8192" using 1(4) b(1) by simp
  from receive_fits [OF b(2,3) 1(2,3) fits] obtain b' where
      b': "quicz_openssl_tls_backend_receive s p n (Some b) = Some (QUICZ_TLS_BACKEND_OK, Some b')"
        "be_ok b'" "\<forall>l < 4. be_in l b' =
          (if l = unat (space_level s) then be_in l b @ bytes_at p n else be_in l b)"
        "be_kept (b'\<lparr>be_received_crypto_len := 0\<rparr>) = be_kept (b\<lparr>be_received_crypto_len := 0\<rparr>)"
    by blast
  with b 1(2) show ?case
    by (auto simp: be_live_def be_kept_def space_level_inj)
next
  case (2 c s n p)
  then obtain b where "c = Some b" "be_ok b" "be_ssl b \<noteq> None" by (auto simp: be_live_def)
  with 2 receive_refused [OF this(2,3) 2(2)] show ?case by auto
qed

text \<open>\<^verbatim>\<open>crypto_send_cb\<close> as a queue at the level that OpenSSL writes at.\<close>

definition send_chunk :: "ptr \<Rightarrow> size_t \<Rightarrow> backend option \<Rightarrow> (bool \<times> backend option) option" where
  "send_chunk p n c = map_option (\<lambda>(rc, _, c'). (rc \<noteq> 0, c')) (crypto_send_cb p n 0 c)"

definition be_writing :: "uint32 \<Rightarrow> backend option \<Rightarrow> bool" where
  "be_writing l c \<longleftrightarrow> be_live c \<and> be_write_level (the c) = l"

interpretation be_outq: byte_queue "be_writing lvl" "\<lambda>_. True" "\<lambda>_ :: unit. out_at (unat lvl)" 8192
  "\<lambda>_. send_chunk" for lvl
proof (unfold_locales, goal_cases)
  case (1 c u p n)
  then obtain b where b: "c = Some b" "be_ok b" "be_ssl b \<noteq> None" "be_write_level b = lvl"
    by (auto simp: be_live_def be_writing_def)
  have fits: "length (be_out (unat (be_write_level b)) b) + unat n \<le> 8192" using 1(4) b by simp
  from crypto_send_fits [OF b(2) 1(3) fits, of 0] obtain b' where
      b': "crypto_send_cb p n 0 (Some b) = Some (1, n, Some b')" "be_ok b'"
        "\<forall>l < 4. be_out l b' =
          (if l = unat (be_write_level b) then be_out l b @ bytes_at p n else be_out l b)"
        "be_kept b' = be_kept b" "be_write_level b' = be_write_level b"
    by blast
  with b be_okD(10) [OF b(2)] show ?case
    by (auto simp: send_chunk_def be_writing_def be_live_def be_kept_def)
next
  case (2 c u n p)
  then obtain b where b: "c = Some b" "be_ok b" "be_ssl b \<noteq> None" "be_write_level b = lvl"
    by (auto simp: be_live_def be_writing_def)
  moreover have "be_ok (b\<lparr>be_outbound_crypto_overflow := 1\<rparr>)" using b(2) by (simp add: be_ok_def)
  ultimately show ?case
    using 2 crypto_send_overflow [OF b(2), of n p 0]
    by (simp add: send_chunk_def be_writing_def be_live_def be_out_def)
qed

text \<open>
  The chunks that OpenSSL sends wait at its write level; a pull of that packet number space hands them
  over whole without a handshake call.
\<close>

lemma sent_chunks_wait:
  assumes "be_writing lvl c" and "\<forall>bs \<in> set chunks. length bs < 2 ^ 64"
  shows "\<exists>b1 ssl. push_all (\<lambda>_. send_chunk) (map (Pair ()) chunks) c = Some (Some b1) \<and> be_ok b1 \<and>
    be_ssl b1 = Some ssl \<and> be_out (unat lvl) b1 = admit 8192 (\<lambda>_. out_at (unat lvl) c) (map (Pair ()) chunks) ()"
proof -
  from be_outq.push_all_admit [OF assms(1), of "map (Pair ()) chunks"] assms(2) obtain c1 where
      "push_all (\<lambda>_. send_chunk) (map (Pair ()) chunks) c = Some c1" "be_writing lvl c1"
      "out_at (unat lvl) c1 = admit 8192 (\<lambda>_. out_at (unat lvl) c) (map (Pair ()) chunks) ()"
    by auto
  then show ?thesis by (auto simp: be_writing_def be_live_def)
qed

lemma pull_pending:
  assumes "be_ok b" and "be_ssl b = Some ssl" and "is_space s" and "be_out (unat (space_level s)) b \<noteq> []"
    and "length (be_out (unat (space_level s)) b) \<le> unat out_len" and "writable out out_len"
  shows "quicz_openssl_tls_backend_pull L s out out_len wl w (Some b) =
    Some ((QUICZ_TLS_BACKEND_OK, Some (be_drained (unat (space_level s)) b),
      put_bytes out (be_out (unat (space_level s)) b), word_of_nat (length (be_out (unat (space_level s)) b))), w)"
  using assms copy_pending_delivers [OF assms(1), of "space_level s" out_len out 0]
  by (simp add: quicz_openssl_tls_backend_pull_def Let_def)

definition be_peer_mail :: "backend option \<Rightarrow> byte list option" where
  "be_peer_mail c =
     (case c of
        None \<Rightarrow> None
      | Some b \<Rightarrow>
        if be_peer_transport_parameters_available b = 0 \<or> be_peer_transport_parameters_sent b \<noteq> 0 then None
        else Some (content (be_peer_transport_parameters b) (be_peer_transport_parameters_len b)))"

definition deposit_params :: "ptr \<Rightarrow> size_t \<Rightarrow> backend option \<Rightarrow> (bool \<times> backend option) option" where
  "deposit_params p n c = map_option (\<lambda>(rc, c'). (rc \<noteq> 0, c')) (got_transport_params_cb p n c)"

lemma be_peer_mail_Some:
  assumes "be_ok b" and "be_peer_mail (Some b) = Some bs"
  shows "be_peer_transport_parameters_available b \<noteq> 0" "be_peer_transport_parameters_sent b = 0"
    "bs = content (be_peer_transport_parameters b) (be_peer_transport_parameters_len b)"
    "length bs = unat (be_peer_transport_parameters_len b)"
  using assms length_content [OF be_okD(13) [OF assms(1)]] by (auto simp: be_peer_mail_def split: if_splits)

interpretation be_peer: mailbox "\<lambda>c. \<exists>b. c = Some b \<and> be_ok b" be_peer_mail 512 deposit_params
  quicz_openssl_tls_backend_pull_peer_transport_parameters "\<lambda>_. 0"
proof (unfold_locales, goal_cases)
  case (3 c bs)
  then show ?case
    using be_peer_mail_Some(4) be_okD(13) by (fastforce simp: buf_ok_def)
next
  case (4 c p n)
  then obtain b where b: "c = Some b" "be_ok b" by blast
  from got_transport_params_fits [OF b(2) 4(2,3)] show ?case
    by (auto simp: b(1) deposit_params_def be_peer_mail_def)
next
  case (5 c n p)
  then show ?case by (auto simp: deposit_params_def got_transport_params_too_long)
next
  case (6 c bs out_len out w)
  then obtain b where b: "c = Some b" "be_ok b" "be_peer_mail (Some b) = Some bs" by blast
  note mail = be_peer_mail_Some [OF b(2,3)]
  have "memcpy_out out (be_peer_transport_parameters b) (be_peer_transport_parameters_len b) =
      Some (put_bytes out bs)"
    using memcpy_out_content [OF be_okD(13) [OF b(2)] 6(4)] 6(3) mail(3,4) by simp
  moreover have "be_ok (b\<lparr>be_peer_transport_parameters_sent := 1\<rparr>)" using b(2) by (simp add: be_ok_def)
  ultimately show ?case
    using 6(3) mail
    by (simp add: b(1) quicz_openssl_tls_backend_pull_peer_transport_parameters_def be_peer_mail_def
        word_less_nat_alt)
next
  case (7 c bs out_len out w)
  then obtain b where b: "c = Some b" "be_ok b" "be_peer_mail (Some b) = Some bs" by blast
  with 7(3) be_peer_mail_Some [OF b(2,3)] show ?case
    by (simp add: quicz_openssl_tls_backend_pull_peer_transport_parameters_def word_less_nat_alt)
next
  case (8 c out out_len w)
  then show ?case
    by (auto simp: quicz_openssl_tls_backend_pull_peer_transport_parameters_def be_peer_mail_def
        split: if_splits)
qed simp_all

section \<open>Sequences of calls\<close>

datatype be_op =
    Be_receive cint ptr size_t
  | Be_pull cint ptr size_t
  | Be_set_local_transport_parameters ptr size_t
  | Be_pull_peer_transport_parameters ptr size_t
  | Be_pull_handshake_traffic_secrets
  | Be_pull_1rtt_traffic_secrets
  | Be_pull_negotiated_alpn ptr size_t
  | Be_debug_consume_inbound_once
  | Be_debug_got_transport_parameters ptr size_t
  | Be_debug_yield_handshake_secret cint ptr size_t
  | Be_debug_yield_application_secret cint ptr size_t

text \<open>One call, as far as the backend and the library are concerned; \<^term>\<open>None\<close> is undefined behaviour.\<close>

fun be_step :: "'w openssl \<Rightarrow> be_op \<Rightarrow> backend option \<times> 'w \<Rightarrow> (backend option \<times> 'w) option" where
  "be_step L (Be_receive s p n) (c, w) =
     map_option (\<lambda>(st, c'). (c', w)) (quicz_openssl_tls_backend_receive s p n c)"
| "be_step L (Be_pull s out n) (c, w) =
     map_option (\<lambda>((st, c', out', written), w'). (c', w')) (quicz_openssl_tls_backend_pull L s out n 0 w c)"
| "be_step L (Be_set_local_transport_parameters p n) (c, w) =
     (case quicz_openssl_tls_backend_set_local_transport_parameters L p n w c of
        (st, c', w') \<Rightarrow> Some (c', w'))"
| "be_step L (Be_pull_peer_transport_parameters out n) (c, w) =
     map_option (\<lambda>(st, c', out', written). (c', w))
       (quicz_openssl_tls_backend_pull_peer_transport_parameters out n 0 c)"
| "be_step L Be_pull_handshake_traffic_secrets (c, w) =
     (case quicz_openssl_tls_backend_pull_handshake_traffic_secrets
        \<lparr>hs_local = replicate 32 0, hs_peer = replicate 32 0\<rparr> c of (st, c', out) \<Rightarrow> Some (c', w))"
| "be_step L Be_pull_1rtt_traffic_secrets (c, w) =
     (case quicz_openssl_tls_backend_pull_1rtt_traffic_secrets
        \<lparr>one_rtt_local = replicate 32 0, one_rtt_peer = replicate 32 0\<rparr> c of (st, c', out) \<Rightarrow> Some (c', w))"
| "be_step L (Be_pull_negotiated_alpn out n) (c, w) =
     map_option (\<lambda>_. (c, w)) (quicz_openssl_tls_backend_pull_negotiated_alpn L out n 0 w c)"
| "be_step L Be_debug_consume_inbound_once (c, w) =
     map_option (\<lambda>(st, c'). (c', w)) (quicz_openssl_tls_backend_debug_consume_inbound_once c)"
| "be_step L (Be_debug_got_transport_parameters p n) (c, w) =
     map_option (\<lambda>(st, c'). (c', w)) (quicz_openssl_tls_backend_debug_got_transport_parameters p n c)"
| "be_step L (Be_debug_yield_handshake_secret dir p n) (c, w) =
     map_option (\<lambda>(st, c'). (c', w)) (quicz_openssl_tls_backend_debug_yield_handshake_secret dir p n c)"
| "be_step L (Be_debug_yield_application_secret dir p n) (c, w) =
     map_option (\<lambda>(st, c'). (c', w)) (quicz_openssl_tls_backend_debug_yield_application_secret dir p n c)"

fun be_run :: "'w openssl \<Rightarrow> be_op list \<Rightarrow> backend option \<times> 'w \<Rightarrow> (backend option \<times> 'w) option" where
  "be_run L [] s = Some s"
| "be_run L (x # xs) s = do { s' \<leftarrow> be_step L x s; be_run L xs s' }"

text \<open>The caller's side of the contract: a buffer passed with a length has at least that many bytes.\<close>

fun be_call_ok :: "be_op \<Rightarrow> bool" where
  "be_call_ok (Be_receive s p n) = readable p n"
| "be_call_ok (Be_pull s out n) = writable out n"
| "be_call_ok (Be_pull_peer_transport_parameters out n) = writable out n"
| "be_call_ok (Be_pull_negotiated_alpn out n) = writable out n"
| "be_call_ok (Be_debug_got_transport_parameters p n) = readable p n"
| "be_call_ok (Be_debug_yield_handshake_secret dir p n) = readable p n"
| "be_call_ok (Be_debug_yield_application_secret dir p n) = readable p n"
| "be_call_ok _ = True"

fun be_offered :: "be_op \<Rightarrow> nat" where
  "be_offered (Be_receive s p n) = unat n"
| "be_offered _ = 0"

text \<open>
  What the backend relies on of \<^verbatim>\<open>SSL_get0_alpn_selected\<close>: a protocol that it returns is as long as
  the length that it returns.
\<close>

definition alpn_reported :: "'w openssl \<Rightarrow> bool" where
  "alpn_reported L \<longleftrightarrow>
     (\<forall>ssl w. case SSL_get0_alpn_selected L ssl w of (p, n) \<Rightarrow> (case p of None \<Rightarrow> True | Some bs \<Rightarrow> unat n \<le> length bs))"

lemma unat_ucast_32 [simp]: "unat (ucast (n :: uint32) :: size_t) = unat n"
proof -
  have "unat n < 2 ^ 64" using unsigned_less [of n, where ?'a = nat] by simp
  then show ?thesis by (simp add: unsigned_ucast_eq take_bit_nat_eq_self)
qed

lemma alpn_step:
  assumes "alpn_reported L" and "writable out n"
  shows "be_step L (Be_pull_negotiated_alpn out n) (c, w) = Some (c, w)"
proof -
  have "quicz_openssl_tls_backend_pull_negotiated_alpn L out n 0 w c \<noteq> None"
  proof (cases c)
    case (Some b)
    show ?thesis
    proof (cases "be_ssl b")
      case (Some ssl)
      obtain p k where pk: "SSL_get0_alpn_selected L ssl w = (p, k)" by (cases "SSL_get0_alpn_selected L ssl w")
      have len: "unat k \<le> length bs" if "p = Some bs" for bs
        using assms(1) pk that unfolding alpn_reported_def
        by (metis (mono_tags, lifting) case_prod_conv option.simps(5))
      have "memcpy_out out bs (ucast k) \<noteq> None" if "p = Some bs" "\<not> n < ucast k" for bs
        using writable_mono [OF assms(2), of "ucast k"] len that by (simp add: word_less_nat_alt)
      then show ?thesis
        using \<open>c = Some b\<close> Some pk
        by (auto simp: quicz_openssl_tls_backend_pull_negotiated_alpn_def Let_def split: option.splits)
    qed (simp add: \<open>c = Some b\<close> quicz_openssl_tls_backend_pull_negotiated_alpn_def)
  qed (simp add: quicz_openssl_tls_backend_pull_negotiated_alpn_def)
  then show ?thesis by auto
qed

lemmas be_abi_defs =
  quicz_openssl_tls_backend_receive_def quicz_openssl_tls_backend_pull_def
  quicz_openssl_tls_backend_set_local_transport_parameters_def
  quicz_openssl_tls_backend_pull_peer_transport_parameters_def
  quicz_openssl_tls_backend_pull_handshake_traffic_secrets_def
  quicz_openssl_tls_backend_pull_1rtt_traffic_secrets_def
  quicz_openssl_tls_backend_debug_consume_inbound_once_def
  quicz_openssl_tls_backend_debug_got_transport_parameters_def
  quicz_openssl_tls_backend_debug_yield_handshake_secret_def
  quicz_openssl_tls_backend_debug_yield_application_secret_def

lemma be_step_null:
  assumes "alpn_reported L" and "be_call_ok x"
  shows "\<exists>w'. be_step L x (None, w) = Some (None, w')"
  using assms alpn_step [of L _ _ None w] by (cases x) (simp_all add: be_abi_defs)

text \<open>A call that leaves the byte queues, the handles and the invariant alone.\<close>

lemma be_quiet:
  "be_ok b' \<Longrightarrow> be_queues b' = be_queues b \<Longrightarrow> be_ok b' \<and> track n b b'"
  by (simp add: track_queues)

lemma consume_once_ok:
  assumes "be_ok b"
  shows "\<exists>st b'. quicz_openssl_tls_backend_debug_consume_inbound_once (Some b) = Some (st, Some b') \<and>
      be_ok b' \<and> track 0 b b'"
proof -
  obtain rc buf n c where r: "crypto_recv_rcd_cb (Some b) = (rc, buf, n, c)"
    by (cases "crypto_recv_rcd_cb (Some b)")
  with track_recv [OF assms r] obtain b1 where 1: "c = Some b1" "be_ok b1" "track 0 b b1" by blast
  from track_release [OF 1(2), of n] obtain rc2 b2 where
      2: "crypto_release_rcd_cb n (Some b1) = Some (rc2, Some b2)" "be_ok b2" "track 0 b1 b2"
    by blast
  have "track 0 b b2" using track_trans [OF 1(3) 2(3)] by simp
  with r 1 2 show ?thesis
    by (simp add: quicz_openssl_tls_backend_debug_consume_inbound_once_def)
qed

lemma be_step_ok:
  assumes "be_ok b" and "be_call_ok x" and "alpn_reported L"
  shows "\<exists>b' w'. be_step L x (Some b, w) = Some (Some b', w') \<and> be_ok b' \<and> track (be_offered x) b b'"
proof (cases x)
  case (Be_receive s p n)
  with assms track_receive [OF assms(1), of p n s] show ?thesis by auto
next
  case (Be_pull s out n)
  with assms track_pull [OF assms(1), of out n L s 0 w] show ?thesis by auto
next
  case (Be_set_local_transport_parameters p n)
  have "be_ok (b\<lparr>be_local_transport_parameters_set := 1, be_local_transport_parameters_len := n\<rparr>)"
    using assms(1) by (simp add: be_ok_def)
  with Be_set_local_transport_parameters assms(1) show ?thesis
    by (auto simp: quicz_openssl_tls_backend_set_local_transport_parameters_def be_queues_def
        be_inbound_def track_refl intro: track_queues split: option.splits prod.splits)
next
  case (Be_pull_peer_transport_parameters out n)
  then obtain st c' out' written where
      r: "quicz_openssl_tls_backend_pull_peer_transport_parameters out n 0 (Some b) =
        Some (st, c', out', written)" "\<exists>b'. c' = Some b' \<and> be_ok b'"
    using be_peer.pull_total [of "Some b" out n 0] assms by auto
  moreover from r have "\<exists>b'. c' = Some b' \<and> be_queues b' = be_queues b"
    by (auto simp: quicz_openssl_tls_backend_pull_peer_transport_parameters_def be_queues_def
        be_inbound_def bind_eq_Some_conv split: if_splits)
  ultimately show ?thesis using Be_pull_peer_transport_parameters by (auto intro: track_queues)
next
  case Be_pull_handshake_traffic_secrets
  with assms(1) show ?thesis
    by (simp add: quicz_openssl_tls_backend_pull_handshake_traffic_secrets_def be_queues_def
        be_inbound_def be_ok_def track_queues)
next
  case Be_pull_1rtt_traffic_secrets
  with assms(1) show ?thesis
    by (simp add: quicz_openssl_tls_backend_pull_1rtt_traffic_secrets_def be_queues_def
        be_inbound_def be_ok_def track_queues)
next
  case (Be_pull_negotiated_alpn out n)
  with assms alpn_step [of L out n "Some b" w] track_refl show ?thesis by auto
next
  case Be_debug_consume_inbound_once
  with consume_once_ok [OF assms(1)] show ?thesis by auto
next
  case (Be_debug_got_transport_parameters p n)
  with assms got_transport_params_fits [OF assms(1), of p n] got_transport_params_too_long [of n p b]
    track_refl [of 0 b] track_queues [of _ b 0]
  show ?thesis
    by (cases "unat n \<le> 512") (auto simp: quicz_openssl_tls_backend_debug_got_transport_parameters_def)
next
  case (Be_debug_yield_handshake_secret dir p n)
  with assms yield_secret_ok [OF assms(1), of p n OSSL_RECORD_PROTECTION_LEVEL_HANDSHAKE dir]
    track_queues [of _ b 0]
  show ?thesis by (auto simp: quicz_openssl_tls_backend_debug_yield_handshake_secret_def)
next
  case (Be_debug_yield_application_secret dir p n)
  with assms yield_secret_ok [OF assms(1), of p n OSSL_RECORD_PROTECTION_LEVEL_APPLICATION dir]
    track_queues [of _ b 0]
  show ?thesis by (auto simp: quicz_openssl_tls_backend_debug_yield_application_secret_def)
qed

lemma be_run_ok:
  assumes "be_ok_opt c" and "\<forall>x \<in> set xs. be_call_ok x" and "alpn_reported L"
  shows "\<exists>c' w'. be_run L xs (c, w) = Some (c', w') \<and> be_ok_opt c' \<and>
      track_opt (sum_list (map be_offered xs)) c c'"
  using assms(1,2)
proof (induction xs arbitrary: c w)
  case (Cons x xs)
  obtain c1 w1 where 1: "be_step L x (c, w) = Some (c1, w1)" "be_ok_opt c1"
      "track_opt (be_offered x) c c1"
    using Cons.prems assms(3) be_step_null [of L x w] be_step_ok [of _ x L w] by (cases c) fastforce+
  from Cons.IH [OF 1(2), of w1] Cons.prems obtain c2 w2 where
      "be_run L xs (c1, w1) = Some (c2, w2)" "be_ok_opt c2"
      "track_opt (sum_list (map be_offered xs)) c1 c2"
    by auto
  with 1 track_opt_trans [OF 1(3)] show ?case by simp
qed (simp add: track_opt_refl)

section \<open>Construction and destruction\<close>

lemma new_for_role_cases:
  assumes "quicz_openssl_tls_backend_new_for_role L role w = (c, w', es)"
  shows "c = None \<and> balance es [] = Some [] \<or>
    (\<exists>b ctx ssl. c = Some b \<and> be_ok b \<and> be_ctx b = Some ctx \<and> be_ssl b = Some ssl \<and>
       be_received_crypto_len b = 0 \<and> be_inbound_crypto_released_len b = 0 \<and> be_pending b = 0 \<and>
       be_outbound_crypto_overflow b = 0 \<and> no_late_bytes b \<and>
       (\<forall>l < 4. be_in l b = [] \<and> be_out l b = []) \<and>
       balance es [] = Some [Ssl ssl, Ctx ctx, Backend_mem])"
proof (cases c)
  case None
  with assms show ?thesis
    by (auto simp: quicz_openssl_tls_backend_new_for_role_def Let_def
        split: prod.splits if_splits option.splits)
next
  case (Some b)
  with assms obtain ctx ssl set quic where
      b: "b = be_zero\<lparr>be_ctx := Some ctx, be_ssl := Some ssl, be_callbacks_set := set,
             be_ssl_is_quic_after_callbacks := quic\<rparr>"
    and es: "es = [Acquire Backend_mem, Acquire (Ctx ctx), Acquire (Ssl ssl)]"
    by (auto simp: quicz_openssl_tls_backend_new_for_role_def Let_def
        split: prod.splits if_splits option.splits)
  have "be_ok b" using be_ok_zero by (simp add: b be_ok_def)
  moreover have "be_in l b = []" "be_out l b = []" if "l < 4" for l
    using that by (simp_all add: b be_in_def be_out_def be_zero_def nth_replicate)
  moreover have "no_late_bytes b" by (simp add: b be_zero_def no_late_bytes_def)
  ultimately show ?thesis
    by (simp add: Some es) (simp add: b be_zero_def be_pending_def)
qed

end
