(* ===== verification/OpenSSL_Backend_Proofs.thy ===== *)
theory OpenSSL_Backend_Proofs
  imports OpenSSL_Backend_Calls
begin

text \<open>
  The properties of the OpenSSL backend.
\<close>

section \<open>Properties\<close>

definition be_example :: backend where
  "be_example = be_zero\<lparr>be_ctx := Some 7, be_ssl := Some 8, be_callbacks_set := 1,
     be_ssl_is_quic_after_callbacks := 1\<rparr>"

lemma be_example_ok:
  "be_ok be_example" "be_ssl be_example = Some 8" "be_live (Some be_example)" "no_late_bytes be_example"
  "be_read_level be_example = 0" "be_write_level be_example = 0"
  "be_inbound_crypto_read_len be_example = replicate 4 0"
  "l < 4 \<Longrightarrow> be_in l be_example = []" "l < 4 \<Longrightarrow> be_out l be_example = []"
  "be_outbound_crypto_overflow be_example = 0"
proof -
  show ok: "be_ok be_example" using be_ok_zero by (simp add: be_example_def be_ok_def)
  show "be_live (Some be_example)" using ok by (simp add: be_live_def be_example_def)
qed (simp_all add: be_example_def be_zero_def no_late_bytes_def be_in_def be_out_def nth_replicate)

lemma scripted_alpn_reported: "alpn_reported (scripted_openssl e)"
  by (simp add: alpn_reported_def scripted_openssl_def)

lemma scripted_new:
  "quicz_openssl_tls_backend_new_for_role (scripted_openssl e) 1 () =
     (Some be_example, (), [Acquire Backend_mem, Acquire (Ctx 7), Acquire (Ssl 8)])"
  by (simp add: quicz_openssl_tls_backend_new_for_role_def configure_ctx_def scripted_openssl_def
      be_example_def Let_def)

text \<open>
  Property C3. Whatever OpenSSL does, and whatever sequence of ABI and debug calls reaches a backend
  that the constructor made (or the null pointer that it returned), with buffers as long as the lengths
  passed with them: no call and no callback reads or writes outside the backend's arrays, the
  caller's buffers and the strings OpenSSL passed, and every length and level field stays in range.
\<close>

theorem be_run_safe:
  assumes "alpn_reported L" and "\<forall>x \<in> set xs. be_call_ok x"
    and "quicz_openssl_tls_backend_new_for_role L role w = (c, w1, es)"
  shows "\<exists>c' w2. be_run L xs (c, w1) = Some (c', w2) \<and> be_ok_opt c'"
proof -
  have "be_ok_opt c" using new_for_role_cases [OF assms(3)] by auto
  from be_run_ok [OF this assms(2,1), of w1] show ?thesis by blast
qed

theorem be_run_safe_witness:
  "\<exists>c' w2. be_run (scripted_openssl (Engine_crypto_send [1, 2] (\<lambda>_ _. Engine_done 1 ())))
     [Be_receive 0 (Some [9]) 1, Be_pull 0 (Some [0, 0]) 2] (Some be_example, ()) = Some (c', w2) \<and>
     be_ok_opt c'"
  by (rule be_run_safe [OF scripted_alpn_reported _ scripted_new]) (simp add: writable_def)

lemma confirmed_cases:
  assumes "quicz_openssl_tls_backend_handshake_confirmed c"
  obtains b where "c = Some b" "be_inbound_crypto_released_len b = be_received_crypto_len b"
  using assms by (auto simp: quicz_openssl_tls_backend_handshake_confirmed_def split: option.splits)

lemma be_pending_zero: "be_pending b = 0 \<longleftrightarrow> (\<forall>l < 4. be_in l b = [])"
  by (auto simp: be_pending_def)

lemma run_accounting:
  assumes "alpn_reported L" and "\<forall>x \<in> set xs. be_call_ok x"
    and "quicz_openssl_tls_backend_new_for_role L role w = (c, w1, es)"
    and "be_run L xs (c, w1) = Some (Some b, w2)"
  shows "\<exists>m d. m \<le> sum_list (map be_offered xs) \<and> be_received_crypto_len b = word_of_nat m \<and>
    be_inbound_crypto_released_len b = word_of_nat d \<and> d + be_pending b \<le> m \<and> be_ok b"
proof -
  from new_for_role_cases [OF assms(3)] have "be_ok_opt c" by auto
  from be_run_ok [OF this assms(2,1), of w1] assms(4) have
      ok: "be_ok b" and tr: "track_opt (sum_list (map be_offered xs)) c (Some b)" by auto
  from tr new_for_role_cases [OF assms(3)] obtain b0 where
      "track (sum_list (map be_offered xs)) b0 b" "be_received_crypto_len b0 = 0"
      "be_inbound_crypto_released_len b0 = 0" "be_pending b0 = 0"
    by auto
  with ok show ?thesis by (auto simp: track_def)
qed

text \<open>
  Property C2. A backend that reports the handshake as confirmed has no inbound CRYPTO byte left: all
  the bytes that it accepted were consumed by OpenSSL, at every level, and the pending length that it
  reports is zero. (Fewer than \<open>2 ^ 64\<close> bytes were offered to it in all.)
\<close>

theorem be_confirmed_nothing_pending:
  assumes "alpn_reported L" and "\<forall>x \<in> set xs. be_call_ok x"
    and "quicz_openssl_tls_backend_new_for_role L role w = (c, w1, es)"
    and "sum_list (map be_offered xs) < 2 ^ 64"
    and "be_run L xs (c, w1) = Some (c', w2)"
    and "quicz_openssl_tls_backend_handshake_confirmed c'"
  shows "(\<forall>l < 4. in_at l c' = []) \<and> quicz_openssl_tls_backend_pending_inbound_crypto_len c' = 0"
proof -
  from assms(6) obtain b where
      b: "c' = Some b" "be_inbound_crypto_released_len b = be_received_crypto_len b"
    by (rule confirmed_cases)
  from run_accounting [OF assms(1-3), of b w2] assms(5) b(1) obtain m d where
      md: "m \<le> sum_list (map be_offered xs)" "be_received_crypto_len b = word_of_nat m"
        "be_inbound_crypto_released_len b = word_of_nat d" "d + be_pending b \<le> m" "be_ok b"
    by blast
  have "(word_of_nat d :: size_t) = word_of_nat m" using b(2) md(2,3) by simp
  then have "unat (word_of_nat d :: size_t) = unat (word_of_nat m :: size_t)" by simp
  with md(1,4) assms(4) have "d = m" by (simp add: unat_of_nat)
  with md(4) have empty: "\<forall>l < 4. be_in l b = []" by (simp add: be_pending_zero [symmetric])
  then have "be_inbound_crypto_len b ! l = 0" if "l < 4" for l
    using length_be_in [OF md(5) that] that by (simp add: unat_eq_zero)
  then have "be_inbound_crypto_len b = replicate 4 0"
    using be_okD(2) [OF md(5)] by (simp add: list_eq_iff_nth_eq nth_replicate)
  then show ?thesis
    using empty by (simp add: b(1) quicz_openssl_tls_backend_pending_inbound_crypto_len_def
        numeral_eq_Suc)
qed

definition confirming_calls :: "be_op list" where
  "confirming_calls =
     [Be_receive 0 (Some [5]) 1, Be_debug_consume_inbound_once,
      Be_debug_got_transport_parameters (Some [1]) 1,
      Be_debug_yield_handshake_secret 0 (Some (replicate 32 1)) 32,
      Be_debug_yield_handshake_secret 1 (Some (replicate 32 2)) 32,
      Be_debug_yield_application_secret 0 (Some (replicate 32 3)) 32,
      Be_debug_yield_application_secret 1 (Some (replicate 32 4)) 32]"

lemma confirmed_run:
  "\<exists>b. be_run (scripted_openssl (Engine_done 1 ())) confirming_calls (Some be_example, ()) = Some (Some b, ()) \<and>
     quicz_openssl_tls_backend_handshake_confirmed (Some b)"
  by (simp add: confirming_calls_def be_example_def be_zero_def quicz_openssl_tls_backend_receive_def
      quicz_openssl_tls_backend_debug_consume_inbound_once_def
      quicz_openssl_tls_backend_debug_got_transport_parameters_def
      quicz_openssl_tls_backend_debug_yield_handshake_secret_def
      quicz_openssl_tls_backend_debug_yield_application_secret_def
      packet_space_level_def packet_space_defs ossl_level_defs crypto_recv_rcd_cb_def crypto_release_rcd_cb_def
      got_transport_params_cb_def yield_secret_cb_def yield_switch_level_def
      quicz_openssl_tls_backend_handshake_confirmed_def Let_def nth_replicate)

theorem be_confirmed_nothing_pending_witness:
  "\<exists>b. be_run (scripted_openssl (Engine_done 1 ())) confirming_calls (Some be_example, ()) = Some (Some b, ()) \<and>
     quicz_openssl_tls_backend_handshake_confirmed (Some b) \<and>
     quicz_openssl_tls_backend_pending_inbound_crypto_len (Some b) = 0"
proof -
  obtain b where b: "be_run (scripted_openssl (Engine_done 1 ())) confirming_calls (Some be_example, ()) = Some (Some b, ())"
      "quicz_openssl_tls_backend_handshake_confirmed (Some b)"
    using confirmed_run by blast
  with be_confirmed_nothing_pending [OF scripted_alpn_reported _ scripted_new _ b]
  show ?thesis by (intro exI [of _ b]) (simp add: confirming_calls_def)
qed

text \<open>
  Property C4. Whatever happens between construction and destruction, \<open>free\<close> releases exactly what the
  constructor acquired (backend memory, \<^verbatim>\<open>SSL_CTX\<close>, \<^verbatim>\<open>SSL\<close>), each once; a constructor that fails has
  released all it acquired.
\<close>

theorem be_lifecycle_balanced:
  assumes "alpn_reported L" and "\<forall>x \<in> set xs. be_call_ok x"
    and "quicz_openssl_tls_backend_new_for_role L role w = (c, w1, es)"
    and "be_run L xs (c, w1) = Some (c', w2)"
    and "quicz_openssl_tls_backend_free L c' w2 = (w3, fs)"
  shows "balance (es @ fs) [] = Some []"
proof -
  from new_for_role_cases [OF assms(3)] have "be_ok_opt c" by auto
  from be_run_ok [OF this assms(2,1), of w1] assms(4) have
      "track_opt (sum_list (map be_offered xs)) c c'" by auto
  with new_for_role_cases [OF assms(3)] assms(5) show ?thesis
    by (auto simp: track_def quicz_openssl_tls_backend_free_def balance_append)
qed

theorem be_lifecycle_balanced_witness:
  "balance ([Acquire Backend_mem, Acquire (Ctx 7), Acquire (Ssl 8)] @
     snd (quicz_openssl_tls_backend_free (scripted_openssl (Engine_done 1 ())) (Some be_example) ())) [] = Some []"
  by (rule be_lifecycle_balanced [where xs = "[]", OF scripted_alpn_reported _ scripted_new])
    (simp_all add: prod_eq_iff)

text \<open>
  Property C1. One handshake call moves bytes faithfully, whatever sequence of callbacks OpenSSL makes in it and
  however often it switches levels. With the bytes that OpenSSL sent, consumed and passed over during the call
  recorded per level: the outbound bytes of each level are the old ones followed by those sent; and at each level
  at which no release passed over bytes that OpenSSL was not lent, the old inbound bytes are those consumed
  followed by the new ones. No byte is passed over at any level if no byte had arrived while OpenSSL held earlier
  ones and each release gives back at least one byte.
\<close>

theorem be_drive_moves_bytes:
  assumes "be_ok b"
  shows "\<exists>rc w' b' b1 log. drive_backend L ssl w b = Some (rc, w', b') \<and>
    run_engine (observe backend_level backend_released quicz_openssl_tls_dispatch) (SSL_do_handshake L ssl w)
      (Some (b\<lparr>be_handshake_drive_calls := be_handshake_drive_calls b + 1\<rparr>), []) =
        Some (rc, w', Some b1, log) \<and>
    (\<forall>l < 4. be_out l b' = be_out l b @ sent_at l log \<and>
       (passed_over_at l log = [] \<longrightarrow> be_in l b = consumed_at l log @ be_in l b')) \<and>
    (no_late_bytes b \<and> nonempty_releases log \<longrightarrow> no_late_bytes b' \<and> (\<forall>l < 4. passed_over_at l log = []))"
proof -
  let ?b0 = "b\<lparr>be_handshake_drive_calls := be_handshake_drive_calls b + 1\<rparr>"
  have "io_invar (Some ?b0, [])"
    using assms by (simp add: io_invar_def be_ok_def)
  from be_io.run_engine_ok [OF this, of "SSL_do_handshake L ssl w"] obtain rc w' c log where
      r: "run_engine (observe backend_level backend_released quicz_openssl_tls_dispatch)
           (SSL_do_handshake L ssl w) (Some ?b0, []) = Some (rc, w', c, log)"
        "io_invar (c, log)" "io_rel (Some ?b0, []) (c, log)"
    by auto
  from r(2) obtain b1 where b1: "c = Some b1" "be_ok b1" by (auto simp: io_invar_def)
  let ?b2 = "b1\<lparr>be_last_ssl_error := (if rc \<noteq> 1 then SSL_get_error L ssl rc w' else SSL_ERROR_NONE L)\<rparr>"
  have drive: "drive_backend L ssl w b = Some (rc, w', ?b2)"
    using run_engine_observeD [OF r(1)] by (simp add: drive_backend_def b1(1))
  have same: "be_out l ?b0 = be_out l b" "be_in l ?b0 = be_in l b" "be_out l ?b2 = be_out l b1"
    "be_in l ?b2 = be_in l b1" "no_late_bytes ?b0 = no_late_bytes b" "no_late_bytes ?b2 = no_late_bytes b1" for l
    by (simp_all add: be_out_def be_in_def no_late_bytes_def)
  have io: "io_with log (Some ?b0) (Some b1)" using r(3) by (simp add: io_rel_def b1(1))
  show ?thesis
    by (intro exI conjI, rule drive, rule r(1) [unfolded b1(1)])
      (use io in \<open>simp_all add: io_with_def same\<close>)
qed

text \<open>A handshake call that sends two bytes and gives back one of the two that it is lent.\<close>

definition moving_call :: "unit engine" where
  "moving_call = Engine_crypto_send [1, 2] (\<lambda>_ _. Engine_crypto_recv_rcd
     (\<lambda>_ _ _. Engine_crypto_release_rcd 1 (\<lambda>_. Engine_done 0 ())))"

definition be_moving :: backend where
  "be_moving = be_example\<lparr>be_inbound_crypto := (be_inbound_crypto be_example)[0 := [7, 8] @ replicate 8190 0],
     be_inbound_crypto_len := (be_inbound_crypto_len be_example)[0 := 2]\<rparr>"

lemma be_moving_ok: "be_ok be_moving" "be_in 0 be_moving = [7, 8]" "be_out 0 be_moving = []"
proof -
  have "buf_ok 8192 ([7, 8] @ replicate 8190 0) 2" by (simp add: buf_ok_def)
  then show "be_ok be_moving"
    using be_example_ok(1,7) be_okD [OF be_example_ok(1)]
    by (auto simp: be_ok_def be_moving_def nth_list_update nth_replicate)
  show "be_in 0 be_moving = [7, 8]" "be_out 0 be_moving = []"
    using be_example_ok(9) [of 0] be_okD(1,2) [OF be_example_ok(1)]
    by (simp_all add: be_moving_def be_in_def be_out_def content_def)
qed

lemma moving_run:
  "\<exists>b1. run_engine (observe backend_level backend_released quicz_openssl_tls_dispatch) moving_call
     (Some (be_moving\<lparr>be_handshake_drive_calls := be_handshake_drive_calls be_moving + 1\<rparr>), []) =
       Some (0, (), Some b1, [Sent 0 [1, 2], Consumed 0 [7], Passed_over 0 []])"
  by (simp add: moving_call_def observe_def quicz_openssl_tls_dispatch_def crypto_send_cb_def crypto_recv_rcd_cb_def
      crypto_release_rcd_cb_def backend_level_def backend_released_def be_moving_def be_example_def be_zero_def
      be_in_def content_def Let_def nth_replicate)

theorem be_drive_moves_bytes_witness:
  "\<exists>rc w' b'. drive_backend (scripted_openssl moving_call) 8 () be_moving = Some (rc, w', b') \<and>
     be_out 0 b' = [1, 2] \<and> [7, 8] = 7 # be_in 0 b'"
proof -
  have e: "SSL_do_handshake (scripted_openssl moving_call) 8 () = moving_call" by (simp add: scripted_openssl_def)
  from be_drive_moves_bytes [OF be_moving_ok(1), of "scripted_openssl moving_call" 8 "()"] obtain rc w' b' b1 log where
      r: "drive_backend (scripted_openssl moving_call) 8 () be_moving = Some (rc, w', b')"
        "run_engine (observe backend_level backend_released quicz_openssl_tls_dispatch) moving_call
           (Some (be_moving\<lparr>be_handshake_drive_calls := be_handshake_drive_calls be_moving + 1\<rparr>), []) =
           Some (rc, w', Some b1, log)"
        "\<forall>l < 4. be_out l b' = be_out l be_moving @ sent_at l log \<and>
           (passed_over_at l log = [] \<longrightarrow> be_in l be_moving = consumed_at l log @ be_in l b')"
    unfolding e by blast
  have log: "log = [Sent 0 [1, 2], Consumed 0 [7], Passed_over 0 []]" using r(2) moving_run by auto
  from r(3) [rule_format, of 0] have "be_out 0 b' = [1, 2]" "[7, 8] = 7 # be_in 0 b'"
    by (simp_all add: log be_moving_ok)
  with r(1) show ?thesis by blast
qed

text \<open>
  Property C12. CRYPTO bytes that are received while OpenSSL holds the earlier bytes of the same level are
  accepted with status OK and then lost when OpenSSL releases what it held: the release recomputes the
  pending length from the number of bytes lent.
\<close>

theorem be_late_bytes_lost:
  assumes "be_ok b" and "be_ssl b \<noteq> None" and "is_space s" and "be_read_level b = space_level s"
    and "be_inbound_crypto_read_len b ! unat (space_level s) = be_inbound_crypto_len b ! unat (space_level s)"
    and "readable p n" and "length (be_in (unat (space_level s)) b) + unat n \<le> 8192"
  shows "\<exists>b1 b2.
    quicz_openssl_tls_backend_receive s p n (Some b) = Some (QUICZ_TLS_BACKEND_OK, Some b1) \<and>
    be_in (unat (space_level s)) b1 = be_in (unat (space_level s)) b @ bytes_at p n \<and>
    crypto_release_rcd_cb (be_inbound_crypto_read_len b ! unat (space_level s)) (Some b1) = Some (1, Some b2) \<and>
    be_in (unat (space_level s)) b2 = []"
proof -
  let ?l = "unat (space_level s)"
  from receive_fits [OF assms(1-3,6,7)] obtain b1 where
      b1: "quicz_openssl_tls_backend_receive s p n (Some b) = Some (QUICZ_TLS_BACKEND_OK, Some b1)" "be_ok b1"
        "\<forall>l < 4. be_in l b1 = (if l = ?l then be_in l b @ bytes_at p n else be_in l b)"
        "be_inbound_crypto_read_len b1 = be_inbound_crypto_read_len b" "be_read_level b1 = be_read_level b"
    by blast
  have "unat (be_inbound_crypto_read_len b ! ?l) \<le>
      unat (be_inbound_crypto_read_len b1 ! unat (be_read_level b1))"
    using b1(4,5) assms(4) by simp
  from crypto_release_fits [OF b1(2) this] obtain b2 where
      "crypto_release_rcd_cb (be_inbound_crypto_read_len b ! ?l) (Some b1) = Some (1, Some b2)"
      "be_in ?l b2 = []"
    using assms(4) b1(4,5) by auto
  with b1 show ?thesis by auto
qed

theorem be_late_bytes_lost_witness:
  "\<exists>b1 b2.
    quicz_openssl_tls_backend_receive 0 (Some [4, 5]) 2 (Some be_example) = Some (QUICZ_TLS_BACKEND_OK, Some b1) \<and>
    be_in 0 b1 = [4, 5] \<and> crypto_release_rcd_cb 0 (Some b1) = Some (1, Some b2) \<and> be_in 0 b2 = []"
proof -
  have "is_space 0" "space_level 0 = 0" "be_inbound_crypto_len be_example = replicate 4 0"
    by (simp_all add: is_space_def space_level_def packet_space_defs ossl_level_defs be_example_def be_zero_def)
  with be_late_bytes_lost [OF be_example_ok(1), of 0 "Some [4, 5]" 2] be_example_ok show ?thesis
    by (auto simp: nth_replicate)
qed

definition be_receive_all :: "(cint \<times> byte list) list \<Rightarrow> backend option \<Rightarrow> backend option option" where
  "be_receive_all chunks c =
     push_all (\<lambda>s p n c. accepted (quicz_openssl_tls_backend_receive s p n c)) chunks c"

text \<open>
  A sequence of \<open>receive\<close> calls over the three packet number spaces leaves in each space
  the chunks that fit its 8192 bytes, in the order of arrival, whatever the interleaving of the spaces;
  a chunk that does not fit is refused whole.
\<close>

theorem be_receive_admit:
  assumes "be_live c" and "\<forall>x \<in> set chunks. is_space (fst x) \<and> length (snd x) < 2 ^ 64" and "is_space s"
  shows "\<exists>c'. be_receive_all chunks c = Some c' \<and> be_live c' \<and>
    in_at (unat (space_level s)) c' = admit 8192 (\<lambda>s. in_at (unat (space_level s)) c) chunks s"
  using be_inq.push_all_admit [OF assms(1,2)] assms(3) unfolding be_receive_all_def by blast

theorem be_receive_admit_witness:
  "\<exists>c'. be_receive_all [(0, [1]), (1, [2, 3]), (0, [4])] (Some be_example) = Some c' \<and> be_live c' \<and>
     in_at 0 c' = [1, 4]"
proof -
  have s: "is_space 0" "is_space 1" "space_level 0 = 0" "unat (space_level 1) = 2"
    by (simp_all add: is_space_def space_level_def packet_space_defs ossl_level_defs)
  with be_receive_admit [OF be_example_ok(3), of "[(0, [1]), (1, [2, 3]), (0, [4])]" 0] show ?thesis
    by (simp add: be_example_ok)
qed

text \<open>
  \<open>crypto_recv_rcd\<close> lends OpenSSL all the bytes pending at the level it reads at, a second
  call before the release lends nothing, and \<open>receive\<close> calls in between leave the lent bytes in place.
\<close>

theorem be_recv_lends_pending:
  assumes "be_ok b" and "l = unat (be_read_level b)"
    and "be_inbound_crypto_read_len b ! l = 0" and "be_in l b \<noteq> []" and "readable p n"
  shows "\<exists>buf len b1 st b2. crypto_recv_rcd_cb (Some b) = (1, buf, len, Some b1) \<and>
    readable buf len \<and> bytes_at buf len = be_in l b \<and>
    crypto_recv_rcd_cb (Some b1) = (1, None, 0, Some b1) \<and>
    quicz_openssl_tls_backend_receive s p n (Some b1) = Some (st, Some b2) \<and> be_lent l b2 = be_in l b"
proof -
  have l: "l < 4" using be_okD(9) [OF assms(1)] assms(2) by simp
  obtain rc buf len c where r: "crypto_recv_rcd_cb (Some b) = (rc, buf, len, c)"
    by (cases "crypto_recv_rcd_cb (Some b)")
  from crypto_recv_cases [OF assms(1) r] assms(2-4) obtain b1 where
      b1: "c = Some b1" "be_ok b1" "rc = 1" "\<forall>l. be_in l b1 = be_in l b" "readable buf len"
        "bytes_at buf len = be_in l b" "len = be_inbound_crypto_len b ! l"
        "be_inbound_crypto_read_len b1 = (be_inbound_crypto_read_len b)[l := len]"
    by (auto simp: Let_def)
  have level: "be_read_level b1 = be_read_level b"
    using r b1(1) by (auto simp: crypto_recv_rcd_cb_def Let_def split: if_splits)
  have len: "be_inbound_crypto_read_len b1 ! l = be_inbound_crypto_len b1 ! l"
    using b1 l be_okD(3) [OF assms(1)] be_in_len [OF assms(1) b1(2) l] by simp
  have "be_inbound_crypto_read_len b1 ! l \<noteq> 0"
    using assms(4) b1(4) length_be_in [OF b1(2) l] by (auto simp: len)
  then have again: "crypto_recv_rcd_cb (Some b1) = (1, None, 0, Some b1)"
    using level assms(2) by (simp add: crypto_recv_rcd_cb_def Let_def)
  have lent: "be_lent l b1 = be_in l b" using b1(4) by (simp add: be_lent_def len be_in_def)
  consider "be_ssl b1 = None \<or> \<not> is_space s"
    | "be_ssl b1 \<noteq> None" "is_space s" "8192 < length (be_in (unat (space_level s)) b1) + unat n"
    | "be_ssl b1 \<noteq> None" "is_space s" "length (be_in (unat (space_level s)) b1) + unat n \<le> 8192"
    by linarith
  then have "\<exists>st b2. quicz_openssl_tls_backend_receive s p n (Some b1) = Some (st, Some b2) \<and>
      be_lent l b2 = be_lent l b1"
    using receive_fits [OF b1(2) _ _ assms(5), of s] receive_refused [OF b1(2)] receive_invalid l
    by cases auto
  with r b1 again lent show ?thesis by auto
qed

lemma be_example_received:
  "\<exists>b. quicz_openssl_tls_backend_receive 0 (Some [7, 8]) 2 (Some be_example) =
     Some (QUICZ_TLS_BACKEND_OK, Some b) \<and> be_ok b \<and> be_in 0 b = [7, 8] \<and> be_read_level b = 0 \<and>
     be_inbound_crypto_read_len b = replicate 4 0"
proof -
  have s: "is_space 0" "space_level 0 = 0"
    by (simp_all add: is_space_def space_level_def packet_space_defs ossl_level_defs)
  show ?thesis
    using receive_fits [OF be_example_ok(1) _ s(1), of "Some [7, 8]" 2] s(2) be_example_ok by auto
qed

theorem be_recv_lends_pending_witness:
  "\<exists>b buf len b1. quicz_openssl_tls_backend_receive 0 (Some [7, 8]) 2 (Some be_example) =
     Some (QUICZ_TLS_BACKEND_OK, Some b) \<and>
     crypto_recv_rcd_cb (Some b) = (1, buf, len, Some b1) \<and> bytes_at buf len = [7, 8]"
proof -
  obtain b where b: "quicz_openssl_tls_backend_receive 0 (Some [7, 8]) 2 (Some be_example) =
     Some (QUICZ_TLS_BACKEND_OK, Some b)" "be_ok b" "be_in 0 b = [7, 8]" "be_read_level b = 0"
     "be_inbound_crypto_read_len b = replicate 4 0"
    using be_example_received by blast
  with be_recv_lends_pending [OF b(2), of 0 "Some []" 0 0] show ?thesis by (auto simp: nth_replicate)
qed

text \<open>
  Outbound path: the CRYPTO bytes that OpenSSL hands to \<open>crypto_send\<close> at the level of a packet
  number space come out of the next pull for that space with enough room, concatenated in order (up to
  the 8192 bytes that fit), without another handshake call; and the queue is empty afterwards.
\<close>

theorem be_outbound_delivered:
  assumes "be_writing (space_level s) c" and "is_space s" and "out_at (unat (space_level s)) c = []"
    and "\<forall>bs \<in> set chunks. length bs < 2 ^ 64"
    and "q = admit 8192 (\<lambda>_. []) (map (Pair ()) chunks) ()" and "q \<noteq> []"
    and "8192 \<le> unat out_len" and "writable out out_len"
  shows "\<exists>b1 b2. push_all (\<lambda>_. send_chunk) (map (Pair ()) chunks) c = Some (Some b1) \<and>
    quicz_openssl_tls_backend_pull L s out out_len wl w (Some b1) =
      Some ((QUICZ_TLS_BACKEND_OK, Some b2, put_bytes out q, word_of_nat (length q)), w) \<and>
    be_out (unat (space_level s)) b2 = []"
proof -
  let ?l = "unat (space_level s)"
  from sent_chunks_wait [OF assms(1,4)] assms(3,5) obtain b1 ssl where
      b1: "push_all (\<lambda>_. send_chunk) (map (Pair ()) chunks) c = Some (Some b1)" "be_ok b1" "be_ssl b1 = Some ssl"
        "be_out ?l b1 = q"
    by auto
  have "length q \<le> 8192"
    unfolding assms(5) by (rule admit_bounded) simp
  with pull_pending [OF b1(2,3) assms(2), of out_len out L wl w] b1 assms(6,7,8)
    be_drained_ok(3) [OF b1(2), of ?l ?l] show ?thesis
    by simp
qed

lemma be_example_writing: "be_writing (space_level 0) (Some be_example)"
  using be_example_ok by (simp add: be_writing_def space_level_def packet_space_defs ossl_level_defs)

theorem be_outbound_delivered_witness:
  "\<exists>b1 b2. push_all (\<lambda>_. send_chunk) (map (Pair ()) [[1, 2], [3]]) (Some be_example) = Some (Some b1) \<and>
    quicz_openssl_tls_backend_pull (scripted_openssl (Engine_done 1 ())) 0 (Some (replicate 8192 0)) 8192 0 ()
      (Some b1) = Some ((QUICZ_TLS_BACKEND_OK, Some b2, put_bytes (Some (replicate 8192 0)) [1, 2, 3], 3), ())"
proof -
  have s: "is_space 0" "space_level 0 = 0"
    by (simp_all add: is_space_def space_level_def packet_space_defs ossl_level_defs)
  have "writable (Some (replicate 8192 0)) 8192" by (simp add: writable_def)
  with be_outbound_delivered [OF be_example_writing s(1) _ _ refl, of "[[1, 2], [3]]" 8192
      "Some (replicate 8192 0)" "scripted_openssl (Engine_done 1 ())" 0 "()"] s(2) be_example_ok
  show ?thesis by auto
qed

text \<open>
  Only a pull for the Initial space drives the handshake: a pull for the Handshake or the
  Application space hands out pending bytes or answers, and leaves the library and all inbound bytes
  untouched.
\<close>

theorem be_pull_drives_initial_only:
  assumes "be_ok b" and "s \<noteq> QUICZ_TLS_BACKEND_INITIAL" and "writable out out_len"
  shows "\<exists>st b' out' n. quicz_openssl_tls_backend_pull L s out out_len wl w (Some b) =
      Some ((st, Some b', out', n), w) \<and>
    be_handshake_drive_calls b' = be_handshake_drive_calls b \<and> be_inbound b' = be_inbound b \<and>
    (st \<noteq> QUICZ_TLS_BACKEND_OK \<longrightarrow> b' = b \<and> out' = out \<and> n = 0)"
proof (cases "be_ssl b = None \<or> \<not> is_space s")
  case True
  then show ?thesis by (auto simp: quicz_openssl_tls_backend_pull_def split: option.splits)
next
  case False
  then obtain ssl where ssl: "be_ssl b = Some ssl" and s: "is_space s" by auto
  have level: "space_level s \<noteq> OSSL_RECORD_PROTECTION_LEVEL_NONE"
    using assms(2) s by (simp add: space_level_def ossl_level_defs)
  have same: "be_handshake_drive_calls (be_drained k b) = be_handshake_drive_calls b"
    "be_inbound (be_drained k b) = be_inbound b" for k
    by (simp_all add: be_drained_def be_inbound_def)
  consider "be_out (unat (space_level s)) b = []" | "unat out_len < length (be_out (unat (space_level s)) b)"
    | "be_out (unat (space_level s)) b \<noteq> []" "length (be_out (unat (space_level s)) b) \<le> unat out_len"
    by linarith
  then show ?thesis
    using ssl s level same copy_pending_none [OF assms(1)] copy_pending_too_small [OF assms(1)]
      copy_pending_delivers [OF assms(1) _ _ _ assms(3)]
    by cases (auto simp: quicz_openssl_tls_backend_pull_def Let_def)
qed

theorem be_pull_drives_initial_only_witness:
  "\<exists>st b' out' n. quicz_openssl_tls_backend_pull (scripted_openssl (Engine_done 1 ())) 1 (Some [0]) 1 0 ()
     (Some be_example) = Some ((st, Some b', out', n), ()) \<and>
     be_handshake_drive_calls b' = be_handshake_drive_calls be_example"
  using be_pull_drives_initial_only [OF be_example_ok(1), of 1 "Some [0]" 1
      "scripted_openssl (Engine_done 1 ())" 0 "()"]
  by (auto simp: writable_def packet_space_defs)

lemma pull_overflowed:
  assumes "be_ok b" and "be_outbound_crypto_overflow b \<noteq> 0" and "be_ssl b = Some ssl"
    and "be_out 0 b = []"
  shows "\<exists>b' w'. quicz_openssl_tls_backend_pull L QUICZ_TLS_BACKEND_INITIAL out out_len wl w (Some b) =
      Some ((QUICZ_TLS_BACKEND_BUFFER_TOO_SMALL, Some b', out, 0), w') \<and>
    be_outbound_crypto_overflow b' \<noteq> 0"
proof -
  have "copy_pending_outbound 0 out out_len 0 b = Some (QUICZ_TLS_BACKEND_PENDING, b, out, 0)"
    using copy_pending_none [OF assms(1), of 0] assms(4) by simp
  moreover obtain rc w' b' where "drive_backend L ssl w b = Some (rc, w', b')" "track 0 b b'"
    using drive_backend_ok [OF assms(1), of L ssl w] by blast
  ultimately show ?thesis
    using assms(2,3)
    by (simp add: quicz_openssl_tls_backend_pull_def packet_space_level_def ossl_level_defs track_def)
qed

text \<open>
  Property C13. An outbound overflow is final. Once OpenSSL has sent bytes that do not fit the 8192 of the level it
  writes at, then, whatever the rest of that handshake call does and whatever ABI and debug calls follow (receives,
  pulls, further handshake calls), each pull for the Initial space that has nothing pending to hand out drives the
  handshake and answers "buffer too small", writing nothing, however large the caller's buffer is.
\<close>

theorem be_overflow_sticky:
  assumes "alpn_reported L" and "\<forall>x \<in> set xs. be_call_ok x" and "be_ok b" and "be_ssl b = Some ssl"
    and "8192 < length (be_out (unat (be_write_level b)) b) + length bs" and "length bs < 2 ^ 64"
    and "run_engine quicz_openssl_tls_dispatch (Engine_crypto_send bs k) (Some b) = Some (rc, w1, c1)"
    and "be_run L xs (c1, w1) = Some (Some b2, w2)" and "be_out 0 b2 = []"
  shows "\<exists>b' w'. quicz_openssl_tls_backend_pull L QUICZ_TLS_BACKEND_INITIAL out out_len wl w2 (Some b2) =
      Some ((QUICZ_TLS_BACKEND_BUFFER_TOO_SMALL, Some b', out, 0), w') \<and>
    be_outbound_crypto_overflow b' \<noteq> 0"
proof -
  let ?b = "b\<lparr>be_outbound_crypto_overflow := 1\<rparr>"
  have "8192 < length (be_out (unat (be_write_level b)) b) + unat (word_of_nat (length bs) :: size_t)"
    using assms(5,6) by (simp add: unat_of_nat)
  from crypto_send_overflow [OF assms(3) this] assms(7)
  have rest: "run_engine quicz_openssl_tls_dispatch (k 0 0) (Some ?b) = Some (rc, w1, c1)"
    by (simp add: quicz_openssl_tls_dispatch_def)
  have "be_ok_opt (Some ?b)" using assms(3) by (simp add: be_ok_def)
  from be_cb.run_engine_ok [OF this, of "k 0 0"] rest obtain b1 where b1: "c1 = Some b1" "be_ok b1" "track 0 ?b b1"
    by auto
  then have "be_outbound_crypto_overflow b1 \<noteq> 0" "be_ssl b1 = Some ssl" using assms(4) by (simp_all add: track_def)
  moreover from be_run_ok [of c1 xs L w1] b1(1,2) assms(1,2,8) have
      "be_ok b2" "track (sum_list (map be_offered xs)) b1 b2" by auto
  ultimately have b2: "be_ok b2" "be_outbound_crypto_overflow b2 \<noteq> 0" "be_ssl b2 = Some ssl"
    by (simp_all add: track_def)
  show ?thesis by (rule pull_overflowed [OF b2 assms(9)])
qed

definition overflow_calls :: "be_op list" where
  "overflow_calls = [Be_receive 0 (Some [9]) 1, Be_pull 1 (Some [0]) 1, Be_pull 0 (Some [0]) 1]"

lemma overflow_run:
  "\<exists>b2. be_run (scripted_openssl (Engine_done 0 ())) overflow_calls
     (Some (be_example\<lparr>be_outbound_crypto_overflow := 1\<rparr>), ()) = Some (Some b2, ()) \<and> be_out 0 b2 = []"
  by (simp add: overflow_calls_def be_example_def be_zero_def quicz_openssl_tls_backend_receive_def
      quicz_openssl_tls_backend_pull_def copy_pending_outbound_def drive_backend_def scripted_openssl_def
      packet_space_level_def packet_space_defs ossl_level_defs be_out_def content_def Let_def nth_replicate)

theorem be_overflow_sticky_witness:
  "\<exists>c1 b2 b' w'. run_engine quicz_openssl_tls_dispatch
       (Engine_crypto_send (replicate 8193 5) (\<lambda>_ _. Engine_done 0 ())) (Some be_example) = Some (0, (), c1) \<and>
     be_run (scripted_openssl (Engine_done 0 ())) overflow_calls (c1, ()) = Some (Some b2, ()) \<and>
     quicz_openssl_tls_backend_pull (scripted_openssl (Engine_done 0 ())) QUICZ_TLS_BACKEND_INITIAL
       (Some (replicate 9000 0)) 9000 0 () (Some b2) =
       Some ((QUICZ_TLS_BACKEND_BUFFER_TOO_SMALL, Some b', Some (replicate 9000 0), 0), w')"
proof -
  let ?c = "Some (be_example\<lparr>be_outbound_crypto_overflow := 1\<rparr>)"
  have "8192 < length (be_out (unat (be_write_level be_example)) be_example) + unat (8193 :: size_t)" by simp
  from crypto_send_overflow [OF be_example_ok(1) this] have
      1: "run_engine quicz_openssl_tls_dispatch (Engine_crypto_send (replicate 8193 5) (\<lambda>_ _. Engine_done 0 ()))
        (Some be_example) = Some (0, (), ?c)"
    by (simp add: quicz_openssl_tls_dispatch_def)
  obtain b2 where 2: "be_run (scripted_openssl (Engine_done 0 ())) overflow_calls (?c, ()) = Some (Some b2, ())"
      "be_out 0 b2 = []"
    using overflow_run by blast
  have "\<forall>x \<in> set overflow_calls. be_call_ok x" by (simp add: overflow_calls_def writable_def)
  from be_overflow_sticky [OF scripted_alpn_reported this be_example_ok(1,2) _ _ 1 2,
      of "Some (replicate 9000 0)" 9000 0] 1 2(1)
  show ?thesis by fastforce
qed

text \<open>
  Handshake traffic secrets are handed over once, and only when OpenSSL has yielded both
  directions: with one direction the pull is pending; after the second it delivers exactly the two
  secrets; the next pull is pending again.
\<close>

theorem be_handshake_secrets_once:
  assumes "be_ok b" and "be_handshake_local_secret_available b = 0" and "be_handshake_peer_secret_available b = 0"
    and "readable p 32" and "readable q 32"
  shows "\<exists>b1 b2 b3.
    yield_secret_cb OSSL_RECORD_PROTECTION_LEVEL_HANDSHAKE 1 p 32 (Some b) = Some (1, Some b1) \<and>
    quicz_openssl_tls_backend_pull_handshake_traffic_secrets out (Some b1) =
      (QUICZ_TLS_BACKEND_PENDING, Some b1, out) \<and>
    yield_secret_cb OSSL_RECORD_PROTECTION_LEVEL_HANDSHAKE 0 q 32 (Some b1) = Some (1, Some b2) \<and>
    quicz_openssl_tls_backend_pull_handshake_traffic_secrets out (Some b2) =
      (QUICZ_TLS_BACKEND_OK, Some b3, \<lparr>hs_local = bytes_at p 32, hs_peer = bytes_at q 32\<rparr>) \<and>
    quicz_openssl_tls_backend_pull_handshake_traffic_secrets out' (Some b3) =
      (QUICZ_TLS_BACKEND_PENDING, Some b3, out')"
proof -
  let ?b1 = "(yield_switch_level 2 1 b)
    \<lparr>be_handshake_secrets := (be_handshake_secrets b)\<lparr>hs_local := bytes_at p 32\<rparr>,
     be_handshake_local_secret_available := 1, be_handshake_secrets_sent := 0\<rparr>"
  have 1: "yield_secret_cb 2 1 p 32 (Some b) = Some (1, Some ?b1)"
    by (rule yield_secret_stored(1) [OF assms(1,4)])
  have ok: "be_ok ?b1"
    using yield_secret_ok [OF assms(1,4), of 2 1] 1 by auto
  have flags: "be_handshake_peer_secret_available (yield_switch_level l d x) = be_handshake_peer_secret_available x"
    "be_handshake_local_secret_available (yield_switch_level l d x) = be_handshake_local_secret_available x" for l d x
    by (simp_all add: yield_switch_level_def Let_def)
  show ?thesis
    using 1 yield_secret_stored(2) [OF ok assms(5)] assms(2,3)
    by (simp add: ossl_level_defs quicz_openssl_tls_backend_pull_handshake_traffic_secrets_def flags)
qed

theorem be_handshake_secrets_once_witness:
  "\<exists>b1 b2 b3.
    yield_secret_cb OSSL_RECORD_PROTECTION_LEVEL_HANDSHAKE 1 (Some (replicate 32 1)) 32 (Some be_example) =
      Some (1, Some b1) \<and>
    yield_secret_cb OSSL_RECORD_PROTECTION_LEVEL_HANDSHAKE 0 (Some (replicate 32 2)) 32 (Some b1) =
      Some (1, Some b2) \<and>
    quicz_openssl_tls_backend_pull_handshake_traffic_secrets
      \<lparr>hs_local = [], hs_peer = []\<rparr> (Some b2) =
      (QUICZ_TLS_BACKEND_OK, Some b3, \<lparr>hs_local = replicate 32 1, hs_peer = replicate 32 2\<rparr>)"
  using be_handshake_secrets_once [OF be_example_ok(1), of "Some (replicate 32 1)" "Some (replicate 32 2)"
      "\<lparr>hs_local = [], hs_peer = []\<rparr>" "\<lparr>hs_local = [], hs_peer = []\<rparr>"]
  by (auto simp: be_example_def be_zero_def)

text \<open>
  A secret of the wrong length is refused, but the level it was for is already switched: the
  callback returns an error to OpenSSL, stores nothing, and CRYPTO bytes from then on are read from, or
  written to, the new level.
\<close>

theorem be_bad_secret_switches_level:
  assumes "lvl = OSSL_RECORD_PROTECTION_LEVEL_HANDSHAKE \<or> lvl = OSSL_RECORD_PROTECTION_LEVEL_APPLICATION"
    and "n \<noteq> 32"
  shows "\<exists>b1 b2. yield_secret_cb lvl 1 p n (Some b) = Some (0, Some b1) \<and> be_write_level b1 = lvl \<and>
    be_handshake_secrets b1 = be_handshake_secrets b \<and> be_one_rtt_secrets b1 = be_one_rtt_secrets b \<and>
    yield_secret_cb lvl 0 p n (Some b) = Some (0, Some b2) \<and> be_read_level b2 = lvl"
  using assms yield_secret_level_only [of n lvl 0 p b] yield_secret_level_only [of n lvl 1 p b]
  by (auto simp: ossl_level_defs c_bool_def yield_switch_level_def)

theorem be_bad_secret_switches_level_witness:
  "\<exists>b1. yield_secret_cb OSSL_RECORD_PROTECTION_LEVEL_HANDSHAKE 1 (Some [1]) 1 (Some be_example) =
     Some (0, Some b1) \<and> be_write_level b1 = 2 \<and> be_write_level be_example = 0"
  using be_bad_secret_switches_level [of OSSL_RECORD_PROTECTION_LEVEL_HANDSHAKE 1 "Some [1]" be_example]
    be_example_ok(6) by (auto simp: ossl_level_defs)

text \<open>
  Round trip of the peer's transport parameters: what OpenSSL reported, up to 512 bytes, comes
  out of the next pull with enough room byte for byte; a pull with too little room before that loses
  nothing; later pulls are pending and report a length of zero.
\<close>

theorem be_peer_params_roundtrip:
  assumes "be_ok b" and "readable p n" and "unat n \<le> 512" and "unat small < unat n"
    and "unat n \<le> unat out_len" and "writable out out_len"
  shows "\<exists>c1 c2. got_transport_params_cb p n (Some b) = Some (1, c1) \<and>
    quicz_openssl_tls_backend_pull_peer_transport_parameters out0 small w0 c1 =
      Some (QUICZ_TLS_BACKEND_BUFFER_TOO_SMALL, c1, out0, 0) \<and>
    quicz_openssl_tls_backend_pull_peer_transport_parameters out out_len w c1 =
      Some (QUICZ_TLS_BACKEND_OK, c2, put_bytes out (bytes_at p n), n) \<and>
    quicz_openssl_tls_backend_pull_peer_transport_parameters out' out_len' w' c2 =
      Some (QUICZ_TLS_BACKEND_PENDING, c2, out', 0)"
proof -
  have inv: "\<exists>b'. Some b = Some b' \<and> be_ok b'" using assms(1) by simp
  from got_transport_params_fits [OF assms(1-3)] obtain b1 where
      b1: "got_transport_params_cb p n (Some b) = Some (1, Some b1)" "be_ok b1"
        "be_peer_mail (Some b1) = Some (bytes_at p n)"
    by (auto simp: be_peer_mail_def)
  have dep: "deposit_params p n (Some b) = Some (True, Some b1)" by (simp add: deposit_params_def b1(1))
  have "quicz_openssl_tls_backend_pull_peer_transport_parameters out0 small w0 (Some b1) =
      Some (QUICZ_TLS_BACKEND_BUFFER_TOO_SMALL, Some b1, out0, 0)"
    using be_peer.pull_too_small [of "Some b1" "bytes_at p n" small out0 w0] b1 assms(2,4) by simp
  with be_peer.deposit_pull [OF inv assms(2,3,5,6), of w] dep b1(1) show ?thesis by auto
qed

theorem be_peer_params_roundtrip_witness:
  "\<exists>c1 c2. got_transport_params_cb (Some [3, 4]) 2 (Some be_example) = Some (1, c1) \<and>
    quicz_openssl_tls_backend_pull_peer_transport_parameters (Some [0]) 1 0 c1 =
      Some (QUICZ_TLS_BACKEND_BUFFER_TOO_SMALL, c1, Some [0], 0) \<and>
    quicz_openssl_tls_backend_pull_peer_transport_parameters (Some [0, 0, 0]) 3 0 c1 =
      Some (QUICZ_TLS_BACKEND_OK, c2, Some [3, 4, 0], 2)"
  using be_peer_params_roundtrip [OF be_example_ok(1), of "Some [3, 4]" 2 1 3 "Some [0, 0, 0]" "Some [0]" 0 0
      None 0 0]
  by (auto simp: writable_def put_bytes_def splice_def)

text \<open>
  The two PSK callbacks agree: with room for the identity and the key, the client callback
  writes an identity that the server callback accepts, and both sides end up with the same 32-byte key.
\<close>

theorem psk_agree:
  assumes "10 \<le> unat idmax" and "32 \<le> unat cmax" and "32 \<le> unat smax"
    and "unat idmax \<le> length idbuf" and "32 \<le> length ckey" and "32 \<le> length skey"
  shows "\<exists>ident ckey' skey'. psk_client_cb (Some idbuf) idmax (Some ckey) cmax = Some (32, Some ident, Some ckey') \<and>
    psk_server_cb (Some ident) (Some skey) smax = Some (32, Some skey') \<and>
    take 32 ckey' = take 32 skey'"
proof -
  have len: "length psk_identity = 10" "length quicz_openssl_backend_demo_psk = 32"
    by (simp_all add: psk_identity_def char_bytes_def quicz_openssl_backend_demo_psk_def)
  have same: "strcmp_eq (psk_identity @ rest) psk_identity = Some True" for rest
    by (simp add: psk_identity_def char_bytes_def)
  have w: "writable (Some idbuf) 10" "writable (Some ckey) 32" "writable (Some skey) 32"
    using assms by (simp_all add: writable_def)
  have "memcpy_out (Some idbuf) psk_identity 10 = Some (Some (psk_identity @ drop 10 idbuf))"
    "memcpy_out (Some ckey) quicz_openssl_backend_demo_psk 32 =
       Some (Some (quicz_openssl_backend_demo_psk @ drop 32 ckey))"
    "memcpy_out (Some skey) quicz_openssl_backend_demo_psk 32 =
       Some (Some (quicz_openssl_backend_demo_psk @ drop 32 skey))"
    using w len by (simp_all add: put_bytes_def splice_def)
  with assms same len show ?thesis
    by (simp add: psk_client_cb_def psk_server_cb_def)
qed

theorem psk_agree_witness:
  "\<exists>ident ckey' skey'. psk_client_cb (Some (replicate 10 0)) 10 (Some (replicate 32 0)) 32 =
      Some (32, Some ident, Some ckey') \<and>
    psk_server_cb (Some ident) (Some (replicate 32 0)) 32 = Some (32, Some skey') \<and>
    take 32 ckey' = take 32 skey'"
  by (rule psk_agree) simp_all

text \<open>
  A list of protocol names in the form that \<^verbatim>\<open>SSL_set_alpn_protos\<close> and \<^verbatim>\<open>SSL_select_next_proto\<close> take: each
  name is preceded by its length in one byte, and no name is empty.
\<close>

function alpn_list :: "byte list \<Rightarrow> byte list list option" where
  "alpn_list [] = Some []"
| "alpn_list (n # bs) =
     (if n = 0 \<or> length bs < unat n then None
      else map_option (\<lambda>ps. take (unat n) bs # ps) (alpn_list (drop (unat n) bs)))"
  by pat_completeness auto
termination by (relation "measure length") auto

text \<open>
  The protocol list that the backend configures on both sides is not such a list: its length
  byte is 11 and the name that follows has 10 bytes. With the length byte 10 it would be the list of the
  one name.
\<close>

theorem alpn_protos_malformed:
  "alpn_list quicz_alpn_protos = None \<and>
   alpn_list (10 # tl quicz_alpn_protos) = Some [char_bytes ''hq-interop'']"
  by (simp add: quicz_alpn_protos_def char_bytes_def)

end
