(* ===== verification/Pair_Transcript.thy ===== *)
theory Pair_Transcript
  imports OpenSSL_Backend
begin

text \<open>
  The in-memory client and server pair (\<^verbatim>\<open>src/examples/tls_openssl_pair_transcript.c\<close>): two endpoints, each
  with its OpenSSL object, whose CRYPTO bytes are pumped from one to the other until both handshakes are
  done; the transcript it records; the functions that read the transcript; and the contexts that a caller
  drives step by step. This theory holds the definitions; the properties are in
  \<open>Pair_Transcript_Proofs\<close> and \<open>Pair_Context\<close>.

  A field of the C struct \<^verbatim>\<open>quicz_openssl_endpoint\<close> is the record field of the same name with the prefix
  \<open>ep_\<close>, one of \<^verbatim>\<open>quicz_openssl_pair_transcript_result\<close> has the prefix \<open>res_\<close>, and a static function
  whose name the OpenSSL backend has too has the suffix \<open>_ep\<close>.
\<close>

section \<open>State\<close>

record quicz_openssl_endpoint =
  ep_ctx :: "nat option"
  ep_ssl :: "nat option"
  ep_in :: "byte list list"
  ep_in_len :: "size_t list"
  ep_in_read_len :: "size_t list"
  ep_out :: "byte list list"
  ep_out_len :: "size_t list"
  ep_out_total_len :: "size_t list"
  ep_out_history :: "byte list list"
  ep_out_history_len :: "size_t list"
  ep_secrets :: "byte list list list"
  ep_secret_available :: "cint list list"
  ep_read_level :: uint32
  ep_write_level :: uint32
  ep_send_callbacks :: cint
  ep_recv_callbacks :: cint
  ep_release_callbacks :: cint
  ep_yield_secret_callbacks :: cint
  ep_got_transport_params_callbacks :: cint
  ep_peer_transport_parameters :: "byte list"
  ep_peer_transport_parameters_len :: size_t
  ep_keylog_callbacks :: cint
  ep_keylog_bytes :: size_t
  ep_alert_callbacks :: cint
  ep_last_alert :: cint
  ep_handshake_done :: cint
  ep_last_ssl_error :: cint
  ep_local_transport_parameters :: "byte list"
  ep_local_transport_parameters_len :: size_t

type_synonym endpoint = quicz_openssl_endpoint

definition ep_zero :: endpoint where
  "ep_zero =
     \<lparr>ep_ctx = None, ep_ssl = None,
      ep_in = replicate 4 (replicate 65536 0), ep_in_len = replicate 4 0, ep_in_read_len = replicate 4 0,
      ep_out = replicate 4 (replicate 65536 0), ep_out_len = replicate 4 0,
      ep_out_total_len = replicate 4 0,
      ep_out_history = replicate 4 (replicate 65536 0), ep_out_history_len = replicate 4 0,
      ep_secrets = replicate 4 (replicate 2 (replicate 32 0)),
      ep_secret_available = replicate 4 (replicate 2 0),
      ep_read_level = 0, ep_write_level = 0, ep_send_callbacks = 0, ep_recv_callbacks = 0,
      ep_release_callbacks = 0, ep_yield_secret_callbacks = 0, ep_got_transport_params_callbacks = 0,
      ep_peer_transport_parameters = replicate 512 0, ep_peer_transport_parameters_len = 0,
      ep_keylog_callbacks = 0, ep_keylog_bytes = 0, ep_alert_callbacks = 0, ep_last_alert = 0,
      ep_handshake_done = 0, ep_last_ssl_error = 0,
      ep_local_transport_parameters = replicate 512 0, ep_local_transport_parameters_len = 0\<rparr>"

record quicz_openssl_pair_transcript_context =
  pc_client :: "endpoint option"
  pc_server :: "endpoint option"

text \<open>The static variables of lines 47 to 63; a field is the variable without its prefix.\<close>

record pair_statics =
  last_client_crypto :: "byte list list"
  last_client_crypto_len :: "size_t list"
  last_server_crypto :: "byte list list"
  last_server_crypto_len :: "size_t list"
  last_client_peer_transport_parameters :: "byte list"
  last_client_peer_transport_parameters_len :: size_t
  last_server_peer_transport_parameters :: "byte list"
  last_server_peer_transport_parameters_len :: size_t
  last_client_secrets :: "byte list list list"
  last_client_secret_available :: "cint list list"
  last_server_secrets :: "byte list list list"
  last_server_secret_available :: "cint list list"
  configured_client_transport_parameters :: "byte list"
  configured_client_transport_parameters_len :: size_t
  configured_server_transport_parameters :: "byte list"
  configured_server_transport_parameters_len :: size_t
  transport_parameters_configured :: cint

definition pair_statics_zero :: pair_statics where
  "pair_statics_zero =
     \<lparr>last_client_crypto = replicate 4 (replicate 65536 0), last_client_crypto_len = replicate 4 0,
      last_server_crypto = replicate 4 (replicate 65536 0), last_server_crypto_len = replicate 4 0,
      last_client_peer_transport_parameters = replicate 512 0,
      last_client_peer_transport_parameters_len = 0,
      last_server_peer_transport_parameters = replicate 512 0,
      last_server_peer_transport_parameters_len = 0,
      last_client_secrets = replicate 4 (replicate 2 (replicate 32 0)),
      last_client_secret_available = replicate 4 (replicate 2 0),
      last_server_secrets = replicate 4 (replicate 2 (replicate 32 0)),
      last_server_secret_available = replicate 4 (replicate 2 0),
      configured_client_transport_parameters = replicate 512 0,
      configured_client_transport_parameters_len = 0,
      configured_server_transport_parameters = replicate 512 0,
      configured_server_transport_parameters_len = 0,
      transport_parameters_configured = 0\<rparr>"

record quicz_openssl_pair_transcript_result =
  res_initialized :: cint
  res_client_done :: cint
  res_server_done :: cint
  res_client_send_callbacks :: cint
  res_server_send_callbacks :: cint
  res_client_recv_callbacks :: cint
  res_server_recv_callbacks :: cint
  res_client_release_callbacks :: cint
  res_server_release_callbacks :: cint
  res_client_yield_secret_callbacks :: cint
  res_server_yield_secret_callbacks :: cint
  res_client_got_transport_params_callbacks :: cint
  res_server_got_transport_params_callbacks :: cint
  res_client_peer_transport_parameters_len :: size_t
  res_server_peer_transport_parameters_len :: size_t
  res_client_keylog_callbacks :: cint
  res_server_keylog_callbacks :: cint
  res_client_keylog_bytes :: size_t
  res_server_keylog_bytes :: size_t
  res_client_alert_callbacks :: cint
  res_server_alert_callbacks :: cint
  res_client_last_alert :: cint
  res_server_last_alert :: cint
  res_client_last_ssl_error :: cint
  res_server_last_ssl_error :: cint
  res_client_read_level :: cint
  res_server_read_level :: cint
  res_client_write_level :: cint
  res_server_write_level :: cint
  res_drive_iterations :: cint
  res_error_queue_code :: "64 word"
  res_client_out_level_bytes :: "size_t list"
  res_server_out_level_bytes :: "size_t list"

type_synonym pair_result = quicz_openssl_pair_transcript_result

definition pair_result_zero :: pair_result where
  "pair_result_zero =
     \<lparr>res_initialized = 0, res_client_done = 0, res_server_done = 0,
      res_client_send_callbacks = 0, res_server_send_callbacks = 0,
      res_client_recv_callbacks = 0, res_server_recv_callbacks = 0,
      res_client_release_callbacks = 0, res_server_release_callbacks = 0,
      res_client_yield_secret_callbacks = 0, res_server_yield_secret_callbacks = 0,
      res_client_got_transport_params_callbacks = 0, res_server_got_transport_params_callbacks = 0,
      res_client_peer_transport_parameters_len = 0, res_server_peer_transport_parameters_len = 0,
      res_client_keylog_callbacks = 0, res_server_keylog_callbacks = 0,
      res_client_keylog_bytes = 0, res_server_keylog_bytes = 0,
      res_client_alert_callbacks = 0, res_server_alert_callbacks = 0,
      res_client_last_alert = 0, res_server_last_alert = 0,
      res_client_last_ssl_error = 0, res_server_last_ssl_error = 0,
      res_client_read_level = 0, res_server_read_level = 0,
      res_client_write_level = 0, res_server_write_level = 0,
      res_drive_iterations = 0, res_error_queue_code = 0,
      res_client_out_level_bytes = replicate 4 0, res_server_out_level_bytes = replicate 4 0\<rparr>"

section \<open>Callbacks\<close>

definition crypto_send_cb_ep ::
  "ptr \<Rightarrow> size_t \<Rightarrow> size_t \<Rightarrow> endpoint option \<Rightarrow> (cint \<times> size_t \<times> endpoint option) option" where
  "crypto_send_cb_ep buf buf_len consumed arg =
     (case arg of
        None \<Rightarrow> Some (0, consumed, None)
      | Some e \<Rightarrow>
        if ep_write_level e \<ge> 4 then Some (0, consumed, Some e)
        else let l = unat (ep_write_level e) in
        if buf_len > 65536 - ep_out_len e ! l \<or> buf_len > 65536 - ep_out_history_len e ! l
        then Some (0, consumed, Some e)
        else do {
          out \<leftarrow> memcpy (ep_out e ! l) (ep_out_len e ! l) buf buf_len;
          hist \<leftarrow> memcpy (ep_out_history e ! l) (ep_out_history_len e ! l) buf buf_len;
          Some (1, buf_len, Some (e\<lparr>
            ep_out := (ep_out e)[l := out],
            ep_out_len := (ep_out_len e)[l := ep_out_len e ! l + buf_len],
            ep_out_total_len := (ep_out_total_len e)[l := ep_out_total_len e ! l + buf_len],
            ep_out_history := (ep_out_history e)[l := hist],
            ep_out_history_len := (ep_out_history_len e)[l := ep_out_history_len e ! l + buf_len],
            ep_send_callbacks := ep_send_callbacks e + 1\<rparr>))
        })"

definition crypto_recv_rcd_cb_ep :: "endpoint option \<Rightarrow> cint \<times> ptr \<times> size_t \<times> endpoint option" where
  "crypto_recv_rcd_cb_ep arg =
     (case arg of
        None \<Rightarrow> (1, None, 0, None)
      | Some e \<Rightarrow>
        let l = unat (ep_read_level e) in
        if ep_read_level e \<ge> 4 \<or> ep_in_read_len e ! l \<noteq> 0 then (1, None, 0, Some e)
        else
        let e' = e\<lparr>ep_recv_callbacks := ep_recv_callbacks e + 1\<rparr> in
        if ep_in_len e ! l = 0 then (1, None, 0, Some e')
        else (1, Some (ep_in e ! l), ep_in_len e ! l,
              Some (e'\<lparr>ep_in_read_len := (ep_in_read_len e)[l := ep_in_len e ! l]\<rparr>)))"

definition crypto_release_rcd_cb_ep :: "size_t \<Rightarrow> endpoint option \<Rightarrow> (cint \<times> endpoint option) option" where
  "crypto_release_rcd_cb_ep bytes_read arg =
     (case arg of
        None \<Rightarrow> Some (0, None)
      | Some e \<Rightarrow>
        let l = unat (ep_read_level e); read_len = ep_in_read_len e ! l in
        if ep_read_level e \<ge> 4 \<or> bytes_read > read_len then Some (0, Some e)
        else
        let e' = e\<lparr>ep_in_read_len := (ep_in_read_len e)[l := 0],
                   ep_release_callbacks := ep_release_callbacks e + 1\<rparr> in
        if bytes_read < read_len
        then let remaining = read_len - bytes_read in do {
          dst \<leftarrow> memmove (ep_in e ! l) bytes_read remaining;
          Some (1, Some (e'\<lparr>ep_in := (ep_in e)[l := dst], ep_in_len := (ep_in_len e)[l := remaining]\<rparr>))
        }
        else Some (1, Some (e'\<lparr>ep_in_len := (ep_in_len e)[l := 0]\<rparr>)))"

text \<open>Lines 149 to 153: the level that the new secret is for.\<close>

definition ep_switch_level :: "uint32 \<Rightarrow> cint \<Rightarrow> endpoint \<Rightarrow> endpoint" where
  "ep_switch_level prot_level direction e =
     (if direction = 0 then e\<lparr>ep_read_level := prot_level\<rparr>
      else if direction = 1 then e\<lparr>ep_write_level := prot_level\<rparr> else e)"

definition yield_secret_cb_ep ::
  "uint32 \<Rightarrow> cint \<Rightarrow> ptr \<Rightarrow> size_t \<Rightarrow> endpoint option \<Rightarrow> (cint \<times> endpoint option) option" where
  "yield_secret_cb_ep prot_level direction secret secret_len arg =
     (case arg of
        None \<Rightarrow> Some (0, None)
      | Some e \<Rightarrow>
        if prot_level \<ge> 4 then Some (0, Some e)
        else let e1 = ep_switch_level prot_level direction e; l = unat prot_level; d = unat direction in
        if (direction = 0 \<or> direction = 1) \<and> secret_len = 32
        then do {
          x \<leftarrow> memcpy (ep_secrets e1 ! l ! d) 0 secret secret_len;
          Some (1, Some (e1\<lparr>
            ep_secrets := (ep_secrets e1)[l := (ep_secrets e1 ! l)[d := x]],
            ep_secret_available := (ep_secret_available e1)[l := (ep_secret_available e1 ! l)[d := 1]],
            ep_yield_secret_callbacks := ep_yield_secret_callbacks e1 + 1\<rparr>))
        }
        else Some (1, Some (e1\<lparr>ep_yield_secret_callbacks := ep_yield_secret_callbacks e1 + 1\<rparr>)))"

definition got_transport_params_cb_ep ::
  "ptr \<Rightarrow> size_t \<Rightarrow> endpoint option \<Rightarrow> (cint \<times> endpoint option) option" where
  "got_transport_params_cb_ep params params_len arg =
     (case arg of
        None \<Rightarrow> Some (0, None)
      | Some e \<Rightarrow>
        if params_len > 0 \<and> params = None \<or> params_len > 512 then Some (0, Some e)
        else do {
          dst \<leftarrow> (if params_len > 0 then memcpy (ep_peer_transport_parameters e) 0 params params_len
                 else Some (ep_peer_transport_parameters e));
          Some (1, Some (e\<lparr>ep_peer_transport_parameters := dst,
                           ep_peer_transport_parameters_len := params_len,
                           ep_got_transport_params_callbacks := ep_got_transport_params_callbacks e + 1\<rparr>))
        })"

definition keylog_cb_ep :: "string option \<Rightarrow> endpoint option \<Rightarrow> endpoint option" where
  "keylog_cb_ep line app_data =
     (case (app_data, line) of
        (Some e, Some s) \<Rightarrow>
          Some (e\<lparr>ep_keylog_callbacks := ep_keylog_callbacks e + 1,
                  ep_keylog_bytes := ep_keylog_bytes e + word_of_nat (length s)\<rparr>)
      | _ \<Rightarrow> app_data)"

definition alert_cb_ep :: "byte \<Rightarrow> endpoint option \<Rightarrow> cint \<times> endpoint option" where
  "alert_cb_ep alert_code arg =
     (case arg of
        None \<Rightarrow> (0, None)
      | Some e \<Rightarrow> (1, Some (e\<lparr>ep_alert_callbacks := ep_alert_callbacks e + 1,
                                ep_last_alert := ucast alert_code\<rparr>)))"

definition quicz_openssl_tls_dispatch_ep :: "endpoint option callbacks" where
  "quicz_openssl_tls_dispatch_ep =
     \<lparr>cb_crypto_send = crypto_send_cb_ep, cb_crypto_recv_rcd = crypto_recv_rcd_cb_ep,
      cb_crypto_release_rcd = crypto_release_rcd_cb_ep, cb_yield_secret = yield_secret_cb_ep,
      cb_got_transport_params = got_transport_params_cb_ep, cb_alert = alert_cb_ep,
      cb_keylog = keylog_cb_ep\<rparr>"

definition quicz_openssl_demo_psk :: "byte list" where
  "quicz_openssl_demo_psk =
     [0x00, 0x01, 0x02, 0x03, 0x04, 0x05, 0x06, 0x07,
      0x08, 0x09, 0x0a, 0x0b, 0x0c, 0x0d, 0x0e, 0x0f,
      0x10, 0x11, 0x12, 0x13, 0x14, 0x15, 0x16, 0x17,
      0x18, 0x19, 0x1a, 0x1b, 0x1c, 0x1d, 0x1e, 0x1f]"

definition psk_client_cb_ep ::
  "ptr \<Rightarrow> uint32 \<Rightarrow> ptr \<Rightarrow> uint32 \<Rightarrow> (uint32 \<times> ptr \<times> ptr) option" where
  "psk_client_cb_ep identity max_identity_len psk max_psk_len =
     (if 10 > unat max_identity_len \<or> 32 > unat max_psk_len then Some (0, identity, psk)
      else do {
        identity' \<leftarrow> memcpy_out identity psk_identity 10;
        psk' \<leftarrow> memcpy_out psk quicz_openssl_demo_psk 32;
        Some (32, identity', psk')
      })"

definition psk_server_cb_ep :: "ptr \<Rightarrow> ptr \<Rightarrow> uint32 \<Rightarrow> (uint32 \<times> ptr) option" where
  "psk_server_cb_ep identity psk max_psk_len =
     (case identity of
        None \<Rightarrow> Some (0, psk)
      | Some name \<Rightarrow> do {
          same \<leftarrow> strcmp_eq name psk_identity;
          if \<not> same \<or> 32 > unat max_psk_len then Some (0, psk)
          else do {
            psk' \<leftarrow> memcpy_out psk quicz_openssl_demo_psk 32;
            Some (32, psk')
          }
        })"

section \<open>Construction and destruction of endpoints\<close>

text \<open>The library calls and the releases; \<open>is_client\<close> says which of the two endpoints it is.\<close>

definition free_endpoint :: "'w openssl \<Rightarrow> bool \<Rightarrow> endpoint option \<Rightarrow> 'w \<Rightarrow> 'w \<times> heap_event list" where
  "free_endpoint L is_client endpoint w =
     (case endpoint of
        None \<Rightarrow> (w, [])
      | Some e \<Rightarrow>
        (SSL_CTX_free L (ep_ctx e) (SSL_free L (ep_ssl e) w),
         (case ep_ssl e of None \<Rightarrow> [] | Some s \<Rightarrow> [Release (Ssl s)]) @
         (case ep_ctx e of None \<Rightarrow> [] | Some c \<Rightarrow> [Release (Ctx c)]) @ [Release (Endpoint_mem is_client)]))"

definition quicz_openssl_pair_transcript_configure_transport_parameters ::
  "ptr \<Rightarrow> size_t \<Rightarrow> ptr \<Rightarrow> size_t \<Rightarrow> pair_statics \<Rightarrow> (cint \<times> pair_statics) option" where
  "quicz_openssl_pair_transcript_configure_transport_parameters
     client_params client_params_len server_params server_params_len st =
     (if client_params_len > 0 \<and> client_params = None \<or> server_params_len > 0 \<and> server_params = None \<or>
         client_params_len > 512 \<or> server_params_len > 512
      then Some (0, st)
      else do {
        c \<leftarrow> (if client_params_len > 0 then memcpy (replicate 512 0) 0 client_params client_params_len
             else Some (replicate 512 0));
        s \<leftarrow> (if server_params_len > 0 then memcpy (replicate 512 0) 0 server_params server_params_len
             else Some (replicate 512 0));
        Some (1, st\<lparr>configured_client_transport_parameters := c,
                    configured_server_transport_parameters := s,
                    configured_client_transport_parameters_len := client_params_len,
                    configured_server_transport_parameters_len := server_params_len,
                    transport_parameters_configured := 1\<rparr>)
      })"

definition client_transport_parameters :: "byte list" where
  "client_transport_parameters =
     [0x0f, 0x04, 0x21, 0x22, 0x23, 0x24,
      0x04, 0x02, 0x60, 0x00,
      0x05, 0x02, 0x48, 0x00,
      0x06, 0x02, 0x48, 0x00,
      0x08, 0x01, 0x08]"

definition server_transport_parameters :: "byte list" where
  "server_transport_parameters =
     [0x00, 0x08, 0x83, 0x94, 0xc8, 0xf0, 0x3e, 0x51, 0x57, 0x08,
      0x0f, 0x04, 0x31, 0x32, 0x33, 0x34,
      0x04, 0x02, 0x60, 0x00,
      0x05, 0x02, 0x48, 0x00,
      0x06, 0x02, 0x48, 0x00,
      0x08, 0x01, 0x08]"

text \<open>Lines 303 to 312: the parameters that an endpoint uses and their length.\<close>

definition endpoint_parameters :: "pair_statics \<Rightarrow> bool \<Rightarrow> byte list \<times> size_t" where
  "endpoint_parameters st is_client =
     (if transport_parameters_configured st \<noteq> 0
      then if is_client
           then (configured_client_transport_parameters st, configured_client_transport_parameters_len st)
           else (configured_server_transport_parameters st, configured_server_transport_parameters_len st)
      else if is_client then (client_transport_parameters, 21) else (server_transport_parameters, 31))"

text \<open>
  The result: the returned flag, the endpoint, the library and what was acquired. The handles stay in the
  endpoint when a later step fails, so that \<open>free_endpoint\<close> releases them.
\<close>

definition init_endpoint ::
  "'w openssl \<Rightarrow> pair_statics \<Rightarrow> bool \<Rightarrow> 'w \<Rightarrow> (cint \<times> endpoint \<times> 'w \<times> heap_event list) option" where
  "init_endpoint L st is_client w =
     (case endpoint_parameters st is_client of (params, params_len) \<Rightarrow>
      let e = ep_zero in
      if params_len > 512 then Some (0, e, w, [])
      else do {
        local \<leftarrow> memcpy (ep_local_transport_parameters e) 0 (Some params) params_len;
        let e = e\<lparr>ep_local_transport_parameters := local, ep_local_transport_parameters_len := params_len\<rparr>;
        let (ctx, w) = SSL_CTX_new L is_client w;
        case ctx of
          None \<Rightarrow> Some (0, e, w, [])
        | Some c \<Rightarrow>
          let e = e\<lparr>ep_ctx := Some c\<rparr>; (configured, w) = configure_ctx L c w in
          if \<not> configured then Some (0, e, w, [Acquire (Ctx c)])
          else let w = SSL_CTX_set_psk_callbacks L c w; (ssl, w) = SSL_new L c w in
          case ssl of
            None \<Rightarrow> Some (0, e, w, [Acquire (Ctx c)])
          | Some s \<Rightarrow>
            let e = e\<lparr>ep_ssl := Some s\<rparr>; es = [Acquire (Ctx c), Acquire (Ssl s)];
                w = SSL_set_app_data L s w; w = SSL_CTX_set_keylog_callback L c w;
                (set, w) = SSL_set_quic_tls_cbs L s w in
            if set = 0 then Some (0, e, w, es)
            else let (set, w) = SSL_set_quic_tls_transport_params L s (Some (ep_local_transport_parameters e))
                       (ep_local_transport_parameters_len e) w in
            if set = 0 then Some (0, e, w, es)
            else Some (1, e, if is_client then SSL_set_connect_state L s w else SSL_set_accept_state L s w, es)
      })"

section \<open>Moving bytes and driving\<close>

text \<open>
  The loop over the levels. The two endpoints are different objects: the callers pass the client and the
  server, in either order.
\<close>

fun pump_levels :: "nat list \<Rightarrow> endpoint \<Rightarrow> endpoint \<Rightarrow> (cint \<times> endpoint \<times> endpoint) option" where
  "pump_levels [] from to = Some (1, from, to)"
| "pump_levels (level # levels) from to =
     (if ep_out_len from ! level = 0 then pump_levels levels from to
      else if ep_out_len from ! level > 65536 - ep_in_len to ! level then Some (0, from, to)
      else do {
        dst \<leftarrow> memcpy (ep_in to ! level) (ep_in_len to ! level) (Some (ep_out from ! level)) (ep_out_len from ! level);
        pump_levels levels
          (from\<lparr>ep_out_len := (ep_out_len from)[level := 0]\<rparr>)
          (to\<lparr>ep_in := (ep_in to)[level := dst],
              ep_in_len := (ep_in_len to)[level := ep_in_len to ! level + ep_out_len from ! level]\<rparr>)
      })"

definition pump_crypto :: "endpoint \<Rightarrow> endpoint \<Rightarrow> (cint \<times> endpoint \<times> endpoint) option" where
  "pump_crypto from to = pump_levels [0..<4] from to"

definition drive_handshake :: "'w openssl \<Rightarrow> 'w \<Rightarrow> endpoint \<Rightarrow> ('w \<times> endpoint) option" where
  "drive_handshake L w e = do {
     ssl \<leftarrow> ep_ssl e;
     (rc, w', arg) \<leftarrow> run_engine quicz_openssl_tls_dispatch_ep (SSL_do_handshake L ssl w) (Some e);
     e' \<leftarrow> arg;
     Some (w', if rc = 1 then e'\<lparr>ep_handshake_done := 1, ep_last_ssl_error := SSL_ERROR_NONE L\<rparr>
               else e'\<lparr>ep_last_ssl_error := SSL_get_error L ssl rc w'\<rparr>)
   }"

section \<open>Results\<close>

definition copy_result_endpoint :: "endpoint \<Rightarrow> endpoint \<Rightarrow> pair_result \<Rightarrow> pair_result" where
  "copy_result_endpoint client server r =
     r\<lparr>res_client_done := ep_handshake_done client,
       res_server_done := ep_handshake_done server,
       res_client_send_callbacks := ep_send_callbacks client,
       res_server_send_callbacks := ep_send_callbacks server,
       res_client_recv_callbacks := ep_recv_callbacks client,
       res_server_recv_callbacks := ep_recv_callbacks server,
       res_client_release_callbacks := ep_release_callbacks client,
       res_server_release_callbacks := ep_release_callbacks server,
       res_client_yield_secret_callbacks := ep_yield_secret_callbacks client,
       res_server_yield_secret_callbacks := ep_yield_secret_callbacks server,
       res_client_got_transport_params_callbacks := ep_got_transport_params_callbacks client,
       res_server_got_transport_params_callbacks := ep_got_transport_params_callbacks server,
       res_client_peer_transport_parameters_len := ep_peer_transport_parameters_len client,
       res_server_peer_transport_parameters_len := ep_peer_transport_parameters_len server,
       res_client_keylog_callbacks := ep_keylog_callbacks client,
       res_server_keylog_callbacks := ep_keylog_callbacks server,
       res_client_keylog_bytes := ep_keylog_bytes client,
       res_server_keylog_bytes := ep_keylog_bytes server,
       res_client_alert_callbacks := ep_alert_callbacks client,
       res_server_alert_callbacks := ep_alert_callbacks server,
       res_client_last_alert := ep_last_alert client,
       res_server_last_alert := ep_last_alert server,
       res_client_last_ssl_error := ep_last_ssl_error client,
       res_server_last_ssl_error := ep_last_ssl_error server,
       res_client_read_level := ep_read_level client,
       res_server_read_level := ep_read_level server,
       res_client_write_level := ep_write_level client,
       res_server_write_level := ep_write_level server,
       res_client_out_level_bytes := map (\<lambda>level. ep_out_total_len client ! level) [0..<4],
       res_server_out_level_bytes := map (\<lambda>level. ep_out_total_len server ! level) [0..<4]\<rparr>"

text \<open>A loop whose body may have undefined behaviour.\<close>

fun for_each :: "('i \<Rightarrow> 's \<Rightarrow> 's option) \<Rightarrow> 'i list \<Rightarrow> 's \<Rightarrow> 's option" where
  "for_each f [] s = Some s"
| "for_each f (i # is) s = do { s' \<leftarrow> f i s; for_each f is s' }"

definition copy_last_crypto_level :: "endpoint \<Rightarrow> endpoint \<Rightarrow> nat \<Rightarrow> pair_statics \<Rightarrow> pair_statics option" where
  "copy_last_crypto_level client server level st = do {
     c \<leftarrow> memcpy (last_client_crypto st ! level) 0 (Some (ep_out_history client ! level))
          (ep_out_history_len client ! level);
     s \<leftarrow> memcpy (last_server_crypto st ! level) 0 (Some (ep_out_history server ! level))
          (ep_out_history_len server ! level);
     Some (st\<lparr>
       last_client_crypto := (last_client_crypto st)[level := c],
       last_client_crypto_len := (last_client_crypto_len st)[level := ep_out_history_len client ! level],
       last_server_crypto := (last_server_crypto st)[level := s],
       last_server_crypto_len := (last_server_crypto_len st)[level := ep_out_history_len server ! level]\<rparr>)
   }"

definition copy_last_crypto :: "endpoint \<Rightarrow> endpoint \<Rightarrow> pair_statics \<Rightarrow> pair_statics option" where
  "copy_last_crypto client server st =
     for_each (copy_last_crypto_level client server) [0..<4]
       (st\<lparr>last_client_crypto_len := replicate 4 0, last_server_crypto_len := replicate 4 0\<rparr>)"

definition copy_last_transport_parameters :: "endpoint \<Rightarrow> endpoint \<Rightarrow> pair_statics \<Rightarrow> pair_statics option" where
  "copy_last_transport_parameters client server st = do {
     c \<leftarrow> memcpy (replicate 512 0) 0 (Some (ep_peer_transport_parameters client))
          (ep_peer_transport_parameters_len client);
     s \<leftarrow> memcpy (replicate 512 0) 0 (Some (ep_peer_transport_parameters server))
          (ep_peer_transport_parameters_len server);
     Some (st\<lparr>
       last_client_peer_transport_parameters_len := ep_peer_transport_parameters_len client,
       last_server_peer_transport_parameters_len := ep_peer_transport_parameters_len server,
       last_client_peer_transport_parameters := c,
       last_server_peer_transport_parameters := s\<rparr>)
   }"

text \<open>The body of the inner loop of \<^verbatim>\<open>copy_last_secrets\<close>, for one side: lines 461 to 468 and 469 to 476.\<close>

definition copy_last_secret ::
  "endpoint \<Rightarrow> nat \<Rightarrow> nat \<Rightarrow> byte list list list \<times> cint list list \<Rightarrow>
     (byte list list list \<times> cint list list) option" where
  "copy_last_secret e level direction = (\<lambda>(secrets, available).
     if ep_secret_available e ! level ! direction \<noteq> 0
     then do {
       x \<leftarrow> memcpy (secrets ! level ! direction) 0 (Some (ep_secrets e ! level ! direction)) 32;
       Some (secrets[level := (secrets ! level)[direction := x]],
             available[level := (available ! level)[direction := 1]])
     }
     else Some (secrets, available))"

definition copy_last_secrets_step ::
  "endpoint \<Rightarrow> endpoint \<Rightarrow> nat \<times> nat \<Rightarrow> pair_statics \<Rightarrow> pair_statics option" where
  "copy_last_secrets_step client server = (\<lambda>(level, direction) st. do {
     (cs, ca) \<leftarrow> copy_last_secret client level direction
       (last_client_secrets st, last_client_secret_available st);
     (ss, sa) \<leftarrow> copy_last_secret server level direction
       (last_server_secrets st, last_server_secret_available st);
     Some (st\<lparr>last_client_secrets := cs, last_client_secret_available := ca,
              last_server_secrets := ss, last_server_secret_available := sa\<rparr>)
   })"

definition copy_last_secrets :: "endpoint \<Rightarrow> endpoint \<Rightarrow> pair_statics \<Rightarrow> pair_statics option" where
  "copy_last_secrets client server st =
     for_each (copy_last_secrets_step client server) (List.product [0..<4] [0..<2])
       (st\<lparr>last_client_secret_available := replicate 4 (replicate 2 0),
           last_server_secret_available := replicate 4 (replicate 2 0)\<rparr>)"

section \<open>The transcript\<close>

text \<open>The loop of lines 508 to 521; the last component is \<^verbatim>\<open>result.drive_iterations\<close>.\<close>

function run_loop ::
  "'w openssl \<Rightarrow> nat \<Rightarrow> 'w \<Rightarrow> endpoint \<Rightarrow> endpoint \<Rightarrow> cint \<Rightarrow> ('w \<times> endpoint \<times> endpoint \<times> cint) option" where
  "run_loop L iteration w client server drive_iterations =
     (if iteration \<ge> 80 then Some (w, client, server, drive_iterations)
      else if ep_handshake_done client \<noteq> 0 \<and> ep_handshake_done server \<noteq> 0
      then Some (w, client, server, drive_iterations)
      else do {
        (w, client) \<leftarrow> drive_handshake L w client;
        (pumped, client, server) \<leftarrow> pump_crypto client server;
        if pumped = 0 then Some (w, client, server, drive_iterations)
        else do {
          (w, server) \<leftarrow> drive_handshake L w server;
          (pumped, server, client) \<leftarrow> pump_crypto server client;
          if pumped = 0 then Some (w, client, server, drive_iterations)
          else run_loop L (iteration + 1) w client server (word_of_nat (iteration + 1))
        }
      })"
  by pat_completeness auto
termination by (relation "measure (\<lambda>(L, iteration, _). 80 - iteration)") auto

declare run_loop.simps [simp del]

text \<open>Lines 484 to 491.\<close>

definition clear_last :: "pair_statics \<Rightarrow> pair_statics" where
  "clear_last st = st\<lparr>
     last_client_crypto_len := replicate 4 0, last_server_crypto_len := replicate 4 0,
     last_client_peer_transport_parameters := replicate 512 0,
     last_server_peer_transport_parameters := replicate 512 0,
     last_client_peer_transport_parameters_len := 0, last_server_peer_transport_parameters_len := 0,
     last_client_secret_available := replicate 4 (replicate 2 0),
     last_server_secret_available := replicate 4 (replicate 2 0)\<rparr>"

text \<open>
  Two endpoints from \<^verbatim>\<open>calloc\<close> and \<^verbatim>\<open>init_endpoint\<close> (lines 493 to 500 and 689 to 694): whether both are
  ready, the two pointers, the library and what was acquired. The second endpoint is initialised only
  if the first one was.
\<close>

definition new_endpoints ::
  "'w openssl \<Rightarrow> pair_statics \<Rightarrow> 'w \<Rightarrow>
     (bool \<times> bool \<times> endpoint option \<times> endpoint option \<times> 'w \<times> heap_event list) option" where
  "new_endpoints L st w =
     (let (got_client, w) = calloc L w; (got_server, w) = calloc L w;
          client = (if got_client then Some ep_zero else None);
          server = (if got_server then Some ep_zero else None);
          es = (if got_client then [Acquire (Endpoint_mem True)] else []) @
               (if got_server then [Acquire (Endpoint_mem False)] else []) in
      if \<not> got_client \<or> \<not> got_server then Some (False, False, client, server, w, es)
      else do {
        (ok, c, w, es1) \<leftarrow> init_endpoint L st True w;
        if ok = 0 then Some (True, False, Some c, server, w, es @ es1)
        else do {
          (ok, s, w, es2) \<leftarrow> init_endpoint L st False w;
          Some (True, ok \<noteq> 0, Some c, Some s, w, es @ es1 @ es2)
        }
      })"

definition quicz_openssl_pair_transcript_run ::
  "'w openssl \<Rightarrow> pair_statics \<Rightarrow> 'w \<Rightarrow> (pair_result \<times> pair_statics \<times> 'w \<times> heap_event list) option" where
  "quicz_openssl_pair_transcript_run L st w =
     (let result = pair_result_zero; st = clear_last st in do {
        (allocated, ready, client, server, w, es) \<leftarrow> new_endpoints L st w;
        if \<not> ready
        then let result = (if allocated then result\<lparr>res_error_queue_code := ERR_peek_error L w\<rparr> else result);
                 (w, es1) = free_endpoint L True client w; (w, es2) = free_endpoint L False server w in
             Some (result, st, w, es @ es1 @ es2)
        else do {
          client \<leftarrow> client;
          server \<leftarrow> server;
          (w, client, server, iterations) \<leftarrow> run_loop L 0 w client server 0;
          st \<leftarrow> copy_last_crypto client server st;
          st \<leftarrow> copy_last_transport_parameters client server st;
          st \<leftarrow> copy_last_secrets client server st;
          let result = (copy_result_endpoint client server
                (result\<lparr>res_initialized := 1, res_drive_iterations := iterations\<rparr>))
                \<lparr>res_error_queue_code := ERR_peek_error L w\<rparr>;
              (w, es1) = free_endpoint L True (Some client) w; (w, es2) = free_endpoint L False (Some server) w in
          Some (result, st, w, es @ es1 @ es2)
        }
      })"

section \<open>Reading the last transcript\<close>

text \<open>
  The result of a copy: the returned flag, the caller's buffer and \<^verbatim>\<open>*written_len\<close>
  (\<^term>\<open>None\<close> when the pointer is \<^verbatim>\<open>NULL\<close>).
\<close>

type_synonym copied = "cint \<times> ptr \<times> size_t option"

definition level_in_range :: "cint \<Rightarrow> bool" where
  "level_in_range level \<longleftrightarrow> \<not> (sint level < 0 \<or> sint level \<ge> 4)"

definition copy_crypto_level ::
  "byte list list \<Rightarrow> size_t list \<Rightarrow> cint \<Rightarrow> ptr \<Rightarrow> size_t \<Rightarrow> size_t option \<Rightarrow> copied option" where
  "copy_crypto_level history history_len level out out_len written_len =
     (if written_len = None \<or> \<not> level_in_range level then Some (0, out, written_len)
      else let l = unat level; level_len = history_len ! l in
      if level_len > out_len then Some (0, out, Some 0)
      else if level_len \<noteq> 0 \<and> out = None then Some (0, out, Some 0)
      else do {
        out' \<leftarrow> memcpy_out out (history ! l) level_len;
        Some (1, out', Some level_len)
      })"

definition quicz_openssl_pair_transcript_copy_client_crypto ::
  "cint \<Rightarrow> ptr \<Rightarrow> size_t \<Rightarrow> size_t option \<Rightarrow> pair_statics \<Rightarrow> copied option" where
  "quicz_openssl_pair_transcript_copy_client_crypto level out out_len written_len st =
     copy_crypto_level (last_client_crypto st) (last_client_crypto_len st) level out out_len written_len"

definition quicz_openssl_pair_transcript_copy_server_crypto ::
  "cint \<Rightarrow> ptr \<Rightarrow> size_t \<Rightarrow> size_t option \<Rightarrow> pair_statics \<Rightarrow> copied option" where
  "quicz_openssl_pair_transcript_copy_server_crypto level out out_len written_len st =
     copy_crypto_level (last_server_crypto st) (last_server_crypto_len st) level out out_len written_len"

definition quicz_openssl_pair_transcript_copy_client_peer_transport_parameters ::
  "ptr \<Rightarrow> size_t \<Rightarrow> size_t option \<Rightarrow> pair_statics \<Rightarrow> copied option" where
  "quicz_openssl_pair_transcript_copy_client_peer_transport_parameters out out_len written_len st =
     (if written_len = None \<or> last_client_peer_transport_parameters_len st > out_len
      then Some (0, out, map_option (\<lambda>_. 0) written_len)
      else do {
        out' \<leftarrow> memcpy_out out (last_client_peer_transport_parameters st)
                 (last_client_peer_transport_parameters_len st);
        Some (1, out', Some (last_client_peer_transport_parameters_len st))
      })"

definition quicz_openssl_pair_transcript_copy_server_peer_transport_parameters ::
  "ptr \<Rightarrow> size_t \<Rightarrow> size_t option \<Rightarrow> pair_statics \<Rightarrow> copied option" where
  "quicz_openssl_pair_transcript_copy_server_peer_transport_parameters out out_len written_len st =
     (if written_len = None \<or> last_server_peer_transport_parameters_len st > out_len
      then Some (0, out, map_option (\<lambda>_. 0) written_len)
      else do {
        out' \<leftarrow> memcpy_out out (last_server_peer_transport_parameters st)
                 (last_server_peer_transport_parameters_len st);
        Some (1, out', Some (last_server_peer_transport_parameters_len st))
      })"

definition copy_secret ::
  "byte list list list \<Rightarrow> cint list list \<Rightarrow> cint \<Rightarrow> cint \<Rightarrow> ptr \<Rightarrow> size_t \<Rightarrow> size_t option \<Rightarrow> copied option" where
  "copy_secret secrets available level direction out out_len written_len =
     (if written_len = None \<or> \<not> level_in_range level \<or> sint direction < 0 \<or> sint direction \<ge> 2 \<or>
         available ! unat level ! unat direction = 0 \<or> out_len < 32 \<or> out = None
      then Some (0, out, map_option (\<lambda>_. 0) written_len)
      else do {
        out' \<leftarrow> memcpy_out out (secrets ! unat level ! unat direction) 32;
        Some (1, out', Some 32)
      })"

definition quicz_openssl_pair_transcript_copy_client_secret ::
  "cint \<Rightarrow> cint \<Rightarrow> ptr \<Rightarrow> size_t \<Rightarrow> size_t option \<Rightarrow> pair_statics \<Rightarrow> copied option" where
  "quicz_openssl_pair_transcript_copy_client_secret level direction out out_len written_len st =
     copy_secret (last_client_secrets st) (last_client_secret_available st) level direction out out_len
       written_len"

definition quicz_openssl_pair_transcript_copy_server_secret ::
  "cint \<Rightarrow> cint \<Rightarrow> ptr \<Rightarrow> size_t \<Rightarrow> size_t option \<Rightarrow> pair_statics \<Rightarrow> copied option" where
  "quicz_openssl_pair_transcript_copy_server_secret level direction out out_len written_len st =
     copy_secret (last_server_secrets st) (last_server_secret_available st) level direction out out_len
       written_len"

section \<open>Contexts driven step by step\<close>

type_synonym pair_context = quicz_openssl_pair_transcript_context

definition quicz_openssl_pair_transcript_context_new ::
  "'w openssl \<Rightarrow> pair_statics \<Rightarrow> 'w \<Rightarrow> (pair_context option \<times> 'w \<times> heap_event list) option" where
  "quicz_openssl_pair_transcript_context_new L st w =
     (let (allocated, w) = calloc L w in
      if \<not> allocated then Some (None, w, [])
      else do {
        (_, ready, client, server, w, es) \<leftarrow> new_endpoints L st w;
        if \<not> ready
        then let (w, es1) = free_endpoint L True client w; (w, es2) = free_endpoint L False server w in
             Some (None, w, [Acquire Context_mem] @ es @ es1 @ es2 @ [Release Context_mem])
        else Some (Some \<lparr>pc_client = client, pc_server = server\<rparr>, w, [Acquire Context_mem] @ es)
      })"

definition quicz_openssl_pair_transcript_context_free ::
  "'w openssl \<Rightarrow> pair_context option \<Rightarrow> 'w \<Rightarrow> 'w \<times> heap_event list" where
  "quicz_openssl_pair_transcript_context_free L opaque_context w =
     (case opaque_context of
        None \<Rightarrow> (w, [])
      | Some c \<Rightarrow>
        let (w, es1) = free_endpoint L True (pc_client c) w; (w, es2) = free_endpoint L False (pc_server c) w in
        (w, es1 @ es2 @ [Release Context_mem]))"

definition context_endpoint :: "pair_context option \<Rightarrow> cint \<Rightarrow> endpoint option" where
  "context_endpoint context is_client =
     (case context of
        None \<Rightarrow> None
      | Some c \<Rightarrow> if is_client \<noteq> 0 then pc_client c else pc_server c)"

text \<open>Writing back the endpoint that \<^verbatim>\<open>context_endpoint\<close> returned a pointer to.\<close>

definition context_store :: "pair_context option \<Rightarrow> cint \<Rightarrow> endpoint \<Rightarrow> pair_context option" where
  "context_store context is_client e =
     map_option (\<lambda>c. if is_client \<noteq> 0 then c\<lparr>pc_client := Some e\<rparr> else c\<lparr>pc_server := Some e\<rparr>) context"

definition quicz_openssl_pair_transcript_context_drive ::
  "'w openssl \<Rightarrow> cint \<Rightarrow> pair_context option \<Rightarrow> 'w \<Rightarrow> (cint \<times> pair_context option \<times> 'w) option" where
  "quicz_openssl_pair_transcript_context_drive L is_client opaque_context w =
     (case context_endpoint opaque_context is_client of
        None \<Rightarrow> Some (0, opaque_context, w)
      | Some e \<Rightarrow> do {
          (w, e) \<leftarrow> drive_handshake L w e;
          Some (1, context_store opaque_context is_client e, w)
        })"

definition quicz_openssl_pair_transcript_context_result ::
  "'w openssl \<Rightarrow> pair_context option \<Rightarrow> 'w \<Rightarrow> pair_result" where
  "quicz_openssl_pair_transcript_context_result L opaque_context w =
     (case opaque_context of
        None \<Rightarrow> pair_result_zero
      | Some c \<Rightarrow>
        (case (pc_client c, pc_server c) of
           (Some client, Some server) \<Rightarrow>
             (copy_result_endpoint client server (pair_result_zero\<lparr>res_initialized := 1\<rparr>))
               \<lparr>res_error_queue_code := ERR_peek_error L w\<rparr>
         | _ \<Rightarrow> pair_result_zero))"

definition quicz_openssl_pair_transcript_context_provide_crypto ::
  "cint \<Rightarrow> cint \<Rightarrow> ptr \<Rightarrow> size_t \<Rightarrow> pair_context option \<Rightarrow> (cint \<times> pair_context option) option" where
  "quicz_openssl_pair_transcript_context_provide_crypto is_client level data data_len opaque_context =
     (case context_endpoint opaque_context is_client of
        None \<Rightarrow> Some (0, opaque_context)
      | Some e \<Rightarrow>
        let l = unat level in
        if \<not> level_in_range level \<or> data_len > 0 \<and> data = None \<or> data_len > 65536 - ep_in_len e ! l
        then Some (0, opaque_context)
        else do {
          dst \<leftarrow> (if data_len > 0 then memcpy (ep_in e ! l) (ep_in_len e ! l) data data_len
                 else Some (ep_in e ! l));
          Some (1, context_store opaque_context is_client (e\<lparr>
            ep_in := (ep_in e)[l := dst], ep_in_len := (ep_in_len e)[l := ep_in_len e ! l + data_len]\<rparr>))
        })"

definition quicz_openssl_pair_transcript_context_copy_pending_crypto ::
  "cint \<Rightarrow> cint \<Rightarrow> ptr \<Rightarrow> size_t \<Rightarrow> size_t option \<Rightarrow> pair_context option \<Rightarrow>
     (copied \<times> pair_context option) option" where
  "quicz_openssl_pair_transcript_context_copy_pending_crypto is_client level out out_len written_len opaque_context =
     (let l = unat level; refused = Some ((0, out, map_option (\<lambda>_. 0) written_len), opaque_context) in
      case (written_len, context_endpoint opaque_context is_client) of
        (Some _, Some e) \<Rightarrow>
          if \<not> level_in_range level \<or> ep_out_len e ! l > out_len \<or> ep_out_len e ! l > 0 \<and> out = None
          then refused
          else do {
            out' \<leftarrow> memcpy_out out (ep_out e ! l) (ep_out_len e ! l);
            Some ((1, out', Some (ep_out_len e ! l)),
                  context_store opaque_context is_client (e\<lparr>ep_out_len := (ep_out_len e)[l := 0]\<rparr>))
          }
      | _ \<Rightarrow> refused)"

definition quicz_openssl_pair_transcript_context_copy_secret ::
  "cint \<Rightarrow> cint \<Rightarrow> cint \<Rightarrow> ptr \<Rightarrow> size_t \<Rightarrow> size_t option \<Rightarrow> pair_context option \<Rightarrow> copied option" where
  "quicz_openssl_pair_transcript_context_copy_secret is_client level direction out out_len written_len
     opaque_context =
     (case context_endpoint opaque_context is_client of
        None \<Rightarrow> Some (0, out, map_option (\<lambda>_. 0) written_len)
      | Some e \<Rightarrow> copy_secret (ep_secrets e) (ep_secret_available e) level direction out out_len written_len)"

end
