(* ===== verification/Pair_Endpoint.thy ===== *)
theory Pair_Endpoint
  imports Pair_Transcript Byte_Queue
begin

text \<open>
  One endpoint of the pair: its invariant, what each callback does to it, and what a whole handshake call does.
  The contract is instantiated twice, both times for every OpenSSL: \<open>ep_cb\<close> says what happens to the handles, the
  outbound bytes and the history; \<open>ep_io\<close> accounts, by the record of what OpenSSL did, for the bytes that it sent,
  consumed and passed over.
\<close>

section \<open>Invariant\<close>

definition ep_level_ok :: "endpoint \<Rightarrow> nat \<Rightarrow> bool" where
  "ep_level_ok e l \<longleftrightarrow>
     buf_ok 65536 (ep_in e ! l) (ep_in_len e ! l) \<and>
     unat (ep_in_read_len e ! l) \<le> unat (ep_in_len e ! l) \<and>
     buf_ok 65536 (ep_out e ! l) (ep_out_len e ! l) \<and>
     buf_ok 65536 (ep_out_history e ! l) (ep_out_history_len e ! l) \<and>
     length (ep_secrets e ! l) = 2 \<and> length (ep_secret_available e ! l) = 2 \<and>
     (\<forall>d < 2. length (ep_secrets e ! l ! d) = 32)"

definition ep_shape :: "endpoint \<Rightarrow> bool" where
  "ep_shape e \<longleftrightarrow>
     length (ep_in e) = 4 \<and> length (ep_in_len e) = 4 \<and> length (ep_in_read_len e) = 4 \<and>
     length (ep_out e) = 4 \<and> length (ep_out_len e) = 4 \<and> length (ep_out_total_len e) = 4 \<and>
     length (ep_out_history e) = 4 \<and> length (ep_out_history_len e) = 4 \<and>
     length (ep_secrets e) = 4 \<and> length (ep_secret_available e) = 4"

definition ep_ok :: "endpoint \<Rightarrow> bool" where
  "ep_ok e \<longleftrightarrow>
     ep_shape e \<and> (\<forall>l < 4. ep_level_ok e l) \<and>
     buf_ok 512 (ep_peer_transport_parameters e) (ep_peer_transport_parameters_len e) \<and>
     ep_read_level e < 4 \<and> ep_write_level e < 4"

text \<open>The bytes pending inbound and outbound at a level, and all the bytes ever sent at it.\<close>

definition ep_ins :: "nat \<Rightarrow> endpoint \<Rightarrow> byte list" where
  "ep_ins l e = content (ep_in e ! l) (ep_in_len e ! l)"

definition ep_outs :: "nat \<Rightarrow> endpoint \<Rightarrow> byte list" where
  "ep_outs l e = content (ep_out e ! l) (ep_out_len e ! l)"

definition ep_hist :: "nat \<Rightarrow> endpoint \<Rightarrow> byte list" where
  "ep_hist l e = content (ep_out_history e ! l) (ep_out_history_len e ! l)"

lemma ep_okD:
  assumes "ep_ok e"
  shows "ep_shape e" "l < 4 \<Longrightarrow> ep_level_ok e l" "unat (ep_read_level e) < 4" "unat (ep_write_level e) < 4"
    "\<not> ep_read_level e \<ge> 4" "\<not> ep_write_level e \<ge> 4"
    "buf_ok 512 (ep_peer_transport_parameters e) (ep_peer_transport_parameters_len e)"
  using assms by (auto simp: ep_ok_def word_less_nat_alt word_le_nat_alt)

lemma ep_levelD:
  assumes "ep_ok e" and "l < 4"
  shows "buf_ok 65536 (ep_in e ! l) (ep_in_len e ! l)"
    "unat (ep_in_read_len e ! l) \<le> unat (ep_in_len e ! l)"
    "buf_ok 65536 (ep_out e ! l) (ep_out_len e ! l)"
    "buf_ok 65536 (ep_out_history e ! l) (ep_out_history_len e ! l)"
    "length (ep_ins l e) = unat (ep_in_len e ! l)" "length (ep_outs l e) = unat (ep_out_len e ! l)"
    "length (ep_hist l e) = unat (ep_out_history_len e ! l)"
  using ep_okD(2) [OF assms] by (auto simp: ep_level_ok_def ep_ins_def ep_outs_def ep_hist_def)

lemma ep_ok_zero: "ep_ok ep_zero"
  by (simp add: ep_ok_def ep_shape_def ep_level_ok_def ep_zero_def nth_replicate buf_ok_def)

section \<open>The callbacks\<close>

text \<open>
  What a callback may do to the outbound side: append the same bytes to the pending bytes and to the
  history of a level, and count them.
\<close>

definition ep_sends :: "endpoint \<Rightarrow> endpoint \<Rightarrow> bool" where
  "ep_sends e e' \<longleftrightarrow>
     ep_ctx e' = ep_ctx e \<and> ep_ssl e' = ep_ssl e \<and>
     (\<forall>l < 4. \<exists>new. ep_outs l e' = ep_outs l e @ new \<and> ep_hist l e' = ep_hist l e @ new \<and>
        ep_out_total_len e' ! l = ep_out_total_len e ! l + word_of_nat (length new))"

text \<open>The inbound and the outbound side as a whole, for callbacks that leave one of them alone.\<close>

definition ep_inbound where
  "ep_inbound e = (ep_in e, ep_in_len e, ep_in_read_len e)"

definition ep_outbound where
  "ep_outbound e = (ep_ctx e, ep_ssl e, ep_out e, ep_out_len e, ep_out_total_len e, ep_out_history e,
     ep_out_history_len e)"

lemma ep_sends_outbound: "ep_outbound e' = ep_outbound e \<Longrightarrow> ep_sends e e'"
  by (simp add: ep_sends_def ep_outbound_def ep_outs_def ep_hist_def)

lemma ep_sends_refl: "ep_sends e e"
  by (simp add: ep_sends_outbound)

lemma ep_sends_trans:
  assumes "ep_sends e e'" and "ep_sends e' e''"
  shows "ep_sends e e''"
proof -
  have "\<exists>new. ep_outs l e'' = ep_outs l e @ new \<and> ep_hist l e'' = ep_hist l e @ new \<and>
      ep_out_total_len e'' ! l = ep_out_total_len e ! l + word_of_nat (length new)" if "l < 4" for l
  proof -
    from assms that obtain m n where
        "ep_outs l e' = ep_outs l e @ m" "ep_hist l e' = ep_hist l e @ m"
        "ep_out_total_len e' ! l = ep_out_total_len e ! l + word_of_nat (length m)"
        "ep_outs l e'' = ep_outs l e' @ n" "ep_hist l e'' = ep_hist l e' @ n"
        "ep_out_total_len e'' ! l = ep_out_total_len e' ! l + word_of_nat (length n)"
      unfolding ep_sends_def by metis
    then show ?thesis by (intro exI [of _ "m @ n"]) simp
  qed
  with assms show ?thesis by (simp add: ep_sends_def)
qed

text \<open>The bytes that a send callback with result \<open>rc\<close> takes for a level.\<close>

definition ep_taken :: "nat \<Rightarrow> cint \<Rightarrow> endpoint \<Rightarrow> ptr \<Rightarrow> size_t \<Rightarrow> byte list" where
  "ep_taken l rc e p n = (if rc \<noteq> 0 \<and> l = unat (ep_write_level e) then bytes_at p n else [])"

lemma send_ep:
  assumes "ep_ok e" and "readable p n"
  shows "\<exists>rc c' e'. crypto_send_cb_ep p n c (Some e) = Some (rc, c', Some e') \<and> ep_ok e' \<and>
    ep_sends e e' \<and> ep_inbound e' = ep_inbound e \<and>
    (\<forall>l < 4. ep_outs l e' = ep_outs l e @ ep_taken l rc e p n \<and> ep_hist l e' = ep_hist l e @ ep_taken l rc e p n)"
proof -
  let ?l = "unat (ep_write_level e)"
  note ok = ep_okD [OF assms(1)]
  note lev = ep_levelD [OF assms(1) ok(4)]
  note guards = guard_exceeds [of "ep_out_len e ! ?l" 65536 n] guard_exceeds [of "ep_out_history_len e ! ?l" 65536 n]
  show ?thesis
  proof (cases "n > 65536 - ep_out_len e ! ?l \<or> n > 65536 - ep_out_history_len e ! ?l")
    case True
    then show ?thesis
      using ok(6) assms(1) ep_sends_refl by (auto simp: crypto_send_cb_ep_def Let_def ep_taken_def)
  next
    case False
    then have fits: "unat (ep_out_len e ! ?l) + unat n \<le> 65536" "unat (ep_out_history_len e ! ?l) + unat n \<le> 65536"
      using guards lev(3,4) by (auto simp: buf_ok_def)
    from memcpy_append [OF lev(3) assms(2) fits(1)] obtain out where
        out: "memcpy (ep_out e ! ?l) (ep_out_len e ! ?l) p n = Some out" "buf_ok 65536 out (ep_out_len e ! ?l + n)"
          "content out (ep_out_len e ! ?l + n) = ep_outs ?l e @ bytes_at p n"
      by (auto simp: ep_outs_def)
    from memcpy_append [OF lev(4) assms(2) fits(2)] obtain hist where
        hist: "memcpy (ep_out_history e ! ?l) (ep_out_history_len e ! ?l) p n = Some hist"
          "buf_ok 65536 hist (ep_out_history_len e ! ?l + n)"
          "content hist (ep_out_history_len e ! ?l + n) = ep_hist ?l e @ bytes_at p n"
      by (auto simp: ep_hist_def)
    let ?e = "e\<lparr>ep_out := (ep_out e)[?l := out], ep_out_len := (ep_out_len e)[?l := ep_out_len e ! ?l + n],
      ep_out_total_len := (ep_out_total_len e)[?l := ep_out_total_len e ! ?l + n],
      ep_out_history := (ep_out_history e)[?l := hist],
      ep_out_history_len := (ep_out_history_len e)[?l := ep_out_history_len e ! ?l + n],
      ep_send_callbacks := ep_send_callbacks e + 1\<rparr>"
    have "crypto_send_cb_ep p n c (Some e) = Some (1, n, Some ?e)"
      using ok(6) False out(1) hist(1) by (simp add: crypto_send_cb_ep_def Let_def)
    moreover have "ep_ok ?e"
      using assms(1) ok(1,4) out(2) hist(2)
      by (auto simp: ep_ok_def ep_shape_def ep_level_ok_def nth_list_update)
    moreover have "ep_sends e ?e"
      unfolding ep_sends_def
    proof (intro conjI allI impI)
      fix l :: nat assume "l < 4"
      then show "\<exists>new. ep_outs l ?e = ep_outs l e @ new \<and> ep_hist l ?e = ep_hist l e @ new \<and>
          ep_out_total_len ?e ! l = ep_out_total_len e ! l + word_of_nat (length new)"
        using ok(1,4) out(3) hist(3) assms(2)
        by (intro exI [of _ "if l = ?l then bytes_at p n else []"])
          (auto simp: ep_outs_def ep_hist_def ep_shape_def nth_list_update)
    qed simp_all
    moreover have "ep_outs l ?e = ep_outs l e @ ep_taken l 1 e p n \<and> ep_hist l ?e = ep_hist l e @ ep_taken l 1 e p n"
      if "l < 4" for l
      using that ok(1,4) out(3) hist(3) by (auto simp: ep_outs_def ep_hist_def ep_taken_def ep_shape_def nth_list_update)
    ultimately show ?thesis by (simp add: ep_inbound_def)
  qed
qed

text \<open>
  What a release of \<open>n\<close> bytes means for the endpoint: the first \<open>n\<close> pending bytes are consumed, and the bytes behind
  those that OpenSSL was lent are passed over.
\<close>

definition ep_released :: "endpoint option \<Rightarrow> size_t \<Rightarrow> nat \<times> byte list \<times> byte list" where
  "ep_released s n =
     (case s of None \<Rightarrow> (0, [], [])
      | Some e \<Rightarrow> let l = unat (ep_read_level e) in
          (l, take (unat n) (ep_ins l e), drop (unat (ep_in_read_len e ! l)) (ep_ins l e)))"

definition ep_level :: "endpoint option \<Rightarrow> nat" where
  "ep_level s = (case s of None \<Rightarrow> 0 | Some e \<Rightarrow> unat (ep_write_level e))"

lemma recv_ep:
  assumes "ep_ok e" and "crypto_recv_rcd_cb_ep (Some e) = (rc, buf, n, c)"
  shows "\<exists>e'. c = Some e' \<and> ep_ok e' \<and> ep_outbound e' = ep_outbound e \<and> (\<forall>l. ep_ins l e' = ep_ins l e)"
proof -
  let ?l = "unat (ep_read_level e)"
  note ok = ep_okD [OF assms(1)]
  let ?e1 = "e\<lparr>ep_recv_callbacks := ep_recv_callbacks e + 1\<rparr>"
  let ?e2 = "?e1\<lparr>ep_in_read_len := (ep_in_read_len e)[?l := ep_in_len e ! ?l]\<rparr>"
  have "c = Some e \<or> c = Some ?e1 \<or> c = Some ?e2"
    using assms(2) by (auto simp: crypto_recv_rcd_cb_ep_def Let_def split: if_splits)
  moreover have "ep_ok ?e1" "ep_ok ?e2"
    using assms(1) ok(1,3) by (auto simp: ep_ok_def ep_shape_def ep_level_ok_def nth_list_update)
  ultimately show ?thesis
    using assms(1) by (auto simp: ep_outbound_def ep_ins_def)
qed

lemma release_ep:
  assumes "ep_ok e"
  shows "\<exists>rc e'. crypto_release_rcd_cb_ep n (Some e) = Some (rc, Some e') \<and> ep_ok e' \<and>
    ep_outbound e' = ep_outbound e \<and>
    (if rc = 0 then e' = e
     else (\<forall>l < 4. l \<noteq> unat (ep_read_level e) \<longrightarrow> ep_ins l e' = ep_ins l e) \<and>
       (case ep_released (Some e) n of (l, used, late) \<Rightarrow> late = [] \<longrightarrow> ep_ins l e = used @ ep_ins l e'))"
proof -
  let ?l = "unat (ep_read_level e)"
  let ?r = "ep_in_read_len e ! ?l"
  note ok = ep_okD [OF assms]
  note lev = ep_levelD [OF assms ok(3)]
  consider "n > ?r" | "n < ?r" | "n = ?r" by (metis linorder_neqE)
  then show ?thesis
  proof cases
    case 1
    then show ?thesis
      using assms by (simp add: crypto_release_rcd_cb_ep_def Let_def)
  next
    case 2
    then have "unat n < unat ?r" by (simp add: word_less_nat_alt)
    from memmove_consume [OF lev(1,2) this] obtain dst where
        dst: "memmove (ep_in e ! ?l) n (?r - n) = Some dst" "buf_ok 65536 dst (?r - n)"
          "content dst (?r - n) = drop (unat n) (take (unat ?r) (ep_ins ?l e))"
      by (auto simp: ep_ins_def)
    let ?e = "e\<lparr>ep_in_read_len := (ep_in_read_len e)[?l := 0], ep_release_callbacks := ep_release_callbacks e + 1,
      ep_in := (ep_in e)[?l := dst], ep_in_len := (ep_in_len e)[?l := ?r - n]\<rparr>"
    have "crypto_release_rcd_cb_ep n (Some e) = Some (1, Some ?e)"
      using 2 ok(5) dst(1) by (simp add: crypto_release_rcd_cb_ep_def Let_def)
    moreover have "ep_ok ?e"
      using assms ok(1,3) dst(2) by (auto simp: ep_ok_def ep_shape_def ep_level_ok_def nth_list_update)
    moreover have "ep_ins l ?e = (if l = ?l then drop (unat n) (take (unat ?r) (ep_ins ?l e)) else ep_ins l e)"
      if "l < 4" for l
      using that dst(3) ok(1,3) by (auto simp: ep_ins_def ep_shape_def)
    ultimately show ?thesis using ok(3) by (simp add: ep_outbound_def ep_released_def Let_def)
  next
    case 3
    let ?e = "e\<lparr>ep_in_read_len := (ep_in_read_len e)[?l := 0], ep_release_callbacks := ep_release_callbacks e + 1,
      ep_in_len := (ep_in_len e)[?l := 0]\<rparr>"
    have "crypto_release_rcd_cb_ep n (Some e) = Some (1, Some ?e)"
      using 3 ok(5) by (simp add: crypto_release_rcd_cb_ep_def Let_def)
    moreover have "ep_ok ?e"
      using assms ok(1,3) by (auto simp: ep_ok_def ep_shape_def ep_level_ok_def nth_list_update buf_ok_def)
    moreover have "ep_ins l ?e = (if l = ?l then [] else ep_ins l e)" if "l < 4" for l
      using that ok(1,3) by (auto simp: ep_ins_def ep_shape_def content_def)
    ultimately show ?thesis using 3 ok(3) by (simp add: ep_outbound_def ep_released_def Let_def)
  qed
qed

text \<open>The callbacks that leave all CRYPTO bytes alone.\<close>

lemma ep_switch_ok:
  assumes "ep_ok e" and "lvl < 4"
  shows "ep_ok (ep_switch_level lvl dir e)" "ep_outbound (ep_switch_level lvl dir e) = ep_outbound e"
    "ep_inbound (ep_switch_level lvl dir e) = ep_inbound e"
  using assms
  by (simp_all add: ep_switch_level_def ep_ok_def ep_shape_def ep_level_ok_def ep_outbound_def ep_inbound_def)

lemma ep_store_secret_ok:
  assumes "ep_ok e" and "l < 4" and "d < 2" and "length x = 32"
  shows "ep_ok (e\<lparr>ep_secrets := (ep_secrets e)[l := (ep_secrets e ! l)[d := x]],
      ep_secret_available := (ep_secret_available e)[l := (ep_secret_available e ! l)[d := 1]],
      ep_yield_secret_callbacks := n\<rparr>)"
  using assms by (auto simp: ep_ok_def ep_shape_def ep_level_ok_def nth_list_update)

lemma yield_ep:
  assumes "ep_ok e" and "readable p n"
  shows "\<exists>rc e'. yield_secret_cb_ep lvl dir p n (Some e) = Some (rc, Some e') \<and> ep_ok e' \<and>
    ep_outbound e' = ep_outbound e \<and> ep_inbound e' = ep_inbound e"
proof (cases "lvl \<ge> 4")
  case True
  then show ?thesis using assms(1) by (simp add: yield_secret_cb_ep_def)
next
  case False
  then have l: "unat lvl < 4" "lvl < 4" by (simp_all add: word_less_nat_alt word_le_nat_alt)
  let ?e1 = "ep_switch_level lvl dir e"
  note e1 = ep_switch_ok [OF assms(1) l(2), of dir]
  show ?thesis
  proof (cases "(dir = 0 \<or> dir = 1) \<and> n = 32")
    case True
    then have d: "unat dir < 2" by auto
    let ?x = "splice (ep_secrets ?e1 ! unat lvl ! unat dir) 0 (bytes_at p n)"
    have "length (ep_secrets ?e1 ! unat lvl ! unat dir) = 32"
      using ep_okD(2) [OF e1(1) l(1)] d by (simp add: ep_level_ok_def)
    then have x: "memcpy (ep_secrets ?e1 ! unat lvl ! unat dir) 0 p n = Some ?x" "length ?x = 32"
      using assms(2) True by simp_all
    with e1(2,3) ep_store_secret_ok [OF e1(1) l(1) d x(2)] False True show ?thesis
      by (simp add: yield_secret_cb_ep_def Let_def ep_outbound_def ep_inbound_def)
  next
    case other: False
    have "ep_ok (?e1\<lparr>ep_yield_secret_callbacks := ep_yield_secret_callbacks ?e1 + 1\<rparr>)"
      using e1(1) by (simp add: ep_ok_def ep_shape_def ep_level_ok_def)
    with e1(2,3) False other show ?thesis
      by (auto simp: yield_secret_cb_ep_def Let_def ep_outbound_def ep_inbound_def)
  qed
qed

lemma params_ep:
  assumes "ep_ok e" and "readable p n"
  shows "\<exists>rc e'. got_transport_params_cb_ep p n (Some e) = Some (rc, Some e') \<and> ep_ok e' \<and>
    ep_outbound e' = ep_outbound e \<and> ep_inbound e' = ep_inbound e"
proof (cases "n > 0 \<and> p = None \<or> n > 512")
  case True
  then show ?thesis using assms(1) by (auto simp: got_transport_params_cb_ep_def)
next
  case False
  let ?buf = "ep_peer_transport_parameters e"
  have len: "length ?buf = 512" "unat n \<le> 512"
    using ep_okD(7) [OF assms(1)] False by (auto simp: buf_ok_def word_less_nat_alt)
  then obtain dst where
      "(if n > 0 then memcpy ?buf 0 p n else Some ?buf) = Some dst" "buf_ok 512 dst n"
    using assms(2) by (cases "n > 0") (auto simp: buf_ok_def)
  moreover define e' where "e' = e\<lparr>ep_peer_transport_parameters := dst, ep_peer_transport_parameters_len := n,
      ep_got_transport_params_callbacks := ep_got_transport_params_callbacks e + 1\<rparr>"
  ultimately have "got_transport_params_cb_ep p n (Some e) = Some (1, Some e')" "ep_ok e'"
    using False assms(1) by (auto simp: got_transport_params_cb_ep_def ep_ok_def ep_shape_def ep_level_ok_def)
  then show ?thesis by (simp add: e'_def ep_outbound_def ep_inbound_def)
qed

lemma keylog_ep:
  "ep_ok e \<Longrightarrow> \<exists>e'. keylog_cb_ep line (Some e) = Some e' \<and> ep_ok e' \<and> ep_outbound e' = ep_outbound e \<and>
     ep_inbound e' = ep_inbound e"
  by (cases line) (auto simp: keylog_cb_ep_def ep_ok_def ep_shape_def ep_level_ok_def ep_outbound_def ep_inbound_def)

lemma alert_ep:
  "ep_ok e \<Longrightarrow> \<exists>e'. alert_cb_ep code (Some e) = (1, Some e') \<and> ep_ok e' \<and> ep_outbound e' = ep_outbound e \<and>
     ep_inbound e' = ep_inbound e"
  by (auto simp: alert_cb_ep_def ep_ok_def ep_shape_def ep_level_ok_def ep_outbound_def ep_inbound_def)

section \<open>Handshake calls\<close>

lemma rel_option_trans:
  "(\<And>a b c. r a b \<Longrightarrow> r b c \<Longrightarrow> r a c) \<Longrightarrow> rel_option r s t \<Longrightarrow> rel_option r t u \<Longrightarrow> rel_option r s u"
  by (cases s; cases t; cases u) auto

interpretation ep_cb: callback_contract quicz_openssl_tls_dispatch_ep "\<lambda>s. \<exists>e. s = Some e \<and> ep_ok e"
  "rel_option ep_sends"
proof (unfold_locales, goal_cases)
  case (1 s)
  show ?case by (simp add: option.rel_refl ep_sends_refl)
next
  case (2 s t u)
  then show ?case using rel_option_trans [of ep_sends] ep_sends_trans by blast
next
  case (3 s p n c)
  then obtain e where e: "s = Some e" "ep_ok e" by blast
  from send_ep [OF e(2) 3(2), of c] show ?case by (auto simp: quicz_openssl_tls_dispatch_ep_def e(1))
next
  case (4 s rc buf m s')
  then obtain e where e: "s = Some e" "ep_ok e" "crypto_recv_rcd_cb_ep (Some e) = (rc, buf, m, s')"
    by (auto simp: quicz_openssl_tls_dispatch_ep_def)
  from recv_ep [OF e(2,3)] show ?case by (auto simp: e(1) ep_sends_outbound)
next
  case (5 s n)
  then obtain e where e: "s = Some e" "ep_ok e" by blast
  from release_ep [OF e(2), of n] show ?case
    by (auto simp: quicz_openssl_tls_dispatch_ep_def e(1) ep_sends_outbound)
next
  case (6 s p n lvl dir)
  then obtain e where e: "s = Some e" "ep_ok e" by blast
  from yield_ep [OF e(2) 6(2), of lvl dir] show ?case
    by (auto simp: quicz_openssl_tls_dispatch_ep_def e(1) ep_sends_outbound)
next
  case (7 s p n)
  then obtain e where e: "s = Some e" "ep_ok e" by blast
  from params_ep [OF e(2) 7(2)] show ?case
    by (auto simp: quicz_openssl_tls_dispatch_ep_def e(1) ep_sends_outbound)
next
  case (8 s code rc s')
  then obtain e where e: "s = Some e" "ep_ok e" by blast
  from alert_ep [OF e(2), of code] 8(2) show ?case
    by (auto simp: quicz_openssl_tls_dispatch_ep_def e(1) ep_sends_outbound)
next
  case (9 s line)
  then obtain e where e: "s = Some e" "ep_ok e" by blast
  from keylog_ep [OF e(2), of line] show ?case
    by (auto simp: quicz_openssl_tls_dispatch_ep_def e(1) ep_sends_outbound)
qed

text \<open>What the events \<open>new\<close> account for, between two states of the endpoint.\<close>

definition ep_accounts :: "io_event list \<Rightarrow> endpoint \<Rightarrow> endpoint \<Rightarrow> bool" where
  "ep_accounts new e e' \<longleftrightarrow>
     (\<forall>l < 4. ep_outs l e' = ep_outs l e @ sent_at l new \<and> ep_hist l e' = ep_hist l e @ sent_at l new \<and>
        (passed_over_at l new = [] \<longrightarrow> ep_ins l e = consumed_at l new @ ep_ins l e'))"

definition ep_io_ok :: "endpoint option \<times> io_event list \<Rightarrow> bool" where
  "ep_io_ok s \<longleftrightarrow> (\<exists>e. fst s = Some e \<and> ep_ok e)"

definition ep_io_rel :: "endpoint option \<times> io_event list \<Rightarrow> endpoint option \<times> io_event list \<Rightarrow> bool" where
  "ep_io_rel s t \<longleftrightarrow> (\<exists>new. snd t = snd s @ new \<and> rel_option (ep_accounts new) (fst s) (fst t))"

lemma ep_accounts_trans: "ep_accounts m e e' \<Longrightarrow> ep_accounts n e' e'' \<Longrightarrow> ep_accounts (m @ n) e e''"
  by (simp add: ep_accounts_def)

lemma ep_io_relI: "ep_accounts new e e' \<Longrightarrow> ep_io_rel (Some e, log) (Some e', log @ new)"
  by (simp add: ep_io_rel_def)

lemma ep_io_rel_trans:
  assumes "ep_io_rel s t" and "ep_io_rel t u"
  shows "ep_io_rel s u"
proof -
  from assms obtain m n where l: "snd t = snd s @ m" "snd u = snd t @ n"
      "rel_option (ep_accounts m) (fst s) (fst t)" "rel_option (ep_accounts n) (fst t) (fst u)"
    by (auto simp: ep_io_rel_def)
  then have "rel_option (ep_accounts (m @ n)) (fst s) (fst u)"
    using ep_accounts_trans by (cases "fst s"; cases "fst t"; cases "fst u") auto
  with l(1,2) show ?thesis by (auto simp: ep_io_rel_def)
qed

lemma ep_io_same:
  assumes "ep_outbound e' = ep_outbound e" and "\<forall>l < 4. ep_ins l e' = ep_ins l e"
  shows "ep_io_rel (Some e, log) (Some e', log)"
proof -
  have "ep_accounts [] e e'" using assms by (simp add: ep_accounts_def ep_outbound_def ep_outs_def ep_hist_def)
  from ep_io_relI [OF this, of log] show ?thesis by simp
qed

lemma ep_io_rel_refl: "ep_io_rel s s"
proof (cases s)
  case (Pair c log)
  then show ?thesis using ep_io_same [of _ _ log] by (cases c) (auto simp: ep_io_rel_def)
qed

lemma ep_ins_inbound: "ep_inbound e' = ep_inbound e \<Longrightarrow> ep_ins l e' = ep_ins l e"
  by (simp add: ep_inbound_def ep_ins_def)

lemma ep_io_frame:
  assumes "ep_ok e'" and "ep_outbound e' = ep_outbound e" and "ep_inbound e' = ep_inbound e"
  shows "ep_io_ok (Some e', log) \<and> ep_io_rel (Some e, log) (Some e', log)"
  using assms ep_ins_inbound [OF assms(3)] by (simp add: ep_io_ok_def ep_io_same)

lemma ep_io_send:
  assumes "ep_ok e" and "readable p n"
  shows "\<exists>rc c' e'. crypto_send_cb_ep p n c (Some e) = Some (rc, c', Some e') \<and> ep_ok e' \<and>
    ep_io_rel (Some e, log) (Some e', if rc = 0 then log else log @ [Sent (ep_level (Some e)) (bytes_at p n)])"
proof -
  from send_ep [OF assms, of c] obtain rc c' e' where
      e': "crypto_send_cb_ep p n c (Some e) = Some (rc, c', Some e')" "ep_ok e'" "ep_inbound e' = ep_inbound e"
        "\<forall>l < 4. ep_outs l e' = ep_outs l e @ ep_taken l rc e p n \<and> ep_hist l e' = ep_hist l e @ ep_taken l rc e p n"
    by blast
  have "ep_accounts (if rc = 0 then [] else [Sent (ep_level (Some e)) (bytes_at p n)]) e e'"
    using e'(4) ep_ins_inbound [OF e'(3)] by (auto simp: ep_accounts_def ep_taken_def ep_level_def)
  from ep_io_relI [OF this, of log] e'(1,2) show ?thesis by (cases "rc = 0") auto
qed

lemma ep_io_release:
  assumes "ep_ok e"
  shows "\<exists>rc e'. crypto_release_rcd_cb_ep n (Some e) = Some (rc, Some e') \<and> ep_ok e' \<and>
    ep_io_rel (Some e, log) (Some e', if rc = 0 then log
      else log @ (case ep_released (Some e) n of (l, used, late) \<Rightarrow> [Consumed l used, Passed_over l late]))"
proof -
  from release_ep [OF assms, of n] obtain rc e' where
      e': "crypto_release_rcd_cb_ep n (Some e) = Some (rc, Some e')" "ep_ok e'" "ep_outbound e' = ep_outbound e"
        "if rc = 0 then e' = e
         else (\<forall>l < 4. l \<noteq> unat (ep_read_level e) \<longrightarrow> ep_ins l e' = ep_ins l e) \<and>
           (case ep_released (Some e) n of (l, used, late) \<Rightarrow> late = [] \<longrightarrow> ep_ins l e = used @ ep_ins l e')"
    by blast
  show ?thesis
  proof (cases "rc = 0")
    case True
    with e' show ?thesis using ep_io_rel_refl by auto
  next
    case False
    have "ep_accounts (case ep_released (Some e) n of (l, used, late) \<Rightarrow> [Consumed l used, Passed_over l late]) e e'"
      using e'(3,4) False by (auto simp: ep_accounts_def ep_outbound_def ep_outs_def ep_hist_def ep_released_def Let_def)
    from ep_io_relI [OF this, of log] e'(1,2) False show ?thesis by auto
  qed
qed

interpretation ep_io: callback_contract "observe ep_level ep_released quicz_openssl_tls_dispatch_ep" ep_io_ok ep_io_rel
proof (unfold_locales, goal_cases)
  case (1 s)
  show ?case by (rule ep_io_rel_refl)
next
  case (2 s t u)
  then show ?case by (rule ep_io_rel_trans)
next
  case (3 s p n c)
  then obtain e log where e: "s = (Some e, log)" "ep_ok e" by (cases s) (auto simp: ep_io_ok_def)
  from ep_io_send [OF e(2) 3(2), of c log] show ?case
    by (auto simp: observe_def quicz_openssl_tls_dispatch_ep_def e(1) ep_io_ok_def)
next
  case (4 s rc buf m s')
  then obtain e log where e: "s = (Some e, log)" "ep_ok e" by (cases s) (auto simp: ep_io_ok_def)
  obtain c where c: "crypto_recv_rcd_cb_ep (Some e) = (rc, buf, m, c)" "s' = (c, log)"
    using 4(2) by (auto simp: observe_def quicz_openssl_tls_dispatch_ep_def e(1) split: prod.splits)
  from recv_ep [OF e(2) c(1)] obtain e' where
    "c = Some e'" "ep_ok e'" "ep_outbound e' = ep_outbound e" "\<forall>l. ep_ins l e' = ep_ins l e"
    by blast
  with ep_io_same [of e' e log] show ?case by (simp add: e(1) c(2) ep_io_ok_def)
next
  case (5 s n)
  then obtain e log where e: "s = (Some e, log)" "ep_ok e" by (cases s) (auto simp: ep_io_ok_def)
  from ep_io_release [OF e(2), of n log] show ?case
    by (auto simp: observe_def quicz_openssl_tls_dispatch_ep_def e(1) ep_io_ok_def)
next
  case (6 s p n lvl dir)
  then obtain e log where e: "s = (Some e, log)" "ep_ok e" by (cases s) (auto simp: ep_io_ok_def)
  from yield_ep [OF e(2) 6(2), of lvl dir] obtain rc e' where
    "yield_secret_cb_ep lvl dir p n (Some e) = Some (rc, Some e')" "ep_ok e'" "ep_outbound e' = ep_outbound e" "ep_inbound e' = ep_inbound e"
    by blast
  with ep_io_frame [of e' e log] show ?case
    by (auto simp: observe_def quicz_openssl_tls_dispatch_ep_def e(1))
next
  case (7 s p n)
  then obtain e log where e: "s = (Some e, log)" "ep_ok e" by (cases s) (auto simp: ep_io_ok_def)
  from params_ep [OF e(2) 7(2)] obtain rc e' where
    "got_transport_params_cb_ep p n (Some e) = Some (rc, Some e')" "ep_ok e'" "ep_outbound e' = ep_outbound e" "ep_inbound e' = ep_inbound e"
    by blast
  with ep_io_frame [of e' e log] show ?case
    by (auto simp: observe_def quicz_openssl_tls_dispatch_ep_def e(1))
next
  case (8 s code rc s')
  then obtain e log where e: "s = (Some e, log)" "ep_ok e" by (cases s) (auto simp: ep_io_ok_def)
  from alert_ep [OF e(2), of code] obtain e' where
    "alert_cb_ep code (Some e) = (1, Some e')" "ep_ok e'" "ep_outbound e' = ep_outbound e" "ep_inbound e' = ep_inbound e"
    by blast
  with ep_io_frame [of e' e log] 8(2) show ?case
    by (auto simp: observe_def quicz_openssl_tls_dispatch_ep_def e(1))
next
  case (9 s line)
  then obtain e log where e: "s = (Some e, log)" "ep_ok e" by (cases s) (auto simp: ep_io_ok_def)
  from keylog_ep [OF e(2), of line] obtain e' where
    "keylog_cb_ep line (Some e) = Some e'" "ep_ok e'" "ep_outbound e' = ep_outbound e" "ep_inbound e' = ep_inbound e"
    by blast
  with ep_io_frame [of e' e log] show ?case
    by (auto simp: observe_def quicz_openssl_tls_dispatch_ep_def e(1))
qed

lemma ep_done_frame [simp]:
  "ep_ok (e\<lparr>ep_handshake_done := d\<rparr>) = ep_ok e" "ep_ok (e\<lparr>ep_last_ssl_error := x\<rparr>) = ep_ok e"
  "ep_outbound (e\<lparr>ep_handshake_done := d\<rparr>) = ep_outbound e"
  "ep_outbound (e\<lparr>ep_last_ssl_error := x\<rparr>) = ep_outbound e"
  "ep_inbound (e\<lparr>ep_handshake_done := d\<rparr>) = ep_inbound e"
  "ep_inbound (e\<lparr>ep_last_ssl_error := x\<rparr>) = ep_inbound e"
  by (simp_all add: ep_ok_def ep_shape_def ep_level_ok_def ep_outbound_def ep_inbound_def)

lemma drive_handshake_ok:
  assumes "ep_ok e" and "ep_ssl e \<noteq> None"
  shows "\<exists>w' e'. drive_handshake L w e = Some (w', e') \<and> ep_ok e' \<and> ep_sends e e'"
proof -
  from assms(2) obtain ssl where ssl: "ep_ssl e = Some ssl" by blast
  from ep_cb.run_engine_ok [of "Some e" "SSL_do_handshake L ssl w"] assms(1) obtain rc w' e1 where
      1: "run_engine quicz_openssl_tls_dispatch_ep (SSL_do_handshake L ssl w) (Some e) = Some (rc, w', Some e1)"
        "ep_ok e1" "ep_sends e e1"
    by auto
  with ssl ep_sends_trans [OF 1(3) ep_sends_outbound] show ?thesis
    by (auto simp: drive_handshake_def)
qed

text \<open>
  A handshake call together with the record of the bytes that OpenSSL sent, consumed and passed over in it. The
  record changes nothing (\<open>observed_handshake_ok\<close>).
\<close>

definition observed_handshake :: "'w openssl \<Rightarrow> 'w \<Rightarrow> endpoint \<Rightarrow> ('w \<times> endpoint \<times> io_event list) option" where
  "observed_handshake L w e = do {
     ssl \<leftarrow> ep_ssl e;
     (rc, w', arg, log) \<leftarrow> run_engine (observe ep_level ep_released quicz_openssl_tls_dispatch_ep)
       (SSL_do_handshake L ssl w) (Some e, []);
     e' \<leftarrow> arg;
     Some (w', if rc = 1 then e'\<lparr>ep_handshake_done := 1, ep_last_ssl_error := SSL_ERROR_NONE L\<rparr>
               else e'\<lparr>ep_last_ssl_error := SSL_get_error L ssl rc w'\<rparr>, log)
   }"

lemma observed_handshake_ok:
  assumes "ep_ok e" and "ep_ssl e \<noteq> None"
  shows "\<exists>w' e' log. observed_handshake L w e = Some (w', e', log) \<and> drive_handshake L w e = Some (w', e') \<and>
    ep_accounts log e e'"
proof -
  from assms(2) obtain ssl where ssl: "ep_ssl e = Some ssl" by blast
  have "ep_io_ok (Some e, [])" using assms(1) by (simp add: ep_io_ok_def)
  from ep_io.run_engine_ok [OF this, of "SSL_do_handshake L ssl w"] obtain rc w' e1 log where
      1: "run_engine (observe ep_level ep_released quicz_openssl_tls_dispatch_ep) (SSL_do_handshake L ssl w) (Some e, []) =
          Some (rc, w', Some e1, log)" "ep_accounts log e e1"
    by (auto simp: ep_io_ok_def ep_io_rel_def)
  from 1(2) have "ep_accounts log e (e1\<lparr>ep_handshake_done := d, ep_last_ssl_error := x\<rparr>)"
    "ep_accounts log e (e1\<lparr>ep_last_ssl_error := x\<rparr>)" for d x
    by (simp_all add: ep_accounts_def ep_outs_def ep_hist_def ep_ins_def)
  with ssl 1(1) run_engine_observeD [OF 1(1)] show ?thesis
    by (simp add: observed_handshake_def drive_handshake_def)
qed

end
