(* ===== verification/Pair_Exchange.thy ===== *)
theory Pair_Exchange
  imports Pair_Endpoint
begin

text \<open>
  Two endpoints exchanging bytes: pumping from one to the other, one round of the transcript loop, the whole
  loop. The loop returns for every OpenSSL; \<open>accounted\<close> is its invariant on the bytes, against a record of what the
  two OpenSSLs did.
\<close>

section \<open>Pumping bytes from one endpoint to the other\<close>

text \<open>One level.\<close>

lemma pump_level_ok:
  assumes "ep_ok from" and "ep_ok to" and "l < 4"
    and "length (ep_ins l to) + length (ep_outs l from) \<le> 65536"
  shows "\<exists>dst. memcpy (ep_in to ! l) (ep_in_len to ! l) (Some (ep_out from ! l)) (ep_out_len from ! l) = Some dst \<and>
    (let from' = from\<lparr>ep_out_len := (ep_out_len from)[l := 0]\<rparr>;
         to' = to\<lparr>ep_in := (ep_in to)[l := dst],
                   ep_in_len := (ep_in_len to)[l := ep_in_len to ! l + ep_out_len from ! l]\<rparr> in
     ep_ok from' \<and> ep_ok to' \<and> ep_outs l from' = [] \<and> ep_ins l to' = ep_ins l to @ ep_outs l from \<and>
     (\<forall>k < 4. k \<noteq> l \<longrightarrow> ep_outs k from' = ep_outs k from \<and> ep_ins k to' = ep_ins k to))"
proof -
  note f = ep_levelD [OF assms(1,3)] and t = ep_levelD [OF assms(2,3)]
  have readable: "readable (Some (ep_out from ! l)) (ep_out_len from ! l)"
    and src: "bytes_at (Some (ep_out from ! l)) (ep_out_len from ! l) = ep_outs l from"
    using f(3) by (simp_all add: buf_ok_def ep_outs_def content_def)
  have fits: "unat (ep_in_len to ! l) + unat (ep_out_len from ! l) \<le> 65536"
    using assms(4) f(6) t(5) by simp
  from memcpy_append [OF t(1) readable fits] obtain dst where
      dst: "memcpy (ep_in to ! l) (ep_in_len to ! l) (Some (ep_out from ! l)) (ep_out_len from ! l) = Some dst"
        "buf_ok 65536 dst (ep_in_len to ! l + ep_out_len from ! l)"
        "content dst (ep_in_len to ! l + ep_out_len from ! l) = ep_ins l to @ ep_outs l from"
    using src by (auto simp: ep_ins_def)
  have "unat (ep_in_read_len to ! l) \<le> unat (ep_in_len to ! l + ep_out_len from ! l)"
    using t(2) fits by (simp add: unat_add_within [of _ _ 65536])
  then have "ep_ok (to\<lparr>ep_in := (ep_in to)[l := dst],
      ep_in_len := (ep_in_len to)[l := ep_in_len to ! l + ep_out_len from ! l]\<rparr>)"
    using assms(2,3) dst(2) by (auto simp: ep_ok_def ep_shape_def ep_level_ok_def nth_list_update)
  moreover have "ep_ok (from\<lparr>ep_out_len := (ep_out_len from)[l := 0]\<rparr>)"
    using assms(1,3) by (auto simp: ep_ok_def ep_shape_def ep_level_ok_def nth_list_update buf_ok_def)
  ultimately show ?thesis
    using dst(1,3) assms(3) ep_okD(1) [OF assms(1)] ep_okD(1) [OF assms(2)]
    by (simp add: Let_def ep_shape_def ep_outs_def ep_ins_def nth_list_update)
qed

lemma pump_levels_ok:
  assumes "ep_ok from" and "ep_ok to" and "set ls \<subseteq> {..<4}"
  shows "\<exists>rc from' to' out_len' bufs in_len'. pump_levels ls from to = Some (rc, from', to') \<and>
    from' = from\<lparr>ep_out_len := out_len'\<rparr> \<and> to' = to\<lparr>ep_in := bufs, ep_in_len := in_len'\<rparr> \<and>
    ep_ok from' \<and> ep_ok to' \<and>
    (\<forall>l < 4. ep_ins l to' @ ep_outs l from' = ep_ins l to @ ep_outs l from \<and>
       (ep_outs l from' = [] \<or> ep_outs l from' = ep_outs l from)) \<and>
    (if rc = 0 then \<exists>l \<in> set ls. 65536 < length (ep_ins l to') + length (ep_outs l from')
     else \<forall>l \<in> set ls. ep_outs l from' = [])"
  using assms
proof (induction ls arbitrary: "from" to)
  case Nil
  then show ?case
    by (intro exI [of _ 1] exI [of _ "from"] exI [of _ to] exI [of _ "ep_out_len from"]
        exI [of _ "ep_in to"] exI [of _ "ep_in_len to"]) simp
next
  case (Cons l ls)
  then have l: "l < 4" and ls: "set ls \<subseteq> {..<4}" by auto
  note f = ep_levelD [OF Cons.prems(1) l] and t = ep_levelD [OF Cons.prems(2) l]
  consider "ep_out_len from ! l = 0" | "ep_out_len from ! l \<noteq> 0" "ep_out_len from ! l > 65536 - ep_in_len to ! l"
    | "ep_out_len from ! l \<noteq> 0" "\<not> ep_out_len from ! l > 65536 - ep_in_len to ! l" by blast
  then show ?case
  proof cases
    case 1
    then have "ep_outs l from = []" using f(6) by simp
    with 1 Cons.IH [OF Cons.prems(1,2) ls] l show ?thesis by fastforce
  next
    case 2
    then have "65536 < length (ep_ins l to) + length (ep_outs l from)"
      using guard_exceeds [of "ep_in_len to ! l" 65536 "ep_out_len from ! l"] t(1,5) f(6)
      by (simp add: buf_ok_def)
    then show ?thesis
      using 2 Cons.prems
      by (intro exI [of _ 0] exI [of _ "from"] exI [of _ to] exI [of _ "ep_out_len from"]
          exI [of _ "ep_in to"] exI [of _ "ep_in_len to"]) simp
  next
    case 3
    then have "length (ep_ins l to) + length (ep_outs l from) \<le> 65536"
      using guard_exceeds [of "ep_in_len to ! l" 65536 "ep_out_len from ! l"] t(1,5) f(6)
      by (simp add: buf_ok_def)
    from pump_level_ok [OF Cons.prems(1,2) l this] obtain dst from1 to1 where
        dst: "memcpy (ep_in to ! l) (ep_in_len to ! l) (Some (ep_out from ! l)) (ep_out_len from ! l) = Some dst"
      and from1: "from1 = from\<lparr>ep_out_len := (ep_out_len from)[l := 0]\<rparr>"
      and to1: "to1 = to\<lparr>ep_in := (ep_in to)[l := dst],
          ep_in_len := (ep_in_len to)[l := ep_in_len to ! l + ep_out_len from ! l]\<rparr>"
      and 1: "ep_ok from1" "ep_ok to1" "ep_outs l from1 = []" "ep_ins l to1 = ep_ins l to @ ep_outs l from"
        "\<forall>k < 4. k \<noteq> l \<longrightarrow> ep_outs k from1 = ep_outs k from \<and> ep_ins k to1 = ep_ins k to"
      unfolding Let_def by blast
    have step: "pump_levels (l # ls) from to = pump_levels ls from1 to1"
      using 3 dst by (simp add: from1 to1)
    have same: "ep_ins k to1 @ ep_outs k from1 = ep_ins k to @ ep_outs k from \<and>
        (ep_outs k from1 = [] \<or> ep_outs k from1 = ep_outs k from)" if "k < 4" for k
      using 1(3-5) that by (cases "k = l") auto
    from Cons.IH [OF 1(1,2) ls] obtain rc from2 to2 out_len' bufs in_len' where
        2: "pump_levels ls from1 to1 = Some (rc, from2, to2)"
          "from2 = from1\<lparr>ep_out_len := out_len'\<rparr>" "to2 = to1\<lparr>ep_in := bufs, ep_in_len := in_len'\<rparr>"
          "ep_ok from2" "ep_ok to2"
          "\<forall>l < 4. ep_ins l to2 @ ep_outs l from2 = ep_ins l to1 @ ep_outs l from1 \<and>
             (ep_outs l from2 = [] \<or> ep_outs l from2 = ep_outs l from1)"
          "if rc = 0 then \<exists>l \<in> set ls. 65536 < length (ep_ins l to2) + length (ep_outs l from2)
           else \<forall>l \<in> set ls. ep_outs l from2 = []"
      by blast
    have "from2 = from\<lparr>ep_out_len := out_len'\<rparr>" "to2 = to\<lparr>ep_in := bufs, ep_in_len := in_len'\<rparr>"
      using 2(2,3) by (simp_all add: from1 to1)
    moreover have "ep_outs l from2 = []" using 2(6) 1(3) l by auto
    moreover have "\<forall>k < 4. ep_ins k to2 @ ep_outs k from2 = ep_ins k to @ ep_outs k from \<and>
        (ep_outs k from2 = [] \<or> ep_outs k from2 = ep_outs k from)"
      using 2(6) same by metis
    ultimately show ?thesis
      using step 2(1,4,5,7) by (auto split: if_splits)
  qed
qed

lemma pump_crypto_ok:
  assumes "ep_ok from" and "ep_ok to"
  shows "\<exists>rc from' to'. pump_crypto from to = Some (rc, from', to') \<and> ep_ok from' \<and> ep_ok to' \<and>
    ep_ctx from' = ep_ctx from \<and> ep_ssl from' = ep_ssl from \<and> ep_ctx to' = ep_ctx to \<and> ep_ssl to' = ep_ssl to \<and>
    ep_in_read_len from' = ep_in_read_len from \<and> ep_in_read_len to' = ep_in_read_len to \<and>
    (\<forall>l. ep_ins l from' = ep_ins l from \<and> ep_hist l from' = ep_hist l from \<and>
       ep_outs l to' = ep_outs l to \<and> ep_hist l to' = ep_hist l to) \<and>
    (\<forall>l < 4. ep_ins l to' @ ep_outs l from' = ep_ins l to @ ep_outs l from) \<and>
    (if rc = 0 then \<exists>l < 4. 65536 < length (ep_ins l to') + length (ep_outs l from')
     else \<forall>l < 4. ep_outs l from' = [])"
proof -
  have "set [0..<4] \<subseteq> {..<4::nat}" by auto
  from pump_levels_ok [OF assms this] obtain rc from' to' out_len' bufs in_len' where
      p: "pump_levels [0..<4] from to = Some (rc, from', to')"
        "from' = from\<lparr>ep_out_len := out_len'\<rparr>" "to' = to\<lparr>ep_in := bufs, ep_in_len := in_len'\<rparr>"
        "ep_ok from'" "ep_ok to'"
        "\<forall>l < 4. ep_ins l to' @ ep_outs l from' = ep_ins l to @ ep_outs l from"
        "if rc = 0 then \<exists>l \<in> set [0..<4]. 65536 < length (ep_ins l to') + length (ep_outs l from')
         else \<forall>l \<in> set [0..<4]. ep_outs l from' = []"
    by blast
  from p(2,3) have "ep_ctx from' = ep_ctx from" "ep_ssl from' = ep_ssl from" "ep_ctx to' = ep_ctx to"
    "ep_ssl to' = ep_ssl to" "ep_in_read_len from' = ep_in_read_len from" "ep_in_read_len to' = ep_in_read_len to"
    "\<forall>l. ep_ins l from' = ep_ins l from \<and> ep_hist l from' = ep_hist l from \<and>
       ep_outs l to' = ep_outs l to \<and> ep_hist l to' = ep_hist l to"
    by (simp_all add: ep_ins_def ep_outs_def ep_hist_def)
  with p(1,4-7) show ?thesis
    by (intro exI [of _ rc] exI [of _ from'] exI [of _ to']) (auto simp: pump_crypto_def split: if_splits)
qed

section \<open>The transcript loop\<close>

definition ep_live :: "endpoint \<Rightarrow> bool" where
  "ep_live e \<longleftrightarrow> ep_ok e \<and> ep_ssl e \<noteq> None"

definition ep_handles :: "endpoint \<Rightarrow> nat option \<times> nat option" where
  "ep_handles e = (ep_ctx e, ep_ssl e)"

text \<open>
  The loop together with the records of what OpenSSL sent, consumed and passed over at the client and at the
  server. \<open>run_loop_ok\<close> shows that without the records it is \<^const>\<open>run_loop\<close>.
\<close>

function observed_loop ::
  "'w openssl \<Rightarrow> nat \<Rightarrow> 'w \<Rightarrow> endpoint \<Rightarrow> endpoint \<Rightarrow> cint \<Rightarrow> io_event list \<Rightarrow> io_event list \<Rightarrow>
     ('w \<times> endpoint \<times> endpoint \<times> cint \<times> io_event list \<times> io_event list) option" where
  "observed_loop L iteration w client server drive_iterations client_log server_log =
     (if iteration \<ge> 80 then Some (w, client, server, drive_iterations, client_log, server_log)
      else if ep_handshake_done client \<noteq> 0 \<and> ep_handshake_done server \<noteq> 0
      then Some (w, client, server, drive_iterations, client_log, server_log)
      else do {
        (w, client, new) \<leftarrow> observed_handshake L w client;
        (pumped, client, server) \<leftarrow> pump_crypto client server;
        if pumped = 0 then Some (w, client, server, drive_iterations, client_log @ new, server_log)
        else do {
          (w, server, new') \<leftarrow> observed_handshake L w server;
          (pumped, server, client) \<leftarrow> pump_crypto server client;
          if pumped = 0 then Some (w, client, server, drive_iterations, client_log @ new, server_log @ new')
          else observed_loop L (iteration + 1) w client server (word_of_nat (iteration + 1))
            (client_log @ new) (server_log @ new')
        }
      })"
  by pat_completeness auto
termination by (relation "measure (\<lambda>(L, iteration, _). 80 - iteration)") auto

declare observed_loop.simps [simp del]

text \<open>
  No byte is lost, duplicated or reordered on the way from \<open>a\<close>, whose OpenSSL did \<open>la\<close>, to \<open>b\<close>, whose OpenSSL did
  \<open>lb\<close>: at each level the history of \<open>a\<close> is what its OpenSSL sent, and this is what the OpenSSL of \<open>b\<close> consumed,
  then the bytes pending at \<open>b\<close>, then the bytes not yet pumped, unless a release at \<open>b\<close> passed over bytes.
\<close>

definition delivered :: "io_event list \<Rightarrow> io_event list \<Rightarrow> endpoint \<Rightarrow> endpoint \<Rightarrow> bool" where
  "delivered la lb a b \<longleftrightarrow>
     (\<forall>l < 4. ep_hist l a = sent_at l la \<and>
        (passed_over_at l lb = [] \<longrightarrow> sent_at l la = consumed_at l lb @ ep_ins l b @ ep_outs l a))"

definition accounted :: "io_event list \<Rightarrow> io_event list \<Rightarrow> endpoint \<Rightarrow> endpoint \<Rightarrow> bool" where
  "accounted la lb a b \<longleftrightarrow> delivered la lb a b \<and> delivered lb la b a"

lemma accounted_sym: "accounted la lb a b \<Longrightarrow> accounted lb la b a"
  by (simp add: accounted_def)

lemma accounted_drive:
  assumes "accounted la lb a b" and "ep_accounts new a a1"
  shows "accounted (la @ new) lb a1 b"
  using assms unfolding accounted_def delivered_def ep_accounts_def by auto

text \<open>
  An OpenSSL that gives back what it was lent before a handshake call returns passes over nothing.
\<close>

definition ep_nothing_lent :: "endpoint \<Rightarrow> bool" where
  "ep_nothing_lent e \<longleftrightarrow> (\<forall>l < 4. ep_in_read_len e ! l = 0)"

definition gives_back :: "'w openssl \<Rightarrow> bool" where
  "gives_back L \<longleftrightarrow>
     (\<forall>w e w' e' log. ep_ok e \<longrightarrow> ep_nothing_lent e \<longrightarrow> observed_handshake L w e = Some (w', e', log) \<longrightarrow>
        ep_nothing_lent e' \<and> (\<forall>l < 4. passed_over_at l log = []))"

definition nothing_passed :: "io_event list \<Rightarrow> io_event list \<Rightarrow> endpoint \<Rightarrow> endpoint \<Rightarrow> bool" where
  "nothing_passed la lb a b \<longleftrightarrow>
     ep_nothing_lent a \<and> ep_nothing_lent b \<and> (\<forall>l < 4. passed_over_at l la = [] \<and> passed_over_at l lb = [])"

lemma nothing_passed_sym: "nothing_passed la lb a b \<Longrightarrow> nothing_passed lb la b a"
  by (simp add: nothing_passed_def)

lemma half_round:
  assumes "ep_live a" and "ep_live b"
  shows "\<exists>w1 a1 new rc a2 b2. drive_handshake L w a = Some (w1, a1) \<and> pump_crypto a1 b = Some (rc, a2, b2) \<and>
    observed_handshake L w a = Some (w1, a1, new) \<and>
    ep_live a2 \<and> ep_live b2 \<and> ep_handles a2 = ep_handles a \<and> ep_handles b2 = ep_handles b \<and>
    (\<forall>la lb. accounted la lb a b \<longrightarrow> accounted (la @ new) lb a2 b2) \<and>
    (\<forall>la lb. gives_back L \<and> nothing_passed la lb a b \<longrightarrow> nothing_passed (la @ new) lb a2 b2)"
proof -
  from assms have ok: "ep_ok a" "ep_ssl a \<noteq> None" "ep_ok b" "ep_ssl b \<noteq> None" by (auto simp: ep_live_def)
  from drive_handshake_ok [OF ok(1,2), of L w] observed_handshake_ok [OF ok(1,2), of L w] obtain w1 a1 new where
      1: "drive_handshake L w a = Some (w1, a1)" "ep_ok a1" "ep_sends a a1"
        "observed_handshake L w a = Some (w1, a1, new)" "ep_accounts new a a1"
    by auto
  have h1: "ep_ctx a1 = ep_ctx a" "ep_ssl a1 = ep_ssl a" using 1(3) by (simp_all add: ep_sends_def)
  from pump_crypto_ok [OF 1(2) ok(3)] obtain rc a2 b2 where
      2: "pump_crypto a1 b = Some (rc, a2, b2)" "ep_ok a2" "ep_ok b2"
        "ep_ctx a2 = ep_ctx a1" "ep_ssl a2 = ep_ssl a1" "ep_ctx b2 = ep_ctx b" "ep_ssl b2 = ep_ssl b"
        "ep_in_read_len a2 = ep_in_read_len a1" "ep_in_read_len b2 = ep_in_read_len b"
        "\<forall>l. ep_ins l a2 = ep_ins l a1 \<and> ep_hist l a2 = ep_hist l a1 \<and>
           ep_outs l b2 = ep_outs l b \<and> ep_hist l b2 = ep_hist l b"
        "\<forall>l < 4. ep_ins l b2 @ ep_outs l a2 = ep_ins l b @ ep_outs l a1"
    by blast
  have "accounted (la @ new) lb a2 b2" if "accounted la lb a b" for la lb
    using accounted_drive [OF that 1(5)] 2(10,11) by (simp add: accounted_def delivered_def)
  moreover have "nothing_passed (la @ new) lb a2 b2" if "gives_back L \<and> nothing_passed la lb a b" for la lb
  proof -
    have "ep_nothing_lent a1 \<and> (\<forall>l < 4. passed_over_at l new = [])"
      using that ok(1) 1(4) unfolding gives_back_def nothing_passed_def by blast
    with that 2(8,9) show ?thesis by (simp add: nothing_passed_def ep_nothing_lent_def)
  qed
  ultimately show ?thesis using 1 2 ok h1 by (auto simp: ep_live_def ep_handles_def)
qed

text \<open>What a run of the loop keeps of a pair of endpoints and of its records.\<close>

definition loop_keeps ::
  "'w openssl \<Rightarrow> io_event list \<Rightarrow> io_event list \<Rightarrow> endpoint \<Rightarrow> endpoint \<Rightarrow>
     io_event list \<Rightarrow> io_event list \<Rightarrow> endpoint \<Rightarrow> endpoint \<Rightarrow> bool" where
  "loop_keeps L lc ls c s lc' ls' c' s' \<longleftrightarrow>
     ep_live c' \<and> ep_live s' \<and> ep_handles c' = ep_handles c \<and> ep_handles s' = ep_handles s \<and>
     (accounted lc ls c s \<longrightarrow> accounted lc' ls' c' s') \<and>
     (gives_back L \<and> nothing_passed lc ls c s \<longrightarrow> nothing_passed lc' ls' c' s')"

lemma loop_keeps_trans:
  "loop_keeps L lc ls c s lc' ls' c' s' \<Longrightarrow> loop_keeps L lc' ls' c' s' lc'' ls'' c'' s'' \<Longrightarrow>
     loop_keeps L lc ls c s lc'' ls'' c'' s''"
  by (simp add: loop_keeps_def)

lemma round_keeps:
  assumes "ep_live c" and "ep_live s"
  shows "\<exists>w1 c1 new rc1 c2 s2 w2 s3 new' rc2 s4 c4.
    drive_handshake L w c = Some (w1, c1) \<and> observed_handshake L w c = Some (w1, c1, new) \<and>
    pump_crypto c1 s = Some (rc1, c2, s2) \<and> loop_keeps L lc ls c s (lc @ new) ls c2 s2 \<and>
    drive_handshake L w1 s2 = Some (w2, s3) \<and> observed_handshake L w1 s2 = Some (w2, s3, new') \<and>
    pump_crypto s3 c2 = Some (rc2, s4, c4) \<and> loop_keeps L lc ls c s (lc @ new) (ls @ new') c4 s4"
proof -
  from half_round [OF assms, of L w] obtain w1 c1 new rc1 c2 s2 where
      1: "drive_handshake L w c = Some (w1, c1)" "observed_handshake L w c = Some (w1, c1, new)"
        "pump_crypto c1 s = Some (rc1, c2, s2)" "ep_live c2" "ep_live s2"
        "ep_handles c2 = ep_handles c" "ep_handles s2 = ep_handles s"
        "\<forall>la lb. accounted la lb c s \<longrightarrow> accounted (la @ new) lb c2 s2"
        "\<forall>la lb. gives_back L \<and> nothing_passed la lb c s \<longrightarrow> nothing_passed (la @ new) lb c2 s2"
    by blast
  from half_round [OF 1(5,4), of L w1] obtain w2 s3 new' rc2 s4 c4 where
      2: "drive_handshake L w1 s2 = Some (w2, s3)" "observed_handshake L w1 s2 = Some (w2, s3, new')"
        "pump_crypto s3 c2 = Some (rc2, s4, c4)" "ep_live s4" "ep_live c4"
        "ep_handles s4 = ep_handles s2" "ep_handles c4 = ep_handles c2"
        "\<forall>la lb. accounted la lb s2 c2 \<longrightarrow> accounted (la @ new') lb s4 c4"
        "\<forall>la lb. gives_back L \<and> nothing_passed la lb s2 c2 \<longrightarrow> nothing_passed (la @ new') lb s4 c4"
    by blast
  have k1: "loop_keeps L lc ls c s (lc @ new) ls c2 s2"
    using 1(4-9) by (simp add: loop_keeps_def)
  have "loop_keeps L (lc @ new) ls c2 s2 (lc @ new) (ls @ new') c4 s4"
    using 2(4-9) accounted_sym nothing_passed_sym unfolding loop_keeps_def by blast
  from 1(1-3) 2(1-3) k1 loop_keeps_trans [OF k1 this] show ?thesis by blast
qed

lemma run_loop_ok:
  assumes "ep_live c" and "ep_live s"
  shows "\<exists>w' c' s' n lc' ls'. run_loop L i w c s k = Some (w', c', s', n) \<and>
    observed_loop L i w c s k lc ls = Some (w', c', s', n, lc', ls') \<and>
    (n = k \<or> (\<exists>j. i < j \<and> j \<le> 80 \<and> n = word_of_nat j)) \<and> loop_keeps L lc ls c s lc' ls' c' s'"
  using assms
proof (induction "80 - i" arbitrary: i w c s k lc ls)
  case 0
  then have "run_loop L i w c s k = Some (w, c, s, k)" "observed_loop L i w c s k lc ls = Some (w, c, s, k, lc, ls)"
    by (simp_all add: run_loop.simps [of L i] observed_loop.simps [of L i])
  with 0 show ?case by (simp add: loop_keeps_def)
next
  case (Suc x)
  show ?case
  proof (cases "ep_handshake_done c \<noteq> 0 \<and> ep_handshake_done s \<noteq> 0")
    case True
    then have "run_loop L i w c s k = Some (w, c, s, k)" "observed_loop L i w c s k lc ls = Some (w, c, s, k, lc, ls)"
      by (simp_all add: run_loop.simps [of L i] observed_loop.simps [of L i])
    with Suc.prems show ?thesis by (simp add: loop_keeps_def)
  next
    case False
    from round_keeps [OF Suc.prems, of L w lc ls] obtain w1 c1 new rc1 c2 s2 w2 s3 new' rc2 s4 c4 where
        1: "drive_handshake L w c = Some (w1, c1)" "observed_handshake L w c = Some (w1, c1, new)"
          "pump_crypto c1 s = Some (rc1, c2, s2)" "loop_keeps L lc ls c s (lc @ new) ls c2 s2"
          "drive_handshake L w1 s2 = Some (w2, s3)" "observed_handshake L w1 s2 = Some (w2, s3, new')"
          "pump_crypto s3 c2 = Some (rc2, s4, c4)" "loop_keeps L lc ls c s (lc @ new) (ls @ new') c4 s4"
      by blast
    from Suc.hyps(2) have i: "x = 80 - (i + 1)" "i < 80" by auto
    have live: "ep_live c4" "ep_live s4" using 1(8) by (simp_all add: loop_keeps_def)
    from Suc.hyps(1) [OF i(1) live, of w2 "word_of_nat (i + 1)" "lc @ new" "ls @ new'"] obtain w' c' s' n lc' ls' where
        2: "run_loop L (i + 1) w2 c4 s4 (word_of_nat (i + 1)) = Some (w', c', s', n)"
          "observed_loop L (i + 1) w2 c4 s4 (word_of_nat (i + 1)) (lc @ new) (ls @ new') = Some (w', c', s', n, lc', ls')"
          "n = word_of_nat (i + 1) \<or> (\<exists>j. i + 1 < j \<and> j \<le> 80 \<and> n = word_of_nat j)"
          "loop_keeps L (lc @ new) (ls @ new') c4 s4 lc' ls' c' s'"
      by blast
    have n: "\<exists>j. i < j \<and> j \<le> 80 \<and> n = word_of_nat j"
      using 2(3) i(2) by (metis Suc_eq_plus1 Suc_leI lessI less_imp_le order_less_le_trans)
    consider "rc1 = 0" | "rc1 \<noteq> 0" "rc2 = 0" | "rc1 \<noteq> 0" "rc2 \<noteq> 0" by blast
    then show ?thesis
    proof cases
      case a: 1
      then have "run_loop L i w c s k = Some (w1, c2, s2, k)"
        "observed_loop L i w c s k lc ls = Some (w1, c2, s2, k, lc @ new, ls)"
        using i(2) False 1(1-3) by (auto simp: run_loop.simps [of L i] observed_loop.simps [of L i])
      with 1(4) show ?thesis by blast
    next
      case b: 2
      then have "run_loop L i w c s k = Some (w2, c4, s4, k)"
        "observed_loop L i w c s k lc ls = Some (w2, c4, s4, k, lc @ new, ls @ new')"
        using i(2) False 1(1-3,5-7) by (auto simp: run_loop.simps [of L i] observed_loop.simps [of L i])
      with 1(8) show ?thesis by blast
    next
      case c: 3
      then have "run_loop L i w c s k = Some (w', c', s', n)"
        "observed_loop L i w c s k lc ls = Some (w', c', s', n, lc', ls')"
        using i(2) False 1(1-3,5-7) 2(1,2) by (auto simp: run_loop.simps [of L i] observed_loop.simps [of L i])
      with n loop_keeps_trans [OF 1(8) 2(4)] show ?thesis by blast
    qed
  qed
qed

end
