(* ===== verification/Pair_Recording.thy ===== *)
theory Pair_Recording
  imports Pair_Exchange
begin

text \<open>
  What surrounds the transcript loop: construction and destruction of the endpoints with the resources they
  acquire and release, and the copying of the CRYPTO history, transport parameters and secrets to the statics.
\<close>

section \<open>Construction and destruction\<close>

definition statics_ok :: "pair_statics \<Rightarrow> bool" where
  "statics_ok st \<longleftrightarrow>
     length (last_client_crypto st) = 4 \<and> length (last_client_crypto_len st) = 4 \<and>
     length (last_server_crypto st) = 4 \<and> length (last_server_crypto_len st) = 4 \<and>
     length (last_client_secrets st) = 4 \<and> length (last_client_secret_available st) = 4 \<and>
     length (last_server_secrets st) = 4 \<and> length (last_server_secret_available st) = 4 \<and>
     (\<forall>l < 4. buf_ok 65536 (last_client_crypto st ! l) (last_client_crypto_len st ! l) \<and>
        buf_ok 65536 (last_server_crypto st ! l) (last_server_crypto_len st ! l) \<and>
        length (last_client_secrets st ! l) = 2 \<and> length (last_client_secret_available st ! l) = 2 \<and>
        length (last_server_secrets st ! l) = 2 \<and> length (last_server_secret_available st ! l) = 2 \<and>
        (\<forall>d < 2. length (last_client_secrets st ! l ! d) = 32 \<and> length (last_server_secrets st ! l ! d) = 32)) \<and>
     buf_ok 512 (last_client_peer_transport_parameters st) (last_client_peer_transport_parameters_len st) \<and>
     buf_ok 512 (last_server_peer_transport_parameters st) (last_server_peer_transport_parameters_len st) \<and>
     buf_ok 512 (configured_client_transport_parameters st) (configured_client_transport_parameters_len st) \<and>
     buf_ok 512 (configured_server_transport_parameters st) (configured_server_transport_parameters_len st)"

lemma statics_ok_zero: "statics_ok pair_statics_zero"
  by (simp add: statics_ok_def pair_statics_zero_def nth_replicate buf_ok_def)

lemma statics_ok_clear: "statics_ok st \<Longrightarrow> statics_ok (clear_last st)"
  by (auto simp: statics_ok_def clear_last_def nth_replicate buf_ok_def)

definition ep_acquired :: "endpoint \<Rightarrow> heap_event list" where
  "ep_acquired e = (case ep_ctx e of None \<Rightarrow> [] | Some c \<Rightarrow> [Acquire (Ctx c)]) @
     (case ep_ssl e of None \<Rightarrow> [] | Some s \<Rightarrow> [Acquire (Ssl s)])"

definition ep_fresh :: "endpoint \<Rightarrow> bool" where
  "ep_fresh e \<longleftrightarrow> ep_ok e \<and> ep_nothing_lent e \<and> (\<forall>l < 4. ep_ins l e = [] \<and> ep_outs l e = [] \<and> ep_hist l e = [])"

lemma ep_fresh_zero: "ep_fresh ep_zero" "ep_ctx ep_zero = None" "ep_ssl ep_zero = None"
  using ep_ok_zero
  by (simp_all add: ep_fresh_def ep_zero_def nth_replicate ep_nothing_lent_def ep_ins_def ep_outs_def ep_hist_def)

lemma ep_fresh_update [simp]:
  "ep_fresh (e\<lparr>ep_ctx := c\<rparr>) = ep_fresh e" "ep_fresh (e\<lparr>ep_ssl := s\<rparr>) = ep_fresh e"
  "ep_fresh (e\<lparr>ep_local_transport_parameters := p\<rparr>) = ep_fresh e"
  "ep_fresh (e\<lparr>ep_local_transport_parameters_len := n\<rparr>) = ep_fresh e"
  by (simp_all add: ep_fresh_def ep_ok_def ep_shape_def ep_level_ok_def ep_nothing_lent_def ep_ins_def ep_outs_def
      ep_hist_def)

lemma endpoint_parameters_ok:
  assumes "statics_ok st" and "endpoint_parameters st cl = (p, n)"
  shows "unat n \<le> 512" "unat n \<le> length p"
  using assms by (auto simp: endpoint_parameters_def statics_ok_def buf_ok_def client_transport_parameters_def
      server_transport_parameters_def split: if_splits)

lemma init_endpoint_ok:
  assumes "statics_ok st"
  shows "\<exists>ok e w' es. init_endpoint L st cl w = Some (ok, e, w', es) \<and> ep_fresh e \<and> es = ep_acquired e \<and>
    (ok \<noteq> 0 \<longrightarrow> ep_ssl e \<noteq> None)"
proof -
  obtain p n where pn: "endpoint_parameters st cl = (p, n)" by (cases "endpoint_parameters st cl")
  have len: "\<not> n > 512" "unat n \<le> 512" "unat n \<le> length p"
    using endpoint_parameters_ok [OF assms pn] by (simp_all add: word_less_nat_alt)
  then obtain local where local: "memcpy (ep_local_transport_parameters ep_zero) 0 (Some p) n = Some local"
    by (simp add: ep_zero_def)
  have "init_endpoint L st cl w \<noteq> None"
    using len(1) by (simp add: init_endpoint_def pn Let_def local split: prod.splits option.splits)
  then obtain ok e w' es where r: "init_endpoint L st cl w = Some (ok, e, w', es)" by auto
  then have "ep_fresh e \<and> es = ep_acquired e \<and> (ok \<noteq> 0 \<longrightarrow> ep_ssl e \<noteq> None)"
    using len(1) ep_fresh_zero
    by (auto simp: init_endpoint_def pn Let_def local ep_acquired_def split: prod.splits if_splits option.splits)
  with r show ?thesis by blast
qed

definition release_events :: "bool \<Rightarrow> endpoint option \<Rightarrow> heap_event list" where
  "release_events cl c =
     (case c of None \<Rightarrow> []
      | Some e \<Rightarrow> (case ep_ssl e of None \<Rightarrow> [] | Some s \<Rightarrow> [Release (Ssl s)]) @
          (case ep_ctx e of None \<Rightarrow> [] | Some c \<Rightarrow> [Release (Ctx c)]) @ [Release (Endpoint_mem cl)])"

lemma free_endpoint_events: "\<exists>w'. free_endpoint L cl c w = (w', release_events cl c)"
  by (cases c) (auto simp: free_endpoint_def release_events_def)

lemma release_events_handles: "ep_handles e' = ep_handles e \<Longrightarrow> release_events cl (Some e') = release_events cl (Some e)"
  by (simp add: release_events_def ep_handles_def)

text \<open>Everything that two endpoints acquired, in the order of the constructors, is released by the two destructors.\<close>

lemma endpoints_balance:
  "balance (Acquire (Endpoint_mem True) # Acquire (Endpoint_mem False) # ep_acquired c @ ep_acquired s @
     release_events True (Some c) @ release_events False (Some s)) live = Some live"
  by (auto simp: ep_acquired_def release_events_def split: option.splits)

lemma new_endpoints_ok:
  assumes "statics_ok st"
  shows "\<exists>allocated ready c s w' es. new_endpoints L st w = Some (allocated, ready, c, s, w', es) \<and>
    balance (es @ release_events True c @ release_events False s) live = Some live \<and>
    (ready \<longrightarrow> (\<exists>c0 s0. c = Some c0 \<and> s = Some s0 \<and> ep_live c0 \<and> ep_live s0 \<and>
      accounted [] [] c0 s0 \<and> nothing_passed [] [] c0 s0))"
proof -
  obtain got_client w1 where 1: "calloc L w = (got_client, w1)" by (cases "calloc L w")
  obtain got_server w2 where 2: "calloc L w1 = (got_server, w2)" by (cases "calloc L w1")
  have zero: "ep_acquired ep_zero = []" by (simp add: ep_acquired_def ep_fresh_zero)
  show ?thesis
  proof (cases "got_client \<and> got_server")
    case False
    then show ?thesis
      using 1 2 by (auto simp: new_endpoints_def release_events_def ep_fresh_zero)
  next
    case True
    from init_endpoint_ok [OF assms, of L True w2] obtain ok1 c w3 where
        3: "init_endpoint L st True w2 = Some (ok1, c, w3, ep_acquired c)" "ep_fresh c" "ok1 \<noteq> 0 \<longrightarrow> ep_ssl c \<noteq> None"
      by blast
    from init_endpoint_ok [OF assms, of L False w3] obtain ok2 s w4 where
        4: "init_endpoint L st False w3 = Some (ok2, s, w4, ep_acquired s)" "ep_fresh s" "ok2 \<noteq> 0 \<longrightarrow> ep_ssl s \<noteq> None"
      by blast
    show ?thesis
    proof (cases "ok1 = 0")
      case fail: True
      with True 1 2 3(1) have "new_endpoints L st w = Some (True, False, Some c, Some ep_zero, w3,
          [Acquire (Endpoint_mem True), Acquire (Endpoint_mem False)] @ ep_acquired c)"
        by (simp add: new_endpoints_def)
      with endpoints_balance [of c ep_zero live] zero show ?thesis by auto
    next
      case ok: False
      with True 1 2 3(1) 4(1) have "new_endpoints L st w = Some (True, ok2 \<noteq> 0, Some c, Some s, w4,
          [Acquire (Endpoint_mem True), Acquire (Endpoint_mem False)] @ ep_acquired c @ ep_acquired s)"
        by (simp add: new_endpoints_def)
      moreover have "accounted [] [] c s" "nothing_passed [] [] c s"
        using 3(2) 4(2) by (simp_all add: accounted_def delivered_def nothing_passed_def ep_fresh_def)
      ultimately show ?thesis
        using endpoints_balance [of c s live] ok 3(2,3) 4(2,3) by (auto simp: ep_live_def ep_fresh_def)
    qed
  qed
qed

section \<open>Recording the transcript\<close>

text \<open>A loop that establishes \<open>Q i\<close> for each index it visits and keeps what it established.\<close>

lemma for_each_establishes:
  assumes "\<And>i s. i \<in> set idx \<Longrightarrow> I s \<Longrightarrow> \<exists>s'. f i s = Some s' \<and> I s' \<and> Q i s' \<and> (\<forall>j. Q j s \<longrightarrow> Q j s')"
    and "I s"
  shows "\<exists>s'. for_each f idx s = Some s' \<and> I s' \<and> (\<forall>i \<in> set idx. Q i s') \<and> (\<forall>j. Q j s \<longrightarrow> Q j s')"
  using assms
proof (induction idx arbitrary: s)
  case (Cons i idx)
  from Cons.prems(1) [of i s] Cons.prems(2) obtain s1 where
      1: "f i s = Some s1" "I s1" "Q i s1" "\<forall>j. Q j s \<longrightarrow> Q j s1"
    by auto
  have "\<exists>s'. for_each f idx s1 = Some s' \<and> I s' \<and> (\<forall>i \<in> set idx. Q i s') \<and> (\<forall>j. Q j s1 \<longrightarrow> Q j s')"
    using Cons.prems(1) by (intro Cons.IH 1(2)) auto
  then obtain s2 where "for_each f idx s1 = Some s2" "I s2" "\<forall>i \<in> set idx. Q i s2" "\<forall>j. Q j s1 \<longrightarrow> Q j s2"
    by blast
  with 1 show ?case by (intro exI [of _ s2]) auto
qed simp

lemma statics_okD:
  assumes "statics_ok st"
  shows "length (last_client_crypto st) = 4" "length (last_client_crypto_len st) = 4"
    "length (last_server_crypto st) = 4" "length (last_server_crypto_len st) = 4"
    "l < 4 \<Longrightarrow> buf_ok 65536 (last_client_crypto st ! l) (last_client_crypto_len st ! l)"
    "l < 4 \<Longrightarrow> buf_ok 65536 (last_server_crypto st ! l) (last_server_crypto_len st ! l)"
  using assms by (auto simp: statics_ok_def)

text \<open>The recorded CRYPTO bytes of a level.\<close>

definition client_record :: "nat \<Rightarrow> pair_statics \<Rightarrow> byte list" where
  "client_record l st = content (last_client_crypto st ! l) (last_client_crypto_len st ! l)"

definition server_record :: "nat \<Rightarrow> pair_statics \<Rightarrow> byte list" where
  "server_record l st = content (last_server_crypto st ! l) (last_server_crypto_len st ! l)"

lemma memcpy_history:
  assumes "ep_ok e" and "l < 4" and "length dst = 65536"
  shows "\<exists>x. memcpy dst 0 (Some (ep_out_history e ! l)) (ep_out_history_len e ! l) = Some x \<and>
    buf_ok 65536 x (ep_out_history_len e ! l) \<and> content x (ep_out_history_len e ! l) = ep_hist l e"
proof -
  have ok: "buf_ok 65536 (ep_out_history e ! l) (ep_out_history_len e ! l)"
    using ep_levelD(4) [OF assms(1,2)] .
  then have "readable (Some (ep_out_history e ! l)) (ep_out_history_len e ! l)" by (simp add: buf_ok_def)
  with memcpy_append [of 65536 dst 0 "Some (ep_out_history e ! l)" "ep_out_history_len e ! l"] ok assms(3)
  show ?thesis by (auto simp: buf_ok_def ep_hist_def content_def)
qed

lemma copy_last_crypto_ok:
  assumes "ep_ok c" and "ep_ok s" and "statics_ok st"
  shows "\<exists>st'. copy_last_crypto c s st = Some st' \<and> statics_ok st' \<and>
    (\<forall>l < 4. client_record l st' = ep_hist l c \<and> server_record l st' = ep_hist l s)"
proof -
  let ?Q = "\<lambda>l st. client_record l st = ep_hist l c \<and> server_record l st = ep_hist l s"
  let ?st = "st\<lparr>last_client_crypto_len := replicate 4 0, last_server_crypto_len := replicate 4 0\<rparr>"
  have "statics_ok ?st" using assms(3) by (auto simp: statics_ok_def nth_replicate buf_ok_def)
  moreover have "\<exists>t'. copy_last_crypto_level c s l t = Some t' \<and> statics_ok t' \<and> ?Q l t' \<and> (\<forall>j. ?Q j t \<longrightarrow> ?Q j t')"
    if l: "l \<in> set [0..<4]" and t: "statics_ok t" for l t
  proof -
    from l have l: "l < 4" by simp
    note d = statics_okD [OF t]
    have len: "length (last_client_crypto t ! l) = 65536" "length (last_server_crypto t ! l) = 65536"
      using d(5,6) [OF l] by (simp_all add: buf_ok_def)
    from memcpy_history [OF assms(1) l len(1)] obtain x where
        x: "memcpy (last_client_crypto t ! l) 0 (Some (ep_out_history c ! l)) (ep_out_history_len c ! l) = Some x"
          "buf_ok 65536 x (ep_out_history_len c ! l)" "content x (ep_out_history_len c ! l) = ep_hist l c" by blast
    from memcpy_history [OF assms(2) l len(2)] obtain y where
        y: "memcpy (last_server_crypto t ! l) 0 (Some (ep_out_history s ! l)) (ep_out_history_len s ! l) = Some y"
          "buf_ok 65536 y (ep_out_history_len s ! l)" "content y (ep_out_history_len s ! l) = ep_hist l s" by blast
    let ?t = "t\<lparr>last_client_crypto := (last_client_crypto t)[l := x],
       last_client_crypto_len := (last_client_crypto_len t)[l := ep_out_history_len c ! l],
       last_server_crypto := (last_server_crypto t)[l := y],
       last_server_crypto_len := (last_server_crypto_len t)[l := ep_out_history_len s ! l]\<rparr>"
    have "copy_last_crypto_level c s l t = Some ?t" using x(1) y(1) by (simp add: copy_last_crypto_level_def)
    moreover have "statics_ok ?t"
      using t l x(2) y(2) by (auto simp: statics_ok_def nth_list_update)
    moreover have "client_record j ?t = (if j = l then ep_hist l c else client_record j t)"
      "server_record j ?t = (if j = l then ep_hist l s else server_record j t)" for j
      using d(1-4) l x(3) y(3) by (simp_all add: client_record_def server_record_def)
    ultimately show ?thesis by (intro exI [of _ ?t]) simp
  qed
  ultimately obtain st' where "for_each (copy_last_crypto_level c s) [0..<4] ?st = Some st'" "statics_ok st'"
      "\<forall>l \<in> set [0..<4]. ?Q l st'"
    using for_each_establishes [where f = "copy_last_crypto_level c s" and I = statics_ok and Q = ?Q
        and idx = "[0..<4]" and s = ?st] by blast
  then show ?thesis by (auto simp: copy_last_crypto_def)
qed

definition records where
  "records st = (last_client_crypto st, last_client_crypto_len st, last_server_crypto st, last_server_crypto_len st)"

lemma copy_last_transport_parameters_ok:
  assumes "ep_ok c" and "ep_ok s" and "statics_ok st"
  shows "\<exists>st'. copy_last_transport_parameters c s st = Some st' \<and> statics_ok st' \<and> records st' = records st \<and>
    content (last_client_peer_transport_parameters st') (last_client_peer_transport_parameters_len st') =
      content (ep_peer_transport_parameters c) (ep_peer_transport_parameters_len c) \<and>
    content (last_server_peer_transport_parameters st') (last_server_peer_transport_parameters_len st') =
      content (ep_peer_transport_parameters s) (ep_peer_transport_parameters_len s)"
proof -
  have copy: "\<exists>x. memcpy (replicate 512 0) 0 (Some (ep_peer_transport_parameters e)) (ep_peer_transport_parameters_len e) =
      Some x \<and> buf_ok 512 x (ep_peer_transport_parameters_len e) \<and>
      content x (ep_peer_transport_parameters_len e) =
        content (ep_peer_transport_parameters e) (ep_peer_transport_parameters_len e)" if "ep_ok e" for e
    using memcpy_append [of 512 "replicate 512 0" 0 "Some (ep_peer_transport_parameters e)"
        "ep_peer_transport_parameters_len e"] ep_okD(7) [OF that]
    by (auto simp: buf_ok_def content_def)
  from copy [OF assms(1)] copy [OF assms(2)] assms(3) show ?thesis
    by (auto simp: copy_last_transport_parameters_def statics_ok_def records_def)
qed

text \<open>The recorded secret of a level and direction: available exactly if the endpoint has it, and then the same.\<close>

definition secret_recorded :: "endpoint \<Rightarrow> byte list list list \<Rightarrow> cint list list \<Rightarrow> nat \<times> nat \<Rightarrow> bool" where
  "secret_recorded e secrets available i \<longleftrightarrow>
     (available ! fst i ! snd i \<noteq> 0 \<longleftrightarrow> ep_secret_available e ! fst i ! snd i \<noteq> 0) \<and>
     (available ! fst i ! snd i \<noteq> 0 \<longrightarrow> secrets ! fst i ! snd i = ep_secrets e ! fst i ! snd i)"

definition secret_table :: "byte list list list \<Rightarrow> cint list list \<Rightarrow> bool" where
  "secret_table secrets available \<longleftrightarrow> length secrets = 4 \<and> length available = 4 \<and>
     (\<forall>l < 4. length (secrets ! l) = 2 \<and> length (available ! l) = 2 \<and> (\<forall>d < 2. length (secrets ! l ! d) = 32))"

definition no_stray_secret :: "endpoint \<Rightarrow> cint list list \<Rightarrow> bool" where
  "no_stray_secret e available \<longleftrightarrow>
     (\<forall>l < 4. \<forall>d < 2. available ! l ! d \<noteq> 0 \<longrightarrow> ep_secret_available e ! l ! d \<noteq> 0)"

lemma copy_last_secret_ok:
  assumes "ep_ok e" and "l < 4" and "d < 2" and "secret_table secrets available" and "no_stray_secret e available"
  shows "\<exists>secrets' available'. copy_last_secret e l d (secrets, available) = Some (secrets', available') \<and>
    secret_table secrets' available' \<and> no_stray_secret e available' \<and>
    secret_recorded e secrets' available' (l, d) \<and>
    (\<forall>j. secret_recorded e secrets available j \<longrightarrow> secret_recorded e secrets' available' j)"
proof (cases "ep_secret_available e ! l ! d = 0")
  case True
  with assms show ?thesis
    by (auto simp: copy_last_secret_def secret_recorded_def no_stray_secret_def)
next
  case False
  have len: "length (ep_secrets e ! l ! d) = 32" "length (secrets ! l ! d) = 32"
    using ep_okD(2) [OF assms(1,2)] assms(2-4) by (auto simp: ep_level_ok_def secret_table_def)
  then have "memcpy (secrets ! l ! d) 0 (Some (ep_secrets e ! l ! d)) 32 = Some (ep_secrets e ! l ! d)"
    by (simp add: splice_def)
  with False assms(2-5) len show ?thesis
    by (auto simp: copy_last_secret_def secret_table_def no_stray_secret_def secret_recorded_def nth_list_update)
qed

definition secrets_invar :: "endpoint \<Rightarrow> endpoint \<Rightarrow> pair_statics \<Rightarrow> pair_statics \<Rightarrow> bool" where
  "secrets_invar c s st0 st \<longleftrightarrow>
     statics_ok st \<and> records st = records st0 \<and>
     no_stray_secret c (last_client_secret_available st) \<and> no_stray_secret s (last_server_secret_available st)"

definition secrets_recorded :: "endpoint \<Rightarrow> endpoint \<Rightarrow> nat \<times> nat \<Rightarrow> pair_statics \<Rightarrow> bool" where
  "secrets_recorded c s i st \<longleftrightarrow>
     secret_recorded c (last_client_secrets st) (last_client_secret_available st) i \<and>
     secret_recorded s (last_server_secrets st) (last_server_secret_available st) i"

lemma statics_ok_secrets:
  assumes "statics_ok st" and "secret_table cs ca" and "secret_table ss sa"
  shows "statics_ok (st\<lparr>last_client_secrets := cs, last_client_secret_available := ca,
      last_server_secrets := ss, last_server_secret_available := sa\<rparr>)"
  using assms by (auto simp: statics_ok_def secret_table_def)

lemma statics_ok_secret_table:
  assumes "statics_ok st"
  shows "secret_table (last_client_secrets st) (last_client_secret_available st)"
    "secret_table (last_server_secrets st) (last_server_secret_available st)"
  using assms by (auto simp: statics_ok_def secret_table_def)

lemma copy_last_secrets_step_ok:
  assumes "ep_ok c" and "ep_ok s" and "secrets_invar c s st0 st" and "i \<in> set (List.product [0..<4] [0..<2])"
  shows "\<exists>st'. copy_last_secrets_step c s i st = Some st' \<and> secrets_invar c s st0 st' \<and>
    secrets_recorded c s i st' \<and> (\<forall>j. secrets_recorded c s j st \<longrightarrow> secrets_recorded c s j st')"
proof -
  obtain l d where i: "i = (l, d)" "l < 4" "d < 2" using assms(4) by (metis atLeastLessThan_iff mem_Sigma_iff
      old.prod.exhaust set_product set_upt)
  from assms(3) have inv: "statics_ok st" "records st = records st0"
      "no_stray_secret c (last_client_secret_available st)" "no_stray_secret s (last_server_secret_available st)"
    by (auto simp: secrets_invar_def)
  note table = statics_ok_secret_table [OF inv(1)]
  from copy_last_secret_ok [OF assms(1) i(2,3) table(1) inv(3)] obtain cs ca where
      c: "copy_last_secret c l d (last_client_secrets st, last_client_secret_available st) = Some (cs, ca)"
        "secret_table cs ca" "no_stray_secret c ca" "secret_recorded c cs ca (l, d)"
        "\<forall>j. secret_recorded c (last_client_secrets st) (last_client_secret_available st) j \<longrightarrow> secret_recorded c cs ca j"
    by blast
  from copy_last_secret_ok [OF assms(2) i(2,3) table(2) inv(4)] obtain ss sa where
      s: "copy_last_secret s l d (last_server_secrets st, last_server_secret_available st) = Some (ss, sa)"
        "secret_table ss sa" "no_stray_secret s sa" "secret_recorded s ss sa (l, d)"
        "\<forall>j. secret_recorded s (last_server_secrets st) (last_server_secret_available st) j \<longrightarrow> secret_recorded s ss sa j"
    by blast
  show ?thesis
    using c s inv statics_ok_secrets [OF inv(1) c(2) s(2)]
    by (simp add: copy_last_secrets_step_def i(1) secrets_invar_def secrets_recorded_def records_def)
qed

lemma copy_last_secrets_ok:
  assumes "ep_ok c" and "ep_ok s" and "statics_ok st"
  shows "\<exists>st'. copy_last_secrets c s st = Some st' \<and> statics_ok st' \<and> records st' = records st \<and>
    (\<forall>l < 4. \<forall>d < 2. secrets_recorded c s (l, d) st')"
proof -
  let ?st = "st\<lparr>last_client_secret_available := replicate 4 (replicate 2 0),
    last_server_secret_available := replicate 4 (replicate 2 0)\<rparr>"
  have "secrets_invar c s st ?st"
    using assms(3) by (auto simp: secrets_invar_def statics_ok_def records_def no_stray_secret_def)
  from for_each_establishes [where f = "copy_last_secrets_step c s" and I = "secrets_invar c s st"
      and Q = "secrets_recorded c s" and idx = "List.product [0..<4] [0..<2]",
      OF copy_last_secrets_step_ok [OF assms(1,2)] this]
  obtain st' where
      "for_each (copy_last_secrets_step c s) (List.product [0..<4] [0..<2]) ?st = Some st'"
      "secrets_invar c s st st'" "\<forall>i \<in> set (List.product [0..<4] [0..<2]). secrets_recorded c s i st'"
    by blast
  then show ?thesis by (auto simp: copy_last_secrets_def secrets_invar_def)
qed

end
