(* ===== verification/Pair_Transcript_Proofs.thy ===== *)
theory Pair_Transcript_Proofs
  imports Pair_Recording
begin

text \<open>
  The properties of the transcript run and of the functions that read the recorded transcript.
\<close>

section \<open>Properties\<close>

lemma run_records:
  assumes "statics_ok st" and "new_endpoints L (clear_last st) w = Some (a, True, Some c0, Some s0, w1, es)"
  shows "\<exists>w2 c s n lc ls r st' w3. run_loop L 0 w1 c0 s0 0 = Some (w2, c, s, n) \<and>
    observed_loop L 0 w1 c0 s0 0 [] [] = Some (w2, c, s, n, lc, ls) \<and>
    quicz_openssl_pair_transcript_run L st w =
      Some (r, st', w3, es @ release_events True (Some c) @ release_events False (Some s)) \<and>
    ep_live c \<and> ep_live s \<and> ep_handles c = ep_handles c0 \<and> ep_handles s = ep_handles s0 \<and>
    accounted lc ls c s \<and> (gives_back L \<longrightarrow> nothing_passed lc ls c s) \<and> unat n \<le> 80 \<and>
    statics_ok st' \<and> res_drive_iterations r = n \<and> res_initialized r = 1 \<and>
    (\<forall>l < 4. client_record l st' = ep_hist l c \<and> server_record l st' = ep_hist l s \<and>
       (\<forall>d < 2. secrets_recorded c s (l, d) st'))"
proof -
  have st: "statics_ok (clear_last st)" by (rule statics_ok_clear [OF assms(1)])
  from new_endpoints_ok [OF st, of L w "[]"] assms(2) have
      live: "ep_live c0" "ep_live s0" "accounted [] [] c0 s0" "nothing_passed [] [] c0 s0" by auto
  from run_loop_ok [OF live(1,2), of L 0 w1 0 "[]" "[]"] live(3,4) obtain w2 c s n lc ls where
      loop: "run_loop L 0 w1 c0 s0 0 = Some (w2, c, s, n)" "ep_live c" "ep_live s"
        "ep_handles c = ep_handles c0" "ep_handles s = ep_handles s0"
        "n = 0 \<or> (\<exists>j. 0 < j \<and> j \<le> 80 \<and> n = word_of_nat j)" "gives_back L \<longrightarrow> nothing_passed lc ls c s"
        "accounted lc ls c s" "observed_loop L 0 w1 c0 s0 0 [] [] = Some (w2, c, s, n, lc, ls)"
    unfolding loop_keeps_def by blast
  have n: "unat n \<le> 80" using loop(6) by (auto simp: unat_of_nat)
  from loop(2,3) have ok: "ep_ok c" "ep_ok s" by (auto simp: ep_live_def)
  from copy_last_crypto_ok [OF ok st] obtain st1 where
      1: "copy_last_crypto c s (clear_last st) = Some st1" "statics_ok st1"
        "\<forall>l < 4. client_record l st1 = ep_hist l c \<and> server_record l st1 = ep_hist l s" by blast
  from copy_last_transport_parameters_ok [OF ok 1(2)] obtain st2 where
      2: "copy_last_transport_parameters c s st1 = Some st2" "statics_ok st2" "records st2 = records st1" by blast
  from copy_last_secrets_ok [OF ok 2(2)] obtain st3 where
      3: "copy_last_secrets c s st2 = Some st3" "statics_ok st3" "records st3 = records st2"
        "\<forall>l < 4. \<forall>d < 2. secrets_recorded c s (l, d) st3" by blast
  have "client_record l st3 = client_record l st1" "server_record l st3 = server_record l st1" for l
    using 2(3) 3(3) by (simp_all add: records_def client_record_def server_record_def)
  moreover obtain w3 where f1: "free_endpoint L True (Some c) w2 = (w3, release_events True (Some c))"
    using free_endpoint_events [of L True "Some c" w2] by blast
  moreover obtain w4 where f2: "free_endpoint L False (Some s) w3 = (w4, release_events False (Some s))"
    using free_endpoint_events [of L False "Some s" w3] by blast
  ultimately show ?thesis
    using loop n 1 2 3 assms(2)
    by (simp add: quicz_openssl_pair_transcript_run_def Let_def copy_result_endpoint_def)
qed

lemma level_in_range_unat: "level_in_range l \<longleftrightarrow> unat l < 4"
proof -
  have u: "uint l = sint l mod 2 ^ 32" by (simp add: uint_sint take_bit_eq_mod)
  have range: "- (2 ^ 31) \<le> sint l" "sint l < 2 ^ 31"
    using sint_ge [of l] sint_lt [of l] by simp_all
  have "uint l = (if sint l < 0 then sint l + 2 ^ 32 else sint l)"
  proof (cases "sint l < 0")
    case True
    then have "(sint l + 2 ^ 32) mod 2 ^ 32 = sint l + 2 ^ 32"
      using range by (intro mod_pos_pos_trivial) simp_all
    with True u show ?thesis by simp
  next
    case False
    then show ?thesis using range u mod_pos_pos_trivial [of "sint l" "2 ^ 32"] by simp
  qed
  then have "uint l < 4 \<longleftrightarrow> level_in_range l" using range by (auto simp: level_in_range_def)
  moreover have "unat l < 4 \<longleftrightarrow> uint l < 4" using word_less_nat_alt [of l 4] word_less_def [of l 4] by simp
  ultimately show ?thesis by simp
qed

lemma level_in_range_word [simp]: "l < 4 \<Longrightarrow> level_in_range (word_of_nat l)"
  by (simp add: level_in_range_unat unat_of_nat)

text \<open>
  Property C15. For every OpenSSL, the transcript run returns: it makes at most 80 rounds, no access of it or of
  a callback is outside the arrays, everything it acquired is released exactly once on every path (failed
  allocation, failed initialisation, success), and the recorded state is well-formed for the next call.
\<close>

theorem pair_run_total:
  assumes "statics_ok st"
  shows "\<exists>r st' w' es. quicz_openssl_pair_transcript_run L st w = Some (r, st', w', es) \<and>
    statics_ok st' \<and> balance es [] = Some [] \<and> unat (res_drive_iterations r) \<le> 80"
proof -
  have st: "statics_ok (clear_last st)" by (rule statics_ok_clear [OF assms])
  from new_endpoints_ok [OF st, of L w "[]"] obtain a ready c0 s0 w1 es where
      new: "new_endpoints L (clear_last st) w = Some (a, ready, c0, s0, w1, es)"
        "balance (es @ release_events True c0 @ release_events False s0) [] = Some []"
        "ready \<longrightarrow> (\<exists>c s. c0 = Some c \<and> s0 = Some s)"
    by blast
  show ?thesis
  proof (cases ready)
    case False
    obtain w2 where f1: "free_endpoint L True c0 w1 = (w2, release_events True c0)"
      using free_endpoint_events [of L True c0 w1] by blast
    obtain w3 where f2: "free_endpoint L False s0 w2 = (w3, release_events False s0)"
      using free_endpoint_events [of L False s0 w2] by blast
    show ?thesis
      using False new(1,2) st f1 f2
      by (simp add: quicz_openssl_pair_transcript_run_def Let_def pair_result_zero_def)
  next
    case True
    with new obtain c s where cs: "c0 = Some c" "s0 = Some s" by blast
    with True new(1) have "new_endpoints L (clear_last st) w = Some (a, True, Some c, Some s, w1, es)" by simp
    from run_records [OF assms this] obtain c1 s1 n r st' w3 where
        "quicz_openssl_pair_transcript_run L st w =
           Some (r, st', w3, es @ release_events True (Some c1) @ release_events False (Some s1))"
        "ep_handles c1 = ep_handles c" "ep_handles s1 = ep_handles s" "unat n \<le> 80" "statics_ok st'"
        "res_drive_iterations r = n"
      by blast
    with new(2) cs release_events_handles [of c1 c True] release_events_handles [of s1 s False] show ?thesis
      by simp
  qed
qed

theorem pair_run_total_witness:
  "\<exists>r st' w' es. quicz_openssl_pair_transcript_run
     (scripted_openssl (Engine_crypto_send [1, 2] (\<lambda>_ _. Engine_done 1 ()))) pair_statics_zero () =
       Some (r, st', w', es) \<and> balance es [] = Some [] \<and> unat (res_drive_iterations r) \<le> 80"
  using pair_run_total [OF statics_ok_zero,
      of "scripted_openssl (Engine_crypto_send [1, 2] (\<lambda>_ _. Engine_done 1 ()))" "()"] by blast

lemma copy_crypto_level_delivers:
  assumes "buf_ok 65536 (history ! unat lvl) (history_len ! unat lvl)" and "level_in_range lvl"
    and "unat (history_len ! unat lvl) \<le> unat out_len" and "writable out out_len"
  shows "copy_crypto_level history history_len lvl out out_len (Some x) =
    Some (1, put_bytes out (content (history ! unat lvl) (history_len ! unat lvl)), Some (history_len ! unat lvl))"
proof -
  have "\<not> (history_len ! unat lvl \<noteq> 0 \<and> out = None)"
    using assms(3,4) by (auto simp: writable_def unat_eq_zero)
  with memcpy_out_content [OF assms(1,4,3)] assms(2,3) show ?thesis
    by (simp add: copy_crypto_level_def Let_def word_less_nat_alt)
qed

text \<open>
  Property C16. The transcript is complete and in order. For every OpenSSL, when both endpoints were set up: the
  bytes that \<open>copy_client_crypto\<close> returns for a level after the run are exactly the bytes that the client's OpenSSL
  handed to the send callback at that level and the callback accepted, as an observer of the callbacks records them;
  and they are the bytes that the server's OpenSSL reported as consumed at the level, then the bytes still pending at
  the server, then the bytes not yet pumped, unless the server's OpenSSL released a record while bytes had arrived
  behind it. Likewise for the server.
\<close>

theorem pair_transcript_complete:
  assumes "statics_ok st"
    and "new_endpoints L (clear_last st) w = Some (a, True, Some c0, Some s0, w1, es)"
    and "l < 4" and "65536 \<le> unat out_len" and "writable out out_len"
  shows "\<exists>w2 c s n lc ls r st' w3 es'. run_loop L 0 w1 c0 s0 0 = Some (w2, c, s, n) \<and>
    observed_loop L 0 w1 c0 s0 0 [] [] = Some (w2, c, s, n, lc, ls) \<and>
    quicz_openssl_pair_transcript_run L st w = Some (r, st', w3, es') \<and>
    quicz_openssl_pair_transcript_copy_client_crypto (word_of_nat l) out out_len (Some x) st' =
      Some (1, put_bytes out (sent_at l lc), Some (word_of_nat (length (sent_at l lc)))) \<and>
    quicz_openssl_pair_transcript_copy_server_crypto (word_of_nat l) out out_len (Some x) st' =
      Some (1, put_bytes out (sent_at l ls), Some (word_of_nat (length (sent_at l ls)))) \<and>
    (passed_over_at l ls = [] \<longrightarrow> sent_at l lc = consumed_at l ls @ ep_ins l s @ ep_outs l c) \<and>
    (passed_over_at l lc = [] \<longrightarrow> sent_at l ls = consumed_at l lc @ ep_ins l c @ ep_outs l s)"
proof -
  from run_records [OF assms(1,2)] obtain w2 c s n lc ls r st' w3 es' where
      r: "run_loop L 0 w1 c0 s0 0 = Some (w2, c, s, n)" "observed_loop L 0 w1 c0 s0 0 [] [] = Some (w2, c, s, n, lc, ls)"
        "quicz_openssl_pair_transcript_run L st w = Some (r, st', w3, es')"
        "accounted lc ls c s" "statics_ok st'" "client_record l st' = ep_hist l c" "server_record l st' = ep_hist l s"
    using assms(3) by blast
  from r(4) assms(3) have sent: "ep_hist l c = sent_at l lc" "ep_hist l s = sent_at l ls"
      "passed_over_at l ls = [] \<longrightarrow> sent_at l lc = consumed_at l ls @ ep_ins l s @ ep_outs l c"
      "passed_over_at l lc = [] \<longrightarrow> sent_at l ls = consumed_at l lc @ ep_ins l c @ ep_outs l s"
    by (simp_all add: accounted_def delivered_def)
  have u: "unat (word_of_nat l :: cint) = l" using assms(3) by (simp add: unat_of_nat)
  have ok: "buf_ok 65536 (last_client_crypto st' ! l) (last_client_crypto_len st' ! l)"
    "buf_ok 65536 (last_server_crypto st' ! l) (last_server_crypto_len st' ! l)"
    using statics_okD(5,6) [OF r(5) assms(3)] .
  then have "unat (last_client_crypto_len st' ! l) \<le> unat out_len" "unat (last_server_crypto_len st' ! l) \<le> unat out_len"
    using assms(4) by (auto simp: buf_ok_def)
  with ok have "quicz_openssl_pair_transcript_copy_client_crypto (word_of_nat l) out out_len (Some x) st' =
      Some (1, put_bytes out (sent_at l lc), Some (word_of_nat (length (sent_at l lc))))"
    "quicz_openssl_pair_transcript_copy_server_crypto (word_of_nat l) out out_len (Some x) st' =
      Some (1, put_bytes out (sent_at l ls), Some (word_of_nat (length (sent_at l ls))))"
    using copy_crypto_level_delivers [of _ "word_of_nat l", OF _ _ _ assms(5)] assms(3) r(6,7) [symmetric] u sent(1,2)
    by (simp_all add: quicz_openssl_pair_transcript_copy_client_crypto_def client_record_def
        quicz_openssl_pair_transcript_copy_server_crypto_def server_record_def)
  with r(1-3) sent(3,4) show ?thesis by blast
qed

text \<open>A handshake call that sends two bytes and consumes all that is pending.\<close>

definition exchange_call :: "unit engine" where
  "exchange_call = Engine_crypto_send [1, 2] (\<lambda>_ _. Engine_crypto_recv_rcd (\<lambda>_ _ n.
     if n = 0 then Engine_done 0 () else Engine_crypto_release_rcd n (\<lambda>_. Engine_done 1 ())))"

lemma nth_update_cases: "xs[i := v] ! j = (if j = i \<and> i < length xs then v else xs ! j)"
  by (cases "i < length xs") (auto simp: nth_list_update list_update_beyond)

lemma exchange_send_read_len:
  "crypto_send_cb_ep p n c (Some e) = Some (rc, c', Some e') \<Longrightarrow> ep_in_read_len e' = ep_in_read_len e"
  by (auto simp: crypto_send_cb_ep_def Let_def bind_eq_Some_conv split: if_splits)

lemma exchange_recv_release:
  assumes "ep_nothing_lent e" and "crypto_recv_rcd_cb_ep (Some e) = (rc, buf, n, Some e1)"
  shows "n = 0 \<Longrightarrow> ep_nothing_lent e1"
    and "crypto_release_rcd_cb_ep n (Some e1) = Some (rc', Some e2) \<Longrightarrow> ep_nothing_lent e2"
proof -
  let ?l = "unat (ep_read_level e)"
  from assms(2) have "n = 0 \<and> ep_in_read_len e1 = ep_in_read_len e \<or>
      \<not> ep_read_level e \<ge> 4 \<and> n = ep_in_len e ! ?l \<and> ep_in_read_len e1 = (ep_in_read_len e)[?l := n]"
    and level: "ep_read_level e1 = ep_read_level e"
    by (auto simp: crypto_recv_rcd_cb_ep_def Let_def split: if_splits)
  then have e1: "n = 0 \<and> ep_in_read_len e1 = ep_in_read_len e \<or>
      ?l < 4 \<and> \<not> ep_read_level e \<ge> 4 \<and> ep_in_read_len e1 = (ep_in_read_len e)[?l := n]"
    by (auto simp: word_le_nat_alt)
  then have others: "ep_in_read_len e1 ! k = 0" if "k < 4" "k \<noteq> ?l" for k
    using assms(1) that by (auto simp: ep_nothing_lent_def)
  have at: "ep_in_read_len e1 ! ?l = (if ?l < length (ep_in_read_len e1) then n else 0)" if "?l < 4"
    using e1 assms(1) that by (auto simp: ep_nothing_lent_def nth_update_cases)
  show "n = 0 \<Longrightarrow> ep_nothing_lent e1"
    using at others unfolding ep_nothing_lent_def by metis
  assume "crypto_release_rcd_cb_ep n (Some e1) = Some (rc', Some e2)"
  then have "(ep_read_level e \<ge> 4 \<or> n > ep_in_read_len e1 ! ?l) \<and> ep_in_read_len e2 = ep_in_read_len e1 \<or>
      ep_in_read_len e2 = (ep_in_read_len e1)[?l := 0]"
    by (auto simp: crypto_release_rcd_cb_ep_def Let_def bind_eq_Some_conv level split: if_splits)
  then show "ep_nothing_lent e2"
  proof
    assume "(ep_read_level e \<ge> 4 \<or> n > ep_in_read_len e1 ! ?l) \<and> ep_in_read_len e2 = ep_in_read_len e1"
    then show ?thesis
      using e1 at others assms(1) unfolding ep_nothing_lent_def by (metis order_less_irrefl)
  next
    assume "ep_in_read_len e2 = (ep_in_read_len e1)[?l := 0]"
    then show ?thesis
      using at others unfolding ep_nothing_lent_def by (metis nth_update_cases)
  qed
qed

lemma exchange_recv_all:
  assumes "ep_ok e" and "crypto_recv_rcd_cb_ep (Some e) = (rc, buf, n, Some e1)" and "n \<noteq> 0"
  shows "\<exists>l used. ep_released (Some e1) n = (l, used, [])"
proof -
  let ?l = "unat (ep_read_level e)"
  note ok = ep_okD [OF assms(1)]
  from assms(2,3) have e1: "e1 = e\<lparr>ep_recv_callbacks := ep_recv_callbacks e + 1,
      ep_in_read_len := (ep_in_read_len e)[?l := ep_in_len e ! ?l]\<rparr>"
    by (auto simp: crypto_recv_rcd_cb_ep_def Let_def split: if_splits)
  have "ep_ins ?l e1 = ep_ins ?l e" by (simp add: e1 ep_ins_def)
  moreover have "ep_in_read_len e1 ! ?l = ep_in_len e ! ?l" using ok(1,3) by (simp add: e1 ep_shape_def)
  moreover have "length (ep_ins ?l e) = unat (ep_in_len e ! ?l)" using ep_levelD(5) [OF assms(1) ok(3)] .
  ultimately show ?thesis by (simp add: ep_released_def e1 Let_def)
qed

lemma exchange_call_quiet:
  assumes "ep_ok e" and "ep_nothing_lent e"
    and "run_engine (observe ep_level ep_released quicz_openssl_tls_dispatch_ep) exchange_call (Some e, []) =
      Some (rc, w', Some e', log)"
  shows "ep_nothing_lent e' \<and> passed_over_at l log = []"
proof -
  from send_ep [OF assms(1), of "Some [1, 2]" 2 0] obtain rc1 c1 e1 where
      e1: "crypto_send_cb_ep (Some [1, 2]) 2 0 (Some e) = Some (rc1, c1, Some e1)" "ep_ok e1"
    by auto
  have lent1: "ep_nothing_lent e1"
    using assms(2) exchange_send_read_len [OF e1(1)] by (simp add: ep_nothing_lent_def)
  obtain rc2 buf n b where b: "crypto_recv_rcd_cb_ep (Some e1) = (rc2, buf, n, b)"
    by (cases "crypto_recv_rcd_cb_ep (Some e1)")
  then obtain e2 where e2: "b = Some e2" using recv_ep [OF e1(2)] by blast
  note recv = exchange_recv_release [OF lent1 b [unfolded e2]] and all = exchange_recv_all [OF e1(2) b [unfolded e2]]
  show ?thesis
  proof (cases "n = 0")
    case True
    with assms(3) recv(1) show ?thesis
      by (auto simp: exchange_call_def observe_def quicz_openssl_tls_dispatch_ep_def e1(1) b e2 split: if_splits)
  next
    case False
    with all obtain k used where "ep_released (Some e2) n = (k, used, [])" by blast
    with False assms(3) recv(2) show ?thesis
      by (auto simp: exchange_call_def observe_def quicz_openssl_tls_dispatch_ep_def e1(1) b e2 bind_eq_Some_conv
          split: if_splits)
  qed
qed

lemma exchange_gives_back: "gives_back (scripted_openssl exchange_call)"
  unfolding gives_back_def
proof (intro allI impI)
  fix w e w' e' log
  assume e: "ep_ok e" "ep_nothing_lent e"
    and "observed_handshake (scripted_openssl exchange_call) w e = Some (w', e', log)"
  then obtain rc e1 where
      1: "run_engine (observe ep_level ep_released quicz_openssl_tls_dispatch_ep) exchange_call (Some e, []) =
          Some (rc, w', Some e1, log)" "ep_in_read_len e' = ep_in_read_len e1"
    by (auto simp: observed_handshake_def scripted_openssl_def bind_eq_Some_conv split: if_splits)
  from exchange_call_quiet [OF e 1(1)] 1(2)
  show "ep_nothing_lent e' \<and> (\<forall>l < 4. passed_over_at l log = [])" by (simp add: ep_nothing_lent_def)
qed

lemma scripted_endpoint:
  "\<exists>e w' es. init_endpoint (scripted_openssl x) (clear_last pair_statics_zero) cl () = Some (1, e, w', es)"
proof -
  have "endpoint_parameters (clear_last pair_statics_zero) cl =
      (if cl then (client_transport_parameters, 21) else (server_transport_parameters, 31))"
    by (simp add: endpoint_parameters_def clear_last_def pair_statics_zero_def)
  moreover have "length client_transport_parameters = 21" "length server_transport_parameters = 31"
    by (simp_all add: client_transport_parameters_def server_transport_parameters_def)
  ultimately show ?thesis
    by (simp add: init_endpoint_def scripted_openssl_def configure_ctx_def Let_def ep_zero_def)
qed

lemma scripted_endpoints:
  "\<exists>c s w' es. new_endpoints (scripted_openssl x) (clear_last pair_statics_zero) () =
     Some (True, True, Some c, Some s, w', es)"
proof -
  obtain c es s es' where "init_endpoint (scripted_openssl x) (clear_last pair_statics_zero) True () = Some (1, c, (), es)"
      "init_endpoint (scripted_openssl x) (clear_last pair_statics_zero) False () = Some (1, s, (), es')"
    using scripted_endpoint [of x True] scripted_endpoint [of x False] by auto
  moreover have "calloc (scripted_openssl x) w = (True, w)" for w by (simp add: scripted_openssl_def)
  ultimately show ?thesis by (simp add: new_endpoints_def)
qed

theorem pair_transcript_complete_witness:
  "\<exists>c s lc ls r st' w3 es'. quicz_openssl_pair_transcript_run (scripted_openssl exchange_call) pair_statics_zero () =
       Some (r, st', w3, es') \<and>
     quicz_openssl_pair_transcript_copy_client_crypto 0 (Some (replicate 65536 0)) 65536 (Some 0) st' =
       Some (1, put_bytes (Some (replicate 65536 0)) (sent_at 0 lc), Some (word_of_nat (length (sent_at 0 lc)))) \<and>
     sent_at 0 lc = consumed_at 0 ls @ ep_ins 0 s @ ep_outs 0 c"
proof -
  obtain c0 s0 w' es where new: "new_endpoints (scripted_openssl exchange_call) (clear_last pair_statics_zero) () =
      Some (True, True, Some c0, Some s0, w', es)"
    using scripted_endpoints by blast
  from run_records [OF statics_ok_zero new] exchange_gives_back obtain w2 c s n lc ls where
      loop: "observed_loop (scripted_openssl exchange_call) 0 w' c0 s0 0 [] [] = Some (w2, c, s, n, lc, ls)"
        "nothing_passed lc ls c s"
    by blast
  have out: "(0 :: nat) < 4" "65536 \<le> unat (65536 :: size_t)" "writable (Some (replicate 65536 0)) 65536"
    by (simp_all add: writable_def)
  from pair_transcript_complete [OF statics_ok_zero new out, of 0] obtain w2' c' s' n' lc' ls' r st' w3 es' where
      t: "observed_loop (scripted_openssl exchange_call) 0 w' c0 s0 0 [] [] = Some (w2', c', s', n', lc', ls')"
        "quicz_openssl_pair_transcript_run (scripted_openssl exchange_call) pair_statics_zero () = Some (r, st', w3, es')"
        "quicz_openssl_pair_transcript_copy_client_crypto (word_of_nat 0) (Some (replicate 65536 0)) 65536 (Some 0) st' =
          Some (1, put_bytes (Some (replicate 65536 0)) (sent_at 0 lc'), Some (word_of_nat (length (sent_at 0 lc'))))"
        "passed_over_at 0 ls' = [] \<longrightarrow> sent_at 0 lc' = consumed_at 0 ls' @ ep_ins 0 s' @ ep_outs 0 c'"
    by blast
  have "ls' = ls" using loop(1) t(1) by simp
  then have "passed_over_at 0 ls' = []" using loop(2) by (simp add: nothing_passed_def)
  with t(4) have "sent_at 0 lc' = consumed_at 0 ls' @ ep_ins 0 s' @ ep_outs 0 c'" by blast
  moreover have "(word_of_nat 0 :: cint) = 0" by simp
  ultimately show ?thesis using t(2) t(3) [unfolded \<open>word_of_nat 0 = 0\<close>] by blast
qed

text \<open>
  \<open>pump_crypto\<close> loses, duplicates and reorders nothing, also when it stops half way: at every
  level the bytes pending at the receiver followed by those left at the sender are what they were; if it reports
  success all of the sender's bytes have moved, and if it reports failure there is a level whose bytes do not fit.
\<close>

theorem pump_crypto_conserves:
  assumes "ep_ok a" and "ep_ok b"
  shows "\<exists>rc a' b'. pump_crypto a b = Some (rc, a', b') \<and> ep_ok a' \<and> ep_ok b' \<and>
    (\<forall>l < 4. ep_ins l b' @ ep_outs l a' = ep_ins l b @ ep_outs l a) \<and>
    (rc \<noteq> 0 \<longrightarrow> (\<forall>l < 4. ep_outs l a' = [])) \<and>
    (rc = 0 \<longrightarrow> (\<exists>l < 4. 65536 < length (ep_ins l b) + length (ep_outs l a)))"
proof -
  from pump_crypto_ok [OF assms] obtain rc a' b' where
      p: "pump_crypto a b = Some (rc, a', b')" "ep_ok a'" "ep_ok b'"
        "\<forall>l < 4. ep_ins l b' @ ep_outs l a' = ep_ins l b @ ep_outs l a"
        "if rc = 0 then \<exists>l < 4. 65536 < length (ep_ins l b') + length (ep_outs l a') else \<forall>l < 4. ep_outs l a' = []"
    by blast
  have "length (ep_ins l b') + length (ep_outs l a') = length (ep_ins l b) + length (ep_outs l a)" if "l < 4" for l
    using p(4) that by (metis length_append)
  with p show ?thesis by (intro exI [of _ rc] exI [of _ a'] exI [of _ b']) (auto split: if_splits)
qed

theorem pump_crypto_conserves_witness:
  "\<exists>rc a' b'. pump_crypto ep_zero ep_zero = Some (rc, a', b') \<and> ep_ok a' \<and> ep_ok b'"
  using pump_crypto_conserves [OF ep_ok_zero ep_ok_zero] by blast

lemma copy_secret_recorded:
  assumes "ep_ok e" and "secret_table secrets available" and "secret_recorded e secrets available (l, d)"
    and "l < 4" and "d < 2" and "32 \<le> unat out_len" and "writable out out_len"
  shows "copy_secret secrets available (word_of_nat l) (word_of_nat d) out out_len (Some x) =
    (if ep_secret_available e ! l ! d \<noteq> 0 then Some (1, put_bytes out (ep_secrets e ! l ! d), Some 32)
     else Some (0, out, Some 0))"
proof -
  have u: "unat (word_of_nat l :: cint) = l" "unat (word_of_nat d :: cint) = d"
    using assms(4,5) by (simp_all add: unat_of_nat)
  have d: "\<not> sint (word_of_nat d :: cint) < 0" "\<not> sint (word_of_nat d :: cint) \<ge> 2"
    using assms(5) by (auto simp: less_2_cases_iff)
  have out: "out \<noteq> None" "writable out 32"
    using assms(6,7) writable_mono [OF assms(7), of 32] by (auto simp: writable_def)
  have "length (secrets ! l ! d) = 32" using assms(2,4,5) by (simp add: secret_table_def)
  then have "memcpy_out out (secrets ! l ! d) 32 = Some (put_bytes out (secrets ! l ! d))" using out(2) by simp
  with assms(3-6) u d out(1) show ?thesis
    by (auto simp: copy_secret_def secret_recorded_def word_less_nat_alt)
qed

text \<open>
  The secrets of the transcript: after a run that set up both endpoints, \<open>copy_client_secret\<close>
  returns, for a level and a direction, the 32 bytes that the client's OpenSSL last yielded for it, or refuses and
  reports length zero if it yielded none (also when an earlier run had left one); likewise for the server.
\<close>

theorem pair_secrets_recorded:
  assumes "statics_ok st" and "new_endpoints L (clear_last st) w = Some (a, True, Some c0, Some s0, w1, es)"
    and "l < 4" and "d < 2" and "32 \<le> unat out_len" and "writable out out_len"
  shows "\<exists>w2 c s n r st' w3 es'. run_loop L 0 w1 c0 s0 0 = Some (w2, c, s, n) \<and>
    quicz_openssl_pair_transcript_run L st w = Some (r, st', w3, es') \<and>
    quicz_openssl_pair_transcript_copy_client_secret (word_of_nat l) (word_of_nat d) out out_len (Some x) st' =
      (if ep_secret_available c ! l ! d \<noteq> 0 then Some (1, put_bytes out (ep_secrets c ! l ! d), Some 32)
       else Some (0, out, Some 0)) \<and>
    quicz_openssl_pair_transcript_copy_server_secret (word_of_nat l) (word_of_nat d) out out_len (Some x) st' =
      (if ep_secret_available s ! l ! d \<noteq> 0 then Some (1, put_bytes out (ep_secrets s ! l ! d), Some 32)
       else Some (0, out, Some 0))"
proof -
  from run_records [OF assms(1,2)] assms(3,4) obtain w2 c s n r st' w3 es' where
      r: "run_loop L 0 w1 c0 s0 0 = Some (w2, c, s, n)" "quicz_openssl_pair_transcript_run L st w = Some (r, st', w3, es')"
        "ep_live c" "ep_live s" "statics_ok st'" "secrets_recorded c s (l, d) st'"
    by blast
  note table = statics_ok_secret_table [OF r(5)]
  show ?thesis
    using r copy_secret_recorded [OF _ table(1) _ assms(3-6), of c x]
      copy_secret_recorded [OF _ table(2) _ assms(3-6), of s x]
    by (simp add: quicz_openssl_pair_transcript_copy_client_secret_def ep_live_def secrets_recorded_def
        quicz_openssl_pair_transcript_copy_server_secret_def)
qed

theorem pair_secrets_recorded_witness:
  "\<exists>w1 w2 c0 s0 c s n r st' w3 es'.
     run_loop (scripted_openssl exchange_call) 0 w1 c0 s0 0 = Some (w2, c, s, n) \<and>
     quicz_openssl_pair_transcript_run (scripted_openssl exchange_call) pair_statics_zero () = Some (r, st', w3, es') \<and>
     quicz_openssl_pair_transcript_copy_client_secret 2 1 (Some (replicate 32 0)) 32 (Some 0) st' =
      (if ep_secret_available c ! 2 ! 1 \<noteq> 0 then Some (1, put_bytes (Some (replicate 32 0)) (ep_secrets c ! 2 ! 1), Some 32)
       else Some (0, Some (replicate 32 0), Some 0))"
proof -
  obtain c s w' es where new: "new_endpoints (scripted_openssl exchange_call) (clear_last pair_statics_zero) () =
      Some (True, True, Some c, Some s, w', es)"
    using scripted_endpoints by blast
  have "writable (Some (replicate 32 0)) 32" by (simp add: writable_def)
  with pair_secrets_recorded [OF statics_ok_zero new, of 2 1 32 "Some (replicate 32 0)" 0] show ?thesis by fastforce
qed

text \<open>
  The two functions that copy the peer's transport parameters do not check the caller's buffer for
  \<^verbatim>\<open>NULL\<close> before they write to it, where the functions that copy CRYPTO bytes and secrets refuse: with a null
  buffer, a sufficient length and parameters on record, the former write through the null pointer.
\<close>

theorem copy_peer_params_null_unchecked:
  assumes "last_client_peer_transport_parameters_len st \<noteq> 0"
    and "unat (last_client_peer_transport_parameters_len st) \<le> unat out_len"
    and "level_in_range lvl" and "unat (last_client_crypto_len st ! unat lvl) \<le> unat out_len"
    and "last_client_crypto_len st ! unat lvl \<noteq> 0"
  shows "quicz_openssl_pair_transcript_copy_client_peer_transport_parameters None out_len (Some x) st = None \<and>
    quicz_openssl_pair_transcript_copy_client_crypto lvl None out_len (Some x) st = Some (0, None, Some 0) \<and>
    quicz_openssl_pair_transcript_copy_client_secret lvl dir None out_len (Some x) st = Some (0, None, Some 0)"
proof -
  have "\<not> writable None (last_client_peer_transport_parameters_len st)" using assms(1) by (simp add: writable_def)
  from memcpy_out_not_writable [OF this] show ?thesis
    using assms
    by (simp add: quicz_openssl_pair_transcript_copy_client_peer_transport_parameters_def word_less_nat_alt
        quicz_openssl_pair_transcript_copy_client_crypto_def copy_crypto_level_def Let_def
        quicz_openssl_pair_transcript_copy_client_secret_def copy_secret_def)
qed

theorem copy_peer_params_null_unchecked_witness:
  "quicz_openssl_pair_transcript_copy_client_peer_transport_parameters None 4 (Some 0)
     (pair_statics_zero\<lparr>last_client_peer_transport_parameters_len := 3, last_client_crypto_len := [2, 0, 0, 0]\<rparr>) = None"
  using copy_peer_params_null_unchecked [of "pair_statics_zero\<lparr>last_client_peer_transport_parameters_len := 3,
      last_client_crypto_len := [2, 0, 0, 0]\<rparr>" 4 0 0 0]
  by (simp add: level_in_range_unat)

lemma init_endpoint_local:
  assumes "init_endpoint L st cl w = Some (ok, e, w', es)" and "endpoint_parameters st cl = (p, n)"
    and "unat n \<le> 512" and "unat n \<le> length p"
  shows "content (ep_local_transport_parameters e) (ep_local_transport_parameters_len e) = take (unat n) p"
proof -
  obtain local where local: "memcpy (ep_local_transport_parameters ep_zero) 0 (Some p) n = Some local"
      "content local n = take (unat n) p"
    using memcpy_append [of 512 "ep_local_transport_parameters ep_zero" 0 "Some p" n] assms(3,4)
    by (auto simp: ep_zero_def buf_ok_def)
  have "ep_local_transport_parameters e = local \<and> ep_local_transport_parameters_len e = n"
    using assms(1,3)
    by (auto simp: init_endpoint_def assms(2) Let_def local(1) word_less_nat_alt
        split: prod.splits if_splits option.splits)
  with local(2) show ?thesis by simp
qed

text \<open>
  Configured transport parameters are used as given: after a successful configuration (both at most
  512 bytes, non-null where non-empty) the client endpoint that the next construction initialises holds exactly
  the client's bytes, and the server endpoint the server's.
\<close>

theorem configured_parameters_used:
  assumes "readable cp cn" and "readable sp sn" and "unat cn \<le> 512" and "unat sn \<le> 512"
  shows "\<exists>st'. quicz_openssl_pair_transcript_configure_transport_parameters cp cn sp sn st = Some (1, st') \<and>
    (\<forall>L w ok e w' es. init_endpoint L st' True w = Some (ok, e, w', es) \<longrightarrow>
       content (ep_local_transport_parameters e) (ep_local_transport_parameters_len e) = bytes_at cp cn) \<and>
    (\<forall>L w ok e w' es. init_endpoint L st' False w = Some (ok, e, w', es) \<longrightarrow>
       content (ep_local_transport_parameters e) (ep_local_transport_parameters_len e) = bytes_at sp sn)"
proof -
  have fill: "\<exists>x. (if n > 0 then memcpy (replicate 512 0) 0 p n else Some (replicate 512 0)) = Some x \<and>
      length x = 512 \<and> take (unat n) x = bytes_at p n" if "readable p n" "unat n \<le> 512" for p n
    using memcpy_append [of 512 "replicate 512 0" 0 p n] that
    by (cases "n > 0") (auto simp: buf_ok_def content_def word_gt_0)
  have null: "\<not> (n > 0 \<and> p = None)" if "readable p n" for p n using that by (cases p) auto
  from fill [OF assms(1,3)] obtain x where x: "(if cn > 0 then memcpy (replicate 512 0) 0 cp cn else Some (replicate 512 0)) = Some x"
      "length x = 512" "take (unat cn) x = bytes_at cp cn" by blast
  from fill [OF assms(2,4)] obtain y where y: "(if sn > 0 then memcpy (replicate 512 0) 0 sp sn else Some (replicate 512 0)) = Some y"
      "length y = 512" "take (unat sn) y = bytes_at sp sn" by blast
  define st' where "st' = st\<lparr>configured_client_transport_parameters := x, configured_server_transport_parameters := y,
    configured_client_transport_parameters_len := cn, configured_server_transport_parameters_len := sn,
    transport_parameters_configured := 1\<rparr>"
  have "quicz_openssl_pair_transcript_configure_transport_parameters cp cn sp sn st = Some (1, st')"
    using x(1) y(1) null [OF assms(1)] null [OF assms(2)] assms(3,4)
    by (auto simp: quicz_openssl_pair_transcript_configure_transport_parameters_def st'_def word_less_nat_alt)
  moreover have "endpoint_parameters st' True = (x, cn)" "endpoint_parameters st' False = (y, sn)"
    by (simp_all add: endpoint_parameters_def st'_def)
  then have "\<forall>L w ok e w' es. init_endpoint L st' True w = Some (ok, e, w', es) \<longrightarrow>
       content (ep_local_transport_parameters e) (ep_local_transport_parameters_len e) = bytes_at cp cn"
    "\<forall>L w ok e w' es. init_endpoint L st' False w = Some (ok, e, w', es) \<longrightarrow>
       content (ep_local_transport_parameters e) (ep_local_transport_parameters_len e) = bytes_at sp sn"
    using x(2,3) y(2,3) assms(3,4) by (auto dest!: init_endpoint_local)
  ultimately show ?thesis by blast
qed

theorem configured_parameters_used_witness:
  "\<exists>st'. quicz_openssl_pair_transcript_configure_transport_parameters (Some [1, 2]) 2 None 0 pair_statics_zero =
     Some (1, st')"
  using configured_parameters_used [of "Some [1, 2]" 2 None 0 pair_statics_zero] by auto

end
