(* ===== verification/Pair_Context.thy ===== *)
theory Pair_Context
  imports Pair_Transcript_Proofs
begin

text \<open>
  Contexts that a caller drives step by step: the invariant, sequences of calls, and their properties.
\<close>

section \<open>Contexts\<close>

text \<open>A context that the constructor returned: both endpoints are there, with their OpenSSL objects.\<close>

definition pc_ok :: "pair_context option \<Rightarrow> bool" where
  "pc_ok c \<longleftrightarrow> (\<exists>a b. c = Some \<lparr>pc_client = Some a, pc_server = Some b\<rparr> \<and> ep_live a \<and> ep_live b)"

lemma context_endpoint_live:
  assumes "pc_ok c"
  obtains e where "context_endpoint c cl = Some e" "ep_live e"
  using assms by (cases "cl = 0") (auto simp: pc_ok_def context_endpoint_def)

definition pc_handles :: "pair_context option \<Rightarrow> (nat option \<times> nat option) option \<times> (nat option \<times> nat option) option" where
  "pc_handles c = (map_option ep_handles (context_endpoint c 1), map_option ep_handles (context_endpoint c 0))"

lemma context_store_ok:
  assumes "pc_ok c" and "context_endpoint c cl = Some e" and "ep_live e'" and "ep_handles e' = ep_handles e"
  shows "pc_ok (context_store c cl e')" "pc_handles (context_store c cl e') = pc_handles c"
    "context_endpoint (context_store c cl e') cl' = (if (cl' = 0) = (cl = 0) then Some e' else context_endpoint c cl')"
  using assms by (cases "cl = 0"; auto simp: pc_ok_def context_store_def context_endpoint_def pc_handles_def)+

datatype pair_op =
    Pair_drive cint
  | Pair_provide_crypto cint cint ptr size_t
  | Pair_copy_pending_crypto cint cint ptr size_t "size_t option"
  | Pair_copy_secret cint cint cint ptr size_t "size_t option"

fun pair_step :: "'w openssl \<Rightarrow> pair_op \<Rightarrow> pair_context option \<times> 'w \<Rightarrow> (pair_context option \<times> 'w) option" where
  "pair_step L (Pair_drive cl) (c, w) =
     map_option (\<lambda>(rc, c', w'). (c', w')) (quicz_openssl_pair_transcript_context_drive L cl c w)"
| "pair_step L (Pair_provide_crypto cl lvl p n) (c, w) =
     map_option (\<lambda>(rc, c'). (c', w)) (quicz_openssl_pair_transcript_context_provide_crypto cl lvl p n c)"
| "pair_step L (Pair_copy_pending_crypto cl lvl out n wl) (c, w) =
     map_option (\<lambda>(r, c'). (c', w)) (quicz_openssl_pair_transcript_context_copy_pending_crypto cl lvl out n wl c)"
| "pair_step L (Pair_copy_secret cl lvl dir out n wl) (c, w) =
     map_option (\<lambda>r. (c, w)) (quicz_openssl_pair_transcript_context_copy_secret cl lvl dir out n wl c)"

definition pair_steps :: "'w openssl \<Rightarrow> pair_op list \<Rightarrow> pair_context option \<times> 'w \<Rightarrow> (pair_context option \<times> 'w) option" where
  "pair_steps L = for_each (pair_step L)"

fun pair_call_ok :: "pair_op \<Rightarrow> bool" where
  "pair_call_ok (Pair_drive cl) = True"
| "pair_call_ok (Pair_provide_crypto cl lvl p n) = (p = None \<or> readable p n)"
| "pair_call_ok (Pair_copy_pending_crypto cl lvl out n wl) = (out = None \<or> writable out n)"
| "pair_call_ok (Pair_copy_secret cl lvl dir out n wl) = (out = None \<or> writable out n)"

lemma provide_crypto_fits:
  assumes "pc_ok c" and "context_endpoint c cl = Some e" and "level_in_range lvl" and "readable p n"
    and "length (ep_ins (unat lvl) e) + unat n \<le> 65536"
  shows "\<exists>e'. quicz_openssl_pair_transcript_context_provide_crypto cl lvl p n c =
      Some (1, context_store c cl e') \<and> ep_live e' \<and> ep_handles e' = ep_handles e \<and>
    (\<forall>l < 4. ep_ins l e' = (if l = unat lvl then ep_ins l e @ bytes_at p n else ep_ins l e))"
proof -
  let ?l = "unat lvl"
  from assms(1,2) have e: "ep_ok e" "ep_ssl e \<noteq> None"
    by (cases "cl = 0"; auto simp: pc_ok_def context_endpoint_def ep_live_def)+
  have l: "?l < 4" using assms(3) by (simp add: level_in_range_unat)
  note lev = ep_levelD [OF e(1) l]
  have fits: "unat (ep_in_len e ! ?l) + unat n \<le> 65536" using assms(5) lev(5) by simp
  from memcpy_append [OF lev(1) assms(4) fits] obtain dst where
      dst: "memcpy (ep_in e ! ?l) (ep_in_len e ! ?l) p n = Some dst" "buf_ok 65536 dst (ep_in_len e ! ?l + n)"
        "content dst (ep_in_len e ! ?l + n) = content (ep_in e ! ?l) (ep_in_len e ! ?l) @ bytes_at p n"
    by auto
  have copy: "(if n > 0 then memcpy (ep_in e ! ?l) (ep_in_len e ! ?l) p n else Some (ep_in e ! ?l)) = Some dst"
  proof (cases "n > 0")
    case False
    then have "n = 0" by (simp add: word_gt_0)
    with dst(1) show ?thesis by (simp add: memcpy_def read_bytes_def store_bytes_def split: if_splits)
  qed (simp add: dst(1))
  let ?e = "e\<lparr>ep_in := (ep_in e)[?l := dst], ep_in_len := (ep_in_len e)[?l := ep_in_len e ! ?l + n]\<rparr>"
  have "\<not> n > 65536 - ep_in_len e ! ?l"
    using fits guard_exceeds [of "ep_in_len e ! ?l" 65536 n] lev(1) by (simp add: buf_ok_def)
  moreover have "\<not> (n > 0 \<and> p = None)" using assms(4) by (cases p) auto
  ultimately have "quicz_openssl_pair_transcript_context_provide_crypto cl lvl p n c = Some (1, context_store c cl ?e)"
    using assms(2,3) copy by (simp add: quicz_openssl_pair_transcript_context_provide_crypto_def Let_def)
  moreover have "unat (ep_in_read_len e ! ?l) \<le> unat (ep_in_len e ! ?l + n)"
    using lev(2) fits by (simp add: unat_add_within [of _ _ 65536])
  then have "ep_live ?e"
    using e l dst(2) by (auto simp: ep_live_def ep_ok_def ep_shape_def ep_level_ok_def nth_list_update)
  moreover have "ep_ins k ?e = (if k = ?l then ep_ins k e @ bytes_at p n else ep_ins k e)" if "k < 4" for k
    using dst(3) l ep_okD(1) [OF e(1)] by (simp add: ep_ins_def ep_shape_def)
  ultimately show ?thesis by (intro exI [of _ ?e]) (simp add: ep_handles_def)
qed

lemma provide_crypto_refused:
  assumes "context_endpoint c cl = Some e" and "ep_ok e"
    and "\<not> level_in_range lvl \<or> n > 0 \<and> p = None \<or> 65536 < length (ep_ins (unat lvl) e) + unat n"
  shows "quicz_openssl_pair_transcript_context_provide_crypto cl lvl p n c = Some (0, c)"
proof (cases "level_in_range lvl \<and> \<not> (n > 0 \<and> p = None)")
  case True
  then have l: "unat lvl < 4" by (simp add: level_in_range_unat)
  have "n > 65536 - ep_in_len e ! unat lvl"
    using assms(3) True guard_exceeds [of "ep_in_len e ! unat lvl" 65536 n] ep_levelD(1,5) [OF assms(2) l]
    by (auto simp: buf_ok_def)
  then show ?thesis using assms(1) by (simp add: quicz_openssl_pair_transcript_context_provide_crypto_def Let_def)
qed (use assms(1) in \<open>auto simp: quicz_openssl_pair_transcript_context_provide_crypto_def Let_def\<close>)

text \<open>Providing CRYPTO bytes is a bounded queue for each side and level.\<close>

definition pair_level :: "cint \<times> cint \<Rightarrow> bool" where
  "pair_level x \<longleftrightarrow> (fst x = 0 \<or> fst x = 1) \<and> level_in_range (snd x)"

definition pair_pending :: "cint \<times> cint \<Rightarrow> pair_context option \<Rightarrow> byte list" where
  "pair_pending x c = (case context_endpoint c (fst x) of None \<Rightarrow> [] | Some e \<Rightarrow> ep_ins (unat (snd x)) e)"

definition provide_chunk :: "cint \<times> cint \<Rightarrow> ptr \<Rightarrow> size_t \<Rightarrow> pair_context option \<Rightarrow> (bool \<times> pair_context option) option" where
  "provide_chunk x p n c = map_option (\<lambda>(rc, c'). (rc \<noteq> 0, c'))
     (quicz_openssl_pair_transcript_context_provide_crypto (fst x) (snd x) p n c)"

interpretation pair_inq: byte_queue pc_ok pair_level pair_pending 65536 provide_chunk
proof (unfold_locales, goal_cases)
  case (1 c x p n)
  obtain e where e: "context_endpoint c (fst x) = Some e" using context_endpoint_live [OF 1(1)] by metis
  have fits: "length (ep_ins (unat (snd x)) e) + unat n \<le> 65536" using 1(4) e by (simp add: pair_pending_def)
  have r: "level_in_range (snd x)" using 1(2) by (simp add: pair_level_def)
  from provide_crypto_fits [OF 1(1) e r 1(3) fits] obtain e' where
      e': "quicz_openssl_pair_transcript_context_provide_crypto (fst x) (snd x) p n c = Some (1, context_store c (fst x) e')"
        "ep_live e'" "ep_handles e' = ep_handles e"
        "\<forall>l < 4. ep_ins l e' = (if l = unat (snd x) then ep_ins l e @ bytes_at p n else ep_ins l e)"
    by blast
  note st = context_store_ok [OF 1(1) e e'(2,3)]
  have "pair_pending y (context_store c (fst x) e') =
      (if y = x then pair_pending x c @ bytes_at p n else pair_pending y c)" if "pair_level y" for y
    using that 1(2) e e'(4) st(3) [of "fst y"] word_unat_eq_iff [of "snd y" "snd x"]
    by (cases y; cases x) (auto simp: pair_pending_def pair_level_def level_in_range_unat)
  with e'(1) st(1) show ?case by (simp add: provide_chunk_def)
next
  case (2 c x n p)
  obtain e where e: "context_endpoint c (fst x) = Some e" "ep_live e" using context_endpoint_live [OF 2(1)] by metis
  with 2 provide_crypto_refused [OF e(1), of "snd x" n p] show ?case
    by (simp add: pair_pending_def provide_chunk_def ep_live_def)
qed

lemma copy_pending_delivers_ep:
  assumes "pc_ok c" and "context_endpoint c cl = Some e" and "level_in_range lvl"
    and "length (ep_outs (unat lvl) e) \<le> unat out_len" and "writable out out_len"
  shows "\<exists>e'. quicz_openssl_pair_transcript_context_copy_pending_crypto cl lvl out out_len (Some x) c =
      Some ((1, put_bytes out (ep_outs (unat lvl) e), Some (word_of_nat (length (ep_outs (unat lvl) e)))),
            context_store c cl e') \<and> ep_live e' \<and> ep_handles e' = ep_handles e \<and>
    (\<forall>l < 4. ep_outs l e' = (if l = unat lvl then [] else ep_outs l e))"
proof -
  let ?l = "unat lvl"
  from assms(1,2) have e: "ep_ok e" "ep_ssl e \<noteq> None"
    by (cases "cl = 0"; auto simp: pc_ok_def context_endpoint_def ep_live_def)+
  have l: "?l < 4" using assms(3) by (simp add: level_in_range_unat)
  note lev = ep_levelD [OF e(1) l]
  have fits: "unat (ep_out_len e ! ?l) \<le> unat out_len" using assms(4) lev(6) by simp
  let ?e = "e\<lparr>ep_out_len := (ep_out_len e)[?l := 0]\<rparr>"
  have "\<not> (ep_out_len e ! ?l > 0 \<and> out = None)"
    using fits assms(5) by (auto simp: writable_def word_less_nat_alt)
  with memcpy_out_content [OF lev(3) assms(5) fits] fits assms(2,3) lev(6)
  have "quicz_openssl_pair_transcript_context_copy_pending_crypto cl lvl out out_len (Some x) c =
      Some ((1, put_bytes out (ep_outs ?l e), Some (word_of_nat (length (ep_outs ?l e)))), context_store c cl ?e)"
    by (simp add: quicz_openssl_pair_transcript_context_copy_pending_crypto_def Let_def word_less_nat_alt)
      (simp add: ep_outs_def)
  moreover have "ep_live ?e"
    using e l by (auto simp: ep_live_def ep_ok_def ep_shape_def ep_level_ok_def nth_list_update buf_ok_def)
  moreover have "ep_outs k ?e = (if k = ?l then [] else ep_outs k e)" if "k < 4" for k
    using l ep_okD(1) [OF e(1)] by (simp add: ep_outs_def ep_shape_def)
  ultimately show ?thesis by (intro exI [of _ ?e]) (simp add: ep_handles_def)
qed

lemma copy_pending_total_ep:
  assumes "pc_ok c" and "out = None \<or> writable out n"
  shows "\<exists>r c'. quicz_openssl_pair_transcript_context_copy_pending_crypto cl lvl out n wl c = Some (r, c') \<and>
    pc_ok c' \<and> pc_handles c' = pc_handles c"
proof -
  obtain e where e: "context_endpoint c cl = Some e" "ep_live e" using context_endpoint_live [OF assms(1)] by metis
  show ?thesis
  proof (cases "wl = None \<or> \<not> level_in_range lvl \<or> ep_out_len e ! unat lvl > n \<or> ep_out_len e ! unat lvl > 0 \<and> out = None")
    case True
    then show ?thesis
      using assms(1) e(1)
      by (auto simp: quicz_openssl_pair_transcript_context_copy_pending_crypto_def Let_def split: option.splits)
  next
    case False
    then obtain x where x: "wl = Some x" "level_in_range lvl" by auto
    have l: "unat lvl < 4" using x(2) by (simp add: level_in_range_unat)
    have ok: "ep_ok e" using e(2) by (simp add: ep_live_def)
    have len: "length (ep_outs (unat lvl) e) = unat (ep_out_len e ! unat lvl)" using ep_levelD(6) [OF ok l] .
    have fits: "length (ep_outs (unat lvl) e) \<le> unat n"
      using False len by (auto simp: word_less_nat_alt)
    show ?thesis
    proof (cases "out = None")
      case none: True
      with False have "ep_out_len e ! unat lvl = 0" by (simp add: word_gt_0)
      then have "writable out (ep_out_len e ! unat lvl)" "length (ep_outs (unat lvl) e) \<le> unat (ep_out_len e ! unat lvl)"
        using len by (simp_all add: writable_def)
      from copy_pending_delivers_ep [OF assms(1) e(1) x(2) this(2,1), of x] obtain e' where
          e': "quicz_openssl_pair_transcript_context_copy_pending_crypto cl lvl out (ep_out_len e ! unat lvl) (Some x) c =
            Some ((1, put_bytes out (ep_outs (unat lvl) e), Some (word_of_nat (length (ep_outs (unat lvl) e)))),
              context_store c cl e')" "ep_live e'" "ep_handles e' = ep_handles e" by blast
      have "quicz_openssl_pair_transcript_context_copy_pending_crypto cl lvl out n (Some x) c =
          quicz_openssl_pair_transcript_context_copy_pending_crypto cl lvl out (ep_out_len e ! unat lvl) (Some x) c"
        using False e(1) \<open>ep_out_len e ! unat lvl = 0\<close>
        by (simp add: quicz_openssl_pair_transcript_context_copy_pending_crypto_def Let_def)
      with e' context_store_ok [OF assms(1) e(1) e'(2,3)] x(1) show ?thesis by auto
    next
      case some: False
      with assms(2) have "writable out n" by simp
      from copy_pending_delivers_ep [OF assms(1) e(1) x(2) fits this, of x] obtain e' where
          e': "quicz_openssl_pair_transcript_context_copy_pending_crypto cl lvl out n (Some x) c =
            Some ((1, put_bytes out (ep_outs (unat lvl) e), Some (word_of_nat (length (ep_outs (unat lvl) e)))),
              context_store c cl e')" "ep_live e'" "ep_handles e' = ep_handles e" by blast
      with context_store_ok [OF assms(1) e(1) e'(2,3)] x(1) show ?thesis by auto
    qed
  qed
qed

lemma copy_secret_total:
  assumes "secret_table secrets available" and "out = None \<or> writable out n"
  shows "copy_secret secrets available lvl dir out n wl \<noteq> None"
proof (cases "wl = None \<or> \<not> level_in_range lvl \<or> sint dir < 0 \<or> sint dir \<ge> 2 \<or>
    available ! unat lvl ! unat dir = 0 \<or> n < 32 \<or> out = None")
  case True
  then show ?thesis by (auto simp: copy_secret_def)
next
  case False
  have l: "unat lvl < 4" using False by (simp add: level_in_range_unat)
  have "sint dir = 0 \<or> sint dir = 1" using False by linarith
  then have "sint dir = sint (0 :: cint) \<or> sint dir = sint (1 :: cint)" by simp
  then have "dir = 0 \<or> dir = 1" by (blast intro: signed_word_eqI)
  then have "length (secrets ! unat lvl ! unat dir) = 32"
    using assms(1) l by (auto simp: secret_table_def)
  moreover have "writable out 32" using False assms(2) writable_mono [of out n 32] by (auto simp: word_less_nat_alt)
  ultimately show ?thesis using False by (simp add: copy_secret_def)
qed

lemma pair_step_ok:
  assumes "pc_ok c" and "pair_call_ok x"
  shows "\<exists>c' w'. pair_step L x (c, w) = Some (c', w') \<and> pc_ok c' \<and> pc_handles c' = pc_handles c"
proof (cases x)
  case (Pair_drive cl)
  obtain e where e: "context_endpoint c cl = Some e" "ep_live e" using context_endpoint_live [OF assms(1)] by metis
  then obtain w' e' where e': "drive_handshake L w e = Some (w', e')" "ep_ok e'" "ep_sends e e'"
    using drive_handshake_ok [of e L w] by (auto simp: ep_live_def)
  then have "ep_live e'" "ep_handles e' = ep_handles e" using e(2) by (auto simp: ep_live_def ep_handles_def ep_sends_def)
  from context_store_ok [OF assms(1) e(1) this] Pair_drive e(1) e'(1) show ?thesis
    by (simp add: quicz_openssl_pair_transcript_context_drive_def)
next
  case (Pair_provide_crypto cl lvl p n)
  obtain e where e: "context_endpoint c cl = Some e" "ep_live e" using context_endpoint_live [OF assms(1)] by metis
  show ?thesis
  proof (cases "\<not> level_in_range lvl \<or> n > 0 \<and> p = None \<or> 65536 < length (ep_ins (unat lvl) e) + unat n")
    case True
    with provide_crypto_refused [OF e(1)] e(2) Pair_provide_crypto assms(1) show ?thesis by (simp add: ep_live_def)
  next
    case False
    then have "level_in_range lvl" "readable p n" "length (ep_ins (unat lvl) e) + unat n \<le> 65536"
      using assms(2) Pair_provide_crypto by (auto simp: word_gt_0)
    from provide_crypto_fits [OF assms(1) e(1) this] obtain e' where
        "quicz_openssl_pair_transcript_context_provide_crypto cl lvl p n c = Some (1, context_store c cl e')"
        "ep_live e'" "ep_handles e' = ep_handles e"
      by blast
    with context_store_ok [OF assms(1) e(1) this(2,3)] Pair_provide_crypto show ?thesis by simp
  qed
next
  case (Pair_copy_pending_crypto cl lvl out n wl)
  with copy_pending_total_ep [OF assms(1), of out n cl lvl wl] assms(2) show ?thesis by auto
next
  case (Pair_copy_secret cl lvl dir out n wl)
  obtain e where e: "context_endpoint c cl = Some e" "ep_live e" using context_endpoint_live [OF assms(1)] by metis
  then have ok: "ep_ok e" by (simp add: ep_live_def)
  have "secret_table (ep_secrets e) (ep_secret_available e)"
    using ep_okD(1,2) [OF ok] by (auto simp: secret_table_def ep_shape_def ep_level_ok_def)
  with copy_secret_total [of _ _ out n lvl dir wl] Pair_copy_secret assms e(1) show ?thesis
    by (auto simp: quicz_openssl_pair_transcript_context_copy_secret_def)
qed

lemma pair_steps_ok:
  assumes "pc_ok c" and "\<forall>x \<in> set xs. pair_call_ok x"
  shows "\<exists>c' w'. pair_steps L xs (c, w) = Some (c', w') \<and> pc_ok c' \<and> pc_handles c' = pc_handles c"
  using assms
proof (induction xs arbitrary: c w)
  case Nil
  then show ?case by (simp add: pair_steps_def)
next
  case (Cons x xs)
  from pair_step_ok [of c x L w] Cons.prems obtain c1 w1 where
      1: "pair_step L x (c, w) = Some (c1, w1)" "pc_ok c1" "pc_handles c1 = pc_handles c" by auto
  from Cons.IH [OF 1(2), of w1] Cons.prems(2) 1 show ?case by (auto simp: pair_steps_def)
qed

lemma context_new_cases:
  assumes "statics_ok st"
  shows "\<exists>c w' es. quicz_openssl_pair_transcript_context_new L st w = Some (c, w', es) \<and>
    (c = None \<and> balance es [] = Some [] \<or>
     (\<exists>a b. pc_ok c \<and> pc_handles c = (Some (ep_handles a), Some (ep_handles b)) \<and>
       balance (es @ release_events True (Some a) @ release_events False (Some b) @ [Release Context_mem]) [] = Some []))"
proof -
  obtain got w1 where 1: "calloc L w = (got, w1)" by (cases "calloc L w")
  from new_endpoints_ok [OF assms, of L w1 "[Context_mem]"] obtain al ready c s w2 es where
      2: "new_endpoints L st w1 = Some (al, ready, c, s, w2, es)"
        "balance (es @ release_events True c @ release_events False s) [Context_mem] = Some [Context_mem]"
        "ready \<longrightarrow> (\<exists>c0 s0. c = Some c0 \<and> s = Some s0 \<and> ep_live c0 \<and> ep_live s0)"
    by blast
  have bal: "balance (es @ release_events True c @ release_events False s @ [Release Context_mem]) [Context_mem] = Some []"
    using 2(2) balance_append [of "es @ release_events True c @ release_events False s" "[Release Context_mem]"
        "[Context_mem]"] by simp
  obtain w3 where f1: "free_endpoint L True c w2 = (w3, release_events True c)"
    using free_endpoint_events [of L True c w2] by blast
  obtain w4 where f2: "free_endpoint L False s w3 = (w4, release_events False s)"
    using free_endpoint_events [of L False s w3] by blast
  consider "\<not> got" | "got" "\<not> ready" | "got" "ready" by blast
  then show ?thesis
  proof cases
    case 3
    then obtain c0 s0 where cs: "c = Some c0" "s = Some s0" "ep_live c0" "ep_live s0" using 2(3) by blast
    then have "pc_ok (Some \<lparr>pc_client = c, pc_server = s\<rparr>)"
      "pc_handles (Some \<lparr>pc_client = c, pc_server = s\<rparr>) = (Some (ep_handles c0), Some (ep_handles s0))"
      by (simp_all add: pc_ok_def pc_handles_def context_endpoint_def)
    with 3 1 2(1) bal cs(1,2) show ?thesis
      by (auto simp: quicz_openssl_pair_transcript_context_new_def)
  qed (use 1 2(1) bal f1 f2 in \<open>auto simp: quicz_openssl_pair_transcript_context_new_def\<close>)
qed

text \<open>
  Property C17. A context driven step by step, for every OpenSSL: whatever sequence of drive, provide and copy
  calls follows its construction, no call accesses memory outside the arrays and the caller's buffers, and the
  construction, the calls and the destruction together release each resource exactly once.
\<close>

theorem pair_context_lifecycle:
  assumes "statics_ok st" and "\<forall>x \<in> set xs. pair_call_ok x"
  shows "\<exists>c w1 es. quicz_openssl_pair_transcript_context_new L st w = Some (c, w1, es) \<and>
    (c = None \<and> balance es [] = Some [] \<or>
     (\<exists>c' w2 w3 fs. pair_steps L xs (c, w1) = Some (c', w2) \<and>
        quicz_openssl_pair_transcript_context_free L c' w2 = (w3, fs) \<and> balance (es @ fs) [] = Some []))"
proof -
  from context_new_cases [OF assms(1), of L w] obtain c w1 es where
      new: "quicz_openssl_pair_transcript_context_new L st w = Some (c, w1, es)"
    and cs: "c = None \<and> balance es [] = Some [] \<or>
     (\<exists>a b. pc_ok c \<and> pc_handles c = (Some (ep_handles a), Some (ep_handles b)) \<and>
       balance (es @ release_events True (Some a) @ release_events False (Some b) @ [Release Context_mem]) [] = Some [])"
    by blast
  show ?thesis
  proof (cases "c = None \<and> balance es [] = Some []")
    case False
    with cs obtain a b where c: "pc_ok c" "pc_handles c = (Some (ep_handles a), Some (ep_handles b))"
        "balance (es @ release_events True (Some a) @ release_events False (Some b) @ [Release Context_mem]) [] = Some []"
      by blast
    from pair_steps_ok [OF c(1) assms(2), of L w1] obtain c' w2 where
        s: "pair_steps L xs (c, w1) = Some (c', w2)" "pc_ok c'" "pc_handles c' = pc_handles c" by blast
    then obtain a' b' where ab: "c' = Some \<lparr>pc_client = Some a', pc_server = Some b'\<rparr>" by (auto simp: pc_ok_def)
    have "pc_handles c' = (Some (ep_handles a), Some (ep_handles b))" using s(3) c(2) by simp
    then have h: "ep_handles a' = ep_handles a" "ep_handles b' = ep_handles b"
      by (simp_all add: ab pc_handles_def context_endpoint_def)
    obtain w3 where f1: "free_endpoint L True (Some a') w2 = (w3, release_events True (Some a'))"
      using free_endpoint_events [of L True "Some a'" w2] by blast
    obtain w4 where f2: "free_endpoint L False (Some b') w3 = (w4, release_events False (Some b'))"
      using free_endpoint_events [of L False "Some b'" w3] by blast
    have "quicz_openssl_pair_transcript_context_free L c' w2 =
        (w4, release_events True (Some a') @ release_events False (Some b') @ [Release Context_mem])"
      using f1 f2 by (simp add: quicz_openssl_pair_transcript_context_free_def ab)
    with new s(1) c(3) release_events_handles [OF h(1), of True] release_events_handles [OF h(2), of False] show ?thesis
      by auto
  qed (use new in blast)
qed

theorem pair_context_lifecycle_witness:
  "\<exists>c w1 es. quicz_openssl_pair_transcript_context_new (scripted_openssl exchange_call) pair_statics_zero () =
      Some (c, w1, es) \<and>
    (c = None \<and> balance es [] = Some [] \<or>
     (\<exists>c' w2 w3 fs. pair_steps (scripted_openssl exchange_call) [Pair_drive 1, Pair_provide_crypto 0 0 (Some [1]) 1] (c, w1) =
        Some (c', w2) \<and>
        quicz_openssl_pair_transcript_context_free (scripted_openssl exchange_call) c' w2 = (w3, fs) \<and>
        balance (es @ fs) [] = Some []))"
  by (rule pair_context_lifecycle [OF statics_ok_zero]) simp

text \<open>
  Bytes provided to a context, in any interleaving of sides and levels, are kept as the chunks that
  fit 65536 bytes per side and level, in order.
\<close>

theorem pair_provide_admit:
  assumes "pc_ok c" and "\<forall>x \<in> set chunks. pair_level (fst x) \<and> length (snd x) < 2 ^ 64" and "pair_level y"
  shows "\<exists>c'. push_all provide_chunk chunks c = Some c' \<and> pc_ok c' \<and>
    pair_pending y c' = admit 65536 (\<lambda>y. pair_pending y c) chunks y"
  using pair_inq.push_all_admit [OF assms(1,2)] assms(3) by blast

lemma ep_example_live: "ep_live (ep_zero\<lparr>ep_ssl := Some 1\<rparr>)"
  using ep_ok_zero by (simp add: ep_live_def ep_ok_def ep_shape_def ep_level_ok_def)

lemma pc_example_ok:
  "pc_ok (Some \<lparr>pc_client = Some (ep_zero\<lparr>ep_ssl := Some 1\<rparr>), pc_server = Some (ep_zero\<lparr>ep_ssl := Some 1\<rparr>)\<rparr>)"
  using ep_example_live by (auto simp: pc_ok_def)

theorem pair_provide_admit_witness:
  "\<exists>c'. push_all provide_chunk [((1, 0), [1]), ((0, 0), [2]), ((1, 0), [3])]
     (Some \<lparr>pc_client = Some (ep_zero\<lparr>ep_ssl := Some 1\<rparr>), pc_server = Some (ep_zero\<lparr>ep_ssl := Some 1\<rparr>)\<rparr>) = Some c' \<and>
     pair_pending (1, 0) c' = [1, 3]"
proof -
  have "ep_ins 0 (ep_zero\<lparr>ep_ssl := Some 1\<rparr>) = []" by (simp add: ep_ins_def ep_zero_def nth_replicate)
  then show ?thesis
    using pair_provide_admit [OF pc_example_ok, of "[((1, 0), [1]), ((0, 0), [2]), ((1, 0), [3])]" "(1, 0)"]
    by (auto simp: pair_level_def level_in_range_unat pair_pending_def context_endpoint_def)
qed

end
