(* ===== verification/OpenSSL_Probe.thy ===== *)
theory OpenSSL_Probe
  imports OpenSSL_Api
begin

text \<open>
  The capability probe (\<^verbatim>\<open>src/examples/tls_openssl_probe.c\<close>): it creates a QUIC connection object and a
  TLS connection object with the QUIC callbacks installed, records what worked, and releases both. Its
  callbacks accept everything and keep nothing.
\<close>

section \<open>Callbacks\<close>

text \<open>The callbacks ignore \<^verbatim>\<open>arg\<close>, which the probe passes as a null pointer; their state is trivial.\<close>

definition crypto_send_cb_probe :: "ptr \<Rightarrow> size_t \<Rightarrow> size_t \<Rightarrow> unit \<Rightarrow> (cint \<times> size_t \<times> unit) option" where
  "crypto_send_cb_probe buf buf_len consumed s = Some (1, buf_len, s)"

definition crypto_recv_rcd_cb_probe :: "unit \<Rightarrow> cint \<times> ptr \<times> size_t \<times> unit" where
  "crypto_recv_rcd_cb_probe s = (1, None, 0, s)"

definition crypto_release_rcd_cb_probe :: "size_t \<Rightarrow> unit \<Rightarrow> (cint \<times> unit) option" where
  "crypto_release_rcd_cb_probe bytes_read s = Some (1, s)"

definition yield_secret_cb_probe :: "uint32 \<Rightarrow> cint \<Rightarrow> ptr \<Rightarrow> size_t \<Rightarrow> unit \<Rightarrow> (cint \<times> unit) option" where
  "yield_secret_cb_probe prot_level direction secret secret_len s = Some (1, s)"

definition got_transport_params_cb_probe :: "ptr \<Rightarrow> size_t \<Rightarrow> unit \<Rightarrow> (cint \<times> unit) option" where
  "got_transport_params_cb_probe params params_len s = Some (1, s)"

definition alert_cb_probe :: "byte \<Rightarrow> unit \<Rightarrow> cint \<times> unit" where
  "alert_cb_probe alert_code s = (1, s)"

text \<open>The probe installs no keylog callback.\<close>

definition quicz_openssl_quic_tls_dispatch :: "unit callbacks" where
  "quicz_openssl_quic_tls_dispatch =
     \<lparr>cb_crypto_send = crypto_send_cb_probe, cb_crypto_recv_rcd = crypto_recv_rcd_cb_probe,
      cb_crypto_release_rcd = crypto_release_rcd_cb_probe, cb_yield_secret = yield_secret_cb_probe,
      cb_got_transport_params = got_transport_params_cb_probe, cb_alert = alert_cb_probe,
      cb_keylog = (\<lambda>line s. s)\<rparr>"

section \<open>The probe\<close>

record quicz_openssl_probe_result =
  version_number :: "64 word"
  has_quic_method :: cint
  quic_ctx_created :: cint
  quic_ssl_created :: cint
  quic_ssl_is_quic :: cint
  tls_ctx_created :: cint
  tls_ssl_created :: cint
  tls_ssl_is_quic_before_callbacks :: cint
  tls_ssl_is_quic_after_callbacks :: cint
  callbacks_set :: cint
  transport_params_set :: cint
  crypto_send_id :: cint
  yield_secret_id :: cint
  got_transport_params_id :: cint

text \<open>
  What the probe uses of OpenSSL beyond the other backends: the version, whether the library was built
  without QUIC, whether there is a QUIC client method, a context for that method, and dispatch ids.
\<close>

record 'w openssl_quic = "'w openssl" +
  OPENSSL_VERSION_NUMBER :: "64 word"
  OPENSSL_NO_QUIC :: bool
  OSSL_QUIC_client_method :: "'w \<Rightarrow> bool \<times> 'w"
  SSL_CTX_new_quic :: "'w \<Rightarrow> nat option \<times> 'w"
  OSSL_FUNC_SSL_QUIC_TLS_CRYPTO_SEND :: cint
  OSSL_FUNC_SSL_QUIC_TLS_YIELD_SECRET :: cint
  OSSL_FUNC_SSL_QUIC_TLS_GOT_TRANSPORT_PARAMS :: cint

definition cbool :: "bool \<Rightarrow> cint" where
  "cbool b = (if b then 1 else 0)"

definition probe_quic ::
  "'w openssl_quic \<Rightarrow> quicz_openssl_probe_result \<Rightarrow> 'w \<Rightarrow> quicz_openssl_probe_result \<times> 'w \<times> heap_event list" where
  "probe_quic L result w =
     (let (method, w) = OSSL_QUIC_client_method L w;
          result = result\<lparr>has_quic_method := cbool method\<rparr> in
      if \<not> method then (result, w, [])
      else let (quic_ctx, w) = SSL_CTX_new_quic L w;
               result = result\<lparr>quic_ctx_created := cbool (quic_ctx \<noteq> None)\<rparr> in
      case quic_ctx of
        None \<Rightarrow> (result, w, [])
      | Some ctx \<Rightarrow>
        let (quic_ssl, w) = SSL_new L ctx w;
            result = result\<lparr>quic_ssl_created := cbool (quic_ssl \<noteq> None)\<rparr> in
        case quic_ssl of
          None \<Rightarrow> (result, SSL_CTX_free L (Some ctx) w, [Acquire (Ctx ctx), Release (Ctx ctx)])
        | Some ssl \<Rightarrow>
          (result\<lparr>quic_ssl_is_quic := SSL_is_quic L ssl w\<rparr>, SSL_CTX_free L (Some ctx) (SSL_free L (Some ssl) w),
           [Acquire (Ctx ctx), Acquire (Ssl ssl), Release (Ssl ssl), Release (Ctx ctx)]))"

definition probe_tls ::
  "'w openssl_quic \<Rightarrow> quicz_openssl_probe_result \<Rightarrow> 'w \<Rightarrow> quicz_openssl_probe_result \<times> 'w \<times> heap_event list" where
  "probe_tls L result w =
     (let (tls_ctx, w) = SSL_CTX_new L True w;
          result = result\<lparr>tls_ctx_created := cbool (tls_ctx \<noteq> None)\<rparr> in
      case tls_ctx of
        None \<Rightarrow> (result, w, [])
      | Some ctx \<Rightarrow>
        let (tls_ssl, w) = SSL_new L ctx w;
            result = result\<lparr>tls_ssl_created := cbool (tls_ssl \<noteq> None)\<rparr> in
        case tls_ssl of
          None \<Rightarrow> (result, SSL_CTX_free L (Some ctx) w, [Acquire (Ctx ctx), Release (Ctx ctx)])
        | Some ssl \<Rightarrow>
          let transport_parameters = [0x00, 0x04, 0x80, 0x00, 0x75, 0x30];
              result = result\<lparr>tls_ssl_is_quic_before_callbacks := SSL_is_quic L ssl w\<rparr>;
              (set, w) = SSL_set_quic_tls_cbs L ssl w;
              result = result\<lparr>callbacks_set := set, tls_ssl_is_quic_after_callbacks := SSL_is_quic L ssl w\<rparr>;
              (set_params, w) = SSL_set_quic_tls_transport_params L ssl (Some transport_parameters) 6 w in
          (result\<lparr>transport_params_set := set_params\<rparr>, SSL_CTX_free L (Some ctx) (SSL_free L (Some ssl) w),
           [Acquire (Ctx ctx), Acquire (Ssl ssl), Release (Ssl ssl), Release (Ctx ctx)]))"

definition quicz_openssl_probe_run ::
  "'w openssl_quic \<Rightarrow> 'w \<Rightarrow> quicz_openssl_probe_result \<times> 'w \<times> heap_event list" where
  "quicz_openssl_probe_run L w =
     (let result =
        \<lparr>version_number = OPENSSL_VERSION_NUMBER L, has_quic_method = 0, quic_ctx_created = 0, quic_ssl_created = 0,
         quic_ssl_is_quic = 0, tls_ctx_created = 0, tls_ssl_created = 0, tls_ssl_is_quic_before_callbacks = 0,
         tls_ssl_is_quic_after_callbacks = 0, callbacks_set = 0, transport_params_set = 0,
         crypto_send_id = OSSL_FUNC_SSL_QUIC_TLS_CRYPTO_SEND L,
         yield_secret_id = OSSL_FUNC_SSL_QUIC_TLS_YIELD_SECRET L,
         got_transport_params_id = OSSL_FUNC_SSL_QUIC_TLS_GOT_TRANSPORT_PARAMS L\<rparr> in
      if OPENSSL_NO_QUIC L then (result, w, [])
      else let (result, w, quic_events) = probe_quic L result w;
               (result, w, tls_events) = probe_tls L result w in
        (result, w, quic_events @ tls_events))"

section \<open>Properties\<close>

interpretation probe_cb: callback_contract quicz_openssl_quic_tls_dispatch "\<lambda>_. True" "\<lambda>_ _. True"
  by unfold_locales
    (simp_all add: quicz_openssl_quic_tls_dispatch_def crypto_send_cb_probe_def crypto_release_rcd_cb_probe_def
      yield_secret_cb_probe_def got_transport_params_cb_probe_def)

lemma cbool_simps [simp]: "cbool True = 1" "cbool False = 0"
  by (simp_all add: cbool_def)

lemma probe_quic_balanced: "probe_quic L r w = (r', w', es) \<Longrightarrow> balance es live = Some live"
  by (auto simp: probe_quic_def Let_def split: prod.splits option.splits if_splits)

lemma probe_tls_balanced: "probe_tls L r w = (r', w', es) \<Longrightarrow> balance es live = Some live"
  by (auto simp: probe_tls_def Let_def split: prod.splits option.splits)

text \<open>
  The flags of an object: the connection exists only if its context does, and what was asked of the
  connection is zero if it does not exist.
\<close>

definition nested :: "cint list \<Rightarrow> cint list \<Rightarrow> bool" where
  "nested stages answers \<longleftrightarrow>
     (\<exists>k \<le> length stages. stages = replicate k 1 @ replicate (length stages - k) 0 \<and>
       (k < length stages \<longrightarrow> set answers \<subseteq> {0}))"

definition quic_stages :: "quicz_openssl_probe_result \<Rightarrow> cint list" where
  "quic_stages r = [has_quic_method r, quic_ctx_created r, quic_ssl_created r]"

definition tls_stages :: "quicz_openssl_probe_result \<Rightarrow> cint list" where
  "tls_stages r = [tls_ctx_created r, tls_ssl_created r]"

definition tls_answers :: "quicz_openssl_probe_result \<Rightarrow> cint list" where
  "tls_answers r = [tls_ssl_is_quic_before_callbacks r, tls_ssl_is_quic_after_callbacks r, callbacks_set r,
     transport_params_set r]"

lemma nested_at:
  "stages = replicate k 1 @ replicate m 0 \<Longrightarrow> m \<noteq> 0 \<longrightarrow> set answers \<subseteq> {0} \<Longrightarrow> nested stages answers"
  unfolding nested_def by (rule exI [of _ k]) auto

lemmas nested_rules =
  nested_at [where k = 0 and m = 3] nested_at [where k = 1 and m = 2] nested_at [where k = 2 and m = 1]
  nested_at [where k = 3 and m = 0] nested_at [where k = 0 and m = 2] nested_at [where k = 1 and m = 1]
  nested_at [where k = 2 and m = 0]

lemma probe_quic_flags:
  assumes "probe_quic L r w = (r', w', es)" and "quic_stages r = [0, 0, 0]" and "quic_ssl_is_quic r = 0"
  shows "nested (quic_stages r') [quic_ssl_is_quic r']" "tls_stages r' = tls_stages r" "tls_answers r' = tls_answers r"
  using assms
  by (auto simp: probe_quic_def Let_def quic_stages_def tls_stages_def tls_answers_def numeral_eq_Suc
      intro: nested_rules split: prod.splits option.splits if_splits)

lemma probe_tls_flags:
  assumes "probe_tls L r w = (r', w', es)" and "tls_stages r = [0, 0]" and "tls_answers r = [0, 0, 0, 0]"
  shows "nested (tls_stages r') (tls_answers r')" "quic_stages r' = quic_stages r"
    "quic_ssl_is_quic r' = quic_ssl_is_quic r"
  using assms
  by (auto simp: probe_tls_def Let_def quic_stages_def tls_stages_def tls_answers_def numeral_eq_Suc
      intro: nested_rules split: prod.splits option.splits)

definition scripted_quic :: "unit openssl_quic" where
  "scripted_quic = openssl.extend (scripted_openssl (Engine_done 1 ()))
     \<lparr>OPENSSL_VERSION_NUMBER = 0x30500010, OPENSSL_NO_QUIC = False, OSSL_QUIC_client_method = (\<lambda>w. (True, w)),
      SSL_CTX_new_quic = (\<lambda>w. (Some 5, w)), OSSL_FUNC_SSL_QUIC_TLS_CRYPTO_SEND = 2001,
      OSSL_FUNC_SSL_QUIC_TLS_YIELD_SECRET = 2004, OSSL_FUNC_SSL_QUIC_TLS_GOT_TRANSPORT_PARAMS = 2005\<rparr>"

text \<open>
  Property C21. Whatever OpenSSL provides and wherever the creation of an object fails, the probe releases each
  context and connection object that it created exactly once. Its stage flags are zero or one and form a
  prefix of ones (method, context, connection), for the QUIC object and for the TLS object independently, and
  an answer that needs a connection object is zero when there is none.
\<close>

theorem probe_balanced_consistent:
  assumes "quicz_openssl_probe_run L w = (r, w', es)"
  shows "balance es live = Some live \<and>
    nested (quic_stages r) [quic_ssl_is_quic r] \<and> nested (tls_stages r) (tls_answers r)"
proof (cases "OPENSSL_NO_QUIC L")
  case True
  with assms show ?thesis
    by (auto simp: quicz_openssl_probe_run_def quic_stages_def tls_stages_def tls_answers_def numeral_eq_Suc
        intro: nested_rules)
next
  case False
  with assms obtain r0 r1 w1 es1 es2 where
      1: "probe_quic L r0 w = (r1, w1, es1)" "quic_stages r0 = [0, 0, 0]" "quic_ssl_is_quic r0 = 0"
        "tls_stages r0 = [0, 0]" "tls_answers r0 = [0, 0, 0, 0]"
      and 2: "probe_tls L r1 w1 = (r, w', es2)" "es = es1 @ es2"
    by (auto simp: quicz_openssl_probe_run_def Let_def quic_stages_def tls_stages_def tls_answers_def
        split: prod.splits)
  have "nested (tls_stages r) (tls_answers r)" "nested (quic_stages r) [quic_ssl_is_quic r]"
    using probe_quic_flags [OF 1(1,2,3)] probe_tls_flags [OF 2(1)] 1(4,5) by simp_all
  then show ?thesis
    using probe_quic_balanced [OF 1(1), of live] probe_tls_balanced [OF 2(1), of live] 2(2)
    by (simp add: balance_append)
qed

theorem probe_balanced_consistent_witness:
  "\<exists>r. quicz_openssl_probe_run scripted_quic () =
      (r, (), [Acquire (Ctx 5), Acquire (Ssl 8), Release (Ssl 8), Release (Ctx 5),
        Acquire (Ctx 7), Acquire (Ssl 8), Release (Ssl 8), Release (Ctx 7)]) \<and>
    nested (quic_stages r) [quic_ssl_is_quic r]"
proof -
  obtain r where r: "quicz_openssl_probe_run scripted_quic () =
      (r, (), [Acquire (Ctx 5), Acquire (Ssl 8), Release (Ssl 8), Release (Ctx 5),
        Acquire (Ctx 7), Acquire (Ssl 8), Release (Ssl 8), Release (Ctx 7)])"
    by (simp add: quicz_openssl_probe_run_def probe_quic_def probe_tls_def scripted_quic_def openssl.defs
        scripted_openssl_def)
  with probe_balanced_consistent [OF r, of "[]"] show ?thesis by blast
qed

end
