(* ===== verification/Zig_Buffer.thy ===== *)
theory Zig_Buffer
  imports C_Memory
begin

unbundle bit_operations_syntax

text \<open>
  The prelude of the Zig transport: error unions, the in-memory reader and writer of
  \<^verbatim>\<open>src/src/quic/buffer.zig\<close>, the allocator, and the calculi that the codec proofs share.

  \<^item> A \<^verbatim>\<open>u64\<close> is a 64-bit word. A \<^verbatim>\<open>usize\<close> that counts bytes of a slice or indexes it is a \<open>nat\<close>: slices
    are shorter than \<open>2 ^ 64\<close> bytes and the code adds no two of them without a check.
  \<^item> A function with error union \<^verbatim>\<open>!T\<close> that changes a state maps the state to an error (left) or a value (right)
    and the new state; \<^verbatim>\<open>try\<close> is \<open>zbind\<close>. The state is also there after an error, so that statements
    about what was written or leaked before a failure can be made.
  \<^item> A slice is owned (it was allocated, under a number) or not (it points into someone else's memory). The
    allocator records what is live, and remembers in \<open>al_bad\<close> whether something was freed that it had
    not allocated or that was freed already. Any allocation may fail.
  \<^item> \<^verbatim>\<open>errdefer\<close> runs a clean-up when the rest of the scope fails.
\<close>

section \<open>Errors and the monad of fallible stateful code\<close>

type_synonym u64 = "64 word"

text \<open>Zig has one name space of errors; these are the ones that the modelled code returns.\<close>

datatype zig_error =
    ConnectionClosed | InvalidPacket | CryptoError | Internal | OutOfMemory | BufferTooSmall
  | FlowControlBlocked | StreamClosed | InvalidStream
  | EndOfStream | NoSpaceLeft
  | InvalidHeaderForm | InvalidFixedBit | InvalidReservedBits | InvalidConnectionIdLength | InvalidPacketNumber
  | UnsupportedPacketType | UnexpectedToken | InvalidLength | InvalidVarInt | InvalidVersionNegotiation
  | InvalidVersionList | InvalidRetryPacket
  | UnsupportedFrameType | InvalidAckRange | InvalidPaddingLength | InvalidFrameLength | InvalidFrameValue
  | InvalidParameterValue | InvalidParameterLength | DuplicateParameter

datatype packet_number_space = Space_initial | Space_handshake | Space_application

type_synonym 'a zig_result = "zig_error + 'a"
type_synonym ('a, 's) zig = "'s \<Rightarrow> 'a zig_result \<times> 's"

definition zret :: "'a \<Rightarrow> ('a, 's) zig" where
  "zret x s = (Inr x, s)"

definition zfail :: "zig_error \<Rightarrow> ('a, 's) zig" where
  "zfail e s = (Inl e, s)"

definition zbind :: "('a, 's) zig \<Rightarrow> ('a \<Rightarrow> ('b, 's) zig) \<Rightarrow> ('b, 's) zig" where
  "zbind m f s = (case m s of (Inl e, s') \<Rightarrow> (Inl e, s') | (Inr x, s') \<Rightarrow> f x s')"

definition zcheck :: "unit zig_result \<Rightarrow> (unit, 's) zig" where
  "zcheck r s = (r, s)"

definition errdefer :: "('s \<Rightarrow> 's) \<Rightarrow> ('a, 's) zig \<Rightarrow> ('a, 's) zig" where
  "errdefer cleanup m s = (case m s of (Inl e, s') \<Rightarrow> (Inl e, cleanup s') | (Inr x, s') \<Rightarrow> (Inr x, s'))"

lemma zbind_eq:
  "zbind m f s = (r, s') \<longleftrightarrow>
     (\<exists>e. m s = (Inl e, s') \<and> r = Inl e) \<or> (\<exists>x s1. m s = (Inr x, s1) \<and> f x s1 = (r, s'))"
  by (auto simp: zbind_def split: prod.splits sum.splits)

lemma errdefer_eq:
  "errdefer cleanup m s = (r, s') \<longleftrightarrow>
     (\<exists>e s1. m s = (Inl e, s1) \<and> r = Inl e \<and> s' = cleanup s1) \<or> (\<exists>x. m s = (Inr x, s') \<and> r = Inr x)"
  by (auto simp: errdefer_def split: prod.splits sum.splits)

text \<open>\<^verbatim>\<open>try\<close> of a function without state, and \<^verbatim>\<open>std.math.add\<close>.\<close>

definition ztry :: "'a zig_result \<Rightarrow> ('a \<Rightarrow> 'b zig_result) \<Rightarrow> 'b zig_result" where
  "ztry r f = (case r of Inl e \<Rightarrow> Inl e | Inr x \<Rightarrow> f x)"

definition ensure :: "bool \<Rightarrow> zig_error \<Rightarrow> unit zig_result" where
  "ensure ok e = (if ok then Inr () else Inl e)"

definition math_add :: "u64 \<Rightarrow> u64 \<Rightarrow> u64 option" where
  "math_add a b = (if unat a + unat b < 2 ^ 64 then Some (a + b) else None)"

lemma math_add_Some [simp]: "math_add a b = Some c \<longleftrightarrow> unat c = unat a + unat b"
proof
  show "math_add a b = Some c \<Longrightarrow> unat c = unat a + unat b"
    by (auto simp: math_add_def unat_word_ariths split: if_splits)
  assume c: "unat c = unat a + unat b"
  then have "unat a + unat b < 2 ^ 64" using unsigned_less [of c, where ?'a = nat] by simp
  moreover from this c have "a + b = c" by (simp add: word_unat_eq_iff unat_word_ariths)
  ultimately show "math_add a b = Some c" by (simp add: math_add_def)
qed

lemma math_add_None [simp]: "math_add a b = None \<longleftrightarrow> 2 ^ 64 \<le> unat a + unat b"
  by (simp add: math_add_def)

lemma ensure_simps [simp]:
  "ensure ok e = Inr u \<longleftrightarrow> ok" "ensure ok e = Inl e' \<longleftrightarrow> \<not> ok \<and> e' = e" "ensure True e = Inr ()" "ensure False e = Inl e"
  by (auto simp: ensure_def)

lemma ztry_Inr [simp]: "ztry r f = Inr y \<longleftrightarrow> (\<exists>x. r = Inr x \<and> f x = Inr y)"
  by (auto simp: ztry_def split: sum.splits)

lemma ztry_simps [simp]: "ztry (Inl e) f = Inl e" "ztry (Inr x) f = f x"
  by (simp_all add: ztry_def)

section \<open>Reader, writer, allocator\<close>

record fixed_reader =
  fr_data :: "byte list"
  fr_pos :: nat

definition fixedReader :: "byte list \<Rightarrow> fixed_reader" where
  "fixedReader data = \<lparr>fr_data = data, fr_pos = 0\<rparr>"

definition readByte :: "(byte, 'm fixed_reader_scheme) zig" where
  "readByte r =
     (if fr_pos r \<ge> length (fr_data r) then (Inl EndOfStream, r)
      else (Inr (fr_data r ! fr_pos r), r\<lparr>fr_pos := fr_pos r + 1\<rparr>))"

definition readNoEof :: "nat \<Rightarrow> (byte list, 'm fixed_reader_scheme) zig" where
  "readNoEof n r =
     (if length (fr_data r) - fr_pos r < n then (Inl EndOfStream, r)
      else (Inr (take n (drop (fr_pos r) (fr_data r))), r\<lparr>fr_pos := fr_pos r + n\<rparr>))"

definition remainingLen :: "'m fixed_reader_scheme \<Rightarrow> nat" where
  "remainingLen r = length (fr_data r) - fr_pos r"

record fixed_writer =
  fw_buffer :: "byte list"
  fw_pos :: nat

definition fixedWriter :: "byte list \<Rightarrow> fixed_writer" where
  "fixedWriter buffer = \<lparr>fw_buffer = buffer, fw_pos = 0\<rparr>"

definition writeByte :: "byte \<Rightarrow> (unit, fixed_writer) zig" where
  "writeByte byte w =
     (if fw_pos w \<ge> length (fw_buffer w) then (Inl NoSpaceLeft, w)
      else (Inr (), w\<lparr>fw_buffer := (fw_buffer w)[fw_pos w := byte], fw_pos := fw_pos w + 1\<rparr>))"

definition writeAll :: "byte list \<Rightarrow> (unit, fixed_writer) zig" where
  "writeAll bytes w =
     (if length (fw_buffer w) - fw_pos w < length bytes then (Inl NoSpaceLeft, w)
      else (Inr (), w\<lparr>fw_buffer := splice (fw_buffer w) (fw_pos w) bytes, fw_pos := fw_pos w + length bytes\<rparr>))"

definition getWritten :: "fixed_writer \<Rightarrow> byte list" where
  "getWritten w = take (fw_pos w) (fw_buffer w)"

datatype 'e slice = Owned nat "'e list" | Unowned "'e list"

primrec elems :: "'e slice \<Rightarrow> 'e list" where
  "elems (Owned i xs) = xs"
| "elems (Unowned xs) = xs"

primrec owned_ids :: "'e slice \<Rightarrow> nat list" where
  "owned_ids (Owned i xs) = [i]"
| "owned_ids (Unowned xs) = []"

record decoder = fixed_reader +
  al_next :: nat
  al_live :: "nat list"
  al_fails :: "nat \<Rightarrow> bool"
  al_bad :: bool

abbreviation no_alloc :: decoder where
  "no_alloc \<equiv> \<lparr>fr_data = [], fr_pos = 0, al_next = 0, al_live = [], al_fails = \<lambda>_. False, al_bad = False\<rparr>"

text \<open>
  Allocating nothing does not reach the allocator, and freeing an empty slice does nothing
  (\<^verbatim>\<open>std.mem.Allocator\<close>).
\<close>

definition zig_alloc :: "nat \<Rightarrow> (nat option, decoder) zig" where
  "zig_alloc n d =
     (if n = 0 then (Inr None, d)
      else let i = al_next d; d' = d\<lparr>al_next := i + 1\<rparr> in
        if al_fails d i then (Inl OutOfMemory, d') else (Inr (Some i), d'\<lparr>al_live := i # al_live d\<rparr>))"

definition as_slice :: "nat option \<Rightarrow> 'e list \<Rightarrow> 'e slice" where
  "as_slice i xs = (case i of None \<Rightarrow> Unowned xs | Some k \<Rightarrow> Owned k xs)"

definition free_id :: "nat \<Rightarrow> decoder \<Rightarrow> decoder" where
  "free_id i d = (if i \<in> set (al_live d) then d\<lparr>al_live := remove1 i (al_live d)\<rparr> else d\<lparr>al_bad := True\<rparr>)"

definition free_block :: "nat option \<Rightarrow> decoder \<Rightarrow> decoder" where
  "free_block i d = (case i of None \<Rightarrow> d | Some k \<Rightarrow> free_id k d)"

primrec zig_free :: "'e slice \<Rightarrow> decoder \<Rightarrow> decoder" where
  "zig_free (Owned i xs) d = free_id i d"
| "zig_free (Unowned xs) d = (if xs = [] then d else d\<lparr>al_bad := True\<rparr>)"

definition readOwnedBytes :: "nat \<Rightarrow> (byte slice, decoder) zig" where
  "readOwnedBytes len d =
     (if len > remainingLen d then (Inl EndOfStream, d)
      else zbind (zig_alloc len) (\<lambda>i. errdefer (free_block i)
        (zbind (readNoEof len) (\<lambda>bytes. zret (as_slice i bytes)))) d)"

definition readSlice :: "nat \<Rightarrow> (byte slice, decoder) zig" where
  "readSlice len d =
     (if length (fr_data d) - fr_pos d < len then (Inl EndOfStream, d)
      else (Inr (Unowned (take len (drop (fr_pos d) (fr_data d)))), d\<lparr>fr_pos := fr_pos d + len\<rparr>))"

definition readBytes :: "bool \<Rightarrow> nat \<Rightarrow> (byte slice, decoder) zig" where
  "readBytes borrow len = (if borrow then readSlice len else readOwnedBytes len)"

section \<open>What a parser accepts\<close>

text \<open>
  \<open>reads p bs P\<close>: standing in front of the bytes \<open>bs\<close>, whatever comes after them, the parser \<open>p\<close> consumes
  exactly these and returns a value with \<open>P\<close>, if memory does not run out.
\<close>

definition fr_ok :: "'m fixed_reader_scheme \<Rightarrow> bool" where
  "fr_ok r \<longleftrightarrow> fr_pos r \<le> length (fr_data r)"

definition reads :: "('a, decoder) zig \<Rightarrow> byte list \<Rightarrow> ('a \<Rightarrow> bool) \<Rightarrow> bool" where
  "reads p bs P \<longleftrightarrow>
     (\<forall>d rest. fr_ok d \<longrightarrow> (\<forall>i. \<not> al_fails d i) \<longrightarrow> drop (fr_pos d) (fr_data d) = bs @ rest \<longrightarrow>
       (\<exists>x d'. p d = (Inr x, d') \<and> P x \<and> fr_data d' = fr_data d \<and> fr_pos d' = fr_pos d + length bs \<and>
         al_fails d' = al_fails d))"

lemma reads_ret [intro]: "P x \<Longrightarrow> reads (zret x) [] P"
  by (simp add: reads_def zret_def)

lemma readsD:
  assumes "reads p bs P" and "fr_ok d" and "\<forall>i. \<not> al_fails d i" and "drop (fr_pos d) (fr_data d) = bs @ rest"
  obtains x d' where "p d = (Inr x, d')" "P x" "fr_data d' = fr_data d" "fr_pos d' = fr_pos d + length bs"
    "al_fails d' = al_fails d"
  using assms unfolding reads_def by blast

lemma drop_pos:
  assumes "drop k xs = bs @ cs" and "k \<le> length xs"
  shows "drop (k + length bs) xs = cs" "k + length bs + length cs = length xs"
proof -
  show "drop (k + length bs) xs = cs"
    using assms(1) by (metis add.commute append_eq_conv_conj drop_drop)
  have "length (drop k xs) = length (bs @ cs)" using assms(1) by simp
  then show "k + length bs + length cs = length xs" using assms(2) by simp
qed

lemma reads_bind:
  assumes "reads p bs P" and "\<And>x. P x \<Longrightarrow> reads (f x) cs Q"
  shows "reads (zbind p f) (bs @ cs) Q"
  unfolding reads_def
proof (intro allI impI)
  fix d :: decoder and rest
  assume d: "fr_ok d" "\<forall>i. \<not> al_fails d i" "drop (fr_pos d) (fr_data d) = (bs @ cs) @ rest"
  from d(3) have "drop (fr_pos d) (fr_data d) = bs @ cs @ rest" by simp
  from readsD [OF assms(1) d(1,2) this] obtain x d1 where
      1: "p d = (Inr x, d1)" "P x" "fr_data d1 = fr_data d" "fr_pos d1 = fr_pos d + length bs"
        "al_fails d1 = al_fails d" .
  have d1: "fr_ok d1" "\<forall>i. \<not> al_fails d1 i" "drop (fr_pos d1) (fr_data d1) = cs @ rest"
    using drop_pos [of "fr_pos d" "fr_data d" bs "cs @ rest"] d 1 by (simp_all add: fr_ok_def)
  from readsD [OF assms(2) [OF 1(2)] d1] obtain y d2 where
      "f x d1 = (Inr y, d2)" "Q y" "fr_data d2 = fr_data d1" "fr_pos d2 = fr_pos d1 + length cs"
      "al_fails d2 = al_fails d1" .
  with 1 show "\<exists>x d'. zbind p f d = (Inr x, d') \<and> Q x \<and> fr_data d' = fr_data d \<and>
      fr_pos d' = fr_pos d + length (bs @ cs) \<and> al_fails d' = al_fails d"
    by (simp add: zbind_def)
qed

lemma reads_weaken: "reads p bs P \<Longrightarrow> (\<And>x. P x \<Longrightarrow> Q x) \<Longrightarrow> reads p bs Q"
  unfolding reads_def by blast

lemma reads_errdefer: "reads p bs P \<Longrightarrow> reads (errdefer f p) bs P"
  unfolding reads_def errdefer_eq by blast

lemma reads_check: "r = Inr () \<Longrightarrow> reads (f ()) bs P \<Longrightarrow> reads (zbind (zcheck r) f) bs P"
  by (simp add: reads_def zbind_def zcheck_def)

lemma reads_byte: "reads readByte [b] (\<lambda>x. x = b)"
  unfolding reads_def readByte_def
proof (intro allI impI)
  fix d :: decoder and rest
  assume d: "fr_ok d" "\<forall>i. \<not> al_fails d i" "drop (fr_pos d) (fr_data d) = [b] @ rest"
  then have "fr_pos d < length (fr_data d)" "fr_data d ! fr_pos d = b"
    using drop_pos(2) [OF d(3)] by (auto simp: fr_ok_def nth_via_drop)
  then show "\<exists>x d'. (if length (fr_data d) \<le> fr_pos d then (Inl EndOfStream, d)
      else (Inr (fr_data d ! fr_pos d), d\<lparr>fr_pos := fr_pos d + 1\<rparr>)) = (Inr x, d') \<and> x = b \<and>
      fr_data d' = fr_data d \<and> fr_pos d' = fr_pos d + length [b] \<and> al_fails d' = al_fails d"
    by simp
qed

lemma reads_no_eof: "n = length bs \<Longrightarrow> reads (readNoEof n) bs (\<lambda>x. x = bs)"
  unfolding reads_def readNoEof_def
  using drop_pos(2) by (fastforce simp: fr_ok_def)

lemma reads_bytes: "n = length bs \<Longrightarrow> reads (readBytes borrow n) bs (\<lambda>x. elems x = bs)"
proof (cases borrow)
  case True
  then show "n = length bs \<Longrightarrow> ?thesis"
    unfolding reads_def readBytes_def readSlice_def using drop_pos(2) by (fastforce simp: fr_ok_def)
next
  case False
  assume n: "n = length bs"
  show ?thesis
    unfolding reads_def
  proof (intro allI impI)
    fix d :: decoder and rest
    assume d: "fr_ok d" "\<forall>i. \<not> al_fails d i" "drop (fr_pos d) (fr_data d) = bs @ rest"
    then have "\<not> n > remainingLen d" using drop_pos(2) [OF d(3)] n by (simp add: remainingLen_def fr_ok_def)
    with d n False show "\<exists>x d'. readBytes borrow n d = (Inr x, d') \<and> elems x = bs \<and> fr_data d' = fr_data d \<and>
        fr_pos d' = fr_pos d + length bs \<and> al_fails d' = al_fails d"
      using drop_pos(2) [OF d(3)]
      by (auto simp: readBytes_def readOwnedBytes_def zbind_def zig_alloc_def errdefer_def readNoEof_def Let_def
          zret_def as_slice_def remainingLen_def fr_ok_def)
  qed
qed

section \<open>What a writer produces\<close>

definition fw_ok :: "fixed_writer \<Rightarrow> bool" where
  "fw_ok w \<longleftrightarrow> fw_pos w \<le> length (fw_buffer w)"

definition fw_room :: "fixed_writer \<Rightarrow> nat" where
  "fw_room w = length (fw_buffer w) - fw_pos w"

definition fw_put :: "byte list \<Rightarrow> fixed_writer \<Rightarrow> fixed_writer" where
  "fw_put bs w = w\<lparr>fw_buffer := splice (fw_buffer w) (fw_pos w) bs, fw_pos := fw_pos w + length bs\<rparr>"

text \<open>
  \<open>writes m bs\<close>: with room for \<open>bs\<close>, \<open>m\<close> appends these bytes; without, it fails with
  \<^verbatim>\<open>NoSpaceLeft\<close> and has appended a proper prefix of them.
\<close>

definition writes :: "(unit, fixed_writer) zig \<Rightarrow> byte list \<Rightarrow> bool" where
  "writes m bs \<longleftrightarrow>
     (\<forall>w. fw_ok w \<longrightarrow>
       (if length bs \<le> fw_room w then m w = (Inr (), fw_put bs w)
        else \<exists>k < length bs. k \<le> fw_room w \<and> m w = (Inl NoSpaceLeft, fw_put (take k bs) w)))"

lemma splice_splice:
  "i + length bs + length cs \<le> length dst \<Longrightarrow>
     splice (splice dst i bs) (i + length bs) cs = splice dst i (bs @ cs)"
  by (simp add: splice_def ac_simps)

lemma fw_put_props:
  assumes "fw_ok w" and "length bs \<le> fw_room w"
  shows "fw_ok (fw_put bs w)" "fw_room (fw_put bs w) = fw_room w - length bs"
    "getWritten (fw_put bs w) = getWritten w @ bs"
    "length cs \<le> fw_room w - length bs \<Longrightarrow> fw_put cs (fw_put bs w) = fw_put (bs @ cs) w"
  using assms
  by (auto simp: fw_ok_def fw_room_def fw_put_def length_splice splice_splice getWritten_def)
    (simp add: splice_def)

lemma fw_put_Nil: "fw_ok w \<Longrightarrow> fw_put [] w = w"
  by (simp add: fw_put_def splice_def)

lemma writes_ret: "writes (zret ()) []"
  by (simp add: writes_def zret_def fw_put_Nil)

lemma writes_all: "writes (writeAll bs) bs"
proof -
  have "\<exists>k < length bs. k \<le> fw_room w \<and> (Inl NoSpaceLeft, w) = (Inl NoSpaceLeft, fw_put (take k bs) w)"
    if "fw_ok w" "fw_room w < length bs" for w
    using that fw_put_Nil [OF that(1)] by (intro exI [of _ 0]) auto
  then show ?thesis by (auto simp: writes_def writeAll_def fw_put_def fw_room_def)
qed

lemma writeByte_writeAll: "fw_ok w \<Longrightarrow> writeByte b w = writeAll [b] w"
  by (auto simp: writeByte_def writeAll_def splice_def fw_ok_def upd_conv_take_nth_drop)

lemma writes_byte: "writes (writeByte b) [b]"
  using writes_all [of "[b]"] unfolding writes_def by (metis writeByte_writeAll)

lemma writes_bind:
  assumes "writes m bs" and "writes n cs"
  shows "writes (zbind m (\<lambda>_. n)) (bs @ cs)"
  unfolding writes_def
proof (intro allI impI)
  fix w
  assume w: "fw_ok w"
  note m = assms(1) [unfolded writes_def, rule_format, OF w]
  show "if length (bs @ cs) \<le> fw_room w then zbind m (\<lambda>_. n) w = (Inr (), fw_put (bs @ cs) w)
    else \<exists>k < length (bs @ cs). k \<le> fw_room w \<and> zbind m (\<lambda>_. n) w = (Inl NoSpaceLeft, fw_put (take k (bs @ cs)) w)"
  proof (cases "length bs \<le> fw_room w")
    case True
    note put = fw_put_props [OF w True]
    note n = assms(2) [unfolded writes_def, rule_format, OF put(1)]
    from True m have m': "m w = (Inr (), fw_put bs w)" by simp
    show ?thesis
    proof (cases "length cs \<le> fw_room w - length bs")
      case True
      with n put(2,4) m' \<open>length bs \<le> fw_room w\<close> show ?thesis by (simp add: zbind_def)
    next
      case False
      with n put(2) obtain k where "k < length cs" "k \<le> fw_room w - length bs"
          "n (fw_put bs w) = (Inl NoSpaceLeft, fw_put (take k cs) (fw_put bs w))" by auto
      with False m' put(4) [of "take k cs"] \<open>length bs \<le> fw_room w\<close> show ?thesis
        by (auto simp: zbind_def intro!: exI [of _ "length bs + k"])
    qed
  next
    case False
    with m obtain k where "k < length bs" "k \<le> fw_room w" "m w = (Inl NoSpaceLeft, fw_put (take k bs) w)" by auto
    with False show ?thesis by (auto simp: zbind_def intro!: exI [of _ k])
  qed
qed

lemma writes_check: "r = Inr () \<Longrightarrow> writes (f ()) bs \<Longrightarrow> writes (zbind (zcheck r) f) bs"
  by (simp add: writes_def zbind_def zcheck_def)

section \<open>What a parser keeps\<close>

text \<open>
  \<open>advances p\<close>: whatever the input and the outcome, the parser stays within the data and does not move
  back. \<open>mem_safe p own\<close>: it frees nothing that is not its own, after an error everything that it
  allocated is free again, and after a success \<open>own\<close> lists what is now the caller's.
  \<open>yields p P\<close>: every value that it returns has \<open>P\<close>.
\<close>

definition advances :: "('a, decoder) zig \<Rightarrow> bool" where
  "advances p \<longleftrightarrow>
     (\<forall>d r d'. fr_ok d \<longrightarrow> p d = (r, d') \<longrightarrow> fr_data d' = fr_data d \<and> fr_pos d \<le> fr_pos d' \<and> fr_ok d')"

definition mem_safe :: "('a, decoder) zig \<Rightarrow> ('a \<Rightarrow> nat list) \<Rightarrow> bool" where
  "mem_safe p own \<longleftrightarrow>
     (\<forall>d r d'. p d = (r, d') \<longrightarrow> al_bad d' = al_bad d \<and>
       al_live d' = (case r of Inl e \<Rightarrow> [] | Inr x \<Rightarrow> own x) @ al_live d)"

definition yields :: "('a, 's) zig \<Rightarrow> ('a \<Rightarrow> bool) \<Rightarrow> bool" where
  "yields p P \<longleftrightarrow> (\<forall>s x s'. p s = (Inr x, s') \<longrightarrow> P x)"

lemma advancesD:
  "advances p \<Longrightarrow> fr_ok d \<Longrightarrow> p d = (r, d') \<Longrightarrow> fr_data d' = fr_data d \<and> fr_pos d \<le> fr_pos d' \<and> fr_ok d'"
  unfolding advances_def by blast

lemma advances_bind:
  assumes "advances p" and "\<And>x. advances (f x)"
  shows "advances (zbind p f)"
  unfolding advances_def zbind_eq
proof (intro allI impI conjI; elim disjE exE conjE)
  fix d r d' x d1
  assume d: "fr_ok d" "p d = (Inr x, d1)" "f x d1 = (r, d')"
  from advancesD [OF assms(1) d(1,2)] advancesD [OF assms(2) _ d(3)]
  show "fr_data d' = fr_data d" "fr_pos d \<le> fr_pos d'" "fr_ok d'" by auto
next
  fix d r d' e
  assume d: "fr_ok d" "p d = (Inl e, d')"
  from advancesD [OF assms(1) d] show "fr_data d' = fr_data d" "fr_pos d \<le> fr_pos d'" "fr_ok d'" by auto
qed

lemma advances_errdefer:
  assumes "advances p" and "\<And>d. fr_data (f d) = fr_data d \<and> fr_pos (f d) = fr_pos d"
  shows "advances (errdefer f p)"
  unfolding advances_def errdefer_eq
proof (intro allI impI conjI; elim disjE exE conjE)
  fix d r d' e d1
  assume d: "fr_ok d" "p d = (Inl e, d1)" "d' = f d1"
  from advancesD [OF assms(1) d(1,2)] d(3) assms(2)
  show "fr_data d' = fr_data d" "fr_pos d \<le> fr_pos d'" "fr_ok d'" by (auto simp: fr_ok_def)
next
  fix d r d' x
  assume d: "fr_ok d" "p d = (Inr x, d')"
  from advancesD [OF assms(1) d] show "fr_data d' = fr_data d" "fr_pos d \<le> fr_pos d'" "fr_ok d'" by auto
qed

lemma reader_fields_free [simp]:
  "fr_data (free_id i d) = fr_data d" "fr_pos (free_id i d) = fr_pos d"
  "fr_data (free_block b d) = fr_data d" "fr_pos (free_block b d) = fr_pos d"
  "fr_data (zig_free s d) = fr_data d" "fr_pos (zig_free s d) = fr_pos d"
  by (cases s; simp add: free_id_def free_block_def split: option.splits)+

lemma advances_basic:
  "advances (zret x)" "advances (zfail e)" "advances (zcheck r)" "advances readByte" "advances (readNoEof n)"
  "advances (zig_alloc n)" "advances (readSlice n)"
  by (auto simp: advances_def zret_def zfail_def zcheck_def readByte_def readNoEof_def fr_ok_def zig_alloc_def
      readSlice_def Let_def split: if_splits)

lemma advances_if:
  assumes "advances p"
  shows "advances (\<lambda>d. if c d then (Inl e, d) else p d)"
  unfolding advances_def
proof (intro allI impI)
  fix d r d'
  assume d: "fr_ok d" "(if c d then (Inl e, d) else p d) = (r, d')"
  show "fr_data d' = fr_data d \<and> fr_pos d \<le> fr_pos d' \<and> fr_ok d'"
  proof (cases "c d")
    case False
    then have "p d = (r, d')" using d(2) by simp
    then show ?thesis by (rule advancesD [OF assms d(1)])
  qed (use d in auto)
qed

lemma advances_bytes: "advances (readBytes borrow n)"
proof -
  have "advances (zbind (zig_alloc n) (\<lambda>i. errdefer (free_block i)
      (zbind (readNoEof n) (\<lambda>bytes. zret (as_slice i bytes)))))"
    by (rule advances_bind advances_errdefer advances_basic | simp)+
  from advances_if [OF this] have "advances (readOwnedBytes n)" unfolding readOwnedBytes_def [abs_def] .
  then show ?thesis by (cases borrow) (simp_all add: readBytes_def advances_basic)
qed

lemma mem_safeD:
  "mem_safe p own \<Longrightarrow> p d = (r, d') \<Longrightarrow>
     al_bad d' = al_bad d \<and> al_live d' = (case r of Inl e \<Rightarrow> [] | Inr x \<Rightarrow> own x) @ al_live d"
  unfolding mem_safe_def by blast

lemma mem_safe_bind:
  assumes "mem_safe p (\<lambda>_. [])" and "\<And>x. mem_safe (f x) own"
  shows "mem_safe (zbind p f) own"
  unfolding mem_safe_def zbind_eq
  by (auto dest!: mem_safeD [OF assms(1)] mem_safeD [OF assms(2)])

lemma mem_safe_map:
  assumes "mem_safe p own" and "\<And>x. own' (g x) = own x"
  shows "mem_safe (zbind p (\<lambda>x. zret (g x))) own'"
  unfolding mem_safe_def zbind_eq zret_def
  by (auto dest!: mem_safeD [OF assms(1)] simp: assms(2))

lemma mem_safe_basic:
  "own x = [] \<Longrightarrow> mem_safe (zret x) own" "mem_safe (zfail e) own" "mem_safe (zcheck r) (\<lambda>_. [])"
  "mem_safe readByte (\<lambda>_. [])" "mem_safe (readNoEof n) (\<lambda>_. [])" "mem_safe (readSlice n) owned_ids"
  by (auto simp: mem_safe_def zret_def zfail_def zcheck_def readByte_def readNoEof_def readSlice_def
      split: sum.splits if_splits)

text \<open>A parser after an allocation, with the clean-up that an error runs.\<close>

lemma mem_safe_errdefer:
  assumes "mem_safe p own" and "yields p Q" and "\<And>x. mem_safe (f x) (\<lambda>_. [])"
    and "\<And>x. yields (f x) (\<lambda>y. own' y = own x)"
    and "\<And>x d live. Q x \<Longrightarrow> al_live d = own x @ live \<Longrightarrow> al_live (clean x d) = live \<and> al_bad (clean x d) = al_bad d"
  shows "mem_safe (zbind p (\<lambda>x. errdefer (clean x) (f x))) own'"
proof -
  have "al_bad d' = al_bad d \<and> al_live d' = (case r of Inl e \<Rightarrow> [] | Inr x \<Rightarrow> own' x) @ al_live d"
    if p: "p d = (Inr x, d1)" and e: "errdefer (clean x) (f x) d1 = (r, d')" for d r d' x d1
  proof -
    obtain r2 d2 where f: "f x d1 = (r2, d2)" by fastforce
    have "al_bad d2 = al_bad d" "al_live d2 = own x @ al_live d"
      using mem_safeD [OF assms(1) p] mem_safeD [OF assms(3) f] by (simp_all split: sum.splits)
    moreover have "Q x" using assms(2) p unfolding yields_def by blast
    moreover have "own' y = own x" if "r2 = Inr y" for y using assms(4) f that unfolding yields_def by blast
    ultimately show ?thesis using e f assms(5) [of x d2 "al_live d"] by (cases r2) (auto simp: errdefer_def)
  qed
  moreover have "al_bad d' = al_bad d \<and> al_live d' = al_live d" if "p d = (Inl e, d')" for d e d'
    using mem_safeD [OF assms(1) that] by simp
  ultimately show ?thesis
    unfolding mem_safe_def zbind_eq [of p] by (intro allI impI) (elim disjE exE conjE, simp_all)
qed

lemma mem_safe_bytes: "mem_safe (readBytes borrow n) owned_ids"
  by (auto simp: mem_safe_def readBytes_def readSlice_def
      readOwnedBytes_def zbind_def zig_alloc_def errdefer_def Let_def free_block_def free_id_def as_slice_def
      readNoEof_def zret_def split: sum.splits if_splits)

lemma yields_bind: "yields p P \<Longrightarrow> (\<And>x. P x \<Longrightarrow> yields (f x) Q) \<Longrightarrow> yields (zbind p f) Q"
  unfolding yields_def zbind_eq by blast

lemma yields_bind_any: "(\<And>x. yields (f x) P) \<Longrightarrow> yields (zbind p f) P"
  unfolding yields_def zbind_eq by blast

lemma yields_basic:
  "P x \<Longrightarrow> yields (zret x) P" "yields (zfail e) P" "yields (zcheck r) (\<lambda>_. r = Inr ())"
  by (auto simp: yields_def zret_def zfail_def zcheck_def)

lemma yields_errdefer: "yields p P \<Longrightarrow> yields (errdefer f p) P"
  unfolding yields_def errdefer_eq by blast

text \<open>A decoder that does not borrow owns what it returns: a slice without an owner is empty.\<close>

primrec slice_wf :: "'e slice \<Rightarrow> bool" where
  "slice_wf (Owned i xs) \<longleftrightarrow> xs \<noteq> []"
| "slice_wf (Unowned xs) \<longleftrightarrow> xs = []"

lemma yields_no_eof: "yields (readNoEof n) (\<lambda>buf. length buf = n)"
  by (auto simp: yields_def readNoEof_def split: if_splits)

lemma yields_alloc: "yields (zig_alloc n) (\<lambda>i. i = None \<longleftrightarrow> n = 0)"
  by (auto simp: yields_def zig_alloc_def Let_def split: if_splits)

lemma slice_wf_as_slice: "(i = None \<longleftrightarrow> xs = []) \<Longrightarrow> slice_wf (as_slice i xs)"
  by (auto simp: as_slice_def split: option.splits)

lemma elems_as_slice [simp]: "elems (as_slice i xs) = xs"
  by (cases i) (simp_all add: as_slice_def)

lemma yields_bytes: "yields (readBytes borrow n) (\<lambda>x. length (elems x) = n \<and> (borrow \<or> slice_wf x))"
proof (cases borrow)
  case True
  then show ?thesis by (auto simp: yields_def readBytes_def readSlice_def split: if_splits)
next
  case False
  have "yields (zbind (zig_alloc n) (\<lambda>i. errdefer (free_block i) (zbind (readNoEof n) (\<lambda>bytes. zret (as_slice i bytes)))))
      (\<lambda>x. length (elems x) = n \<and> slice_wf x)"
    by (rule yields_bind [OF yields_alloc] yields_errdefer yields_bind [OF yields_no_eof] yields_basic)+
      (auto intro: slice_wf_as_slice)
  with False show ?thesis by (auto simp: yields_def readBytes_def readOwnedBytes_def split: if_splits)
qed

lemma zig_free_own: "slice_wf x \<Longrightarrow> al_live d = owned_ids x @ live \<Longrightarrow>
    al_live (zig_free x d) = live \<and> al_bad (zig_free x d) = al_bad d"
  by (cases x) (auto simp: free_id_def)

lemma advances_at: "(\<And>d0. advances (f d0)) \<Longrightarrow> advances (\<lambda>d. f d d)"
  unfolding advances_def by blast

lemma mem_safe_at: "(\<And>d0. mem_safe (f d0) own) \<Longrightarrow> mem_safe (\<lambda>d. f d d) own"
  unfolding mem_safe_def by blast

lemma yields_at: "(\<And>d0. yields (f d0) P) \<Longrightarrow> yields (\<lambda>d. f d d) P"
  unfolding yields_def by blast

lemma advances_cond: "advances p \<Longrightarrow> advances q \<Longrightarrow> advances (if c then p else q)"
  by simp

lemma mem_safe_cond: "mem_safe p own \<Longrightarrow> mem_safe q own \<Longrightarrow> mem_safe (if c then p else q) own"
  by simp

lemma yields_cond: "yields p P \<Longrightarrow> yields q P \<Longrightarrow> yields (if c then p else q) P"
  by simp

text \<open>A parser that consumes at least one byte when it succeeds.\<close>

definition moves :: "('a, decoder) zig \<Rightarrow> bool" where
  "moves p \<longleftrightarrow> (\<forall>d x d'. fr_ok d \<longrightarrow> p d = (Inr x, d') \<longrightarrow> fr_pos d < fr_pos d')"

lemma moves_byte: "moves readByte"
  by (auto simp: moves_def readByte_def split: if_splits)

lemma moves_bind:
  assumes "moves p" and "advances p" and "\<And>x. advances (f x)"
  shows "moves (zbind p f)"
  unfolding moves_def zbind_eq
proof (intro allI impI; elim disjE exE conjE)
  fix d x d' y d1
  assume d: "fr_ok d" "p d = (Inr y, d1)" "f y d1 = (Inr x, d')"
  have "fr_pos d < fr_pos d1" using assms(1) d(1,2) unfolding moves_def by blast
  moreover have "fr_ok d1" using advancesD [OF assms(2) d(1,2)] by simp
  ultimately show "fr_pos d < fr_pos d'" using advancesD [OF assms(3) _ d(3)] by fastforce
qed simp


section \<open>Parsers that look at how much is left\<close>

definition zget :: "('s \<Rightarrow> 'a) \<Rightarrow> ('a, 's) zig" where
  "zget f s = (Inr (f s), s)"

text \<open>
  \<open>reads_at k p bs rest P\<close>: at position \<open>k\<close>, in front of \<open>bs\<close> with exactly \<open>rest\<close> after it, the parser
  consumes \<open>bs\<close> and returns a value with \<open>P\<close>, if memory does not run out.
\<close>

definition reads_at :: "nat \<Rightarrow> ('a, decoder) zig \<Rightarrow> byte list \<Rightarrow> byte list \<Rightarrow> ('a \<Rightarrow> bool) \<Rightarrow> bool" where
  "reads_at k p bs rest P \<longleftrightarrow>
     (\<forall>d. fr_ok d \<longrightarrow> (\<forall>i. \<not> al_fails d i) \<longrightarrow> fr_pos d = k \<longrightarrow> drop k (fr_data d) = bs @ rest \<longrightarrow>
       (\<exists>x d'. p d = (Inr x, d') \<and> P x \<and> fr_data d' = fr_data d \<and> fr_pos d' = k + length bs \<and>
         al_fails d' = al_fails d))"

lemma reads_atD:
  assumes "reads_at k p bs rest P" and "fr_ok d" and "\<forall>i. \<not> al_fails d i" and "fr_pos d = k"
    and "drop k (fr_data d) = bs @ rest"
  obtains x d' where "p d = (Inr x, d')" "P x" "fr_data d' = fr_data d" "fr_pos d' = k + length bs"
    "al_fails d' = al_fails d"
  using assms unfolding reads_at_def by blast

lemma reads_reads_at: "reads p bs P \<Longrightarrow> reads_at k p bs rest P"
  unfolding reads_def reads_at_def by fast

lemma reads_at_bind:
  assumes "reads_at k p bs (cs @ rest) P" and "\<And>x. P x \<Longrightarrow> reads_at (k + length bs) (f x) cs rest Q"
  shows "reads_at k (zbind p f) (bs @ cs) rest Q"
  unfolding reads_at_def
proof (intro allI impI)
  fix d :: decoder
  assume d: "fr_ok d" "\<forall>i. \<not> al_fails d i" "fr_pos d = k" "drop k (fr_data d) = (bs @ cs) @ rest"
  from d(4) have "drop k (fr_data d) = bs @ cs @ rest" by simp
  from reads_atD [OF assms(1) d(1-3) this] obtain x d1 where
      1: "p d = (Inr x, d1)" "P x" "fr_data d1 = fr_data d" "fr_pos d1 = k + length bs"
        "al_fails d1 = al_fails d" .
  have d1: "fr_ok d1" "\<forall>i. \<not> al_fails d1 i" "drop (k + length bs) (fr_data d1) = cs @ rest"
    using drop_pos [of k "fr_data d" bs "cs @ rest"] d 1 by (simp_all add: fr_ok_def)
  from reads_atD [OF assms(2) [OF 1(2)] d1(1,2) 1(4) d1(3)] obtain y d2 where
      "f x d1 = (Inr y, d2)" "Q y" "fr_data d2 = fr_data d1" "fr_pos d2 = k + length bs + length cs"
      "al_fails d2 = al_fails d1" .
  with 1 show "\<exists>x d'. zbind p f d = (Inr x, d') \<and> Q x \<and> fr_data d' = fr_data d \<and>
      fr_pos d' = k + length (bs @ cs) \<and> al_fails d' = al_fails d"
    by (simp add: zbind_def)
qed

lemma reads_at_errdefer: "reads_at k p bs rest P \<Longrightarrow> reads_at k (errdefer f p) bs rest P"
  unfolding reads_at_def errdefer_eq by blast

lemma reads_at_weaken: "reads_at k p bs rest P \<Longrightarrow> (\<And>x. P x \<Longrightarrow> Q x) \<Longrightarrow> reads_at k p bs rest Q"
  unfolding reads_at_def by blast

lemma reads_at_check:
  "r = Inr () \<Longrightarrow> reads_at k (f ()) bs rest P \<Longrightarrow> reads_at k (zbind (zcheck r) f) bs rest P"
  by (simp add: reads_at_def zbind_def zcheck_def)

lemma reads_at_remaining:
  "reads_at k (f (length bs + length rest)) bs rest P \<Longrightarrow> reads_at k (zbind (zget remainingLen) f) bs rest P"
proof -
  have "remainingLen d = length bs + length rest" if "fr_ok d" "fr_pos d = k" "drop k (fr_data d) = bs @ rest"
    for d :: decoder
    using that by (metis length_append length_drop remainingLen_def)
  then show "reads_at k (f (length bs + length rest)) bs rest P \<Longrightarrow> ?thesis"
    by (simp add: reads_at_def zbind_def zget_def)
qed

lemma reads_at_pos: "reads_at k (f k) bs rest P \<Longrightarrow> reads_at k (zbind (zget fr_pos) f) bs rest P"
  by (simp add: reads_at_def zbind_def zget_def)

lemma zget_keeps: "advances (zget g)" "mem_safe (zget g) (\<lambda>_. [])"
  by (auto simp: advances_def mem_safe_def zget_def)

text \<open>
  A scope: an allocation \<open>p\<close>, its clean-up, and a rest \<open>f\<close> that may allocate more. What the caller gets at the
  end is what the rest hands over, on top of what \<open>p\<close> allocated.
\<close>

definition allocates :: "('a, decoder) zig \<Rightarrow> ('a \<Rightarrow> nat list) \<Rightarrow> ('a \<Rightarrow> decoder \<Rightarrow> decoder) \<Rightarrow> bool" where
  "allocates p own clean \<longleftrightarrow> mem_safe p own \<and>
     yields p (\<lambda>x. \<forall>d live. al_live d = own x @ live \<longrightarrow>
       al_live (clean x d) = live \<and> al_bad (clean x d) = al_bad d)"

lemma mem_safe_scope:
  assumes "allocates p own clean" and "\<And>x. mem_safe (f x) (part x)"
    and "\<And>x. yields (f x) (\<lambda>y. own' y = part x y @ own x)"
  shows "mem_safe (zbind p (\<lambda>x. errdefer (clean x) (f x))) own'"
proof -
  have p: "mem_safe p own" using assms(1) by (simp add: allocates_def)
  have "al_bad d' = al_bad d \<and> al_live d' = (case r of Inl e \<Rightarrow> [] | Inr x \<Rightarrow> own' x) @ al_live d"
    if ps: "p d = (Inr x, d1)" and e: "errdefer (clean x) (f x) d1 = (r, d')" for d r d' x d1
  proof -
    obtain r2 d2 where f: "f x d1 = (r2, d2)" by fastforce
    have clean: "al_live (clean x d) = live \<and> al_bad (clean x d) = al_bad d" if "al_live d = own x @ live" for d live
      using assms(1) ps that unfolding allocates_def yields_def by blast
    have "own' y = part x y @ own x" if "r2 = Inr y" for y using assms(3) f that unfolding yields_def by blast
    then show ?thesis
      using e f clean [of d2 "al_live d"] mem_safeD [OF p ps] mem_safeD [OF assms(2) f]
      by (cases r2) (auto simp: errdefer_def)
  qed
  moreover have "al_bad d' = al_bad d \<and> al_live d' = al_live d" if "p d = (Inl e, d')" for d e d'
    using mem_safeD [OF p that] by simp
  ultimately show ?thesis
    unfolding mem_safe_def zbind_eq [of p] by (intro allI impI) (elim disjE exE conjE, simp_all)
qed

lemma allocates_alloc: "allocates (zig_alloc n) (\<lambda>i. case i of None \<Rightarrow> [] | Some k \<Rightarrow> [k]) free_block"
  by (auto simp: allocates_def mem_safe_def yields_def zig_alloc_def Let_def free_block_def free_id_def
      split: sum.splits if_splits option.splits)

lemma owned_ids_as_slice: "owned_ids (as_slice i xs) = (case i of None \<Rightarrow> [] | Some k \<Rightarrow> [k])"
  by (cases i) (simp_all add: as_slice_def)

lemma allocates_owned: "allocates (readOwnedBytes n) owned_ids zig_free"
  using mem_safe_bytes [of False n] yields_bytes [of False n] zig_free_own
  unfolding allocates_def readBytes_def yields_def by (simp, blast)

lemma allocates_cond: "allocates p own clean \<Longrightarrow> allocates q own clean \<Longrightarrow> allocates (if c then p else q) own clean"
  by simp

lemma allocates_bind:
  "mem_safe p (\<lambda>_. []) \<Longrightarrow> (\<And>x. allocates (f x) own clean) \<Longrightarrow> allocates (zbind p f) own clean"
  unfolding allocates_def by (auto intro: mem_safe_bind yields_bind_any)

lemma allocates_empty: "allocates (zret (Unowned [])) owned_ids zig_free"
  by (simp add: allocates_def mem_safe_def yields_def zret_def)

lemma owned_ids_empty: "slice_wf x \<Longrightarrow> elems x = [] \<Longrightarrow> owned_ids x = []"
  by (cases x) simp_all

lemma allocates_nonempty:
  assumes "allocates p owned_ids zig_free" and "yields p slice_wf"
  shows "allocates p owned_ids (\<lambda>x d. if length (elems x) \<noteq> 0 then zig_free x d else d)"
proof -
  have "slice_wf x \<and> (\<forall>d live. al_live d = owned_ids x @ live \<longrightarrow>
      al_live (zig_free x d) = live \<and> al_bad (zig_free x d) = al_bad d)" if "p s = (Inr x, s')" for s x s'
    using assms that unfolding allocates_def yields_def by blast
  then show ?thesis
    using assms(1) unfolding allocates_def yields_def by simp (blast intro: owned_ids_empty)
qed

end
