(* ===== verification/Tls_Backend.thy ===== *)
theory Tls_Backend
  imports Zig_Buffer Demo_Backend OpenSSL_Backend_Proofs
begin

text \<open>
  The Zig side of the C ABI (\<^verbatim>\<open>src/src/quic/tls_backend.zig\<close>): the table of callbacks
  \<^verbatim>\<open>TlsBackend\<close> and the adapters that the transport calls through \<^verbatim>\<open>cryptoBackend()\<close>. A Zig
  error union is a sum with the error on the left, an optional an option, a slice a list; an adapter threads
  the state that the context pointer points to and returns \<^term>\<open>None\<close> where the C code behind it has
  undefined behaviour. The locale \<open>pull_contract\<close> is what the adapters rely on, and both C backends meet it.
\<close>

section \<open>Errors and status codes\<close>

fun fromPacketNumberSpace :: "packet_number_space \<Rightarrow> cint" where
  "fromPacketNumberSpace Space_initial = QUICZ_TLS_BACKEND_INITIAL"
| "fromPacketNumberSpace Space_handshake = QUICZ_TLS_BACKEND_HANDSHAKE"
| "fromPacketNumberSpace Space_application = QUICZ_TLS_BACKEND_APPLICATION"

fun tlsBackendStatusError :: "quicz_tls_backend_status \<Rightarrow> unit zig_result" where
  "tlsBackendStatusError QUICZ_TLS_BACKEND_OK = Inr ()"
| "tlsBackendStatusError QUICZ_TLS_BACKEND_PENDING = Inr ()"
| "tlsBackendStatusError QUICZ_TLS_BACKEND_BUFFER_TOO_SMALL = Inl BufferTooSmall"
| "tlsBackendStatusError QUICZ_TLS_BACKEND_CRYPTO_ERROR = Inl CryptoError"
| "tlsBackendStatusError QUICZ_TLS_BACKEND_INTERNAL = Inl Internal"

fun tlsBackendInputStatusError :: "quicz_tls_backend_status \<Rightarrow> unit zig_result" where
  "tlsBackendInputStatusError QUICZ_TLS_BACKEND_OK = Inr ()"
| "tlsBackendInputStatusError QUICZ_TLS_BACKEND_PENDING = Inl Internal"
| "tlsBackendInputStatusError QUICZ_TLS_BACKEND_BUFFER_TOO_SMALL = Inl BufferTooSmall"
| "tlsBackendInputStatusError QUICZ_TLS_BACKEND_CRYPTO_ERROR = Inl CryptoError"
| "tlsBackendInputStatusError QUICZ_TLS_BACKEND_INTERNAL = Inl Internal"

definition tlsBackendPendingOutputStatusError :: "quicz_tls_backend_status \<Rightarrow> size_t \<Rightarrow> unit zig_result" where
  "tlsBackendPendingOutputStatusError status written_len =
     (if status = QUICZ_TLS_BACKEND_PENDING \<and> written_len \<noteq> 0 then Inl Internal
      else tlsBackendStatusError status)"

section \<open>The adapter\<close>

record zero_rtt_traffic_secrets =
  zero_rtt_local :: "byte list option"
  zero_rtt_peer :: "byte list option"

text \<open>
  The table of callbacks, over the state that the context pointer points to. An optional hook that is not
  there is \<^term>\<open>None\<close>.
\<close>

record 's tls_backend =
  tb_receive :: "cint \<Rightarrow> ptr \<Rightarrow> size_t \<Rightarrow> 's \<Rightarrow> (quicz_tls_backend_status \<times> 's) option"
  tb_pull :: "cint \<Rightarrow> ptr \<Rightarrow> size_t \<Rightarrow> size_t \<Rightarrow> 's \<Rightarrow> 's pulled option"
  tb_set_local_transport_parameters ::
    "(ptr \<Rightarrow> size_t \<Rightarrow> 's \<Rightarrow> (quicz_tls_backend_status \<times> 's) option) option"
  tb_pull_peer_transport_parameters :: "(ptr \<Rightarrow> size_t \<Rightarrow> size_t \<Rightarrow> 's \<Rightarrow> 's pulled option) option"
  tb_pull_handshake_traffic_secrets ::
    "(quicz_handshake_traffic_secrets \<Rightarrow> 's \<Rightarrow> quicz_tls_backend_status \<times> 's \<times> quicz_handshake_traffic_secrets) option"
  tb_pull_zero_rtt_traffic_secrets ::
    "(zero_rtt_traffic_secrets \<Rightarrow> 's \<Rightarrow> quicz_tls_backend_status \<times> 's \<times> zero_rtt_traffic_secrets) option"
  tb_pull_1rtt_traffic_secrets ::
    "(quicz_one_rtt_traffic_secrets \<Rightarrow> 's \<Rightarrow> quicz_tls_backend_status \<times> 's \<times> quicz_one_rtt_traffic_secrets) option"
  tb_pull_negotiated_alpn :: "(ptr \<Rightarrow> size_t \<Rightarrow> size_t \<Rightarrow> 's \<Rightarrow> 's pulled option) option"
  tb_handshake_confirmed :: "('s \<Rightarrow> bool) option"

definition receiveAdapter ::
  "'s tls_backend \<Rightarrow> packet_number_space \<Rightarrow> byte list \<Rightarrow> 's \<Rightarrow> (unit zig_result \<times> 's) option" where
  "receiveAdapter self space data s = do {
     (status, s') \<leftarrow> tb_receive self (fromPacketNumberSpace space) (Some data) (word_of_nat (length data)) s;
     Some (tlsBackendInputStatusError status, s')
   }"

text \<open>
  The part that the three adapters for byte output share: the result, the state and the caller's buffer. The
  slice that the adapter returns aliases the front of the buffer.
\<close>

definition pull_bytes ::
  "(ptr \<Rightarrow> size_t \<Rightarrow> size_t \<Rightarrow> 's \<Rightarrow> 's pulled option) \<Rightarrow> byte list \<Rightarrow> 's \<Rightarrow>
     (byte list option zig_result \<times> 's \<times> byte list) option" where
  "pull_bytes pull out_buf s = do {
     (status, s', out, written_len) \<leftarrow> pull (Some out_buf) (word_of_nat (length out_buf)) 0 s;
     buf \<leftarrow> out;
     Some (if status = QUICZ_TLS_BACKEND_PENDING \<and> written_len = 0 then Inr None
           else case tlsBackendPendingOutputStatusError status written_len of
             Inl e \<Rightarrow> Inl e
           | Inr _ \<Rightarrow> if unat written_len > length out_buf then Inl BufferTooSmall
                    else Inr (Some (take (unat written_len) buf)),
           s', buf)
   }"

definition pullAdapter ::
  "'s tls_backend \<Rightarrow> packet_number_space \<Rightarrow> byte list \<Rightarrow> 's \<Rightarrow>
     (byte list option zig_result \<times> 's \<times> byte list) option" where
  "pullAdapter self space out_buf s = pull_bytes (tb_pull self (fromPacketNumberSpace space)) out_buf s"

definition setLocalTransportParametersAdapter ::
  "'s tls_backend \<Rightarrow> byte list \<Rightarrow> 's \<Rightarrow> (unit zig_result \<times> 's) option" where
  "setLocalTransportParametersAdapter self data s =
     (case tb_set_local_transport_parameters self of
        None \<Rightarrow> Some (Inr (), s)
      | Some set_local \<Rightarrow> do {
          (status, s') \<leftarrow> set_local (Some data) (word_of_nat (length data)) s;
          Some (tlsBackendInputStatusError status, s')
        })"

definition pullPeerTransportParametersAdapter ::
  "'s tls_backend \<Rightarrow> byte list \<Rightarrow> 's \<Rightarrow> (byte list option zig_result \<times> 's \<times> byte list) option" where
  "pullPeerTransportParametersAdapter self out_buf s =
     (case tb_pull_peer_transport_parameters self of
        None \<Rightarrow> Some (Inr None, s, out_buf)
      | Some pull_peer \<Rightarrow> pull_bytes pull_peer out_buf s)"

definition pullNegotiatedAlpnAdapter ::
  "'s tls_backend \<Rightarrow> byte list \<Rightarrow> 's \<Rightarrow> (byte list option zig_result \<times> 's \<times> byte list) option" where
  "pullNegotiatedAlpnAdapter self out_buf s =
     (case tb_pull_negotiated_alpn self of
        None \<Rightarrow> Some (Inr None, s, out_buf)
      | Some pull_alpn \<Rightarrow> pull_bytes pull_alpn out_buf s)"

text \<open>\<open>secrets\<close> is what the local variable that the callback fills holds before the call.\<close>

definition pull_secrets :: "('x \<Rightarrow> 's \<Rightarrow> quicz_tls_backend_status \<times> 's \<times> 'x) option \<Rightarrow> 'x \<Rightarrow> 's \<Rightarrow> 'x option zig_result \<times> 's" where
  "pull_secrets hook secrets s =
     (case hook of
        None \<Rightarrow> (Inr None, s)
      | Some pull \<Rightarrow>
        case pull secrets s of (status, s', secrets') \<Rightarrow>
        if status = QUICZ_TLS_BACKEND_PENDING then (Inr None, s')
        else case tlsBackendStatusError status of Inl e \<Rightarrow> (Inl e, s') | Inr _ \<Rightarrow> (Inr (Some secrets'), s'))"

definition pullHandshakeTrafficSecretsAdapter ::
  "'s tls_backend \<Rightarrow> quicz_handshake_traffic_secrets \<Rightarrow> 's \<Rightarrow> quicz_handshake_traffic_secrets option zig_result \<times> 's" where
  "pullHandshakeTrafficSecretsAdapter self = pull_secrets (tb_pull_handshake_traffic_secrets self)"

definition pullZeroRttTrafficSecretsAdapter ::
  "'s tls_backend \<Rightarrow> 's \<Rightarrow> zero_rtt_traffic_secrets option zig_result \<times> 's" where
  "pullZeroRttTrafficSecretsAdapter self =
     pull_secrets (tb_pull_zero_rtt_traffic_secrets self) \<lparr>zero_rtt_local = None, zero_rtt_peer = None\<rparr>"

definition pullOneRttTrafficSecretsAdapter ::
  "'s tls_backend \<Rightarrow> quicz_one_rtt_traffic_secrets \<Rightarrow> 's \<Rightarrow> quicz_one_rtt_traffic_secrets option zig_result \<times> 's" where
  "pullOneRttTrafficSecretsAdapter self = pull_secrets (tb_pull_1rtt_traffic_secrets self)"

definition handshakeConfirmedAdapter :: "'s tls_backend \<Rightarrow> 's \<Rightarrow> bool" where
  "handshakeConfirmedAdapter self s =
     (case tb_handshake_confirmed self of None \<Rightarrow> False | Some confirmed \<Rightarrow> confirmed s)"

section \<open>The two C backends behind the adapter\<close>

text \<open>As wired up in \<^verbatim>\<open>tls_c_abi_adapter.zig\<close>.\<close>

definition demo_tls_backend :: "demo tls_backend" where
  "demo_tls_backend =
     \<lparr>tb_receive = quicz_tls_c_demo_receive, tb_pull = quicz_tls_c_demo_pull,
      tb_set_local_transport_parameters = Some quicz_tls_c_demo_set_local_transport_parameters,
      tb_pull_peer_transport_parameters = Some quicz_tls_c_demo_pull_peer_transport_parameters,
      tb_pull_handshake_traffic_secrets = Some quicz_tls_c_demo_pull_handshake_traffic_secrets,
      tb_pull_zero_rtt_traffic_secrets = None, tb_pull_1rtt_traffic_secrets = None,
      tb_pull_negotiated_alpn = None,
      tb_handshake_confirmed = Some quicz_tls_c_demo_handshake_confirmed\<rparr>"

text \<open>As wired up in \<^verbatim>\<open>tls_openssl_backend_adapter.zig\<close>; the state is the backend and the library.\<close>

definition openssl_tls_backend :: "'w openssl \<Rightarrow> (backend option \<times> 'w) tls_backend" where
  "openssl_tls_backend L =
     \<lparr>tb_receive = (\<lambda>space p n (c, w).
        map_option (\<lambda>(st, c'). (st, (c', w))) (quicz_openssl_tls_backend_receive space p n c)),
      tb_pull = (\<lambda>space out n wl (c, w).
        map_option (\<lambda>((st, c', out', wl'), w'). (st, (c', w'), out', wl')) (quicz_openssl_tls_backend_pull L space out n wl w c)),
      tb_set_local_transport_parameters = Some (\<lambda>p n (c, w).
        case quicz_openssl_tls_backend_set_local_transport_parameters L p n w c of (st, c', w') \<Rightarrow> Some (st, (c', w'))),
      tb_pull_peer_transport_parameters = Some (\<lambda>out n wl (c, w).
        map_option (\<lambda>(st, c', out', wl'). (st, (c', w), out', wl'))
          (quicz_openssl_tls_backend_pull_peer_transport_parameters out n wl c)),
      tb_pull_handshake_traffic_secrets = Some (\<lambda>x (c, w).
        case quicz_openssl_tls_backend_pull_handshake_traffic_secrets x c of (st, c', x') \<Rightarrow> (st, (c', w), x')),
      tb_pull_zero_rtt_traffic_secrets = None,
      tb_pull_1rtt_traffic_secrets = Some (\<lambda>x (c, w).
        case quicz_openssl_tls_backend_pull_1rtt_traffic_secrets x c of (st, c', x') \<Rightarrow> (st, (c', w), x')),
      tb_pull_negotiated_alpn = Some (\<lambda>out n wl (c, w).
        map_option (\<lambda>(st, out', wl'). (st, (c, w), out', wl'))
          (quicz_openssl_tls_backend_pull_negotiated_alpn L out n wl w c)),
      tb_handshake_confirmed = Some (\<lambda>(c, w). quicz_openssl_tls_backend_handshake_confirmed c)\<rparr>"

section \<open>What the adapter relies on\<close>

text \<open>
  A pull keeps to its buffer, reports no more bytes than fit when it succeeds and no bytes when it does not.
\<close>

lemma unat_of_length: "length bs < 2 ^ 64 \<Longrightarrow> unat (word_of_nat (length bs) :: size_t) = length bs"
  by (simp add: unat_of_nat)

definition reported :: "quicz_tls_backend_status \<Rightarrow> size_t \<Rightarrow> nat \<Rightarrow> bool" where
  "reported st w room \<longleftrightarrow> (if st = QUICZ_TLS_BACKEND_OK then unat w \<le> room else w = 0)"

lemma reported_simps [simp]:
  "reported QUICZ_TLS_BACKEND_OK w room \<longleftrightarrow> unat w \<le> room"
  "reported QUICZ_TLS_BACKEND_PENDING w room \<longleftrightarrow> w = 0"
  "reported QUICZ_TLS_BACKEND_BUFFER_TOO_SMALL w room \<longleftrightarrow> w = 0"
  "reported QUICZ_TLS_BACKEND_CRYPTO_ERROR w room \<longleftrightarrow> w = 0"
  "reported QUICZ_TLS_BACKEND_INTERNAL w room \<longleftrightarrow> w = 0"
  by (simp_all add: reported_def)

locale pull_contract =
  fixes invar :: "'s \<Rightarrow> bool"
    and pull :: "ptr \<Rightarrow> size_t \<Rightarrow> size_t \<Rightarrow> 's \<Rightarrow> 's pulled option"
  assumes pull_ok: "invar s \<Longrightarrow> unat n = length buf \<Longrightarrow>
      \<exists>st s' buf' w. pull (Some buf) n 0 s = Some (st, s', Some buf', w) \<and> invar s' \<and> length buf' = length buf \<and>
        reported st w (length buf)"
begin

text \<open>
  Then the adapter hands its caller exactly what the status says, and never turns a pending answer into an
  error or slices beyond the buffer.
\<close>

lemma pull_bytes_status:
  assumes "invar s" and "length buf < 2 ^ 64"
  shows "\<exists>st s' buf' w. pull (Some buf) (word_of_nat (length buf)) 0 s = Some (st, s', Some buf', w) \<and>
    invar s' \<and> length buf' = length buf \<and>
    pull_bytes pull buf s = Some
      (case st of
         QUICZ_TLS_BACKEND_OK \<Rightarrow> Inr (Some (take (unat w) buf'))
       | QUICZ_TLS_BACKEND_PENDING \<Rightarrow> Inr None
       | QUICZ_TLS_BACKEND_BUFFER_TOO_SMALL \<Rightarrow> Inl BufferTooSmall
       | QUICZ_TLS_BACKEND_CRYPTO_ERROR \<Rightarrow> Inl CryptoError
       | QUICZ_TLS_BACKEND_INTERNAL \<Rightarrow> Inl Internal, s', buf')"
proof -
  have n: "unat (word_of_nat (length buf) :: size_t) = length buf"
    using assms(2) by (rule unat_of_length)
  from pull_ok [OF assms(1) n] obtain st s' buf' w where
      p: "pull (Some buf) (word_of_nat (length buf)) 0 s = Some (st, s', Some buf', w)" "invar s'"
        "length buf' = length buf" "reported st w (length buf)"
    by blast
  then show ?thesis
    by (cases st) (simp_all add: pull_bytes_def tlsBackendPendingOutputStatusError_def)
qed

end

text \<open>
  A mailbox meets the contract, since the adapter passes a cleared length. Through the adapter a deposit
  comes out as a slice with exactly its bytes, and then there is nothing.
\<close>

lemma put_bytes_length:
  "length bs \<le> length buf \<Longrightarrow>
     \<exists>buf'. put_bytes (Some buf) bs = Some buf' \<and> length buf' = length buf \<and> take (length bs) buf' = bs"
  by (simp add: put_bytes_def splice_def)

sublocale mailbox \<subseteq> mail_pull: pull_contract invar pull
proof (unfold_locales, goal_cases)
  case (1 s n buf)
  then have w: "writable (Some buf) n" by (simp add: writable_def)
  show ?case
  proof (cases "mail s")
    case None
    then show ?thesis using pull_empty [OF 1(1)] 1(1) clear_zero by simp
  next
    case (Some bs)
    have unat: "unat (word_of_nat (length bs) :: size_t) = length bs"
      using mail_bound [OF 1(1) Some] cap_size by (simp add: unat_of_nat)
    show ?thesis
    proof (cases "length bs \<le> unat n")
      case True
      with pull_delivers [OF 1(1) Some True w, of 0] obtain s' where
          "pull (Some buf) n 0 s = Some (QUICZ_TLS_BACKEND_OK, s', put_bytes (Some buf) bs, word_of_nat (length bs))"
          "invar s'" by blast
      with True 1(2) unat put_bytes_length [of bs buf] show ?thesis by auto
    next
      case False
      then show ?thesis using pull_too_small [OF 1(1) Some] 1(1) clear_zero by simp
    qed
  qed
qed

context mailbox begin

lemma pull_bytes_mail:
  assumes "invar s" and "mail s = Some bs" and "length bs \<le> length buf" and "length buf < 2 ^ 64"
  shows "\<exists>s' buf'. pull_bytes pull buf s = Some (Inr (Some bs), s', buf') \<and> invar s' \<and> mail s' = None"
proof -
  have n: "unat (word_of_nat (length buf) :: size_t) = length buf" "unat (word_of_nat (length bs) :: size_t) = length bs"
    using assms(3,4) by (simp_all add: unat_of_length)
  then have "length bs \<le> unat (word_of_nat (length buf) :: size_t)"
      "writable (Some buf) (word_of_nat (length buf) :: size_t)"
    using assms(3) by (simp_all add: writable_def)
  from pull_delivers [OF assms(1,2) this, of 0] obtain s' where
      "pull (Some buf) (word_of_nat (length buf)) 0 s =
         Some (QUICZ_TLS_BACKEND_OK, s', put_bytes (Some buf) bs, word_of_nat (length bs))"
      "invar s'" "mail s' = None" by blast
  with put_bytes_length [OF assms(3)] n assms(3) show ?thesis
    by (auto simp: pull_bytes_def tlsBackendPendingOutputStatusError_def)
qed

lemma pull_bytes_empty:
  "invar s \<Longrightarrow> mail s = None \<Longrightarrow> pull_bytes pull buf s = Some (Inr None, s, buf)"
  by (simp add: pull_bytes_def pull_empty clear_zero)

lemma deposit_pull_bytes:
  assumes "invar s" and "readable p n" and "unat n \<le> cap" and "unat n \<le> length buf" and "length buf < 2 ^ 64"
  shows "\<exists>s1 s2 buf'. deposit p n s = Some (True, s1) \<and>
    pull_bytes pull buf s1 = Some (Inr (Some (bytes_at p n)), s2, buf') \<and>
    (\<forall>buf2. pull_bytes pull buf2 s2 = Some (Inr None, s2, buf2))"
proof -
  obtain s1 where s1: "deposit p n s = Some (True, s1)" "invar s1" "mail s1 = Some (bytes_at p n)"
    using deposit_fits [OF assms(1-3)] by blast
  from pull_bytes_mail [OF s1(2,3) _ assms(5)] assms(2,4) s1(1) pull_bytes_empty show ?thesis
    by fastforce
qed

end

section \<open>The OpenSSL backend keeps the contract\<close>

lemma copy_pending_contract:
  assumes "be_ok b" and "level < 4" and "unat n = length buf"
  shows "\<exists>st b' buf' wl. copy_pending_outbound level (Some buf) n 0 b = Some (st, b', Some buf', wl) \<and>
    be_ok b' \<and> length buf' = length buf \<and> reported st wl (length buf) \<and>
    (st = QUICZ_TLS_BACKEND_PENDING \<longrightarrow> b' = b \<and> buf' = buf)"
proof -
  let ?q = "be_out (unat level) b"
  have l: "unat level < 4" using assms(2) by (simp add: word_less_nat_alt)
  have w: "writable (Some buf) n" using assms(3) by (simp add: writable_def)
  consider "?q = []" | "unat n < length ?q" | "?q \<noteq> []" "length ?q \<le> unat n" by linarith
  then show ?thesis
  proof cases
    case 3
    have "length ?q < 2 ^ 64" using 3(2) unsigned_less [of n, where ?'a = nat] by simp
    with 3 assms(3) put_bytes_length [of ?q buf] copy_pending_delivers [OF assms(1,2) 3 w, of 0]
      be_drained_ok(1) [OF assms(1) l] show ?thesis
      by (auto simp: unat_of_length)
  qed (use assms copy_pending_none copy_pending_too_small in auto)
qed

definition be_present :: "backend option \<times> 'w \<Rightarrow> bool" where
  "be_present s \<longleftrightarrow> (\<exists>b. fst s = Some b \<and> be_ok b)"

lemma openssl_pull_contract:
  assumes "be_ok b" and "unat n = length buf"
  shows "\<exists>st b' buf' wl w'.
    quicz_openssl_tls_backend_pull L s (Some buf) n 0 w (Some b) = Some ((st, Some b', Some buf', wl), w') \<and>
    be_ok b' \<and> length buf' = length buf \<and> reported st wl (length buf)"
proof (cases "be_ssl b = None \<or> \<not> is_space s")
  case True
  with assms(1) show ?thesis by (auto simp: quicz_openssl_tls_backend_pull_def split: option.splits)
next
  case False
  then obtain ssl where ssl: "be_ssl b = Some ssl" and s: "is_space s" by auto
  let ?level = "space_level s"
  from copy_pending_contract [OF assms(1) _ assms(2), of ?level] obtain st1 b1 buf1 wl1 where
      1: "copy_pending_outbound ?level (Some buf) n 0 b = Some (st1, b1, Some buf1, wl1)" "be_ok b1"
        "length buf1 = length buf" "reported st1 wl1 (length buf)"
    by auto
  show ?thesis
  proof (cases "st1 \<noteq> QUICZ_TLS_BACKEND_PENDING \<or> ?level \<noteq> OSSL_RECORD_PROTECTION_LEVEL_NONE")
    case True
    then show ?thesis
      using 1 ssl s by (cases "st1 = QUICZ_TLS_BACKEND_PENDING")
        (auto simp: quicz_openssl_tls_backend_pull_def Let_def)
  next
    case False
    obtain rc w2 b2 where 2: "drive_backend L ssl w b1 = Some (rc, w2, b2)" "be_ok b2"
      using drive_backend_ok [OF 1(2), of L ssl w] by blast
    from copy_pending_contract [OF 2(2), of ?level n buf1] 1(3) assms(2) obtain st3 b3 buf3 wl3 where
        3: "copy_pending_outbound ?level (Some buf1) n 0 b2 = Some (st3, b3, Some buf3, wl3)" "be_ok b3"
          "length buf3 = length buf" "reported st3 wl3 (length buf)"
      by auto
    have "wl1 = 0" using False 1(4) by simp
    then show ?thesis
      using 1 2 3 ssl s False by (auto simp: quicz_openssl_tls_backend_pull_def Let_def)
  qed
qed

interpretation be_pull: pull_contract be_present "tb_pull (openssl_tls_backend L) s" for L s
proof (unfold_locales, goal_cases)
  case (1 st n buf)
  then obtain b w where "st = (Some b, w)" "be_ok b" by (cases st) (auto simp: be_present_def)
  with openssl_pull_contract [OF \<open>be_ok b\<close> 1(2), of L s w] show ?case
    by (auto simp: openssl_tls_backend_def be_present_def)
qed

interpretation demo_pull: pull_contract demo_ok "quicz_tls_c_demo_pull s" for s
proof (unfold_locales, goal_cases)
  case (1 d n buf)
  then show ?case
    using demo_out.mail_pull.pull_ok [OF 1]
    by (cases "s = QUICZ_TLS_BACKEND_HANDSHAKE") (simp_all add: quicz_tls_c_demo_pull_def [of s])
qed


lemma is_space_from [simp]: "is_space (fromPacketNumberSpace space)"
  by (cases space) (simp_all add: is_space_def)

lemma from_initial [simp]:
  "fromPacketNumberSpace space = QUICZ_TLS_BACKEND_INITIAL \<longleftrightarrow> space = Space_initial"
  by (cases space) (simp_all add: packet_space_defs)

lemma pullAdapter_openssl:
  "pullAdapter (openssl_tls_backend L) space buf (Some b, w) =
     pull_bytes (\<lambda>out n wl (c, w). map_option (\<lambda>((st, c', out', wl'), w'). (st, (c', w'), out', wl'))
       (quicz_openssl_tls_backend_pull L (fromPacketNumberSpace space) out n wl w c)) buf (Some b, w)"
  by (simp add: pullAdapter_def openssl_tls_backend_def)

lemma chunks_for_units: "chunks_for () (map (Pair ()) chunks) = concat chunks"
  by (induction chunks) simp_all

lemma pull_nothing:
  "be_ok b \<Longrightarrow> be_ssl b = Some ssl \<Longrightarrow> is_space s \<Longrightarrow> s \<noteq> QUICZ_TLS_BACKEND_INITIAL \<Longrightarrow>
     be_out (unat (space_level s)) b = [] \<Longrightarrow>
     quicz_openssl_tls_backend_pull L s out n wl w (Some b) = Some ((QUICZ_TLS_BACKEND_PENDING, Some b, out, 0), w)"
  using copy_pending_none [of b "space_level s"]
  by (auto simp: quicz_openssl_tls_backend_pull_def Let_def space_level_def ossl_level_defs is_space_def)

section \<open>Properties\<close>

text \<open>
  Property C20. Whatever C code is behind the callback table, and whatever it reports: a slice that the adapter
  hands to the transport starts at the front of the caller's buffer and ends within it, its length is what the
  callback reported, and the callback did not answer \<^verbatim>\<open>pending\<close> or an error. A length beyond the
  buffer is \<^verbatim>\<open>error.BufferTooSmall\<close> and \<^verbatim>\<open>pending\<close> with bytes is \<^verbatim>\<open>error.Internal\<close>.
\<close>

theorem pull_bytes_within:
  assumes "pull (Some buf) (word_of_nat (length buf)) 0 s = Some (st, s', Some buf', wl)"
  shows "\<exists>r. pull_bytes pull buf s = Some (r, s', buf') \<and>
    (\<forall>bs. r = Inr (Some bs) \<longleftrightarrow>
      st = QUICZ_TLS_BACKEND_OK \<and> unat wl \<le> length buf \<and> bs = take (unat wl) buf') \<and>
    (r = Inr None \<longleftrightarrow> st = QUICZ_TLS_BACKEND_PENDING \<and> wl = 0) \<and>
    (r = Inl Internal \<longleftrightarrow> st = QUICZ_TLS_BACKEND_INTERNAL \<or> st = QUICZ_TLS_BACKEND_PENDING \<and> wl \<noteq> 0) \<and>
    (r = Inl BufferTooSmall \<longleftrightarrow>
      st = QUICZ_TLS_BACKEND_BUFFER_TOO_SMALL \<or> st = QUICZ_TLS_BACKEND_OK \<and> length buf < unat wl)"
  using assms by (cases st) (auto simp: pull_bytes_def tlsBackendPendingOutputStatusError_def)

theorem pull_bytes_within_witness:
  "\<exists>r. pull_bytes (\<lambda>out n wl s. Some (QUICZ_TLS_BACKEND_PENDING, s, Some [170, 0], 1)) [0, 0] () =
      Some (r, (), [170, 0]) \<and> r = Inl Internal"
  using pull_bytes_within [of "\<lambda>out n wl s. Some (QUICZ_TLS_BACKEND_PENDING, s, Some [170, 0], 1)" "[0, 0]" "()"
      QUICZ_TLS_BACKEND_PENDING "()" "[170, 0]" 1]
  by auto

text \<open>
  Property C19. Over the OpenSSL backend, for any OpenSSL and any caller buffer, a pull through the Zig adapter
  returns and means exactly what the C function's status means: the bytes on \<^verbatim>\<open>OK\<close>, nothing on
  \<^verbatim>\<open>PENDING\<close>, the error of the same name otherwise. The checks of the adapter on the reported
  length never fire, and the backend keeps its invariant.
\<close>

theorem adapter_pull_exact:
  assumes "be_ok b" and "length buf < 2 ^ 64"
  shows "\<exists>st b' buf' wl w'.
    quicz_openssl_tls_backend_pull L (fromPacketNumberSpace space) (Some buf) (word_of_nat (length buf)) 0 w (Some b) =
      Some ((st, Some b', Some buf', wl), w') \<and> be_ok b' \<and> length buf' = length buf \<and>
    pullAdapter (openssl_tls_backend L) space buf (Some b, w) = Some
      (case st of
         QUICZ_TLS_BACKEND_OK \<Rightarrow> Inr (Some (take (unat wl) buf'))
       | QUICZ_TLS_BACKEND_PENDING \<Rightarrow> Inr None
       | QUICZ_TLS_BACKEND_BUFFER_TOO_SMALL \<Rightarrow> Inl BufferTooSmall
       | QUICZ_TLS_BACKEND_CRYPTO_ERROR \<Rightarrow> Inl CryptoError
       | QUICZ_TLS_BACKEND_INTERNAL \<Rightarrow> Inl Internal, (Some b', w'), buf')"
proof -
  have "be_present (Some b, w)" using assms(1) by (simp add: be_present_def)
  from be_pull.pull_bytes_status [OF this assms(2), of L "fromPacketNumberSpace space"] show ?thesis
    by (auto simp: pullAdapter_def openssl_tls_backend_def be_present_def)
qed

theorem adapter_pull_exact_witness:
  "\<exists>st b' buf' wl w'.
    quicz_openssl_tls_backend_pull (scripted_openssl (Engine_done 1 ())) 0 (Some [0, 0]) 2 0 () (Some be_example) =
      Some ((st, Some b', Some buf', wl), w') \<and> length buf' = 2"
  using adapter_pull_exact [OF be_example_ok(1), of "[0, 0]" "scripted_openssl (Engine_done 1 ())" Space_initial "()"]
  by (auto simp: packet_space_defs)

text \<open>
  Property C18. When nothing is pending for a space, the chunks that OpenSSL hands to \<^verbatim>\<open>crypto_send_cb\<close> at its
  level, not empty and of together at most 8192 bytes, come out of the next pull through the Zig adapter with a buffer
  of 8192 bytes as one slice with exactly those bytes, in order; a second pull in the Handshake or the Application
  space then has nothing.
\<close>

theorem adapter_outbound_delivered:
  assumes "be_writing (space_level (fromPacketNumberSpace space)) (Some b)"
    and "be_out (unat (space_level (fromPacketNumberSpace space))) b = []"
    and "concat chunks \<noteq> []" and "length (concat chunks) \<le> 8192" and "length buf = 8192"
  shows "\<exists>b1 b2 buf'. push_all (\<lambda>_. send_chunk) (map (Pair ()) chunks) (Some b) = Some (Some b1) \<and>
    pullAdapter (openssl_tls_backend L) space buf (Some b1, w) = Some (Inr (Some (concat chunks)), (Some b2, w), buf') \<and>
    (space \<noteq> Space_initial \<longrightarrow>
      pullAdapter (openssl_tls_backend L) space buf (Some b2, w) = Some (Inr None, (Some b2, w), buf))"
proof -
  let ?s = "fromPacketNumberSpace space"
  let ?l = "unat (space_level ?s)" and ?q = "concat chunks"
  have len: "length bs < 2 ^ 64" if "bs \<in> set chunks" for bs
    using assms(4) member_le_sum_list [of "length bs" "map length chunks"] that by (simp add: length_concat)
  have "admit 8192 (\<lambda>_. []) (map (Pair ()) chunks) () = ?q"
    using admit_all [of "\<lambda>_. []" "()" "map (Pair ()) chunks" 8192] assms(4) by (simp add: chunks_for_units)
  with sent_chunks_wait [OF assms(1), of chunks] len assms(2) obtain b1 ssl where
      b1: "push_all (\<lambda>_. send_chunk) (map (Pair ()) chunks) (Some b) = Some (Some b1)" "be_ok b1"
        "be_ssl b1 = Some ssl" "be_out ?l b1 = ?q"
    by auto
  from put_bytes_length [of ?q buf] assms(4,5) obtain buf' where
      buf': "put_bytes (Some buf) ?q = Some buf'" "take (length ?q) buf' = ?q" by auto
  have n: "unat (word_of_nat (length buf) :: size_t) = 8192" "unat (word_of_nat (length ?q) :: size_t) = length ?q"
    using assms(4,5) by (simp_all add: unat_of_length)
  let ?b2 = "be_drained ?l b1"
  have "pullAdapter (openssl_tls_backend L) space buf (Some b1, w) = Some (Inr (Some ?q), (Some ?b2, w), buf')"
    using pull_pending [OF b1(2,3), of ?s "word_of_nat (length buf)" "Some buf" L 0 w] assms(3,4,5) b1(4) buf' n
    by (simp add: pullAdapter_openssl pull_bytes_def tlsBackendPendingOutputStatusError_def writable_def)
  moreover have "pullAdapter (openssl_tls_backend L) space buf (Some ?b2, w) = Some (Inr None, (Some ?b2, w), buf)"
    if "space \<noteq> Space_initial"
    using pull_nothing [of ?b2 ssl ?s L "Some buf"] be_drained_ok [OF b1(2), of ?l] b1(3) that
    by (simp add: pullAdapter_openssl pull_bytes_def be_drained_def)
  ultimately show ?thesis using b1(1) by blast
qed


theorem adapter_outbound_delivered_witness:
  "\<exists>b1 b2 buf'. push_all (\<lambda>_. send_chunk) (map (Pair ()) [[1, 2], [3]]) (Some be_example) = Some (Some b1) \<and>
    pullAdapter (openssl_tls_backend (scripted_openssl (Engine_done 1 ()))) Space_initial (replicate 8192 0)
      (Some b1, ()) = Some (Inr (Some [1, 2, 3]), (Some b2, ()), buf')"
  using adapter_outbound_delivered [of Space_initial be_example "[[1, 2], [3]]" "replicate 8192 0"
      "scripted_openssl (Engine_done 1 ())" "()"] be_example_writing be_example_ok(9)
  by (auto simp: packet_space_defs)

text \<open>
  A receive through the Zig adapter over the OpenSSL backend appends the transport's bytes to the
  pending bytes of that packet number space and to no other, if they fit; otherwise it is
  \<^verbatim>\<open>error.BufferTooSmall\<close> and nothing changes. There is no third outcome.
\<close>

theorem adapter_receive_exact:
  assumes "be_ok b" and "be_ssl b \<noteq> None" and "length data < 2 ^ 64"
    and "l = (\<lambda>space. unat (space_level (fromPacketNumberSpace space)))"
  shows "if length (be_in (l space) b) + length data \<le> 8192
    then \<exists>b'. receiveAdapter (openssl_tls_backend L) space data (Some b, w) = Some (Inr (), (Some b', w)) \<and> be_ok b' \<and>
      (\<forall>space'. be_in (l space') b' = be_in (l space') b @ (if space' = space then data else []))
    else receiveAdapter (openssl_tls_backend L) space data (Some b, w) = Some (Inl BufferTooSmall, (Some b, w))"
proof -
  let ?s = "fromPacketNumberSpace space" and ?n = "word_of_nat (length data) :: size_t"
  have n: "unat ?n = length data" "readable (Some data) ?n" "bytes_at (Some data) ?n = data"
    using assms(3) by (simp_all add: unat_of_length bytes_at_def)
  have l: "l space' = l space \<longleftrightarrow> space' = space" for space'
    unfolding assms(4) by (cases space; cases space') (simp_all add: space_level_def packet_space_defs ossl_level_defs)
  show ?thesis
  proof (cases "length (be_in (l space) b) + length data \<le> 8192")
    case True
    with receive_fits [OF assms(1,2), of ?s "Some data" ?n] n obtain b' where
        "quicz_openssl_tls_backend_receive ?s (Some data) ?n (Some b) = Some (QUICZ_TLS_BACKEND_OK, Some b')" "be_ok b'"
        "\<forall>k < 4. be_in k b' = (if k = l space then be_in k b @ data else be_in k b)"
      by (auto simp: assms(4))
    moreover have "l space' < 4" for space' by (simp add: assms(4))
    ultimately show ?thesis
      using True l by (simp add: receiveAdapter_def openssl_tls_backend_def)
  next
    case False
    with receive_refused [OF assms(1,2), of ?s ?n "Some data"] n show ?thesis
      by (simp add: receiveAdapter_def openssl_tls_backend_def assms(4))
  qed
qed

theorem adapter_receive_exact_witness:
  "\<exists>b'. receiveAdapter (openssl_tls_backend (scripted_openssl (Engine_done 1 ()))) Space_handshake [4, 5]
      (Some be_example, ()) = Some (Inr (), (Some b', ())) \<and> be_in 2 b' = [4, 5]"
proof -
  have l: "unat (space_level (fromPacketNumberSpace Space_handshake)) = 2"
    by (simp add: space_level_def packet_space_defs ossl_level_defs)
  from adapter_receive_exact [OF be_example_ok(1) _ _ refl, of "[4, 5]" Space_handshake
      "scripted_openssl (Engine_done 1 ())" "()"] be_example_ok(2) be_example_ok(8) [of 2] l
  show ?thesis by (auto split: if_splits)
qed

text \<open>
  The peer's transport parameters reach the transport through the Zig adapter as OpenSSL reported
  them, once: after \<^verbatim>\<open>got_transport_params_cb\<close> the first pull with enough room returns these bytes and every
  later pull returns null.
\<close>

theorem adapter_peer_params_once:
  assumes "be_ok b" and "readable p n" and "unat n \<le> 512" and "unat n \<le> length buf" and "length buf < 2 ^ 64"
  shows "\<exists>rc c1 c2 buf'. got_transport_params_cb p n (Some b) = Some (rc, c1) \<and> rc \<noteq> 0 \<and>
    pullPeerTransportParametersAdapter (openssl_tls_backend L) buf (c1, w) =
      Some (Inr (Some (bytes_at p n)), (c2, w), buf') \<and>
    (\<forall>buf2. pullPeerTransportParametersAdapter (openssl_tls_backend L) buf2 (c2, w) = Some (Inr None, (c2, w), buf2))"
proof -
  have lift: "pullPeerTransportParametersAdapter (openssl_tls_backend L) buf (c, w) =
      map_option (\<lambda>(r, c', buf'). (r, (c', w), buf'))
        (pull_bytes quicz_openssl_tls_backend_pull_peer_transport_parameters buf c)" for buf c
    by (auto simp: pullPeerTransportParametersAdapter_def openssl_tls_backend_def pull_bytes_def
        split: option.splits Option.bind_splits)
  from be_peer.deposit_pull_bytes [of "Some b", OF _ assms(2-5)] assms(1) show ?thesis
    by (auto simp: lift deposit_params_def)
qed

theorem adapter_peer_params_once_witness:
  "\<exists>rc c1 c2 buf'. got_transport_params_cb (Some [7, 8]) 2 (Some be_example) = Some (rc, c1) \<and>
    pullPeerTransportParametersAdapter (openssl_tls_backend (scripted_openssl (Engine_done 1 ()))) [0, 0, 0] (c1, ()) =
      Some (Inr (Some [7, 8]), (c2, ()), buf')"
  using adapter_peer_params_once [OF be_example_ok(1), of "Some [7, 8]" 2 "[0, 0, 0]"
      "scripted_openssl (Engine_done 1 ())" "()"]
  by (auto simp: bytes_at_def)

text \<open>
  Over the C demo backend, the outbound CRYPTO bytes that the example configures reach the transport
  through the Zig adapter as one slice in the Handshake space, once; a pull in any other space is
  \<^verbatim>\<open>error.CryptoError\<close>.
\<close>

theorem adapter_demo_outbound:
  assumes "demo_ok d" and "readable p n" and "unat n \<le> 128" and "unat n \<le> length buf" and "length buf < 2 ^ 64"
  shows "\<exists>d1 d2 buf'. quicz_tls_c_demo_set_outbound_crypto p n d = Some (QUICZ_TLS_BACKEND_OK, d1) \<and>
    pullAdapter demo_tls_backend Space_handshake buf d1 = Some (Inr (Some (bytes_at p n)), d2, buf') \<and>
    (\<forall>buf2. pullAdapter demo_tls_backend Space_handshake buf2 d2 = Some (Inr None, d2, buf2)) \<and>
    (\<forall>space buf2. space \<noteq> Space_handshake \<longrightarrow>
      pullAdapter demo_tls_backend space buf2 d1 = Some (Inl CryptoError, d1, buf2))"
proof -
  have "pullAdapter demo_tls_backend space buf2 d1 = Some (Inl CryptoError, d1, buf2)"
    if "space \<noteq> Space_handshake" for space buf2 d1
    using that by (cases space) (simp_all add: pullAdapter_def demo_tls_backend_def pull_bytes_def
        quicz_tls_c_demo_pull_def packet_space_defs tlsBackendPendingOutputStatusError_def)
  with demo_out.deposit_pull_bytes [OF assms] show ?thesis
    by (auto simp: pullAdapter_def demo_tls_backend_def accepted_True)
qed

theorem adapter_demo_outbound_witness:
  "\<exists>d1 d2 buf'. quicz_tls_c_demo_set_outbound_crypto (Some [5, 6]) 2 demo_static = Some (QUICZ_TLS_BACKEND_OK, d1) \<and>
    pullAdapter demo_tls_backend Space_handshake [0, 0, 0] d1 = Some (Inr (Some [5, 6]), d2, buf')"
  using adapter_demo_outbound [OF demo_ok_static, of "Some [5, 6]" 2 "[0, 0, 0]"] by (auto simp: bytes_at_def)

end
