(* ===== verification/Packet_Number.thy ===== *)
theory Packet_Number
  imports Zig_Buffer
begin

text \<open>
  Variable-length integers and packet numbers (\<^verbatim>\<open>src/src/quic/packet.zig\<close>): the encoders, the decoders, the
  choice of how many bytes of a packet number go on the wire and the reconstruction at the receiver. A
  \<^verbatim>\<open>u8\<close> that holds a number of bytes is a \<open>nat\<close>.
\<close>

section \<open>Variable-length integers\<close>

definition max_packet_number :: u64 where
  "max_packet_number = push_bit 62 1 - 1"

definition max_quic_varint :: u64 where
  "max_quic_varint = push_bit 62 1 - 1"

definition encodeVarInt :: "u64 \<Rightarrow> (unit, fixed_writer) zig" where
  "encodeVarInt value =
     (if value \<le> 63 then writeByte (ucast value)
      else if value \<le> 16383 then
        writeAll [0b01000000 OR ucast (drop_bit 8 value), ucast (value AND 0xff)]
      else if value \<le> 1073741823 then
        writeAll [0b10000000 OR ucast (drop_bit 24 value), ucast (drop_bit 16 value AND 0xff),
          ucast (drop_bit 8 value AND 0xff), ucast (value AND 0xff)]
      else if value \<le> 4611686018427387903 then
        writeAll [0b11000000 OR ucast (drop_bit 56 value), ucast (drop_bit 48 value AND 0xff),
          ucast (drop_bit 40 value AND 0xff), ucast (drop_bit 32 value AND 0xff), ucast (drop_bit 24 value AND 0xff),
          ucast (drop_bit 16 value AND 0xff), ucast (drop_bit 8 value AND 0xff), ucast (value AND 0xff)]
      else zfail InvalidVarInt)"

definition decodeVarInt :: "(u64 \<times> nat, 'm fixed_reader_scheme) zig" where
  "decodeVarInt = zbind readByte (\<lambda>first.
     let prefix = drop_bit 6 first; low = ucast (first AND 0x3f) :: u64 in
     if prefix = 0 then zret (low, 1)
     else if prefix = 1 then zbind (readNoEof 1) (\<lambda>buf. zret (push_bit 8 low OR ucast (buf ! 0), 2))
     else if prefix = 2 then zbind (readNoEof 3) (\<lambda>buf.
       zret (push_bit 24 low OR push_bit 16 (ucast (buf ! 0)) OR push_bit 8 (ucast (buf ! 1)) OR ucast (buf ! 2), 4))
     else zbind (readNoEof 7) (\<lambda>buf. zret (fold (\<lambda>b value. push_bit 8 value OR ucast b) buf low, 8)))"

text \<open>The encoding as a list of bytes.\<close>

definition varint_bytes :: "u64 \<Rightarrow> byte list" where
  "varint_bytes value =
     (if value \<le> 63 then [ucast value]
      else if value \<le> 16383 then [0x40 OR ucast (drop_bit 8 value), ucast (value AND 0xff)]
      else if value \<le> 1073741823 then
        [0x80 OR ucast (drop_bit 24 value), ucast (drop_bit 16 value AND 0xff), ucast (drop_bit 8 value AND 0xff),
         ucast (value AND 0xff)]
      else
        [0xc0 OR ucast (drop_bit 56 value), ucast (drop_bit 48 value AND 0xff), ucast (drop_bit 40 value AND 0xff),
         ucast (drop_bit 32 value AND 0xff), ucast (drop_bit 24 value AND 0xff), ucast (drop_bit 16 value AND 0xff),
         ucast (drop_bit 8 value AND 0xff), ucast (value AND 0xff)])"

lemma max_quic_varint_eq: "max_quic_varint = 4611686018427387903" "max_packet_number = 4611686018427387903"
  by (simp_all add: max_quic_varint_def max_packet_number_def)

lemma encodeVarInt_writes: "v \<le> max_quic_varint \<Longrightarrow> writes (encodeVarInt v) (varint_bytes v)"
  by (auto simp: encodeVarInt_def varint_bytes_def max_quic_varint_eq intro: writes_byte writes_all)

lemma encodeVarInt_too_large: "\<not> v \<le> max_quic_varint \<Longrightarrow> encodeVarInt v = zfail InvalidVarInt"
  by (auto simp: encodeVarInt_def max_quic_varint_eq word_le_nat_alt)

lemma length_varint_bytes:
  "length (varint_bytes v) = (if v \<le> 63 then 1 else if v \<le> 16383 then 2 else if v \<le> 1073741823 then 4 else 8)"
  by (simp add: varint_bytes_def)

text \<open>Words below a power of two, and the byte-by-byte composition of a word from its bytes.\<close>

lemma take_bit_below: "unat (v :: u64) < 2 ^ n \<Longrightarrow> take_bit n v = v"
  by (simp add: word_unat_eq_iff unsigned_take_bit_eq take_bit_nat_eq_self)

lemma bit_below: "unat (v :: u64) < 2 ^ n \<Longrightarrow> bit v k \<Longrightarrow> k < n"
  using take_bit_below [of v n] bit_take_bit_iff [of n v k] by simp

lemma byte_masks: "(0xff :: u64) = mask 8" "(0x3f :: byte) = mask 6"
  by (simp_all add: mask_eq_exp_minus_1)

lemma append_byte: "push_bit 8 (drop_bit (k + 8) v) OR ucast (ucast (drop_bit k v AND 0xff) :: byte) = drop_bit k (v :: u64)"
  unfolding byte_masks
proof (rule bit_word_eqI)
  fix n
  show "bit (push_bit 8 (drop_bit (k + 8) v) OR ucast (ucast (drop_bit k v AND mask 8) :: byte)) n = bit (drop_bit k v) n"
    if "n < LENGTH(64)"
    using that by (cases "n < 8") (auto simp: bit_simps)
qed

lemma append_byte_0: "push_bit 8 (drop_bit 8 v) OR ucast (ucast (v AND 0xff) :: byte) = (v :: u64)"
  using append_byte [of 0 v] by simp

lemma or_in_blocks:
  "push_bit 24 a OR push_bit 16 b OR push_bit 8 c OR d = push_bit 8 (push_bit 8 (push_bit 8 a OR b) OR c) OR (d :: u64)"
  by (simp add: push_bit_or or.assoc)

lemma first_byte:
  assumes "unat (v :: u64) < 2 ^ (k + 6)" and "p < 4"
  shows "drop_bit 6 (push_bit 6 p OR ucast (drop_bit k v) :: byte) = p"
    "ucast ((push_bit 6 p OR ucast (drop_bit k v) :: byte) AND 0x3f) = drop_bit k v"
proof -
  have v: "n < k + 6" if "bit v n" for n using bit_below [OF assms(1) that] .
  have p: "n < 2" if "bit p n" for n
  proof (rule ccontr)
    assume "\<not> n < 2"
    have "take_bit 2 p = p" using assms(2) by (simp add: word_unat_eq_iff unsigned_take_bit_eq word_less_nat_alt
        take_bit_nat_eq_self)
    with that \<open>\<not> n < 2\<close> show False using bit_take_bit_iff [of 2 p n] by simp
  qed
  show "drop_bit 6 (push_bit 6 p OR ucast (drop_bit k v) :: byte) = p"
    by (rule bit_word_eqI) (use v p in \<open>fastforce simp: bit_simps\<close>)
  show "ucast ((push_bit 6 p OR ucast (drop_bit k v) :: byte) AND 0x3f) = drop_bit k v"
    unfolding byte_masks by (rule bit_word_eqI) (use v in \<open>fastforce simp: bit_simps\<close>)
qed

lemma prefixes: "(0 :: byte) = push_bit 6 0" "(0x40 :: byte) = push_bit 6 1" "(0x80 :: byte) = push_bit 6 2" "(0xc0 :: byte) = push_bit 6 3"
  by simp_all

lemma reads_byte_then: "reads (f b) bs P \<Longrightarrow> reads (zbind readByte f) (b # bs) P"
  using reads_bind [OF reads_byte, of b f bs P] by simp

lemma reads_block_then:
  "length bs = n \<Longrightarrow> P (g bs) \<Longrightarrow> reads (zbind (readNoEof n) (\<lambda>buf. zret (g buf))) bs P"
  using reads_bind [OF reads_no_eof [of n bs], of "\<lambda>buf. zret (g buf)" "[]" P] by auto

lemma decodeVarInt_reads:
  assumes "v \<le> max_quic_varint"
  shows "reads decodeVarInt (varint_bytes v) (\<lambda>x. x = (v, length (varint_bytes v)))"
proof -
  consider "v \<le> 63" | "\<not> v \<le> 63" "v \<le> 16383" | "\<not> v \<le> 16383" "v \<le> 1073741823" | "\<not> v \<le> 1073741823" by linarith
  then show ?thesis
  proof cases
    case 1
    then have "unat v < 2 ^ (0 + 6)" by (simp add: word_le_nat_alt)
    note f = first_byte [OF this, of 0, simplified]
    from 1 show ?thesis
      by (simp add: varint_bytes_def decodeVarInt_def) (rule reads_byte_then, simp add: f reads_ret)
  next
    case 2
    then have "unat v < 2 ^ (8 + 6)" by (simp add: word_le_nat_alt)
    note f = first_byte [OF this, of 1, folded prefixes, simplified]
    from 2 show ?thesis
      by (simp add: varint_bytes_def decodeVarInt_def)
        (rule reads_byte_then, simp add: f, rule reads_block_then, simp_all add: append_byte_0)
  next
    case 3
    then have n: "\<not> v \<le> 63" "unat v < 2 ^ (24 + 6)" by (auto simp: word_le_nat_alt)
    note f = first_byte [OF n(2), of 2, folded prefixes, simplified]
    have v: "push_bit 24 (drop_bit 24 v) OR push_bit 16 (ucast (ucast (drop_bit 16 v AND 0xff) :: byte)) OR
        push_bit 8 (ucast (ucast (drop_bit 8 v AND 0xff) :: byte)) OR ucast (ucast (v AND 0xff) :: byte) = v"
      by (simp only: or_in_blocks append_byte [where k = 16, simplified] append_byte [where k = 8, simplified]
          append_byte_0)
    from 3 n show ?thesis
      by (simp add: varint_bytes_def decodeVarInt_def)
        (rule reads_byte_then, simp add: f, rule reads_block_then, simp_all add: v)
  next
    case 4
    then have n: "\<not> v \<le> 63" "\<not> v \<le> 16383" "unat v < 2 ^ (56 + 6)"
      using assms by (auto simp: word_le_nat_alt max_quic_varint_eq)
    note f = first_byte [OF n(3), of 3, folded prefixes, simplified]
    from 4 n show ?thesis
      by (simp add: varint_bytes_def decodeVarInt_def)
        (rule reads_byte_then, simp add: f, rule reads_block_then, simp_all add: append_byte_0 append_byte [where k = 48, simplified]
          append_byte [where k = 40, simplified] append_byte [where k = 32, simplified] append_byte [where k = 24, simplified]
          append_byte [where k = 16, simplified] append_byte [where k = 8, simplified])
  qed
qed


text \<open>The value of a decoded integer is in range whatever the bytes are.\<close>

lemma below_bits:
  assumes "\<And>k. bit (v :: u64) k \<Longrightarrow> k < n"
  shows "unat v < 2 ^ n"
proof -
  have "take_bit n v = v" by (rule bit_word_eqI) (use assms in \<open>auto simp: bit_take_bit_iff\<close>)
  then have "take_bit n (unat v) = unat v" by (metis unsigned_take_bit_eq)
  then show ?thesis by (simp add: take_bit_nat_eq_self_iff)
qed

lemma byte_bits: "bit (b :: byte) k \<Longrightarrow> k < 8" "bit (b AND 0x3f :: byte) k \<Longrightarrow> k < 6"
  using bit_imp_le_length [of b k] unfolding byte_masks by (simp_all add: bit_simps)

lemma fold_bytes_bits:
  "(\<And>k. bit (value :: u64) k \<Longrightarrow> k < n) \<Longrightarrow> bit (fold (\<lambda>b value. push_bit 8 value OR ucast (b :: byte)) buf value) k \<Longrightarrow>
     k < n + 8 * length buf"
proof (induction buf arbitrary: "value" n k)
  case (Cons b buf)
  have "j < n + 8" if "bit (push_bit 8 value OR ucast b :: u64) j" for j
    using that Cons.prems(1) [of "j - 8"] byte_bits(1) [of b j] by (auto simp: bit_simps)
  with Cons.IH [of "push_bit 8 value OR ucast b" "n + 8" k] Cons.prems(2) show ?case by simp
qed simp

lemma varint_in_range: "(\<And>k. bit v k \<Longrightarrow> k < 62) \<Longrightarrow> v \<le> max_quic_varint"
  using below_bits [of v 62] by (simp add: max_quic_varint_eq word_le_nat_alt)

lemma decodeVarInt_value: "yields decodeVarInt (\<lambda>(v, n). v \<le> max_quic_varint \<and> n \<in> {1, 2, 4, 8})"
proof -
  let ?P = "\<lambda>(v, n :: nat). v \<le> max_quic_varint \<and> n \<in> {1, 2, 4, 8}"
  let ?low = "\<lambda>first :: byte. ucast (first AND 0x3f) :: u64"
  have low: "k < 6" if "bit (?low first) k" for first k using that byte_bits(2) [of first k] by (simp add: bit_ucast_iff)
  have byte: "k < 8" if "bit (ucast (b :: byte) :: u64) k" for b k using that byte_bits(1) [of b k] by (simp add: bit_ucast_iff)
  have 1: "?low first \<le> max_quic_varint" for first
    by (rule varint_in_range) (use low [of first] in fastforce)
  have 2: "push_bit 8 (?low first) OR ucast (b :: byte) \<le> max_quic_varint" for first b
    by (rule varint_in_range) (auto simp: bit_or_iff bit_push_bit_iff dest!: low byte)
  have 3: "push_bit 24 (?low first) OR push_bit 16 (ucast (a :: byte)) OR push_bit 8 (ucast (b :: byte)) OR
      ucast (c :: byte) \<le> max_quic_varint" for first a b c
    by (rule varint_in_range) (auto simp: bit_or_iff bit_push_bit_iff dest!: low byte)
  have 4: "fold (\<lambda>b value. push_bit 8 value OR ucast (b :: byte)) buf (?low first) \<le> max_quic_varint"
    if "length buf = 7" for first buf
    by (rule varint_in_range) (use fold_bytes_bits [of "?low first" 6 buf] low [of first] that in fastforce)
  show ?thesis
    unfolding decodeVarInt_def Let_def
    by (intro yields_bind_any) (auto intro!: yields_bind_any yields_basic yields_bind [OF yields_no_eof] simp: 1 2 3 4)
qed

lemma decodeVarInt_advances: "advances decodeVarInt"
  by (simp add: decodeVarInt_def Let_def advances_bind advances_basic)

lemma decodeVarInt_moves: "moves decodeVarInt"
  unfolding decodeVarInt_def by (rule moves_bind) (simp_all add: Let_def advances_bind advances_basic moves_byte)

lemma decodeVarInt_mem_safe: "mem_safe decodeVarInt (\<lambda>_. [])"
  by (auto simp: decodeVarInt_def Let_def intro!: mem_safe_bind mem_safe_basic)

section \<open>Packet numbers\<close>

record packet_number_encoding =
  pne_len :: nat
  pne_truncated :: "32 word"

definition packetNumberLen :: "u64 \<Rightarrow> nat zig_result" where
  "packetNumberLen packet_number =
     (if packet_number \<le> 0xff then Inr 1
      else if packet_number \<le> 0xffff then Inr 2
      else if packet_number \<le> 0xffffff then Inr 3
      else if packet_number \<le> 0xffffffff then Inr 4
      else Inl InvalidPacketNumber)"

definition packetNumberEncodingLenForUnacked :: "u64 \<Rightarrow> nat zig_result" where
  "packetNumberEncodingLenForUnacked num_unacked_packets =
     (if num_unacked_packets = 0 then Inl InvalidPacketNumber
      else if num_unacked_packets \<le> push_bit 7 1 then Inr 1
      else if num_unacked_packets \<le> push_bit 15 1 then Inr 2
      else if num_unacked_packets \<le> push_bit 23 1 then Inr 3
      else if num_unacked_packets \<le> push_bit 31 1 then Inr 4
      else Inl InvalidPacketNumber)"

definition encodePacketNumberForHeader :: "u64 \<Rightarrow> u64 option \<Rightarrow> packet_number_encoding zig_result" where
  "encodePacketNumberForHeader packet_number largest_acked =
     (if packet_number > max_packet_number then Inl InvalidPacketNumber
      else ztry
        (case largest_acked of
           Some largest \<Rightarrow>
             if largest > max_packet_number \<or> packet_number \<le> largest then Inl InvalidPacketNumber
             else Inr (packet_number - largest)
         | None \<Rightarrow> (case math_add packet_number 1 of None \<Rightarrow> Inl InvalidPacketNumber | Some n \<Rightarrow> Inr n))
        (\<lambda>num_unacked_packets. ztry (packetNumberEncodingLenForUnacked num_unacked_packets)
        (\<lambda>len. let mask = push_bit (len * 8) 1 - 1 in
           Inr \<lparr>pne_len = len, pne_truncated = ucast (packet_number AND mask)\<rparr>)))"

definition packet_number_bytes :: "u64 \<Rightarrow> nat \<Rightarrow> byte list" where
  "packet_number_bytes packet_number pn_len =
     map (\<lambda>i. ucast (drop_bit ((pn_len - 1 - i) * 8) packet_number AND 0xff)) [0..<pn_len]"

definition encodePacketNumber :: "u64 \<Rightarrow> nat \<Rightarrow> (unit, fixed_writer) zig" where
  "encodePacketNumber packet_number pn_len = writeAll (packet_number_bytes packet_number pn_len)"

definition validatePacketNumberEncoding :: "packet_number_encoding \<Rightarrow> unit zig_result" where
  "validatePacketNumberEncoding encoding =
     (if pne_len encoding = 0 \<or> pne_len encoding > 4 then Inl InvalidPacketNumber
      else let mask = push_bit (pne_len encoding * 8) 1 - 1 :: u64 in
        if ucast (pne_truncated encoding) > mask then Inl InvalidPacketNumber else Inr ())"

definition validatePacketNumberEncodingMatches :: "u64 \<Rightarrow> packet_number_encoding \<Rightarrow> unit zig_result" where
  "validatePacketNumberEncodingMatches packet_number encoding =
     (if packet_number > max_packet_number then Inl InvalidPacketNumber
      else ztry (validatePacketNumberEncoding encoding) (\<lambda>_.
        let mask = push_bit (pne_len encoding * 8) 1 - 1 in
        if ucast (pne_truncated encoding) \<noteq> packet_number AND mask then Inl InvalidPacketNumber else Inr ()))"

text \<open>The loop of \<^verbatim>\<open>decodePacketNumber\<close> over the remaining bytes.\<close>

fun decodePacketNumber_loop :: "nat \<Rightarrow> u64 \<Rightarrow> (u64, 'm fixed_reader_scheme) zig" where
  "decodePacketNumber_loop 0 value = zret value"
| "decodePacketNumber_loop (Suc n) value =
     zbind readByte (\<lambda>b. decodePacketNumber_loop n (push_bit 8 value OR ucast b))"

definition decodePacketNumber :: "nat \<Rightarrow> (u64, 'm fixed_reader_scheme) zig" where
  "decodePacketNumber pn_len = decodePacketNumber_loop pn_len 0"

definition saturating :: "u64 option \<Rightarrow> u64" where
  "saturating r = (case r of None \<Rightarrow> - 1 | Some x \<Rightarrow> x)"

definition reconstructPacketNumber :: "u64 \<Rightarrow> u64 \<Rightarrow> nat \<Rightarrow> u64 zig_result" where
  "reconstructPacketNumber expected_packet_number truncated_packet_number pn_len =
     (if pn_len = 0 \<or> pn_len > 4 then Inl InvalidPacketNumber
      else if expected_packet_number > max_packet_number + 1 then Inl InvalidPacketNumber
      else let
        pn_window = push_bit (pn_len * 8) 1;
        pn_half_window = pn_window div 2;
        pn_mask = pn_window - 1 in
      if truncated_packet_number > pn_mask then Inl InvalidPacketNumber
      else let
        candidate = (expected_packet_number AND NOT pn_mask) OR truncated_packet_number;
        candidate_plus_half = saturating (math_add candidate pn_half_window) in
      ztry
        (if candidate_plus_half \<le> expected_packet_number then
           (case math_add candidate pn_window of None \<Rightarrow> Inl InvalidPacketNumber | Some d \<Rightarrow> Inr d)
         else let expected_plus_half = saturating (math_add expected_packet_number pn_half_window) in
           Inr (if candidate > expected_plus_half \<and> candidate \<ge> pn_window then candidate - pn_window else candidate))
        (\<lambda>decoded. if decoded > max_packet_number then Inl InvalidPacketNumber else Inr decoded))"

section \<open>Properties of packet numbers\<close>

text \<open>The window of a truncated packet number, as a number.\<close>

lemma window_props:
  assumes "1 \<le> n" and "n \<le> 4"
  shows "unat (push_bit (n * 8) 1 :: u64) = 2 ^ (n * 8)" "(push_bit (n * 8) 1 - 1 :: u64) = mask (n * 8)"
    "unat (push_bit (n * 8) 1 div 2 :: u64) = 2 ^ (n * 8) div 2" "(2 :: nat) ^ (n * 8) \<le> 2 ^ 32"
    "unat (mask (n * 8) :: u64) = 2 ^ (n * 8) - 1"
proof -
  consider "n = 1" | "n = 2" | "n = 3" | "n = 4" using assms by linarith
  then show "unat (push_bit (n * 8) 1 :: u64) = 2 ^ (n * 8)" "(push_bit (n * 8) 1 - 1 :: u64) = mask (n * 8)"
    "unat (push_bit (n * 8) 1 div 2 :: u64) = 2 ^ (n * 8) div 2" "(2 :: nat) ^ (n * 8) \<le> 2 ^ 32"
    "unat (mask (n * 8) :: u64) = 2 ^ (n * 8) - 1"
    by (cases; simp add: mask_eq_exp_minus_1)+
qed

lemma candidate_unat:
  assumes "n \<le> 32" and "unat t < 2 ^ n"
  shows "unat ((e AND NOT (mask n)) OR t :: u64) = unat e - unat e mod 2 ^ n + unat t"
proof -
  have e: "e AND NOT (mask n) = push_bit n (drop_bit n e)"
    by (rule bit_word_eqI) (auto simp: bit_simps)
  have "(e AND NOT (mask n)) AND t = 0"
  proof (rule bit_word_eqI)
    show "bit ((e AND NOT (mask n)) AND t) k = bit 0 k" for k
      using bit_below [OF assms(2), of k] by (auto simp: bit_simps)
  qed
  then have "(e AND NOT (mask n)) OR t = (e AND NOT (mask n)) + t"
    by (simp add: disjunctive_add_eq_or)
  moreover have "unat (e AND NOT (mask n)) = unat e - unat e mod 2 ^ n"
  proof -
    have "e = (e AND NOT (mask n)) + take_bit n e"
      using bits_ident [of n e] by (simp add: e)
    then have "e AND NOT (mask n) = e - take_bit n e" by (simp add: eq_diff_eq)
    moreover have u: "unat (take_bit n e) = unat e mod 2 ^ n" by (metis unsigned_take_bit_eq take_bit_eq_mod)
    then have "take_bit n e \<le> e" by (simp add: word_le_nat_alt)
    ultimately show ?thesis using u by (simp add: unat_sub)
  qed
  moreover have "unat e - unat e mod 2 ^ n + unat t < 2 ^ 64"
  proof -
    have "(unat e div 2 ^ n + 1) * 2 ^ n \<le> 2 ^ 64"
    proof -
      have "unat e < 2 ^ (64 - n) * 2 ^ n" using assms(1) unsigned_less [of e, where ?'a = nat] by (simp flip: power_add)
      then have "unat e div 2 ^ n < 2 ^ (64 - n)" by (simp add: less_mult_imp_div_less)
      then have "(unat e div 2 ^ n + 1) * 2 ^ n \<le> 2 ^ (64 - n) * 2 ^ n" by (intro mult_le_mono1) simp
      then show ?thesis using assms(1) by (simp flip: power_add)
    qed
    moreover have "unat e - unat e mod 2 ^ n = unat e div 2 ^ n * 2 ^ n"
      by (simp add: minus_mod_eq_div_mult)
    ultimately show ?thesis using assms(2) by simp
  qed
  ultimately show ?thesis by (simp add: unat_word_ariths)
qed
text \<open>The reconstruction in terms of natural numbers.\<close>

definition closest_packet_number :: "nat \<Rightarrow> nat \<Rightarrow> nat \<Rightarrow> nat" where
  "closest_packet_number e t window =
     (let c = e - e mod window + t in
      if c + window div 2 \<le> e then c + window
      else if c > e + window div 2 \<and> c \<ge> window then c - window else c)"

lemma closest_packet_number_is:
  assumes "w = 2 * h" and "0 < h" and "t = pn mod w" and "e < pn + h" and "pn \<le> e + h"
  shows "closest_packet_number e t w = pn"
proof -
  define q p s where "q = e div w" and "p = pn div w" and "s = e mod w"
  have "0 < w" using assms(1,2) by simp
  then have e: "e = q * w + s" "s < w" and pn: "pn = p * w + t" "t < w"
    unfolding q_def p_def s_def assms(3) by simp_all
  have c: "e - e mod w + t = q * w + t" using e by simp
  have "p \<le> q + 1"
  proof (rule ccontr)
    assume "\<not> p \<le> q + 1"
    then have "(q + 2) * w \<le> p * w" by (intro mult_le_mono1) simp
    then show False using assms e pn by (simp add: algebra_simps)
  qed
  moreover have "q \<le> p + 1"
  proof (rule ccontr)
    assume "\<not> q \<le> p + 1"
    then have "(p + 2) * w \<le> q * w" by (intro mult_le_mono1) simp
    then show False using assms e pn by (simp add: algebra_simps)
  qed
  ultimately consider "p = q" | "p = q + 1" | "q = p + 1" by linarith
  then have pn': "pn = q * w + t \<or> pn = q * w + w + t \<or> pn + w = q * w + t"
    unfolding pn(1) by cases (simp_all add: algebra_simps)
  have "closest_packet_number e t w = (if q * w + t + h \<le> e then q * w + t + w
      else if q * w + t > e + h \<and> q * w + t \<ge> w then q * w + t - w else q * w + t)"
    unfolding closest_packet_number_def c Let_def using assms(1) by simp
  with pn' show ?thesis using assms(1,2,4,5) e pn(2) by auto
qed

lemma math_add_fits:
  assumes "unat a + unat b < 2 ^ 64"
  shows "math_add a b = Some (a + b)" "unat (a + b) = unat a + unat b"
  using assms by (simp_all add: math_add_def unat_word_ariths)

lemma reconstruct_closest:
  assumes "1 \<le> n" and "n \<le> 4" and "unat e \<le> 2 ^ 62" and "unat t < 2 ^ (n * 8)"
  shows "reconstructPacketNumber e t n =
    (let r = closest_packet_number (unat e) (unat t) (2 ^ (n * 8)) in
     if r \<le> 4611686018427387903 then Inr (word_of_nat r) else Inl InvalidPacketNumber)"
proof -
  define W :: u64 where "W = push_bit (n * 8) 1"
  define c where "c = (e AND NOT (W - 1)) OR t"
  define k :: nat where "k = 2 ^ (n * 8)"
  note win = window_props [OF assms(1,2), folded W_def]
  have W: "unat W = k" "unat (W div 2) = k div 2" "W - 1 = mask (n * 8)" "k \<le> 2 ^ 32"
    using win by (simp_all add: k_def)
  have t: "\<not> t > W - 1" using assms(4) win(2,5) by (simp add: word_less_nat_alt)
  have c: "unat c = unat e - unat e mod k + unat t"
    unfolding c_def win(2) k_def by (rule candidate_unat) (use assms in simp_all)
  have small: "unat c + k < 2 ^ 64" "unat e + k < 2 ^ 64"
    using assms(3,4) W(4) c by (auto simp flip: k_def)
  have adds: "math_add c W = Some (c + W)" "unat (c + W) = unat c + k"
      "math_add c (W div 2) = Some (c + W div 2)" "unat (c + W div 2) = unat c + k div 2"
      "math_add e (W div 2) = Some (e + W div 2)" "unat (e + W div 2) = unat e + k div 2"
    using math_add_fits [of c W] math_add_fits [of c "W div 2"] math_add_fits [of e "W div 2"] small W(1,2) by simp_all
  have e: "\<not> e > max_packet_number + 1"
    using assms(3) by (simp add: max_quic_varint_eq word_less_nat_alt)
  have "reconstructPacketNumber e t n =
      ztry (if c + W div 2 \<le> e then Inr (c + W)
            else Inr (if c > e + W div 2 \<and> c \<ge> W then c - W else c))
        (\<lambda>d. if d > max_packet_number then Inl InvalidPacketNumber else Inr d)"
    unfolding reconstructPacketNumber_def Let_def W_def [symmetric] c_def [symmetric] saturating_def adds(1,3,5) option.case
    using assms(1,2) e t by simp
  moreover have "c + W div 2 \<le> e \<longleftrightarrow> unat c + k div 2 \<le> unat e"
      "c > e + W div 2 \<longleftrightarrow> unat c > unat e + k div 2" "c \<ge> W \<longleftrightarrow> unat c \<ge> k"
    using adds(4,6) W(1) by (simp_all add: word_le_nat_alt word_less_nat_alt)
  moreover have "unat (c - W) = unat c - k" if "unat c \<ge> k"
    using that W(1) by (simp add: unat_sub word_le_nat_alt)
  moreover have "(if d > max_packet_number then Inl InvalidPacketNumber else Inr d) =
      (if unat d \<le> 4611686018427387903 then Inr (word_of_nat (unat d)) else Inl InvalidPacketNumber)" for d :: u64
    by (simp add: max_quic_varint_eq word_less_nat_alt)
  ultimately show ?thesis
    unfolding closest_packet_number_def Let_def k_def [symmetric] c [symmetric]
    using adds(2) W(1) [symmetric] by simp
qed


text \<open>
  The bytes of a truncated packet number: as many as the encoding says, and decoding them gives it back.
\<close>

lemma length_packet_number_bytes [simp]: "length (packet_number_bytes pn n) = n"
  by (simp add: packet_number_bytes_def)

lemma packet_number_bytes_Suc:
  "packet_number_bytes pn (Suc n) = ucast (drop_bit (n * 8) pn AND 0xff) # packet_number_bytes pn n"
  unfolding packet_number_bytes_def by (subst upt_conv_Cons) (simp_all add: map_Suc_upt [symmetric] del: upt_Suc)

lemma decodePacketNumber_reads_from:
  "reads (decodePacketNumber_loop n (drop_bit (n * 8) pn)) (packet_number_bytes pn n) (\<lambda>x. x = pn)"
proof (induction n)
  case 0
  then show ?case by (auto simp: packet_number_bytes_def)
next
  case (Suc n)
  then show ?case
    using append_byte [of "n * 8" pn]
    by (auto simp: packet_number_bytes_Suc add.commute intro!: reads_byte_then)
qed

lemma decodePacketNumber_reads:
  assumes "unat pn < 2 ^ (n * 8)"
  shows "reads (decodePacketNumber n) (packet_number_bytes pn n) (\<lambda>x. x = pn)"
proof -
  have "unat (drop_bit (n * 8) pn) = unat pn div 2 ^ (n * 8)" by (metis drop_bit_eq_div unat_drop_bit_eq)
  then have "drop_bit (n * 8) pn = 0" using assms by (simp add: unat_eq_zero)
  with decodePacketNumber_reads_from [of n pn] show ?thesis by (simp add: decodePacketNumber_def)
qed

lemma decodePacketNumber_advances: "advances (decodePacketNumber n)"
proof -
  have "advances (decodePacketNumber_loop n v)" for v
    by (induction n arbitrary: v) (simp_all add: advances_basic advances_bind)
  then show ?thesis by (simp add: decodePacketNumber_def)
qed

text \<open>What the encoder chose: the low bytes of the packet number, in a window more than twice the distance.\<close>

lemma packetNumberEncodingLenForUnacked_Inr:
  assumes "packetNumberEncodingLenForUnacked m = Inr n"
  shows "1 \<le> n" "n \<le> 4" "unat m \<le> 2 ^ (n * 8) div 2"
  using assms by (auto simp: packetNumberEncodingLenForUnacked_def word_le_nat_alt split: if_splits)

lemma encodePacketNumberForHeader_cases:
  assumes "encodePacketNumberForHeader pn la = Inr enc"
  obtains n where "pne_len enc = n" "1 \<le> n" "n \<le> 4" "unat (pne_truncated enc) = unat pn mod 2 ^ (n * 8)"
    "unat pn \<le> 4611686018427387903"
    "case la of None \<Rightarrow> unat pn + 1 \<le> 2 ^ (n * 8) div 2 | Some l \<Rightarrow> unat pn \<le> unat l + 2 ^ (n * 8) div 2"
proof -
  from assms obtain m n where
      m: "case la of None \<Rightarrow> unat m = unat pn + 1 | Some l \<Rightarrow> l < pn \<and> m = pn - l"
      and n: "packetNumberEncodingLenForUnacked m = Inr n" and pn: "unat pn \<le> 4611686018427387903"
      and enc: "enc = \<lparr>pne_len = n, pne_truncated = ucast (pn AND (push_bit (n * 8) 1 - 1))\<rparr>"
    unfolding encodePacketNumberForHeader_def Let_def
    by (auto simp: max_quic_varint_eq word_less_nat_alt word_le_nat_alt simp del: push_bit_of_1
        split: option.splits if_splits)
  note n' = packetNumberEncodingLenForUnacked_Inr [OF n] and win = window_props [OF packetNumberEncodingLenForUnacked_Inr(1,2) [OF n]]
  have "pn AND (push_bit (n * 8) 1 - 1) = take_bit (n * 8) pn" by (simp only: win(2) take_bit_eq_mask)
  moreover have "unat (take_bit (n * 8) pn) = unat pn mod 2 ^ (n * 8)" by (metis unsigned_take_bit_eq take_bit_eq_mod)
  moreover have "unat pn mod 2 ^ (n * 8) < 2 ^ 32"
    using win(4) by (meson less_le_trans mod_less_divisor zero_less_numeral zero_less_power)
  ultimately have "unat (pne_truncated enc) = unat pn mod 2 ^ (n * 8)"
    by (simp add: enc unsigned_ucast_eq take_bit_nat_eq_self)
  moreover have "case la of None \<Rightarrow> unat pn + 1 \<le> 2 ^ (n * 8) div 2 | Some l \<Rightarrow> unat pn \<le> unat l + 2 ^ (n * 8) div 2"
    using m n'(3) by (auto simp: unat_sub word_less_nat_alt word_le_nat_alt split: option.splits)
  ultimately show ?thesis using that n'(1,2) pn enc by simp
qed

lemma reconstruct_sent:
  assumes "encodePacketNumberForHeader pn la = Inr enc"
    and "\<forall>l. la = Some l \<longrightarrow> l < expected"
    and "unat expected < unat pn + 2 ^ (pne_len enc * 8) div 2" and "unat expected \<le> 2 ^ 62"
  shows "reconstructPacketNumber expected (ucast (pne_truncated enc)) (pne_len enc) = Inr pn"
    "unat (ucast (pne_truncated enc) :: u64) = unat pn mod 2 ^ (pne_len enc * 8)"
proof -
  from encodePacketNumberForHeader_cases [OF assms(1)] obtain n where
      n: "pne_len enc = n" "1 \<le> n" "n \<le> 4" and t: "unat (pne_truncated enc) = unat pn mod 2 ^ (n * 8)"
      and pn: "unat pn \<le> 4611686018427387903"
        "case la of None \<Rightarrow> unat pn + 1 \<le> 2 ^ (n * 8) div 2 | Some l \<Rightarrow> unat pn \<le> unat l + 2 ^ (n * 8) div 2" .
  let ?t = "ucast (pne_truncated enc) :: u64"
  have t': "unat ?t = unat pn mod 2 ^ (n * 8)"
    using t unsigned_less [of "pne_truncated enc", where ?'a = nat] by (simp add: unsigned_ucast_eq take_bit_nat_eq_self)
  have le: "unat pn \<le> unat expected + 2 ^ (n * 8) div 2"
    using pn(2) assms(2) by (auto simp: word_less_nat_alt split: option.splits)
  have h: "(2 :: nat) ^ (n * 8) = 2 * (2 ^ (n * 8) div 2)" using n(2) by (cases n) simp_all
  have "closest_packet_number (unat expected) (unat ?t) (2 ^ (n * 8)) = unat pn"
    by (rule closest_packet_number_is [OF h _ t']) (use assms(3) n(1) le in simp_all)
  then show "reconstructPacketNumber expected ?t (pne_len enc) = Inr pn"
    using reconstruct_closest [OF n(2,3) assms(4), of ?t] t' pn(1) n(1) by simp
  show "unat ?t = unat pn mod 2 ^ (pne_len enc * 8)" using t' n(1) by simp
qed

text \<open>
  A packet number survives its truncation. Whatever the sender's largest acknowledged packet number
  was when it chose the encoding, if the receiver has by then received that packet (so that it expects a
  larger number) and has not run ahead of the packet by half the window of the encoding, the receiver
  reconstructs exactly the packet number sent, from the bytes on the wire.
\<close>

theorem packet_number_roundtrip:
  assumes "encodePacketNumberForHeader pn la = Inr enc"
    and "\<forall>l. la = Some l \<longrightarrow> l < expected"
    and "unat expected < unat pn + 2 ^ (pne_len enc * 8) div 2" and "unat expected \<le> 2 ^ 62"
  shows "reads (decodePacketNumber (pne_len enc)) (packet_number_bytes (ucast (pne_truncated enc)) (pne_len enc))
      (\<lambda>t. reconstructPacketNumber expected t (pne_len enc) = Inr pn)"
  using decodePacketNumber_reads [of "ucast (pne_truncated enc)" "pne_len enc"] reconstruct_sent [OF assms]
  by (auto intro: reads_weaken)

theorem packet_number_roundtrip_witness:
  "reads (decodePacketNumber 2) [0x9b, 0x32] (\<lambda>t. reconstructPacketNumber 0xa82f30eb t 2 = Inr 0xa82f9b32)"
proof -
  have "encodePacketNumberForHeader 0xa82f9b32 (Some 0xa82f30ea) = Inr \<lparr>pne_len = 2, pne_truncated = 0x9b32\<rparr>"
    by (simp add: encodePacketNumberForHeader_def packetNumberEncodingLenForUnacked_def max_quic_varint_eq)
  moreover have "packet_number_bytes 0x9b32 2 = [0x9b, 0x32]"
    by (simp add: packet_number_bytes_def upt_rec)
  ultimately show ?thesis
    using packet_number_roundtrip [of "0xa82f9b32" "Some 0xa82f30ea" _ "0xa82f30eb"] by simp
qed

end
