(* ===== verification/Frame.thy ===== *)
theory Frame
  imports Packet_Number
begin

text \<open>
  The frame codec (\<^verbatim>\<open>src/src/quic/frame.zig\<close>): the frames, their validation, \<^verbatim>\<open>encodeFrame\<close>, the two decoders
  and \<^verbatim>\<open>deinitFrame\<close>. A frame is parametrised by how its byte payloads and its ACK ranges are held:
  plain lists for the encoder, slices with an owner for the decoder. The structs of the union are the
  arguments of its constructors, in the order of their fields.
\<close>

section \<open>Frames\<close>

datatype frame_type =
    FT_padding | FT_ping | FT_ack | FT_ack_ecn | FT_reset_stream | FT_stop_sending | FT_crypto | FT_new_token
  | FT_stream | FT_max_data | FT_max_stream_data | FT_max_streams_bidi | FT_max_streams_uni | FT_data_blocked
  | FT_stream_data_blocked | FT_streams_blocked_bidi | FT_streams_blocked_uni | FT_new_connection_id
  | FT_retire_connection_id | FT_path_challenge | FT_path_response | FT_connection_close
  | FT_application_close | FT_handshake_done | FT_datagram | FT_datagram_with_length

fun intFromFrameType :: "frame_type \<Rightarrow> byte" where
  "intFromFrameType FT_padding = 0x00"
| "intFromFrameType FT_ping = 0x01"
| "intFromFrameType FT_ack = 0x02"
| "intFromFrameType FT_ack_ecn = 0x03"
| "intFromFrameType FT_reset_stream = 0x04"
| "intFromFrameType FT_stop_sending = 0x05"
| "intFromFrameType FT_crypto = 0x06"
| "intFromFrameType FT_new_token = 0x07"
| "intFromFrameType FT_stream = 0x08"
| "intFromFrameType FT_max_data = 0x10"
| "intFromFrameType FT_max_stream_data = 0x11"
| "intFromFrameType FT_max_streams_bidi = 0x12"
| "intFromFrameType FT_max_streams_uni = 0x13"
| "intFromFrameType FT_data_blocked = 0x14"
| "intFromFrameType FT_stream_data_blocked = 0x15"
| "intFromFrameType FT_streams_blocked_bidi = 0x16"
| "intFromFrameType FT_streams_blocked_uni = 0x17"
| "intFromFrameType FT_new_connection_id = 0x18"
| "intFromFrameType FT_retire_connection_id = 0x19"
| "intFromFrameType FT_path_challenge = 0x1a"
| "intFromFrameType FT_path_response = 0x1b"
| "intFromFrameType FT_connection_close = 0x1c"
| "intFromFrameType FT_application_close = 0x1d"
| "intFromFrameType FT_handshake_done = 0x1e"
| "intFromFrameType FT_datagram = 0x30"
| "intFromFrameType FT_datagram_with_length = 0x31"

definition frameTypeId :: "frame_type \<Rightarrow> u64" where
  "frameTypeId frame_type = ucast (intFromFrameType frame_type)"

datatype ack_range = AckRange (ack_gap: u64) (ack_len: u64)

datatype 'r ack_frame =
  AckFrame (largest_acknowledged: u64) (ack_delay: u64) (first_ack_range: u64) (ack_ranges: 'r)

datatype ecn_counts = EcnCounts (ect0_count: u64) (ect1_count: u64) (ecn_ce_count: u64)

datatype ('b, 'r) frame =
    Padding nat
  | Ping
  | Ack "'r ack_frame"
  | Ack_ecn "'r ack_frame" ecn_counts
  | Reset_stream u64 u64 u64
  | Stop_sending u64 u64
  | New_token 'b
  | Stream u64 u64 bool 'b
  | Crypto u64 'b
  | Max_data u64
  | Max_stream_data u64 u64
  | Max_streams_bidi u64
  | Max_streams_uni u64
  | Data_blocked u64
  | Stream_data_blocked u64 u64
  | Streams_blocked_bidi u64
  | Streams_blocked_uni u64
  | New_connection_id u64 u64 'b "byte list"
  | Retire_connection_id u64
  | Path_challenge "byte list"
  | Path_response "byte list"
  | Connection_close u64 u64 'b
  | Application_close u64 'b
  | Handshake_done
  | Datagram 'b

type_synonym plain_frame = "(byte list, ack_range list) frame"
type_synonym held_frame = "(byte slice, ack_range slice) frame"

section \<open>Validation\<close>

definition len64 :: "'a list \<Rightarrow> u64" where
  "len64 xs = word_of_nat (length xs)"

definition max_stream_count :: u64 where
  "max_stream_count = push_bit 60 1"

text \<open>\<^verbatim>\<open>std.math.cast(u64, len) orelse return error.InvalidFrameLength\<close>\<close>

definition cast_u64 :: "nat \<Rightarrow> u64 zig_result" where
  "cast_u64 n = (if n < 2 ^ 64 then Inr (word_of_nat n) else Inl InvalidFrameLength)"

definition minimalVarIntLen :: "u64 \<Rightarrow> nat zig_result" where
  "minimalVarIntLen value =
     (if value \<le> 63 then Inr 1
      else if value \<le> 16383 then Inr 2
      else if value \<le> 1073741823 then Inr 4
      else if value \<le> max_quic_varint then Inr 8
      else Inl InvalidFrameValue)"

definition validateConnectionIdLen :: "nat \<Rightarrow> unit zig_result" where
  "validateConnectionIdLen len = ensure (\<not> (len = 0 \<or> len > 20)) InvalidConnectionIdLength"

definition validateFrameVarInt :: "u64 \<Rightarrow> unit zig_result" where
  "validateFrameVarInt value = ensure (\<not> value > max_quic_varint) InvalidFrameValue"

definition validateNewConnectionIdFrame :: "u64 \<Rightarrow> u64 \<Rightarrow> byte list \<Rightarrow> unit zig_result" where
  "validateNewConnectionIdFrame sequence_number retire_prior_to connection_id =
     ztry (validateFrameVarInt sequence_number) (\<lambda>_.
     ztry (validateFrameVarInt retire_prior_to) (\<lambda>_.
     ztry (validateConnectionIdLen (length connection_id)) (\<lambda>_.
     ensure (\<not> retire_prior_to > sequence_number) InvalidFrameValue)))"

definition validateFrameSliceLen :: "byte list \<Rightarrow> unit zig_result" where
  "validateFrameSliceLen data =
     ztry (cast_u64 (length data)) (\<lambda>data_len. ensure (\<not> data_len > max_quic_varint) InvalidFrameValue)"

definition validateNewTokenFrame :: "byte list \<Rightarrow> unit zig_result" where
  "validateNewTokenFrame token =
     ztry (ensure (length token \<noteq> 0) InvalidFrameValue) (\<lambda>_. validateFrameSliceLen token)"

definition validateConnectionCloseFrame :: "u64 \<Rightarrow> u64 \<Rightarrow> byte list \<Rightarrow> unit zig_result" where
  "validateConnectionCloseFrame error_code frame_type reason_phrase =
     ztry (validateFrameVarInt error_code) (\<lambda>_.
     ztry (validateFrameVarInt frame_type) (\<lambda>_.
     validateFrameSliceLen reason_phrase))"

definition validateApplicationCloseFrame :: "u64 \<Rightarrow> byte list \<Rightarrow> unit zig_result" where
  "validateApplicationCloseFrame error_code reason_phrase =
     ztry (validateFrameVarInt error_code) (\<lambda>_. validateFrameSliceLen reason_phrase)"

definition validateResetStreamFrame :: "u64 \<Rightarrow> u64 \<Rightarrow> u64 \<Rightarrow> unit zig_result" where
  "validateResetStreamFrame stream_id application_error_code final_size =
     ztry (validateFrameVarInt stream_id) (\<lambda>_.
     ztry (validateFrameVarInt application_error_code) (\<lambda>_.
     validateFrameVarInt final_size))"

definition validateStopSendingFrame :: "u64 \<Rightarrow> u64 \<Rightarrow> unit zig_result" where
  "validateStopSendingFrame stream_id application_error_code =
     ztry (validateFrameVarInt stream_id) (\<lambda>_. validateFrameVarInt application_error_code)"

definition validateFrameEndOffset :: "u64 \<Rightarrow> u64 \<Rightarrow> unit zig_result" where
  "validateFrameEndOffset offset data_len =
     (case math_add offset data_len of
        None \<Rightarrow> Inl InvalidFrameValue
      | Some end_offset \<Rightarrow> ensure (\<not> end_offset > max_quic_varint) InvalidFrameValue)"

definition validateFrameSliceEndOffset :: "u64 \<Rightarrow> byte list \<Rightarrow> unit zig_result" where
  "validateFrameSliceEndOffset offset data =
     ztry (cast_u64 (length data)) (\<lambda>data_len. validateFrameEndOffset offset data_len)"

definition validateFrameEndOffsetFromLen :: "u64 \<Rightarrow> nat \<Rightarrow> unit zig_result" where
  "validateFrameEndOffsetFromLen offset data_len =
     ztry (cast_u64 data_len) (\<lambda>data_len_u64. validateFrameEndOffset offset data_len_u64)"

definition validateStreamFrame :: "u64 \<Rightarrow> u64 \<Rightarrow> byte list \<Rightarrow> unit zig_result" where
  "validateStreamFrame stream_id offset data =
     ztry (validateFrameVarInt stream_id) (\<lambda>_. validateFrameSliceEndOffset offset data)"

definition validateMaxStreamDataFrame :: "u64 \<Rightarrow> u64 \<Rightarrow> unit zig_result" where
  "validateMaxStreamDataFrame stream_id maximum_stream_data =
     ztry (validateFrameVarInt stream_id) (\<lambda>_. validateFrameVarInt maximum_stream_data)"

definition validateStreamDataBlockedFrame :: "u64 \<Rightarrow> u64 \<Rightarrow> unit zig_result" where
  "validateStreamDataBlockedFrame stream_id maximum_stream_data =
     ztry (validateFrameVarInt stream_id) (\<lambda>_. validateFrameVarInt maximum_stream_data)"

definition validateStreamCount :: "u64 \<Rightarrow> unit zig_result" where
  "validateStreamCount maximum_streams = ensure (\<not> maximum_streams > max_stream_count) InvalidFrameValue"

fun validateAckRanges :: "u64 \<Rightarrow> ack_range list \<Rightarrow> unit zig_result" where
  "validateAckRanges smallest [] = Inr ()"
| "validateAckRanges smallest (rng # ranges) =
     ztry (validateFrameVarInt (ack_gap rng)) (\<lambda>_.
     ztry (validateFrameVarInt (ack_len rng)) (\<lambda>_.
     case math_add (ack_gap rng) 2 of
       None \<Rightarrow> Inl InvalidAckRange
     | Some skipped \<Rightarrow>
       if smallest < skipped then Inl InvalidAckRange
       else let range_largest = smallest - skipped in
         if ack_len rng > range_largest then Inl InvalidAckRange
         else validateAckRanges (range_largest - ack_len rng) ranges))"

definition validateAckFrame :: "ack_range list ack_frame \<Rightarrow> unit zig_result" where
  "validateAckFrame ack =
     ztry (validateFrameVarInt (largest_acknowledged ack)) (\<lambda>_.
     ztry (validateFrameVarInt (ack_delay ack)) (\<lambda>_.
     ztry (validateFrameVarInt (first_ack_range ack)) (\<lambda>_.
     ztry (cast_u64 (length (ack_ranges ack))) (\<lambda>range_count.
     ztry (validateFrameVarInt range_count) (\<lambda>_.
     if first_ack_range ack > largest_acknowledged ack then Inl InvalidAckRange
     else validateAckRanges (largest_acknowledged ack - first_ack_range ack) (ack_ranges ack))))))"

definition validateAckEcnFrame :: "ack_range list ack_frame \<Rightarrow> ecn_counts \<Rightarrow> unit zig_result" where
  "validateAckEcnFrame ack ecn =
     ztry (validateAckFrame ack) (\<lambda>_.
     ztry (validateFrameVarInt (ect0_count ecn)) (\<lambda>_.
     ztry (validateFrameVarInt (ect1_count ecn)) (\<lambda>_.
     validateFrameVarInt (ecn_ce_count ecn))))"

section \<open>Encoding\<close>

text \<open>Statements in sequence, each with \<^verbatim>\<open>try\<close>.\<close>

definition zseq :: "(unit, 's) zig list \<Rightarrow> (unit, 's) zig" where
  "zseq ms = foldr (\<lambda>m n. zbind m (\<lambda>_. n)) ms (zret ())"

abbreviation checked :: "unit zig_result \<Rightarrow> (unit, 's) zig list \<Rightarrow> (unit, 's) zig" where
  "checked validation ms \<equiv> zbind (zcheck validation) (\<lambda>_. zseq ms)"

abbreviation writeFrameType :: "frame_type \<Rightarrow> (unit, fixed_writer) zig" where
  "writeFrameType frame_type \<equiv> writeByte (intFromFrameType frame_type)"

definition encodeAckFrameFields :: "ack_range list ack_frame \<Rightarrow> (unit, fixed_writer) zig" where
  "encodeAckFrameFields ack = checked (validateAckFrame ack)
     ([encodeVarInt (largest_acknowledged ack), encodeVarInt (ack_delay ack), encodeVarInt (len64 (ack_ranges ack)),
       encodeVarInt (first_ack_range ack)] @
      concat (map (\<lambda>rng. [encodeVarInt (ack_gap rng), encodeVarInt (ack_len rng)]) (ack_ranges ack)))"

definition streamFrameType :: "u64 \<Rightarrow> bool \<Rightarrow> byte" where
  "streamFrameType offset fin =
     (let frame_type = intFromFrameType FT_stream;
          frame_type = (if offset \<noteq> 0 then frame_type OR 0x04 else frame_type);
          frame_type = frame_type OR 0x02 in
      if fin then frame_type OR 0x01 else frame_type)"

fun encodeFrame :: "plain_frame \<Rightarrow> (unit, fixed_writer) zig" where
  "encodeFrame (Padding len) =
     checked (ensure (len \<noteq> 0) InvalidPaddingLength) (replicate len (writeFrameType FT_padding))"
| "encodeFrame Ping = writeFrameType FT_ping"
| "encodeFrame (Ack ack) = checked (validateAckFrame ack) [writeFrameType FT_ack, encodeAckFrameFields ack]"
| "encodeFrame (Ack_ecn ack ecn) = checked (validateAckEcnFrame ack ecn)
     [writeFrameType FT_ack_ecn, encodeAckFrameFields ack, encodeVarInt (ect0_count ecn),
      encodeVarInt (ect1_count ecn), encodeVarInt (ecn_ce_count ecn)]"
| "encodeFrame (Reset_stream stream_id application_error_code final_size) =
     checked (validateResetStreamFrame stream_id application_error_code final_size)
     [writeFrameType FT_reset_stream, encodeVarInt stream_id, encodeVarInt application_error_code,
      encodeVarInt final_size]"
| "encodeFrame (Stop_sending stream_id application_error_code) =
     checked (validateStopSendingFrame stream_id application_error_code)
     [writeFrameType FT_stop_sending, encodeVarInt stream_id, encodeVarInt application_error_code]"
| "encodeFrame (New_token token) = checked (validateNewTokenFrame token)
     [writeFrameType FT_new_token, encodeVarInt (len64 token), writeAll token]"
| "encodeFrame (Stream stream_id offset fin data) = checked (validateStreamFrame stream_id offset data)
     ([writeByte (streamFrameType offset fin), encodeVarInt stream_id] @
      (if offset \<noteq> 0 then [encodeVarInt offset] else []) @
      [encodeVarInt (len64 data), writeAll data])"
| "encodeFrame (Crypto offset data) = checked (validateFrameSliceEndOffset offset data)
     [writeFrameType FT_crypto, encodeVarInt offset, encodeVarInt (len64 data), writeAll data]"
| "encodeFrame (Max_data maximum_data) = checked (validateFrameVarInt maximum_data)
     [writeFrameType FT_max_data, encodeVarInt maximum_data]"
| "encodeFrame (Max_stream_data stream_id maximum_stream_data) =
     checked (validateMaxStreamDataFrame stream_id maximum_stream_data)
     [writeFrameType FT_max_stream_data, encodeVarInt stream_id, encodeVarInt maximum_stream_data]"
| "encodeFrame (Max_streams_bidi maximum_streams) = checked (validateStreamCount maximum_streams)
     [writeFrameType FT_max_streams_bidi, encodeVarInt maximum_streams]"
| "encodeFrame (Max_streams_uni maximum_streams) = checked (validateStreamCount maximum_streams)
     [writeFrameType FT_max_streams_uni, encodeVarInt maximum_streams]"
| "encodeFrame (Data_blocked maximum_data) = checked (validateFrameVarInt maximum_data)
     [writeFrameType FT_data_blocked, encodeVarInt maximum_data]"
| "encodeFrame (Stream_data_blocked stream_id maximum_stream_data) =
     checked (validateStreamDataBlockedFrame stream_id maximum_stream_data)
     [writeFrameType FT_stream_data_blocked, encodeVarInt stream_id, encodeVarInt maximum_stream_data]"
| "encodeFrame (Streams_blocked_bidi maximum_streams) = checked (validateStreamCount maximum_streams)
     [writeFrameType FT_streams_blocked_bidi, encodeVarInt maximum_streams]"
| "encodeFrame (Streams_blocked_uni maximum_streams) = checked (validateStreamCount maximum_streams)
     [writeFrameType FT_streams_blocked_uni, encodeVarInt maximum_streams]"
| "encodeFrame (New_connection_id sequence_number retire_prior_to connection_id stateless_reset_token) =
     checked (validateNewConnectionIdFrame sequence_number retire_prior_to connection_id)
     [writeFrameType FT_new_connection_id, encodeVarInt sequence_number, encodeVarInt retire_prior_to,
      writeByte (word_of_nat (length connection_id)), writeAll connection_id, writeAll stateless_reset_token]"
| "encodeFrame (Retire_connection_id sequence_number) = checked (validateFrameVarInt sequence_number)
     [writeFrameType FT_retire_connection_id, encodeVarInt sequence_number]"
| "encodeFrame (Path_challenge data) = zseq [writeFrameType FT_path_challenge, writeAll data]"
| "encodeFrame (Path_response data) = zseq [writeFrameType FT_path_response, writeAll data]"
| "encodeFrame (Connection_close error_code frame_type reason_phrase) =
     checked (validateConnectionCloseFrame error_code frame_type reason_phrase)
     [writeFrameType FT_connection_close, encodeVarInt error_code, encodeVarInt frame_type,
      encodeVarInt (len64 reason_phrase), writeAll reason_phrase]"
| "encodeFrame (Application_close error_code reason_phrase) =
     checked (validateApplicationCloseFrame error_code reason_phrase)
     [writeFrameType FT_application_close, encodeVarInt error_code, encodeVarInt (len64 reason_phrase),
      writeAll reason_phrase]"
| "encodeFrame Handshake_done = writeFrameType FT_handshake_done"
| "encodeFrame (Datagram data) =
     zseq [writeFrameType FT_datagram_with_length, encodeVarInt (len64 data), writeAll data]"

section \<open>Decoding\<close>

definition readVarInt :: "(u64, 'm fixed_reader_scheme) zig" where
  "readVarInt = zbind decodeVarInt (\<lambda>decoded. zret (fst decoded))"

definition decodeFrameType :: "(u64, 'm fixed_reader_scheme) zig" where
  "decodeFrameType = zbind decodeVarInt (\<lambda>(value, len).
     zbind (\<lambda>r. (minimalVarIntLen value, r)) (\<lambda>minimal.
     if len \<noteq> minimal then zfail InvalidFrameValue else zret value))"

definition validateAckRangeCountFitsReader :: "nat \<Rightarrow> (unit, 'm fixed_reader_scheme) zig" where
  "validateAckRangeCountFitsReader range_count r =
     (if range_count * 2 \<ge> 2 ^ 64 then (Inl InvalidFrameLength, r)
      else if range_count * 2 > remainingLen r then (Inl InvalidFrameLength, r)
      else (Inr (), r))"

fun decodeAckRanges :: "nat \<Rightarrow> (ack_range list, 'm fixed_reader_scheme) zig" where
  "decodeAckRanges 0 = zret []"
| "decodeAckRanges (Suc n) =
     zbind readVarInt (\<lambda>gap. zbind readVarInt (\<lambda>len.
     zbind (decodeAckRanges n) (\<lambda>ranges. zret (AckRange gap len # ranges))))"

definition deinitAckFrame :: "ack_range slice ack_frame \<Rightarrow> decoder \<Rightarrow> decoder" where
  "deinitAckFrame ack d = (if elems (ack_ranges ack) \<noteq> [] then zig_free (ack_ranges ack) d else d)"

definition decodeAckFrameFields :: "(ack_range slice ack_frame, decoder) zig" where
  "decodeAckFrameFields =
     zbind readVarInt (\<lambda>largest_acknowledged.
     zbind readVarInt (\<lambda>ack_delay.
     zbind readVarInt (\<lambda>ack_range_count.
     zbind readVarInt (\<lambda>first_ack_range.
     let range_count = unat ack_range_count in
     zbind (validateAckRangeCountFitsReader range_count) (\<lambda>_.
     zbind (zig_alloc range_count) (\<lambda>i. errdefer (free_block i) (
     zbind (decodeAckRanges range_count) (\<lambda>ranges.
     zbind (zcheck (validateAckFrame (AckFrame largest_acknowledged ack_delay first_ack_range ranges))) (\<lambda>_.
     zret (AckFrame largest_acknowledged ack_delay first_ack_range (as_slice i ranges)))))))))))"

definition decodeStreamFrame :: "bool \<Rightarrow> u64 \<Rightarrow> (held_frame, decoder) zig" where
  "decodeStreamFrame borrow frame_type =
     (let has_off = (frame_type AND 0x04) \<noteq> 0;
          has_len = (frame_type AND 0x02) \<noteq> 0;
          fin = (frame_type AND 0x01) \<noteq> 0 in
      zbind readVarInt (\<lambda>stream_id.
      zbind (if has_off then readVarInt else zret 0) (\<lambda>offset.
      zbind (if has_len
             then zbind readVarInt (\<lambda>data_len.
                  zbind (zcheck (validateFrameEndOffset offset data_len)) (\<lambda>_. zret (unat data_len)))
             else (\<lambda>d. zbind (zcheck (validateFrameEndOffsetFromLen offset (remainingLen d)))
                  (\<lambda>_. zret (remainingLen d)) d)) (\<lambda>len.
      zbind (readBytes borrow len) (\<lambda>data.
      zret (Stream stream_id offset fin data))))))"

definition decodeNewConnectionIdFrame :: "bool \<Rightarrow> (held_frame, decoder) zig" where
  "decodeNewConnectionIdFrame borrow =
     zbind readVarInt (\<lambda>sequence_number.
     zbind readVarInt (\<lambda>retire_prior_to.
     zbind readByte (\<lambda>connection_id_len.
     zbind (zcheck (validateConnectionIdLen (unat connection_id_len))) (\<lambda>_.
     zbind (zcheck (ensure (\<not> retire_prior_to > sequence_number) InvalidFrameValue)) (\<lambda>_.
     zbind (readBytes borrow (unat connection_id_len)) (\<lambda>connection_id. errdefer (zig_free connection_id) (
     zbind (readNoEof 16) (\<lambda>stateless_reset_token.
     zret (New_connection_id sequence_number retire_prior_to connection_id stateless_reset_token)))))))))"

definition decodeFrameOf :: "bool \<Rightarrow> u64 \<Rightarrow> (held_frame, decoder) zig" where
  "decodeFrameOf borrow frame_type =
    (if frame_type = frameTypeId FT_padding then zret (Padding 1)
     else if frame_type = frameTypeId FT_ping then zret Ping
     else if frame_type = frameTypeId FT_ack \<or> frame_type = frameTypeId FT_ack_ecn then
       zbind decodeAckFrameFields (\<lambda>ack. errdefer (deinitAckFrame ack)
         (if frame_type = frameTypeId FT_ack_ecn then
            zbind readVarInt (\<lambda>ect0_count.
            zbind readVarInt (\<lambda>ect1_count.
            zbind readVarInt (\<lambda>ecn_ce_count.
            zret (Ack_ecn ack (EcnCounts ect0_count ect1_count ecn_ce_count)))))
          else zret (Ack ack)))
     else if frame_type = frameTypeId FT_reset_stream then
       zbind readVarInt (\<lambda>stream_id.
       zbind readVarInt (\<lambda>application_error_code.
       zbind readVarInt (\<lambda>final_size.
       zret (Reset_stream stream_id application_error_code final_size))))
     else if frame_type = frameTypeId FT_stop_sending then
       zbind readVarInt (\<lambda>stream_id.
       zbind readVarInt (\<lambda>application_error_code.
       zret (Stop_sending stream_id application_error_code)))
     else if frame_type = frameTypeId FT_new_token then
       zbind readVarInt (\<lambda>token_len.
       zbind (zcheck (ensure (unat token_len \<noteq> 0) InvalidFrameValue)) (\<lambda>_.
       zbind (readBytes borrow (unat token_len)) (\<lambda>token.
       zret (New_token token))))
     else if frame_type = frameTypeId FT_crypto then
       zbind readVarInt (\<lambda>offset.
       zbind readVarInt (\<lambda>data_len.
       zbind (zcheck (validateFrameEndOffset offset data_len)) (\<lambda>_.
       zbind (readBytes borrow (unat data_len)) (\<lambda>data.
       zret (Crypto offset data)))))
     else if frame_type = frameTypeId FT_max_data then
       zbind readVarInt (\<lambda>maximum_data. zret (Max_data maximum_data))
     else if frame_type = frameTypeId FT_max_stream_data then
       zbind readVarInt (\<lambda>stream_id.
       zbind readVarInt (\<lambda>maximum_stream_data.
       zret (Max_stream_data stream_id maximum_stream_data)))
     else if frame_type = frameTypeId FT_max_streams_bidi then
       zbind readVarInt (\<lambda>maximum_streams.
       zbind (zcheck (validateStreamCount maximum_streams)) (\<lambda>_. zret (Max_streams_bidi maximum_streams)))
     else if frame_type = frameTypeId FT_max_streams_uni then
       zbind readVarInt (\<lambda>maximum_streams.
       zbind (zcheck (validateStreamCount maximum_streams)) (\<lambda>_. zret (Max_streams_uni maximum_streams)))
     else if frame_type = frameTypeId FT_data_blocked then
       zbind readVarInt (\<lambda>maximum_data. zret (Data_blocked maximum_data))
     else if frame_type = frameTypeId FT_stream_data_blocked then
       zbind readVarInt (\<lambda>stream_id.
       zbind readVarInt (\<lambda>maximum_stream_data.
       zret (Stream_data_blocked stream_id maximum_stream_data)))
     else if frame_type = frameTypeId FT_streams_blocked_bidi then
       zbind readVarInt (\<lambda>maximum_streams.
       zbind (zcheck (validateStreamCount maximum_streams)) (\<lambda>_. zret (Streams_blocked_bidi maximum_streams)))
     else if frame_type = frameTypeId FT_streams_blocked_uni then
       zbind readVarInt (\<lambda>maximum_streams.
       zbind (zcheck (validateStreamCount maximum_streams)) (\<lambda>_. zret (Streams_blocked_uni maximum_streams)))
     else if frame_type = frameTypeId FT_new_connection_id then decodeNewConnectionIdFrame borrow
     else if frame_type = frameTypeId FT_retire_connection_id then
       zbind readVarInt (\<lambda>sequence_number. zret (Retire_connection_id sequence_number))
     else if frame_type = frameTypeId FT_path_challenge then
       zbind (readNoEof 8) (\<lambda>data. zret (Path_challenge data))
     else if frame_type = frameTypeId FT_path_response then
       zbind (readNoEof 8) (\<lambda>data. zret (Path_response data))
     else if (frame_type AND 0b11111000) = frameTypeId FT_stream then decodeStreamFrame borrow frame_type
     else if frame_type = frameTypeId FT_connection_close then
       zbind readVarInt (\<lambda>error_code.
       zbind readVarInt (\<lambda>triggering_frame_type.
       zbind readVarInt (\<lambda>reason_len.
       zbind (readBytes borrow (unat reason_len)) (\<lambda>reason_phrase.
       zret (Connection_close error_code triggering_frame_type reason_phrase)))))
     else if frame_type = frameTypeId FT_application_close then
       zbind readVarInt (\<lambda>error_code.
       zbind readVarInt (\<lambda>reason_len.
       zbind (readBytes borrow (unat reason_len)) (\<lambda>reason_phrase.
       zret (Application_close error_code reason_phrase))))
     else if frame_type = frameTypeId FT_handshake_done then zret Handshake_done
     else if frame_type = ucast (intFromFrameType FT_datagram_with_length) then
       zbind readVarInt (\<lambda>len.
       zbind (readBytes borrow (unat len)) (\<lambda>data.
       zret (Datagram data)))
     else zfail UnsupportedFrameType)"

definition decodeFrameImpl :: "bool \<Rightarrow> (held_frame, decoder) zig" where
  "decodeFrameImpl borrow = zbind decodeFrameType (decodeFrameOf borrow)"

definition decodeFrame :: "(held_frame, decoder) zig" where
  "decodeFrame = decodeFrameImpl False"

definition decodeFrameBorrowing :: "(held_frame, decoder) zig" where
  "decodeFrameBorrowing = decodeFrameImpl True"

text \<open>
  The decoders of a slice make a reader of their own; the state is the allocator's. The number is how many
  bytes were consumed.
\<close>

definition decode_slice :: "(held_frame, decoder) zig \<Rightarrow> byte list \<Rightarrow> (held_frame \<times> nat, decoder) zig" where
  "decode_slice decode data d =
     (if length data = 0 then (Inl EndOfStream, d)
      else if data ! 0 = intFromFrameType FT_padding then
        let len = length (takeWhile (\<lambda>b. b = intFromFrameType FT_padding) data) in (Inr (Padding len, len), d)
      else case decode (d\<lparr>fr_data := data, fr_pos := 0\<rparr>) of
        (Inl e, d') \<Rightarrow> (Inl e, d')
      | (Inr decoded, d') \<Rightarrow> (Inr (decoded, fr_pos d'), d'))"

definition decodeFrameSlice :: "byte list \<Rightarrow> (held_frame \<times> nat, decoder) zig" where
  "decodeFrameSlice data = decode_slice decodeFrame data"

definition decodeFrameSliceBorrowing :: "byte list \<Rightarrow> (held_frame \<times> nat, decoder) zig" where
  "decodeFrameSliceBorrowing data = decode_slice (decodeFrameImpl True) data"

fun deinitFrame :: "held_frame \<Rightarrow> decoder \<Rightarrow> decoder" where
  "deinitFrame (Ack ack) = deinitAckFrame ack"
| "deinitFrame (Ack_ecn ack ecn) = deinitAckFrame ack"
| "deinitFrame (Stream stream_id offset fin data) = zig_free data"
| "deinitFrame (Crypto offset data) = zig_free data"
| "deinitFrame (New_token token) = zig_free token"
| "deinitFrame (New_connection_id sequence_number retire_prior_to connection_id token) = zig_free connection_id"
| "deinitFrame (Connection_close error_code frame_type reason_phrase) = zig_free reason_phrase"
| "deinitFrame (Datagram data) = zig_free data"
| "deinitFrame (Application_close error_code reason_phrase) = zig_free reason_phrase"
| "deinitFrame _ = (\<lambda>d. d)"

fun deinitFrameBorrowing :: "held_frame \<Rightarrow> decoder \<Rightarrow> decoder" where
  "deinitFrameBorrowing (Ack ack) = deinitAckFrame ack"
| "deinitFrameBorrowing (Ack_ecn ack ecn) = deinitAckFrame ack"
| "deinitFrameBorrowing _ = (\<lambda>d. d)"

end
