(* ===== verification/Frame_Proofs.thy ===== *)
theory Frame_Proofs
  imports Frame
begin

text \<open>
  Correctness of the frame codec: the bytes that \<^verbatim>\<open>encodeFrame\<close> writes, that both decoders read them back,
  that decoded frames are valid, that decoding makes progress, and who owns the memory.
\<close>

section \<open>The wire format\<close>

definition ack_range_bytes :: "ack_range \<Rightarrow> byte list" where
  "ack_range_bytes rng = varint_bytes (ack_gap rng) @ varint_bytes (ack_len rng)"

definition ack_bytes :: "ack_range list ack_frame \<Rightarrow> byte list" where
  "ack_bytes ack =
     varint_bytes (largest_acknowledged ack) @ varint_bytes (ack_delay ack) @ varint_bytes (len64 (ack_ranges ack)) @
     varint_bytes (first_ack_range ack) @ concat (map ack_range_bytes (ack_ranges ack))"

definition data_bytes :: "byte list \<Rightarrow> byte list" where
  "data_bytes data = varint_bytes (len64 data) @ data"

fun frame_bytes :: "plain_frame \<Rightarrow> byte list" where
  "frame_bytes (Padding len) = replicate len 0"
| "frame_bytes Ping = [0x01]"
| "frame_bytes (Ack ack) = 0x02 # ack_bytes ack"
| "frame_bytes (Ack_ecn ack ecn) =
     0x03 # ack_bytes ack @ varint_bytes (ect0_count ecn) @ varint_bytes (ect1_count ecn) @ varint_bytes (ecn_ce_count ecn)"
| "frame_bytes (Reset_stream s e n) = 0x04 # varint_bytes s @ varint_bytes e @ varint_bytes n"
| "frame_bytes (Stop_sending s e) = 0x05 # varint_bytes s @ varint_bytes e"
| "frame_bytes (Crypto off data) = 0x06 # varint_bytes off @ data_bytes data"
| "frame_bytes (New_token token) = 0x07 # data_bytes token"
| "frame_bytes (Stream s off fin data) =
     (0x0a + (if off \<noteq> 0 then 4 else 0) + (if fin then 1 else 0)) #
     varint_bytes s @ (if off \<noteq> 0 then varint_bytes off else []) @ data_bytes data"
| "frame_bytes (Max_data n) = 0x10 # varint_bytes n"
| "frame_bytes (Max_stream_data s n) = 0x11 # varint_bytes s @ varint_bytes n"
| "frame_bytes (Max_streams_bidi n) = 0x12 # varint_bytes n"
| "frame_bytes (Max_streams_uni n) = 0x13 # varint_bytes n"
| "frame_bytes (Data_blocked n) = 0x14 # varint_bytes n"
| "frame_bytes (Stream_data_blocked s n) = 0x15 # varint_bytes s @ varint_bytes n"
| "frame_bytes (Streams_blocked_bidi n) = 0x16 # varint_bytes n"
| "frame_bytes (Streams_blocked_uni n) = 0x17 # varint_bytes n"
| "frame_bytes (New_connection_id s r cid token) =
     0x18 # varint_bytes s @ varint_bytes r @ word_of_nat (length cid) # cid @ token"
| "frame_bytes (Retire_connection_id n) = 0x19 # varint_bytes n"
| "frame_bytes (Path_challenge data) = 0x1a # data"
| "frame_bytes (Path_response data) = 0x1b # data"
| "frame_bytes (Connection_close e t reason) = 0x1c # varint_bytes e @ varint_bytes t @ data_bytes reason"
| "frame_bytes (Application_close e reason) = 0x1d # varint_bytes e @ data_bytes reason"
| "frame_bytes Handshake_done = [0x1e]"
| "frame_bytes (Datagram data) = 0x31 # data_bytes data"

text \<open>The validation that \<^verbatim>\<open>encodeFrame\<close> runs before it writes anything.\<close>

fun frame_check :: "plain_frame \<Rightarrow> unit zig_result" where
  "frame_check (Padding len) = ensure (len \<noteq> 0) InvalidPaddingLength"
| "frame_check (Ack ack) = validateAckFrame ack"
| "frame_check (Ack_ecn ack ecn) = validateAckEcnFrame ack ecn"
| "frame_check (Reset_stream s e n) = validateResetStreamFrame s e n"
| "frame_check (Stop_sending s e) = validateStopSendingFrame s e"
| "frame_check (Crypto off data) = validateFrameSliceEndOffset off data"
| "frame_check (New_token token) = validateNewTokenFrame token"
| "frame_check (Stream s off fin data) = validateStreamFrame s off data"
| "frame_check (Max_data n) = validateFrameVarInt n"
| "frame_check (Max_stream_data s n) = validateMaxStreamDataFrame s n"
| "frame_check (Max_streams_bidi n) = validateStreamCount n"
| "frame_check (Max_streams_uni n) = validateStreamCount n"
| "frame_check (Data_blocked n) = validateFrameVarInt n"
| "frame_check (Stream_data_blocked s n) = validateStreamDataBlockedFrame s n"
| "frame_check (Streams_blocked_bidi n) = validateStreamCount n"
| "frame_check (Streams_blocked_uni n) = validateStreamCount n"
| "frame_check (New_connection_id s r cid token) = validateNewConnectionIdFrame s r cid"
| "frame_check (Retire_connection_id n) = validateFrameVarInt n"
| "frame_check (Connection_close e t reason) = validateConnectionCloseFrame e t reason"
| "frame_check (Application_close e reason) = validateApplicationCloseFrame e reason"
| "frame_check _ = Inr ()"

text \<open>
  What the Zig types say of a frame: arrays have their length. A DATAGRAM is not validated; its payload is
  taken to be of a length that a variable-length integer can hold.
\<close>

fun frame_shape :: "plain_frame \<Rightarrow> bool" where
  "frame_shape (New_connection_id s r cid token) \<longleftrightarrow> length token = 16"
| "frame_shape (Path_challenge data) \<longleftrightarrow> length data = 8"
| "frame_shape (Path_response data) \<longleftrightarrow> length data = 8"
| "frame_shape (Datagram data) \<longleftrightarrow> length data < 2 ^ 62"
| "frame_shape _ \<longleftrightarrow> True"

section \<open>Validation facts\<close>

lemma validateFrameVarInt_ok [simp]: "validateFrameVarInt v = Inr u \<longleftrightarrow> v \<le> max_quic_varint"
  by (auto simp: validateFrameVarInt_def)

lemma validateStreamCount_ok: "validateStreamCount v = Inr u \<longleftrightarrow> unat v \<le> 2 ^ 60"
  by (simp add: validateStreamCount_def max_stream_count_def not_less word_le_nat_alt)

lemma varint_max: "v \<le> max_quic_varint \<longleftrightarrow> unat v < 2 ^ 62"
  by (auto simp: max_quic_varint_eq word_le_nat_alt)

lemma validateStreamCount_varint: "validateStreamCount v = Inr u \<Longrightarrow> v \<le> max_quic_varint"
  by (simp add: validateStreamCount_ok varint_max)

lemma unat_len64: "length xs < 2 ^ 62 \<Longrightarrow> unat (len64 xs) = length xs"
  by (simp add: len64_def unat_of_nat)

lemma len64_pos: "xs \<noteq> [] \<Longrightarrow> length xs < 2 ^ 62 \<Longrightarrow> 0 < unat (len64 xs)"
  using unat_len64 [of xs] by simp

lemma len64_varint: "length data < 2 ^ 62 \<Longrightarrow> len64 data \<le> max_quic_varint"
  by (simp add: varint_max unat_len64)

lemma cast_u64_ok [simp]: "cast_u64 n = Inr v \<longleftrightarrow> unat v = n"
proof
  show "cast_u64 n = Inr v \<Longrightarrow> unat v = n" by (auto simp: cast_u64_def unat_of_nat split: if_splits)
  show "unat v = n \<Longrightarrow> cast_u64 n = Inr v" using unsigned_less [of v, where ?'a = nat] by (auto simp: cast_u64_def)
qed

lemma cast_u64_bound: "(\<exists>v. unat (v :: u64) = n \<and> unat v < 2 ^ 62) \<longleftrightarrow> n < 2 ^ 62"
  by (auto intro: exI [of _ "word_of_nat n"] simp: unat_of_nat)

lemma validateFrameEndOffset_ok [simp]:
  "validateFrameEndOffset off n = Inr u \<longleftrightarrow> unat off + unat n < 2 ^ 62"
proof (cases "math_add off n")
  case (Some e)
  then have "unat e = unat off + unat n" by simp
  then show ?thesis unfolding validateFrameEndOffset_def Some option.case by (simp add: not_less varint_max)
next
  case None
  then have "2 ^ 64 \<le> unat off + unat n" by simp
  then show ?thesis unfolding validateFrameEndOffset_def None option.case by simp
qed

lemma validateFrameSliceLen_ok [simp]: "validateFrameSliceLen data = Inr u \<longleftrightarrow> length data < 2 ^ 62"
  using cast_u64_bound [of "length data"] by (auto simp: validateFrameSliceLen_def not_less varint_max)

lemma validateFrameEndOffsetFromLen_ok [simp]:
  "validateFrameEndOffsetFromLen off n = Inr u \<longleftrightarrow> unat off + n < 2 ^ 62"
  using cast_u64_bound [of n] by (auto simp: validateFrameEndOffsetFromLen_def)

lemma validateFrameSliceEndOffset_ok [simp]:
  "validateFrameSliceEndOffset off data = Inr u \<longleftrightarrow> unat off + length data < 2 ^ 62"
  using validateFrameEndOffsetFromLen_ok [of off "length data"]
  by (simp only: validateFrameSliceEndOffset_def validateFrameEndOffsetFromLen_def)

lemma validateConnectionIdLen_ok [simp]: "validateConnectionIdLen n = Inr u \<longleftrightarrow> 1 \<le> n \<and> n \<le> 20"
  by (auto simp: validateConnectionIdLen_def)

lemma validateAckRanges_varints:
  "validateAckRanges smallest ranges = Inr u \<Longrightarrow> rng \<in> set ranges \<Longrightarrow>
     ack_gap rng \<le> max_quic_varint \<and> ack_len rng \<le> max_quic_varint"
  by (induction smallest ranges rule: validateAckRanges.induct) (auto simp: Let_def split: if_splits option.splits)

lemma validateAckFrame_ok:
  assumes "validateAckFrame ack = Inr u"
  shows "largest_acknowledged ack \<le> max_quic_varint" "ack_delay ack \<le> max_quic_varint"
    "first_ack_range ack \<le> max_quic_varint" "length (ack_ranges ack) < 2 ^ 62"
    "\<And>rng. rng \<in> set (ack_ranges ack) \<Longrightarrow> ack_gap rng \<le> max_quic_varint \<and> ack_len rng \<le> max_quic_varint"
  using assms cast_u64_bound [of "length (ack_ranges ack)"]
  by (auto simp: validateAckFrame_def varint_max split: if_splits dest: validateAckRanges_varints)

section \<open>Encoding\<close>

lemma writes_zseq: "list_all2 writes ms bss \<Longrightarrow> writes (zseq ms) (concat bss)"
proof (induction ms bss rule: list_all2_induct)
  case (Cons m ms bs bss)
  then show ?case using writes_bind [of m bs "zseq ms" "concat bss"] by (simp add: zseq_def)
qed (simp add: zseq_def writes_ret)

lemma writes_checked:
  "r = Inr () \<Longrightarrow> list_all2 writes ms bss \<Longrightarrow> bs = concat bss \<Longrightarrow> writes (checked r ms) bs"
  by (simp add: writes_check writes_zseq)

lemma writes_ack:
  assumes "validateAckFrame ack = Inr ()"
  shows "writes (encodeAckFrameFields ack) (ack_bytes ack)"
proof -
  have ranges: "list_all2 writes (concat (map (\<lambda>rng. [encodeVarInt (ack_gap rng), encodeVarInt (ack_len rng)]) rs))
      (concat (map (\<lambda>rng. [varint_bytes (ack_gap rng), varint_bytes (ack_len rng)]) rs))"
    if "\<And>rng. rng \<in> set rs \<Longrightarrow> ack_gap rng \<le> max_quic_varint \<and> ack_len rng \<le> max_quic_varint" for rs
    using that by (induction rs) (auto simp: encodeVarInt_writes)
  have bytes: "concat (concat (map (\<lambda>rng. [varint_bytes (ack_gap rng), varint_bytes (ack_len rng)]) rs)) =
      concat (map ack_range_bytes rs)" for rs
    by (induction rs) (auto simp: ack_range_bytes_def)
  show ?thesis
    unfolding encodeAckFrameFields_def ack_bytes_def
    using validateAckFrame_ok [OF assms] assms
    by (intro writes_checked [where bss = "[varint_bytes (largest_acknowledged ack), varint_bytes (ack_delay ack),
          varint_bytes (len64 (ack_ranges ack)), varint_bytes (first_ack_range ack)] @
          concat (map (\<lambda>rng. [varint_bytes (ack_gap rng), varint_bytes (ack_len rng)]) (ack_ranges ack))"])
      (auto simp: encodeVarInt_writes bytes len64_varint [simplified] intro!: ranges)
qed

lemma streamFrameType_eq: "streamFrameType off fin = 0x0a + (if off \<noteq> 0 then 4 else 0) + (if fin then 1 else 0)"
  by (simp add: streamFrameType_def)

lemma writes_replicate: "list_all2 writes (replicate n (writeByte b)) (replicate n [b])"
  by (induction n) (simp_all add: writes_byte)

lemma offset_varint: "unat off + n < 2 ^ 62 \<Longrightarrow> off \<le> max_quic_varint"
  by (simp add: varint_max)

lemmas validate_defs = validateAckEcnFrame_def validateResetStreamFrame_def validateStopSendingFrame_def
  validateNewTokenFrame_def validateStreamFrame_def validateMaxStreamDataFrame_def
  validateStreamDataBlockedFrame_def validateNewConnectionIdFrame_def validateConnectionCloseFrame_def
  validateApplicationCloseFrame_def

lemma writes_zseq_rules:
  "writes m bs \<Longrightarrow> writes (zseq [m]) bs"
  "writes m bs \<Longrightarrow> writes (zseq (n # ms)) cs \<Longrightarrow> writes (zseq (m # n # ms)) (bs @ cs)"
  "writes (zseq (n # ms)) cs \<Longrightarrow> writes (zseq (writeByte b # n # ms)) (b # cs)"
  "length data < 2 ^ 62 \<Longrightarrow> writes (zseq [encodeVarInt (len64 data), writeAll data]) (data_bytes data)"
  using writes_zseq [of "[m]" "[bs]"] writes_bind [of m bs "zseq (n # ms)" cs]
    writes_bind [OF writes_byte, of "zseq (n # ms)" cs b]
    writes_bind [OF encodeVarInt_writes writes_bind [OF writes_all writes_ret], of "len64 data" data]
  by (simp_all add: zseq_def data_bytes_def len64_varint)

lemma encodeFrame_writes:
  assumes "frame_check f = Inr ()" and "frame_shape f"
  shows "writes (encodeFrame f) (frame_bytes f)"
proof (cases f)
  case (Padding len)
  have "concat (replicate len [0]) = replicate len (0 :: byte)" by (induction len) simp_all
  then show ?thesis using assms(1) Padding by (auto intro!: writes_checked [OF _ writes_replicate])
next
  case (Stream s off fin data)
  then show ?thesis using assms
    by (auto simp: validate_defs streamFrameType_eq dest: offset_varint [simplified]
        intro!: writes_check writes_zseq_rules encodeVarInt_writes writes_byte)
qed (use assms in \<open>auto simp: validate_defs dest: offset_varint [simplified]
      intro!: writes_check writes_zseq_rules encodeVarInt_writes writes_byte writes_all writes_ack
      intro: validateStreamCount_varint\<close>)

section \<open>Decoding what was encoded\<close>

lemma readVarInt_reads: "v \<le> max_quic_varint \<Longrightarrow> reads readVarInt (varint_bytes v) (\<lambda>x. x = v)"
  using reads_bind [OF decodeVarInt_reads, of v "\<lambda>decoded. zret (fst decoded)" "[]" "\<lambda>x. x = v"]
  by (auto simp: readVarInt_def)

lemma reads_varint:
  "v \<le> max_quic_varint \<Longrightarrow> reads (f v) bs P \<Longrightarrow> reads (zbind readVarInt f) (varint_bytes v @ bs) P"
  using reads_bind [OF readVarInt_reads, of v f bs P] by simp

lemma reads_varint_last: "v \<le> max_quic_varint \<Longrightarrow> reads (f v) [] P \<Longrightarrow> reads (zbind readVarInt f) (varint_bytes v) P"
  using reads_varint [of v f "[]" P] by simp

lemma reads_bytes_last: "n = length bs \<Longrightarrow> (\<And>x. elems x = bs \<Longrightarrow> P (g x)) \<Longrightarrow> reads (zbind (readBytes borrow n) (\<lambda>x. zret (g x))) bs P"
  using reads_bind [OF reads_bytes, of n bs "\<lambda>x. zret (g x)" "[]" P borrow] by auto

lemma reads_data:
  assumes "length data < 2 ^ 62" and "\<And>x. elems x = data \<Longrightarrow> P (g x)"
  shows "reads (zbind readVarInt (\<lambda>n. zbind (readBytes borrow (unat n)) (\<lambda>x. zret (g x)))) (data_bytes data) P"
  unfolding data_bytes_def
  by (intro reads_varint reads_bytes_last) (simp_all add: assms len64_varint [OF assms(1)] unat_len64 [OF assms(1)])

lemma reads_data_checked:
  assumes "length data < 2 ^ 62" and "\<And>x. elems x = data \<Longrightarrow> P (g x)"
    and "check (len64 data) = Inr ()"
  shows "reads (zbind readVarInt (\<lambda>n. zbind (zcheck (check n)) (\<lambda>_. zbind (readBytes borrow (unat n)) (\<lambda>x. zret (g x)))))
    (data_bytes data) P"
  unfolding data_bytes_def
  by (intro reads_varint reads_bytes_last reads_check) (simp_all add: assms len64_varint [OF assms(1)] unat_len64 [OF assms(1)])

lemma decodeFrameType_reads:
  assumes "t \<le> max_quic_varint"
  shows "reads decodeFrameType (varint_bytes t) (\<lambda>x. x = t)"
proof -
  have "minimalVarIntLen t = Inr (length (varint_bytes t))"
    using assms by (simp add: minimalVarIntLen_def length_varint_bytes)
  with decodeVarInt_reads [OF assms] show ?thesis
    unfolding decodeFrameType_def
    by (intro reads_bind [of _ "varint_bytes t" _ _ "[]", simplified]) (auto simp: zbind_def reads_def zret_def)
qed

lemma ucast_byte:
  assumes "b \<le> 63"
  shows "varint_bytes (ucast b) = [b]" "(ucast b :: u64) \<le> max_quic_varint"
proof -
  have v: "(ucast b :: u64) \<le> 63" using assms by (simp add: word_le_nat_alt unsigned_ucast_eq take_bit_nat_eq_self)
  moreover have "(ucast (ucast b :: u64) :: byte) = b"
    by (rule bit_word_eqI) (simp add: bit_ucast_iff)
  ultimately show "varint_bytes (ucast b) = [b]" by (simp add: varint_bytes_def)
  show "(ucast b :: u64) \<le> max_quic_varint" using order_trans [OF v, of max_quic_varint] by (simp add: max_quic_varint_eq)
qed

lemma zbind_ret [simp]: "zbind (zret x) f = f x"
  by (rule ext) (simp add: zbind_def zret_def)

lemma reads_frame_type:
  "t \<le> max_quic_varint \<Longrightarrow> reads (decodeFrameOf borrow t) bs P \<Longrightarrow> reads (decodeFrameImpl borrow) (varint_bytes t @ bs) P"
  unfolding decodeFrameImpl_def by (rule reads_bind [OF decodeFrameType_reads]) simp_all

lemma reads_frame:
  "b \<le> 63 \<Longrightarrow> reads (decodeFrameOf borrow (ucast b)) bs P \<Longrightarrow> reads (decodeFrameImpl borrow) (b # bs) P"
  using reads_frame_type [of "ucast b" borrow bs P] ucast_byte [of b] by simp

lemma reads_alloc:
  assumes "\<And>i. reads (f i) bs P"
  shows "reads (zbind (zig_alloc n) f) bs P"
proof -
  have "reads (zig_alloc n) [] (\<lambda>_. True)" by (auto simp: reads_def zig_alloc_def Let_def)
  from reads_bind [OF this, of f bs P] assms show ?thesis by simp
qed

lemma reads_ack_ranges:
  "(\<And>rng. rng \<in> set ranges \<Longrightarrow> ack_gap rng \<le> max_quic_varint \<and> ack_len rng \<le> max_quic_varint) \<Longrightarrow>
     reads (decodeAckRanges (length ranges)) (concat (map ack_range_bytes ranges)) (\<lambda>x. x = ranges)"
proof (induction ranges)
  case (Cons rng ranges)
  then have "reads (decodeAckRanges (length ranges)) (concat (map ack_range_bytes ranges)) (\<lambda>x. x = ranges)" by simp
  from reads_bind [OF this, of "\<lambda>ranges. zret (AckRange (ack_gap rng) (ack_len rng) # ranges)" "[]" "\<lambda>x. x = rng # ranges"]
  have "reads (zbind (decodeAckRanges (length ranges)) (\<lambda>ranges. zret (AckRange (ack_gap rng) (ack_len rng) # ranges)))
      (concat (map ack_range_bytes ranges)) (\<lambda>x. x = rng # ranges)" by auto
  with Cons.prems show ?case by (auto simp: ack_range_bytes_def [of rng] intro!: reads_varint)
qed auto

lemma length_ack_ranges: "2 * length ranges \<le> length (concat (map ack_range_bytes ranges))"
  by (induction ranges) (simp_all add: ack_range_bytes_def length_varint_bytes)

lemma reads_fits:
  assumes "2 * n \<le> length bs" and "n < 2 ^ 62" and "reads q bs P"
  shows "reads (zbind (validateAckRangeCountFitsReader n) (\<lambda>_. q)) bs P"
  unfolding reads_def
proof (intro allI impI)
  fix d :: decoder and rest
  assume d: "fr_ok d" "\<forall>i. \<not> al_fails d i" "drop (fr_pos d) (fr_data d) = bs @ rest"
  have "n * 2 \<le> remainingLen d" using drop_pos(2) [OF d(3)] d(1) assms(1) by (simp add: remainingLen_def fr_ok_def)
  then have "zbind (validateAckRangeCountFitsReader n) (\<lambda>_. q) d = q d"
    using assms(2) by (simp add: zbind_def validateAckRangeCountFitsReader_def)
  then show "\<exists>x d'. zbind (validateAckRangeCountFitsReader n) (\<lambda>_. q) d = (Inr x, d') \<and> P x \<and> fr_data d' = fr_data d \<and>
      fr_pos d' = fr_pos d + length bs \<and> al_fails d' = al_fails d"
    using assms(3) d unfolding reads_def by simp
qed

lemma reads_ack:
  assumes "validateAckFrame ack = Inr ()"
  shows "reads decodeAckFrameFields (ack_bytes ack) (\<lambda>x. map_ack_frame elems x = ack)"
proof -
  note ok = validateAckFrame_ok [OF assms(1)]
  note n = unat_len64 [OF ok(4)] ok(4)
  have "reads (zbind (decodeAckRanges (length (ack_ranges ack))) (\<lambda>ranges.
      zbind (zcheck (validateAckFrame (AckFrame (largest_acknowledged ack) (ack_delay ack) (first_ack_range ack) ranges))) (\<lambda>_.
      zret (AckFrame (largest_acknowledged ack) (ack_delay ack) (first_ack_range ack) (as_slice i ranges)))))
      (concat (map ack_range_bytes (ack_ranges ack)) @ []) (\<lambda>x. map_ack_frame elems x = ack)" for i
    using ok(5) assms by (intro reads_bind [OF reads_ack_ranges]) (auto intro!: reads_check)
  then show ?thesis
    unfolding decodeAckFrameFields_def ack_bytes_def Let_def
    by (intro reads_varint ok len64_varint, unfold n(1))
      (intro reads_fits reads_alloc reads_errdefer length_ack_ranges n(2), simp)
qed

lemma reads_ack_then:
  assumes "validateAckFrame ack = Inr ()"
    and "\<And>x. map_ack_frame elems x = ack \<Longrightarrow> reads (f x) bs P"
  shows "reads (zbind decodeAckFrameFields f) (ack_bytes ack @ bs) P"
  by (rule reads_bind [OF reads_ack [OF assms(1)] assms(2)])

lemma reads_ack_last:
  assumes "validateAckFrame ack = Inr ()"
    and "\<And>x. map_ack_frame elems x = ack \<Longrightarrow> reads (f x) [] P"
  shows "reads (zbind decodeAckFrameFields f) (ack_bytes ack) P"
  using reads_ack_then [OF assms] by simp

lemma reads_new_connection_id:
  assumes "validateNewConnectionIdFrame s r cid = Inr ()" and "length token = 16"
  shows "reads (decodeNewConnectionIdFrame borrow) (varint_bytes s @ varint_bytes r @ word_of_nat (length cid) # cid @ token)
    (\<lambda>g. map_frame elems elems g = New_connection_id s r cid token)"
proof -
  have cid: "1 \<le> length cid" "length cid \<le> 20" "s \<le> max_quic_varint" "r \<le> max_quic_varint" "r \<le> s"
    using assms(1) by (auto simp: validateNewConnectionIdFrame_def)
  then have n: "unat (word_of_nat (length cid) :: byte) = length cid" by (simp add: unat_of_nat)
  have "reads (errdefer (zig_free x) (zbind (readNoEof 16) (\<lambda>token. zret (New_connection_id s r x token)))) token
      (\<lambda>g. map_frame elems elems g = New_connection_id s r cid token)" if "elems x = cid" for x
    using that assms(2) by (intro reads_errdefer reads_block_then) simp_all
  then show ?thesis
    unfolding decodeNewConnectionIdFrame_def using cid
    by (intro reads_varint reads_byte_then reads_check, unfold n)
      (auto intro!: reads_bind [OF reads_bytes])
qed

lemma reads_stream:
  assumes "validateStreamFrame s off data = Inr ()"
    and bits: "((frame_type AND 4) \<noteq> 0) = (off \<noteq> 0)" "(frame_type AND 2) \<noteq> 0" "((frame_type AND 1) \<noteq> 0) = fin"
  shows "reads (decodeStreamFrame borrow frame_type)
      (varint_bytes s @ (if off \<noteq> 0 then varint_bytes off else []) @ data_bytes data)
    (\<lambda>g. map_frame elems elems g = Stream s off fin data)"
proof -
  have ok: "s \<le> max_quic_varint" "unat off + length data < 2 ^ 62" "length data < 2 ^ 62" "off \<le> max_quic_varint"
    using assms(1) by (auto simp: validate_defs dest: offset_varint [simplified])
  have "reads (zbind (zbind readVarInt (\<lambda>data_len. zbind (zcheck (validateFrameEndOffset off data_len)) (\<lambda>_. zret (unat data_len))))
      (\<lambda>len. zbind (readBytes borrow len) (\<lambda>data. zret (Stream s off fin data)))) (data_bytes data)
      (\<lambda>g. map_frame elems elems g = Stream s off fin data)"
    unfolding data_bytes_def
  proof (rule reads_bind)
    show "reads (zbind readVarInt (\<lambda>data_len. zbind (zcheck (validateFrameEndOffset off data_len)) (\<lambda>_. zret (unat data_len))))
        (varint_bytes (len64 data)) (\<lambda>n. n = length data)"
      using ok unat_len64 [OF ok(3)] len64_varint [OF ok(3)] by (auto intro!: reads_varint_last reads_check)
  qed (auto intro!: reads_bytes_last)
  then show ?thesis
    unfolding decodeStreamFrame_def Let_def bits using ok(1,4) bits(2)
    by (intro reads_varint) (auto intro!: reads_varint)
qed

lemma decodeFrameImpl_reads:
  assumes "frame_check f = Inr ()" and "frame_shape f" and "\<And>n. f \<noteq> Padding n"
  shows "reads (decodeFrameImpl borrow) (frame_bytes f) (\<lambda>g. map_frame elems elems g = f)"
proof (cases f)
  case (Crypto off data)
  then have ok: "unat off + length data < 2 ^ 62" "length data < 2 ^ 62" using assms(1) by simp_all
  show ?thesis
    unfolding Crypto frame_bytes.simps
    using offset_varint [OF ok(1)] unat_len64 [OF ok(2)] ok(1)
    by (auto simp: decodeFrameOf_def frameTypeId_def intro!: reads_frame reads_varint reads_data_checked)
next
  case (Stream s off fin data)
  define b :: byte where "b = 0x0a + (if off \<noteq> 0 then 4 else 0) + (if fin then 1 else 0)"
  have b: "b \<le> 63" "((ucast b AND 4 :: u64) \<noteq> 0) = (off \<noteq> 0)" "(ucast b AND 2 :: u64) \<noteq> 0" "((ucast b AND 1 :: u64) \<noteq> 0) = fin"
    "decodeFrameOf borrow (ucast b) = decodeStreamFrame borrow (ucast b)"
    by (auto simp: b_def decodeFrameOf_def frameTypeId_def)
  show ?thesis
    unfolding Stream frame_bytes.simps b_def [symmetric]
    using assms(1) Stream by (intro reads_frame [OF b(1)]) (simp add: b(5) reads_stream b(2-4))
qed (use assms in \<open>auto simp: validate_defs len64_pos [simplified] decodeFrameOf_def frameTypeId_def dest: offset_varint [simplified]
      intro!: reads_frame reads_ret reads_varint reads_varint_last reads_check reads_ack_then reads_ack_last reads_data reads_data_checked
       reads_block_then reads_errdefer reads_new_connection_id
      intro: validateStreamCount_varint\<close>)

section \<open>Progress and bounds\<close>

lemma readVarInt_advances: "advances readVarInt"
  by (simp add: readVarInt_def advances_bind advances_basic decodeVarInt_advances)

lemma decodeFrameType_advances: "advances decodeFrameType"
proof -
  have "advances (\<lambda>r. (minimalVarIntLen v, r))" for v by (simp add: advances_def)
  then show ?thesis
    unfolding decodeFrameType_def
    by (auto intro!: advances_bind advances_basic decodeVarInt_advances)
qed

lemma decodeAckRanges_advances: "advances (decodeAckRanges n)"
  by (induction n) (simp_all add: advances_bind advances_basic readVarInt_advances)

lemma fits_advances: "advances (validateAckRangeCountFitsReader n)"
  by (simp add: advances_def validateAckRangeCountFitsReader_def)

lemma deinitAckFrame_reader [simp]:
  "fr_data (deinitAckFrame ack d) = fr_data d" "fr_pos (deinitAckFrame ack d) = fr_pos d"
  by (simp_all add: deinitAckFrame_def)

lemma decodeAckFrameFields_advances: "advances decodeAckFrameFields"
  unfolding decodeAckFrameFields_def Let_def
  by (rule advances_bind advances_errdefer readVarInt_advances fits_advances advances_basic decodeAckRanges_advances | simp)+

lemma decodeStreamFrame_advances: "advances (decodeStreamFrame borrow t)"
proof -
  have "advances (\<lambda>d. zbind (zcheck (validateFrameEndOffsetFromLen off (remainingLen d))) (\<lambda>_. zret (remainingLen d)) d)" for off
    by (rule advances_at [where f = "\<lambda>d0. zbind (zcheck (validateFrameEndOffsetFromLen off (remainingLen d0)))
          (\<lambda>_. zret (remainingLen d0))"])
      (simp add: advances_bind advances_basic)
  note rest = this
  show ?thesis
    unfolding decodeStreamFrame_def Let_def
    by (rule rest advances_cond advances_bind readVarInt_advances advances_basic advances_bytes)+
qed

lemma decodeNewConnectionIdFrame_advances: "advances (decodeNewConnectionIdFrame borrow)"
  unfolding decodeNewConnectionIdFrame_def
  by (rule advances_bind advances_errdefer readVarInt_advances advances_basic advances_bytes | simp)+

lemma decodeFrameOf_advances: "advances (decodeFrameOf borrow t)"
  unfolding decodeFrameOf_def
  by (rule advances_cond advances_bind advances_errdefer readVarInt_advances advances_basic advances_bytes
      decodeAckFrameFields_advances decodeStreamFrame_advances decodeNewConnectionIdFrame_advances | simp)+

lemma decodeFrameImpl_moves: "moves (decodeFrameImpl borrow)" "advances (decodeFrameImpl borrow)"
proof -
  have "advances (\<lambda>r. (minimalVarIntLen v, r))" for v by (simp add: advances_def)
  then have "moves decodeFrameType"
    unfolding decodeFrameType_def
    by (auto intro!: moves_bind decodeVarInt_moves decodeVarInt_advances advances_bind advances_basic)
  then show "moves (decodeFrameImpl borrow)" "advances (decodeFrameImpl borrow)"
    unfolding decodeFrameImpl_def
    by (simp_all add: moves_bind advances_bind decodeFrameType_advances decodeFrameOf_advances)
qed

lemma decode_slice_cases:
  assumes "decode_slice decode data d = (r, d')"
  obtains (empty) "data = []" "r = Inl EndOfStream" "d' = d"
    | (padding) n where "1 \<le> n" "n \<le> length data" "r = Inr (Padding n, n)" "d' = d"
    | (frame) r1 where "data \<noteq> []" "decode (d\<lparr>fr_data := data, fr_pos := 0\<rparr>) = (r1, d')"
        "r = (case r1 of Inl e \<Rightarrow> Inl e | Inr g \<Rightarrow> Inr (g, fr_pos d'))"
proof -
  consider "data = []" | "data \<noteq> []" "data ! 0 = 0" | "data \<noteq> []" "data ! 0 \<noteq> 0" by blast
  then show thesis
  proof cases
    case 2
    then have "1 \<le> length (takeWhile (\<lambda>b. b = 0) data)" by (cases data) simp_all
    with 2 assms show thesis by (intro padding) (auto simp: decode_slice_def Let_def length_takeWhile_le)
  next
    case 3
    with assms show thesis
      by (cases "decode (d\<lparr>fr_data := data, fr_pos := 0\<rparr>)") (auto simp: decode_slice_def intro!: frame split: sum.splits)
  qed (use assms empty in \<open>simp add: decode_slice_def\<close>)
qed

lemma decode_slice_len:
  assumes "decode_slice (decodeFrameImpl borrow) data d = (Inr (f, len), d')"
  shows "1 \<le> len \<and> len \<le> length data"
  using assms
proof (cases rule: decode_slice_cases)
  case (frame r1)
  let ?d = "d\<lparr>fr_data := data, fr_pos := 0\<rparr>"
  from frame have d1: "decodeFrameImpl borrow ?d = (Inr f, d')" "len = fr_pos d'" by (auto split: sum.splits)
  have ok: "fr_ok ?d" by (simp add: fr_ok_def)
  then have "fr_pos ?d < fr_pos d'" using decodeFrameImpl_moves(1) [of borrow] d1(1) unfolding moves_def by blast
  with advancesD [OF decodeFrameImpl_moves(2) ok d1(1)] d1(2) show ?thesis by (auto simp: fr_ok_def)
qed simp_all

section \<open>Decoded frames are valid\<close>

lemma readVarInt_yields: "yields readVarInt (\<lambda>v. v \<le> max_quic_varint)"
  unfolding readVarInt_def by (rule yields_bind [OF decodeVarInt_value]) (auto intro: yields_basic)

lemma decodeAckRanges_yields: "yields (decodeAckRanges n) (\<lambda>ranges. length ranges = n)"
proof (induction n)
  case (Suc n)
  then show ?case
    unfolding decodeAckRanges.simps
    by - (rule yields_bind_any, rule yields_bind_any, erule yields_bind, simp add: yields_basic)
qed (simp add: yields_basic)

text \<open>
  A frame that a decoder returns passes the encoder's validation. Its ACK ranges own their memory in both
  modes, its payloads when they were not borrowed.
\<close>

definition ack_held :: "ack_range slice ack_frame \<Rightarrow> bool" where
  "ack_held ack \<longleftrightarrow> validateAckFrame (map_ack_frame elems ack) = Inr () \<and> length (elems (ack_ranges ack)) < 2 ^ 62 \<and>
     slice_wf (ack_ranges ack)"

definition frame_held :: "bool \<Rightarrow> held_frame \<Rightarrow> bool" where
  "frame_held borrow g \<longleftrightarrow> frame_check (map_frame elems elems g) = Inr () \<and> frame_shape (map_frame elems elems g) \<and>
     pred_frame (\<lambda>x. borrow \<or> slice_wf x) slice_wf g"

lemmas yields_rules = yields_bind [OF readVarInt_yields] yields_bind [OF yields_basic(3)] yields_bind [OF yields_bytes]
  yields_bind [OF yields_no_eof] yields_bind [OF yields_alloc] yields_bind [OF decodeAckRanges_yields]
  yields_errdefer yields_cond yields_basic

lemma decodeAckFrameFields_yields: "yields decodeAckFrameFields ack_held"
proof -
  have "yields (validateAckRangeCountFitsReader n) (\<lambda>_. True)" for n by (simp add: yields_def)
  note fits = yields_bind [OF this]
  show ?thesis
    unfolding decodeAckFrameFields_def Let_def
    by (rule fits yields_rules)+ (auto simp: ack_held_def varint_max intro!: slice_wf_as_slice)
qed

lemma decodeStreamFrame_yields: "yields (decodeStreamFrame borrow t) (frame_held borrow)"
proof -
  have len: "yields (zbind readVarInt (\<lambda>n. zbind (zcheck (validateFrameEndOffset off n)) (\<lambda>_. zret (unat n))))
      (\<lambda>n. unat off + n < 2 ^ 62)" for off
    by (intro yields_rules) simp
  have rest: "yields (\<lambda>d. zbind (zcheck (validateFrameEndOffsetFromLen off (remainingLen d))) (\<lambda>_. zret (remainingLen d)) d)
      (\<lambda>n. unat off + n < 2 ^ 62)" for off
    by (rule yields_at [where f = "\<lambda>d0. zbind (zcheck (validateFrameEndOffsetFromLen off (remainingLen d0)))
          (\<lambda>_. zret (remainingLen d0))"], intro yields_rules) simp
  have "yields (if t AND 2 \<noteq> 0
      then zbind readVarInt (\<lambda>n. zbind (zcheck (validateFrameEndOffset off n)) (\<lambda>_. zret (unat n)))
      else (\<lambda>d. zbind (zcheck (validateFrameEndOffsetFromLen off (remainingLen d))) (\<lambda>_. zret (remainingLen d)) d))
      (\<lambda>n. unat off + n < 2 ^ 62)" for off
    using len rest by (rule yields_cond)
  note data = yields_bind [OF this]
  show ?thesis
    unfolding decodeStreamFrame_def Let_def
    by (intro yields_rules data yields_bind_any [where p = "if _ then readVarInt else zret 0"])
      (simp add: frame_held_def validate_defs)
qed

lemma decodeNewConnectionIdFrame_yields: "yields (decodeNewConnectionIdFrame borrow) (frame_held borrow)"
  unfolding decodeNewConnectionIdFrame_def
  by (intro yields_rules yields_bind_any [where p = readByte]) (auto simp: frame_held_def validate_defs)

lemma pred_ack: "pred_ack_frame P ack \<longleftrightarrow> P (ack_ranges ack)"
  by (cases ack) simp

lemma decodeFrameImpl_yields: "yields (decodeFrameImpl borrow) (frame_held borrow)"
  unfolding decodeFrameImpl_def decodeFrameOf_def
  by (rule yields_bind_any, intro decodeStreamFrame_yields decodeNewConnectionIdFrame_yields
      yields_bind [OF decodeAckFrameFields_yields] yields_rules)
    (simp_all add: frame_held_def validate_defs ack_held_def pred_ack varint_max)

section \<open>Ownership\<close>

fun held_ids :: "held_frame \<Rightarrow> nat list" where
  "held_ids (Ack ack) = owned_ids (ack_ranges ack)"
| "held_ids (Ack_ecn ack ecn) = owned_ids (ack_ranges ack)"
| "held_ids (Stream stream_id offset fin data) = owned_ids data"
| "held_ids (Crypto offset data) = owned_ids data"
| "held_ids (New_token token) = owned_ids token"
| "held_ids (New_connection_id sequence_number retire_prior_to connection_id token) = owned_ids connection_id"
| "held_ids (Connection_close error_code frame_type reason_phrase) = owned_ids reason_phrase"
| "held_ids (Application_close error_code reason_phrase) = owned_ids reason_phrase"
| "held_ids (Datagram data) = owned_ids data"
| "held_ids _ = []"

lemma readVarInt_mem_safe: "mem_safe readVarInt (\<lambda>_. [])"
  unfolding readVarInt_def by (rule mem_safe_bind [OF decodeVarInt_mem_safe]) (simp add: mem_safe_basic)

lemma fits_mem_safe: "mem_safe (validateAckRangeCountFitsReader n) (\<lambda>_. [])"
  by (simp add: mem_safe_def validateAckRangeCountFitsReader_def)

lemma decodeAckRanges_mem_safe: "mem_safe (decodeAckRanges n) (\<lambda>_. [])"
  by (induction n) (auto intro!: mem_safe_bind readVarInt_mem_safe mem_safe_basic)

lemma zig_alloc_mem_safe: "mem_safe (zig_alloc n) (\<lambda>i. case i of None \<Rightarrow> [] | Some k \<Rightarrow> [k])"
  by (auto simp: mem_safe_def zig_alloc_def Let_def split: if_splits)

lemma decodeAckFrameFields_mem_safe: "mem_safe decodeAckFrameFields (\<lambda>ack. owned_ids (ack_ranges ack))"
proof -
  have "mem_safe (zbind (zig_alloc n) (\<lambda>i. errdefer (free_block i) (zbind (decodeAckRanges n) (\<lambda>ranges.
      zbind (zcheck (validateAckFrame (AckFrame largest delay first ranges))) (\<lambda>_.
      zret (AckFrame largest delay first (as_slice i ranges))))))) (\<lambda>ack. owned_ids (ack_ranges ack))"
    for n largest delay first
    by (rule mem_safe_errdefer [OF zig_alloc_mem_safe yields_alloc])
      (auto intro!: mem_safe_bind decodeAckRanges_mem_safe mem_safe_basic yields_rules
        simp: owned_ids_as_slice free_block_def free_id_def split: option.splits)
  then show ?thesis
    unfolding decodeAckFrameFields_def Let_def
    by (intro mem_safe_bind [OF readVarInt_mem_safe] mem_safe_bind [OF fits_mem_safe])
qed

lemma deinitAckFrame_own:
  "slice_wf (ack_ranges ack) \<Longrightarrow> al_live d = owned_ids (ack_ranges ack) @ live \<Longrightarrow>
     al_live (deinitAckFrame ack d) = live \<and> al_bad (deinitAckFrame ack d) = al_bad d"
  using zig_free_own [of "ack_ranges ack" d live] by (cases "ack_ranges ack") (auto simp: deinitAckFrame_def)

text \<open>The branches that allocate nothing, or that end in an allocation.\<close>

lemmas mem_safe_rules = mem_safe_bind [OF readVarInt_mem_safe] mem_safe_bind [OF mem_safe_basic(3)]
  mem_safe_bind [OF mem_safe_basic(4)] mem_safe_bind [OF mem_safe_basic(5)] mem_safe_map [OF mem_safe_bytes]
  mem_safe_cond mem_safe_basic(1,2)

lemma decodeStreamFrame_mem_safe: "mem_safe (decodeStreamFrame borrow t) held_ids"
proof -
  have rest: "mem_safe (\<lambda>d. zbind (zcheck (validateFrameEndOffsetFromLen off (remainingLen d))) (\<lambda>_. zret (remainingLen d)) d)
      (\<lambda>_. [])" for off
    by (rule mem_safe_at [where f = "\<lambda>d0. zbind (zcheck (validateFrameEndOffsetFromLen off (remainingLen d0)))
          (\<lambda>_. zret (remainingLen d0))"], intro mem_safe_rules) simp
  show ?thesis
    unfolding decodeStreamFrame_def Let_def
    by (rule mem_safe_bind readVarInt_mem_safe rest mem_safe_rules | simp)+
qed

lemma decodeNewConnectionIdFrame_mem_safe: "mem_safe (decodeNewConnectionIdFrame False) held_ids"
proof -
  have "mem_safe (zbind (readBytes False n) (\<lambda>cid. errdefer (zig_free cid) (zbind (readNoEof 16) (\<lambda>token.
      zret (New_connection_id s r cid token))))) held_ids" for n s r
    by (rule mem_safe_errdefer [OF mem_safe_bytes yields_bytes])
      (auto intro!: mem_safe_rules yields_rules zig_free_own)
  then show ?thesis unfolding decodeNewConnectionIdFrame_def by (intro mem_safe_rules)
qed

lemma decodeFrameOf_mem_safe:
  assumes "\<not> borrow \<or> t \<noteq> frameTypeId FT_new_connection_id"
  shows "mem_safe (decodeFrameOf borrow t) held_ids"
proof -
  have ack: "mem_safe (zbind decodeAckFrameFields (\<lambda>ack. errdefer (deinitAckFrame ack)
      (if c then zbind readVarInt (\<lambda>ect0_count. zbind readVarInt (\<lambda>ect1_count. zbind readVarInt (\<lambda>ecn_ce_count.
         zret (Ack_ecn ack (EcnCounts ect0_count ect1_count ecn_ce_count)))))
       else zret (Ack ack)))) held_ids" for c
    by (rule mem_safe_errdefer [OF decodeAckFrameFields_mem_safe decodeAckFrameFields_yields])
      (auto intro!: mem_safe_rules yields_rules deinitAckFrame_own simp: ack_held_def)
  have new: "mem_safe (if t = frameTypeId FT_new_connection_id then decodeNewConnectionIdFrame borrow else p) held_ids"
    if "mem_safe p held_ids" for p
    using that assms decodeNewConnectionIdFrame_mem_safe by auto
  show ?thesis
    unfolding decodeFrameOf_def
    by (rule ack new decodeStreamFrame_mem_safe mem_safe_rules | simp)+
qed

lemma decodeFrameType_mem_safe: "mem_safe decodeFrameType (\<lambda>_. [])"
proof -
  have "mem_safe (\<lambda>r. (minimalVarIntLen v, r)) (\<lambda>_. [])" for v by (simp add: mem_safe_def split: sum.splits)
  then show ?thesis
    unfolding decodeFrameType_def by (auto intro!: mem_safe_bind decodeVarInt_mem_safe mem_safe_basic)
qed

lemma decodeFrame_mem_safe: "mem_safe (decodeFrameImpl False) held_ids"
  unfolding decodeFrameImpl_def by (intro mem_safe_bind decodeFrameType_mem_safe decodeFrameOf_mem_safe) simp

lemma deinitFrame_own:
  "frame_held False g \<Longrightarrow> al_live d = held_ids g @ live \<Longrightarrow>
     al_live (deinitFrame g d) = live \<and> al_bad (deinitFrame g d) = al_bad d"
  by (cases g) (auto simp: frame_held_def pred_ack intro!: deinitAckFrame_own zig_free_own)

text \<open>What borrowing leaves to free: the ACK ranges.\<close>

lemma readBytes_borrowed: "yields (readBytes True n) (\<lambda>x. owned_ids x = [])"
  by (auto simp: yields_def readBytes_def readSlice_def split: if_splits)

definition borrowed :: "held_frame \<Rightarrow> bool" where
  "borrowed g \<longleftrightarrow> frame_held True g \<and> pred_frame (\<lambda>x. owned_ids x = []) (\<lambda>_. True) g"

lemma deinitFrameBorrowing_own:
  "borrowed g \<Longrightarrow> al_live d = held_ids g @ live \<Longrightarrow>
     al_live (deinitFrameBorrowing g d) = live \<and> al_bad (deinitFrameBorrowing g d) = al_bad d"
  by (cases g) (auto simp: borrowed_def frame_held_def pred_ack intro!: deinitAckFrame_own)

lemma decodeFrameImpl_borrowed: "yields (decodeFrameImpl True) borrowed"
proof -
  let ?P = "pred_frame (\<lambda>x. owned_ids x = []) (\<lambda>_. True)"
  have ack: "pred_ack_frame (\<lambda>_. True) x" for x :: "ack_range slice ack_frame" by (simp add: pred_ack)
  note rules = yields_bind [OF readBytes_borrowed] yields_cond yields_errdefer yields_basic(1,2)
  have "yields (decodeStreamFrame True t) ?P" "yields (decodeNewConnectionIdFrame True) ?P" for t
    unfolding decodeStreamFrame_def decodeNewConnectionIdFrame_def Let_def
    by (rule rules yields_bind_any | simp)+
  then have "yields (decodeFrameImpl True) ?P"
    unfolding decodeFrameImpl_def decodeFrameOf_def
    by - (rule yields_bind_any, (rule rules yields_bind_any | simp add: ack)+)
  with decodeFrameImpl_yields [of True] show ?thesis unfolding yields_def borrowed_def by blast
qed

text \<open>
  In borrowing mode the clean-up of a truncated NEW_CONNECTION_ID frees the borrowed connection ID: nothing is
  lost, and a bad free happens only together with \<^verbatim>\<open>EndOfStream\<close>.
\<close>

definition mem_kept :: "('a, decoder) zig \<Rightarrow> ('a \<Rightarrow> nat list) \<Rightarrow> bool" where
  "mem_kept p own \<longleftrightarrow>
     (\<forall>d r d'. p d = (r, d') \<longrightarrow> al_live d' = (case r of Inl e \<Rightarrow> [] | Inr x \<Rightarrow> own x) @ al_live d \<and>
       (r = Inl EndOfStream \<or> al_bad d' = al_bad d))"

lemma mem_keptD:
  "mem_kept p own \<Longrightarrow> p d = (r, d') \<Longrightarrow> al_live d' = (case r of Inl e \<Rightarrow> [] | Inr x \<Rightarrow> own x) @ al_live d \<and>
     (r = Inl EndOfStream \<or> al_bad d' = al_bad d)"
  unfolding mem_kept_def by blast

lemma mem_kept_bind:
  assumes "mem_safe p (\<lambda>_. [])" and "\<And>x. mem_kept (f x) own"
  shows "mem_kept (zbind p f) own"
proof -
  have "al_live d' = (case r of Inl e \<Rightarrow> [] | Inr x \<Rightarrow> own x) @ al_live d \<and> (r = Inl EndOfStream \<or> al_bad d' = al_bad d)"
    if "p d = (Inr x, d1)" "f x d1 = (r, d')" for d x d1 r d'
    using mem_safeD [OF assms(1) that(1)] mem_keptD [OF assms(2) that(2)] by simp
  moreover have "al_live d' = al_live d \<and> al_bad d' = al_bad d" if "p d = (Inl e, d')" for d e d'
    using mem_safeD [OF assms(1) that] by simp
  ultimately show ?thesis
    unfolding mem_kept_def zbind_eq by (intro allI impI) (elim disjE exE conjE, simp_all)
qed

lemma decodeNewConnectionIdFrame_mem_kept: "mem_kept (decodeNewConnectionIdFrame True) held_ids"
proof -
  have "mem_kept (zbind (readBytes True n) (\<lambda>cid. errdefer (zig_free cid) (zbind (readNoEof 16) (\<lambda>token.
      zret (New_connection_id s r cid token))))) held_ids" for n s r
    by (auto simp: mem_kept_def zbind_def readBytes_def readSlice_def errdefer_def readNoEof_def zret_def split: if_splits)
  then show ?thesis
    unfolding decodeNewConnectionIdFrame_def
    by (intro mem_kept_bind [OF readVarInt_mem_safe] mem_kept_bind [OF mem_safe_basic(3)]
        mem_kept_bind [OF mem_safe_basic(4)])
qed

lemma decodeFrameType_first:
  assumes "decodeFrameType d = (Inr t, d')" and "t \<le> 63"
  shows "fr_data d ! fr_pos d = ucast t"
proof -
  have "ucast (ucast (b AND 0x3f) :: u64) = b" if "drop_bit 6 b = 0" for b :: byte
  proof (rule bit_word_eqI)
    fix n
    have "bit (drop_bit 6 b) (n - 6) = bit b n" if "6 \<le> n" using that by (simp add: bit_drop_bit_eq)
    then have "bit b n \<Longrightarrow> n < 6" using \<open>drop_bit 6 b = 0\<close> by (cases "6 \<le> n") simp_all
    then show "bit (ucast (ucast (b AND 0x3f) :: u64) :: byte) n = bit b n" if "n < LENGTH(8)"
      using that unfolding byte_masks by (auto simp: bit_simps)
  qed
  then show ?thesis
    using assms
    by (auto simp: decodeFrameType_def decodeVarInt_def zbind_eq readByte_def Let_def zret_def zfail_def
        minimalVarIntLen_def split: if_splits)
qed

lemma decodeFrameOf_mem_kept:
  assumes "decodeFrameImpl True d = (r, d')"
  shows "al_live d' = (case r of Inl e \<Rightarrow> [] | Inr g \<Rightarrow> held_ids g) @ al_live d \<and>
    (r = Inl EndOfStream \<and> fr_data d ! fr_pos d = 0x18 \<or> al_bad d' = al_bad d)"
proof -
  from assms consider e where "decodeFrameType d = (Inl e, d')" "r = Inl e"
    | t d1 where "decodeFrameType d = (Inr t, d1)" "decodeFrameOf True t d1 = (r, d')"
    unfolding decodeFrameImpl_def zbind_eq by auto
  then show ?thesis
  proof cases
    case 1
    then show ?thesis using mem_safeD [OF decodeFrameType_mem_safe 1(1)] by simp
  next
    case (2 t d1)
    note type = mem_safeD [OF decodeFrameType_mem_safe 2(1)]
    show ?thesis
    proof (cases "t = frameTypeId FT_new_connection_id")
      case True
      then have "decodeNewConnectionIdFrame True d1 = (r, d')" using 2(2) by (simp add: decodeFrameOf_def frameTypeId_def)
      moreover have "fr_data d ! fr_pos d = 0x18"
        using decodeFrameType_first [OF 2(1)] True by (simp add: frameTypeId_def)
      ultimately show ?thesis using mem_keptD [OF decodeNewConnectionIdFrame_mem_kept, of d1 r d'] type by simp
    next
      case False
      then show ?thesis using mem_safeD [OF decodeFrameOf_mem_safe 2(2)] type by simp
    qed
  qed
qed

section \<open>Properties\<close>

lemma encodeFrame_invalid:
  assumes "frame_check f = Inl e"
  shows "encodeFrame f w = (Inl e, w)"
  using assms by (cases f) (auto simp: zbind_def zcheck_def)

text \<open>Encoding a frame either fails its validation and writes nothing, or appends exactly the
  bytes of the wire format; when they do not fit it is \<^verbatim>\<open>NoSpaceLeft\<close> with a proper prefix of them written.\<close>

theorem encodeFrame_exact:
  assumes "fw_ok w" and "frame_shape f"
  shows "case frame_check f of
      Inl e \<Rightarrow> encodeFrame f w = (Inl e, w)
    | Inr _ \<Rightarrow>
        if length (frame_bytes f) \<le> fw_room w
        then \<exists>w'. encodeFrame f w = (Inr (), w') \<and> getWritten w' = getWritten w @ frame_bytes f
        else \<exists>w' k. encodeFrame f w = (Inl NoSpaceLeft, w') \<and> k < length (frame_bytes f) \<and>
          getWritten w' = getWritten w @ take k (frame_bytes f)"
proof (cases "frame_check f")
  case (Inl e)
  then show ?thesis by (simp add: encodeFrame_invalid)
next
  case (Inr u)
  then have "writes (encodeFrame f) (frame_bytes f)" using encodeFrame_writes assms(2) by simp
  with assms(1) have w: "if length (frame_bytes f) \<le> fw_room w then encodeFrame f w = (Inr (), fw_put (frame_bytes f) w)
      else \<exists>k < length (frame_bytes f). k \<le> fw_room w \<and>
        encodeFrame f w = (Inl NoSpaceLeft, fw_put (take k (frame_bytes f)) w)"
    unfolding writes_def by blast
  have put: "length bs \<le> fw_room w \<Longrightarrow> getWritten (fw_put bs w) = getWritten w @ bs" for bs
    using fw_put_props(3) [OF assms(1)] .
  show ?thesis
  proof (cases "length (frame_bytes f) \<le> fw_room w")
    case True
    then show ?thesis using w put Inr by simp
  next
    case False
    then obtain k where k: "k < length (frame_bytes f)" "k \<le> fw_room w"
        "encodeFrame f w = (Inl NoSpaceLeft, fw_put (take k (frame_bytes f)) w)" using w by auto
    then have "getWritten (fw_put (take k (frame_bytes f)) w) = getWritten w @ take k (frame_bytes f)" by (intro put) simp
    with k have "\<exists>w' k. encodeFrame f w = (Inl NoSpaceLeft, w') \<and> k < length (frame_bytes f) \<and>
        getWritten w' = getWritten w @ take k (frame_bytes f)" by blast
    with False Inr show ?thesis by simp
  qed
qed

lemma encodeFrame_exact_witness:
  "\<exists>w'. encodeFrame (Max_data 5) (fixedWriter [0, 0, 0]) = (Inr (), w') \<and> getWritten w' = [0x10, 5]"
proof -
  have "frame_check (Max_data 5) = Inr ()" "frame_bytes (Max_data 5) = [0x10, 5]" "fw_room (fixedWriter [0, 0, 0]) = 3"
      "getWritten (fixedWriter [0, 0, 0]) = []" "fw_ok (fixedWriter [0, 0, 0])"
    by (simp_all add: varint_bytes_def max_quic_varint_eq fw_room_def fw_ok_def fixedWriter_def getWritten_def)
  with encodeFrame_exact [of "fixedWriter [0, 0, 0]" "Max_data 5"] show ?thesis
    by (simp del: encodeFrame.simps frame_check.simps frame_bytes.simps)
qed

lemma encodeFrame_fits:
  assumes "frame_check f = Inr ()" and "frame_shape f" and "length (frame_bytes f) \<le> length buf"
  shows "\<exists>w. encodeFrame f (fixedWriter buf) = (Inr (), w)"
  using encodeFrame_writes [OF assms(1,2)] assms(3)
  by (auto simp: writes_def fixedWriter_def fw_ok_def fw_room_def dest!: spec [of _ "fixedWriter buf"])

lemma encodeFrame_done:
  assumes "encodeFrame f (fixedWriter buf) = (Inr (), w)" and "frame_shape f"
  shows "frame_check f = Inr ()" "getWritten w = frame_bytes f"
proof -
  show check: "frame_check f = Inr ()" using encodeFrame_invalid [of f] assms(1) by (cases "frame_check f") auto
  let ?w = "fixedWriter buf"
  have ok: "fw_ok ?w" "getWritten ?w = []" by (simp_all add: fixedWriter_def fw_ok_def getWritten_def)
  with encodeFrame_writes [OF check assms(2)] assms(1)
  have "length (frame_bytes f) \<le> fw_room ?w" "w = fw_put (frame_bytes f) ?w"
    unfolding writes_def by (auto split: if_splits dest!: spec [of _ ?w])
  then show "getWritten w = frame_bytes f" using fw_put_props(3) [OF ok(1)] ok(2) by simp
qed

lemma frame_bytes_first:
  assumes "\<And>n. f \<noteq> Padding n"
  shows "frame_bytes f \<noteq> []" "frame_bytes f ! 0 \<noteq> 0"
  using assms by (cases f; simp)+

lemma decode_slice_reads:
  assumes "reads (decodeFrameImpl borrow) bs P" and "bs \<noteq> []" and "bs ! 0 \<noteq> 0" and "\<forall>i. \<not> al_fails d i"
  shows "\<exists>g d'. decode_slice (decodeFrameImpl borrow) (bs @ rest) d = (Inr (g, length bs), d') \<and> P g \<and> al_fails d' = al_fails d"
proof -
  let ?d = "d\<lparr>fr_data := bs @ rest, fr_pos := 0\<rparr>"
  have "fr_ok ?d" "\<forall>i. \<not> al_fails ?d i" "drop (fr_pos ?d) (fr_data ?d) = bs @ rest"
    using assms(4) by (simp_all add: fr_ok_def)
  with assms(1) obtain g d' where "decodeFrameImpl borrow ?d = (Inr g, d')" "P g" "fr_data d' = fr_data ?d"
      "fr_pos d' = fr_pos ?d + length bs" "al_fails d' = al_fails ?d"
    by (rule readsD)
  with assms(2,3) show ?thesis by (auto simp: decode_slice_def nth_append)
qed

lemma decode_slice_frame_bytes:
  assumes "frame_check f = Inr ()" and "frame_shape f" and "\<forall>i. \<not> al_fails d i"
    and "(\<exists>n. f = Padding n) \<longrightarrow> rest = [] \<or> hd rest \<noteq> 0"
  shows "\<exists>g d'. decode_slice (decodeFrameImpl borrow) (frame_bytes f @ rest) d = (Inr (g, length (frame_bytes f)), d') \<and>
    map_frame elems elems g = f \<and> al_fails d' = al_fails d"
proof (cases "\<exists>n. f = Padding n")
  case True
  then obtain n where n: "f = Padding n" by auto
  with assms(1) have "0 < n" by simp
  moreover have "takeWhile (\<lambda>b. b = 0) (replicate n 0 @ rest) = replicate n (0 :: byte)"
    using assms(4) n by (cases rest) (auto simp: takeWhile_append)
  ultimately show ?thesis using n by (simp add: decode_slice_def Let_def nth_append)
next
  case False
  then show ?thesis
    using decode_slice_reads [OF decodeFrameImpl_reads [OF assms(1,2)] _ _ assms(3)] frame_bytes_first [of f] by auto
qed

text \<open>Property C5: every frame that is encoded comes back out of both decoders, with its contents and its
  length, whatever bytes follow it, except that a PADDING frame must not be followed by a zero byte, since the decoders
  merge padding. Allocations succeed, and the fields of fixed size have their size.\<close>

theorem frame_roundtrip:
  assumes "encodeFrame f (fixedWriter buf) = (Inr (), w)" and "frame_shape f" and "\<forall>i. \<not> al_fails d i"
    and "\<And>n. f = Padding n \<Longrightarrow> rest = [] \<or> hd rest \<noteq> 0"
    and "decode \<in> {decodeFrameSlice, decodeFrameSliceBorrowing}"
  shows "\<exists>g d'. decode (getWritten w @ rest) d = (Inr (g, length (getWritten w)), d') \<and> map_frame elems elems g = f"
proof -
  have "\<exists>g d'. decode_slice (decodeFrameImpl borrow) (frame_bytes f @ rest) d = (Inr (g, length (frame_bytes f)), d') \<and>
      map_frame elems elems g = f" for borrow
    using decode_slice_frame_bytes [OF encodeFrame_done(1) [OF assms(1,2)] assms(2,3), of rest borrow] assms(4) by blast
  with assms(5) show ?thesis
    unfolding encodeFrame_done(2) [OF assms(1,2)]
    by (auto simp: decodeFrameSlice_def decodeFrameSliceBorrowing_def decodeFrame_def)
qed

lemma frame_roundtrip_witness:
  "\<exists>g d'. decodeFrameSlice ([0x0f, 4, 9, 2, 7, 8] @ [0, 0]) no_alloc = (Inr (g, length [0x0f, 4, 9, 2, 7, 8 :: byte]), d') \<and>
     map_frame elems elems g = Stream 4 9 True [7, 8]"
proof -
  have bytes: "frame_bytes (Stream 4 9 True [7, 8]) = [0x0f, 4, 9, 2, 7, 8]"
    by (simp add: varint_bytes_def data_bytes_def len64_def)
  obtain w where w: "encodeFrame (Stream 4 9 True [7, 8]) (fixedWriter (replicate 8 0)) = (Inr (), w)"
    using encodeFrame_fits [of "Stream 4 9 True [7, 8]" "replicate 8 0", unfolded bytes]
    by (auto simp: validate_defs max_quic_varint_eq simp del: encodeFrame.simps)
  have "getWritten w = [0x0f, 4, 9, 2, 7, 8]" using encodeFrame_done(2) [OF w] bytes by simp
  with frame_roundtrip [OF w, of no_alloc "[0, 0]" decodeFrameSlice] show ?thesis by simp
qed

text \<open>Whatever the input, a frame that a decoder returns consumed between one byte and all of
  them, and it passes the validation of the encoder, so it can be encoded again.\<close>

theorem frame_decoded_valid:
  assumes "decode \<in> {decodeFrameSlice, decodeFrameSliceBorrowing}" and "decode data d = (Inr (g, len), d')"
  shows "1 \<le> len \<and> len \<le> length data \<and>
    frame_check (map_frame elems elems g) = Inr () \<and> frame_shape (map_frame elems elems g)"
proof -
  obtain borrow where dec: "decode_slice (decodeFrameImpl borrow) data d = (Inr (g, len), d')"
    using assms by (auto simp: decodeFrameSlice_def decodeFrameSliceBorrowing_def decodeFrame_def)
  from dec have "frame_check (map_frame elems elems g) = Inr () \<and> frame_shape (map_frame elems elems g)"
  proof (cases rule: decode_slice_cases)
    case (frame r1)
    then have "decodeFrameImpl borrow (d\<lparr>fr_data := data, fr_pos := 0\<rparr>) = (Inr g, d')" by (auto split: sum.splits)
    then show ?thesis using decodeFrameImpl_yields [of borrow] unfolding yields_def frame_held_def by blast
  qed simp_all
  with decode_slice_len [OF dec] show ?thesis by simp
qed

lemma frame_decoded_valid_witness:
  "frame_check (map_frame elems elems (Max_data 5 :: held_frame)) = Inr ()"
proof -
  have "fst (decodeFrameSlice [0x10, 5] no_alloc) = Inr (Max_data 5, 2)" by code_simp
  then show ?thesis
    using frame_decoded_valid [of decodeFrameSlice "[0x10, 5]" no_alloc] by (metis insertCI prod.collapse)
qed

lemma decodeFrameSlice_balance:
  "case decodeFrameSlice data d of
     (Inl e, d') \<Rightarrow> al_live d' = al_live d \<and> al_bad d' = al_bad d
   | (Inr (g, len), d') \<Rightarrow> al_live (deinitFrame g d') = al_live d \<and> al_bad (deinitFrame g d') = al_bad d"
proof (cases "decodeFrameSlice data d")
  case dec: (Pair r d')
  then have "decode_slice (decodeFrameImpl False) data d = (r, d')" by (simp add: decodeFrameSlice_def decodeFrame_def)
  then have "case r of Inl e \<Rightarrow> al_live d' = al_live d \<and> al_bad d' = al_bad d
    | Inr (g, len) \<Rightarrow> al_live (deinitFrame g d') = al_live d \<and> al_bad (deinitFrame g d') = al_bad d"
  proof (cases rule: decode_slice_cases)
    case (frame r1)
    have "frame_held False g" if "r1 = Inr g" for g
      using decodeFrameImpl_yields [of False] frame(2) that unfolding yields_def by blast
    with mem_safeD [OF decodeFrame_mem_safe frame(2)] deinitFrame_own [of _ d' "al_live d"] frame(3)
    show ?thesis by (cases r1) simp_all
  qed simp_all
  with dec show ?thesis by (cases r) auto
qed

text \<open>Property C6: decoding with copies never frees what it does not own and never leaks: after an error nothing
  is left allocated, whichever allocation failed and wherever the input was cut, and after a success
  \<^verbatim>\<open>deinitFrame\<close> gives back exactly what the frame holds.\<close>

theorem decode_owned_balanced:
  "case decodeFrameSlice data d of
     (Inl e, d') \<Rightarrow> al_live d' = al_live d \<and> al_bad d' = al_bad d
   | (Inr (g, len), d') \<Rightarrow> al_live (deinitFrame g d') = al_live d \<and> al_bad (deinitFrame g d') = al_bad d"
  by (rule decodeFrameSlice_balance)

text \<open>Decoding with borrowed payloads leaks nothing either, and \<^verbatim>\<open>deinitFrameBorrowing\<close> gives back what a
  frame holds; the one bad free it can make is on a truncated NEW_CONNECTION_ID frame.\<close>

theorem decode_borrowed_balanced:
  "case decodeFrameSliceBorrowing data d of
     (Inl e, d') \<Rightarrow> al_live d' = al_live d \<and> (al_bad d' = al_bad d \<or> e = EndOfStream \<and> data ! 0 = 0x18)
   | (Inr (g, len), d') \<Rightarrow> al_live (deinitFrameBorrowing g d') = al_live d \<and> al_bad (deinitFrameBorrowing g d') = al_bad d"
proof (cases "decodeFrameSliceBorrowing data d")
  case dec: (Pair r d')
  then have "decode_slice (decodeFrameImpl True) data d = (r, d')" by (simp add: decodeFrameSliceBorrowing_def)
  then have "case r of Inl e \<Rightarrow> al_live d' = al_live d \<and> (al_bad d' = al_bad d \<or> e = EndOfStream \<and> data ! 0 = 0x18)
    | Inr (g, len) \<Rightarrow> al_live (deinitFrameBorrowing g d') = al_live d \<and> al_bad (deinitFrameBorrowing g d') = al_bad d"
  proof (cases rule: decode_slice_cases)
    case (frame r1)
    have "borrowed g" if "r1 = Inr g" for g
      using decodeFrameImpl_borrowed frame(2) that unfolding yields_def by blast
    with decodeFrameOf_mem_kept [OF frame(2)] deinitFrameBorrowing_own [of _ d' "al_live d"] frame(3)
    show ?thesis by (cases r1) auto
  qed simp_all
  with dec show ?thesis by (cases r) auto
qed

text \<open>
  A parser that fails at the end of the input, after parts that it reads.
\<close>

definition fails_at :: "('a, decoder) zig \<Rightarrow> byte list \<Rightarrow> zig_error \<Rightarrow> (decoder \<Rightarrow> bool) \<Rightarrow> bool" where
  "fails_at p bs e Q \<longleftrightarrow>
     (\<forall>d. fr_ok d \<longrightarrow> (\<forall>i. \<not> al_fails d i) \<longrightarrow> drop (fr_pos d) (fr_data d) = bs \<longrightarrow> (\<exists>d'. p d = (Inl e, d') \<and> Q d'))"

lemma fails_at_bind:
  assumes "reads p bs P" and "\<And>x. P x \<Longrightarrow> fails_at (f x) cs e Q"
  shows "fails_at (zbind p f) (bs @ cs) e Q"
  unfolding fails_at_def
proof (intro allI impI)
  fix d :: decoder
  assume d: "fr_ok d" "\<forall>i. \<not> al_fails d i" "drop (fr_pos d) (fr_data d) = bs @ cs"
  from assms(1) d obtain x d1 where 1: "p d = (Inr x, d1)" "P x" "fr_data d1 = fr_data d"
      "fr_pos d1 = fr_pos d + length bs" "al_fails d1 = al_fails d" by (rule readsD)
  have "fr_ok d1" "\<forall>i. \<not> al_fails d1 i" "drop (fr_pos d1) (fr_data d1) = cs"
    using drop_pos [OF d(3)] d 1 by (simp_all add: fr_ok_def)
  then obtain d2 where "f x d1 = (Inl e, d2)" "Q d2" using assms(2) [OF 1(2)] unfolding fails_at_def by blast
  with 1 show "\<exists>d'. zbind p f d = (Inl e, d') \<and> Q d'" by (simp add: zbind_def)
qed

lemma fails_at_rules:
  "v \<le> max_quic_varint \<Longrightarrow> fails_at (f v) bs e Q \<Longrightarrow> fails_at (zbind readVarInt f) (varint_bytes v @ bs) e Q"
  "fails_at (h b) bs e Q \<Longrightarrow> fails_at (zbind readByte h) (b # bs) e Q"
  "r = Inr () \<Longrightarrow> fails_at (k ()) bs e Q \<Longrightarrow> fails_at (zbind (zcheck r) k) bs e Q"
  using fails_at_bind [OF readVarInt_reads [of v], of f bs e Q] fails_at_bind [OF reads_byte [of b], of h bs e Q]
  by (simp_all add: fails_at_def zbind_def zcheck_def)

lemma new_connection_id_fails:
  assumes "cid \<noteq> []" and "length token < 16"
  shows "fails_at (zbind (readBytes True (length cid)) (\<lambda>cid. errdefer (zig_free cid) (zbind (readNoEof 16) (\<lambda>token.
    zret (New_connection_id s r cid token))))) (cid @ token) EndOfStream al_bad"
  unfolding fails_at_def
proof (intro allI impI)
  fix d :: decoder
  assume d: "fr_ok d" "\<forall>i. \<not> al_fails d i" "drop (fr_pos d) (fr_data d) = cid @ token"
  from drop_pos(2) [OF d(3)] d(1) have "length (fr_data d) = fr_pos d + length cid + length token" by (simp add: fr_ok_def)
  with d(3) assms show "\<exists>d'. zbind (readBytes True (length cid)) (\<lambda>cid. errdefer (zig_free cid) (zbind (readNoEof 16) (\<lambda>token.
      zret (New_connection_id s r cid token)))) d = (Inl EndOfStream, d') \<and> al_bad d'"
    by (simp add: zbind_def readBytes_def readSlice_def errdefer_def readNoEof_def)
qed

text \<open>Property C11: A NEW_CONNECTION_ID frame cut inside its stateless reset token makes the borrowing decoder
  free the connection ID, which points into the packet and was never allocated.\<close>

theorem new_connection_id_bad_free:
  assumes "frame_check (New_connection_id s r cid token) = Inr ()" and "length token < 16" and "\<forall>i. \<not> al_fails d i"
  shows "\<exists>d'. decodeFrameSliceBorrowing (frame_bytes (New_connection_id s r cid token)) d = (Inl EndOfStream, d') \<and> al_bad d'"
proof -
  let ?data = "frame_bytes (New_connection_id s r cid token)"
  have cid: "1 \<le> length cid" "length cid \<le> 20" "s \<le> max_quic_varint" "r \<le> max_quic_varint" "r \<le> s"
    using assms(1) by (auto simp: validateNewConnectionIdFrame_def)
  then have n: "unat (word_of_nat (length cid) :: byte) = length cid" by (simp add: unat_of_nat)
  have "cid \<noteq> []" using cid(1) by auto
  from new_connection_id_fails [OF this assms(2)] cid
  have "fails_at (decodeNewConnectionIdFrame True) (varint_bytes s @ varint_bytes r @ word_of_nat (length cid) # cid @ token)
      EndOfStream al_bad"
    unfolding decodeNewConnectionIdFrame_def by (intro fails_at_rules) (simp_all add: n)
  moreover have "reads decodeFrameType [0x18] (\<lambda>t. t = 0x18)"
    using decodeFrameType_reads [of "0x18"] by (simp add: varint_bytes_def max_quic_varint_eq)
  ultimately have "fails_at (decodeFrameImpl True) ([0x18] @ varint_bytes s @ varint_bytes r @ word_of_nat (length cid) # cid @ token)
      EndOfStream al_bad"
    unfolding decodeFrameImpl_def by (elim fails_at_bind) (simp add: decodeFrameOf_def frameTypeId_def)
  then show ?thesis
    using assms(3) by (auto simp: fails_at_def fr_ok_def decodeFrameSliceBorrowing_def decode_slice_def
        dest!: spec [of _ "d\<lparr>fr_data := ?data, fr_pos := 0\<rparr>"])
qed

lemma new_connection_id_bad_free_witness:
  "\<exists>d'. decodeFrameSliceBorrowing (frame_bytes (New_connection_id 1 0 [0xaa] [1, 2])) no_alloc = (Inl EndOfStream, d') \<and> al_bad d'"
  by (rule new_connection_id_bad_free) (simp_all add: validate_defs max_quic_varint_eq)

lemma varint_first: "63 < t \<Longrightarrow> varint_bytes t \<noteq> [] \<and> varint_bytes t ! 0 \<noteq> 0"
  by (auto simp: varint_bytes_def or_eq_0_iff)

text \<open>The decoder looks at the low byte of the frame type when it recognises STREAM, so every type
  whose low byte is that of a STREAM frame is decoded as one, also types that take two or more bytes.\<close>

theorem stream_type_aliased:
  assumes "t \<le> max_quic_varint" and "63 < t" and "t AND 0xf8 = 8" and "t AND 2 \<noteq> 0" and "((t AND 4) \<noteq> 0) = (off \<noteq> 0)"
    and "validateStreamFrame s off data = Inr ()" and "\<forall>i. \<not> al_fails d i"
    and "decode \<in> {decodeFrameSlice, decodeFrameSliceBorrowing}"
  shows "\<exists>g d'. decode (varint_bytes t @ varint_bytes s @ (if off \<noteq> 0 then varint_bytes off else []) @ data_bytes data) d =
      (Inr g, d') \<and> map_frame elems elems (fst g) = Stream s off ((t AND 1) \<noteq> 0) data"
proof -
  have "t \<noteq> frameTypeId x" for x using assms(2) by (cases x) (auto simp: frameTypeId_def)
  then have of: "decodeFrameOf borrow t = decodeStreamFrame borrow t" for borrow
    using assms(3) by (simp add: decodeFrameOf_def) (simp add: frameTypeId_def)
  let ?bs = "varint_bytes t @ varint_bytes s @ (if off \<noteq> 0 then varint_bytes off else []) @ data_bytes data"
  have "reads (decodeFrameImpl borrow) ?bs (\<lambda>g. map_frame elems elems g = Stream s off ((t AND 1) \<noteq> 0) data)" for borrow
    using assms(4-6) by (intro reads_frame_type [OF assms(1)]) (simp add: of reads_stream)
  moreover have "?bs \<noteq> []" "?bs ! 0 \<noteq> 0" using varint_first [OF assms(2)] by (simp_all add: nth_append)
  ultimately have "\<exists>g d'. decode_slice (decodeFrameImpl borrow) (?bs @ []) d = (Inr (g, length ?bs), d') \<and>
      map_frame elems elems g = Stream s off ((t AND 1) \<noteq> 0) data" for borrow
    using decode_slice_reads [of borrow ?bs _ d "[]"] assms(7) by blast
  then have "\<exists>g d'. decode_slice (decodeFrameImpl borrow) ?bs d = (Inr (g, length ?bs), d') \<and>
      map_frame elems elems g = Stream s off ((t AND 1) \<noteq> 0) data" for borrow
    unfolding append_Nil2 .
  from this [of False] this [of True] assms(8) show ?thesis
    unfolding decodeFrameSlice_def decodeFrameSliceBorrowing_def decodeFrame_def by fastforce
qed

lemma stream_type_aliased_witness:
  "\<exists>g d'. decodeFrameSlice ([0x41, 0x0a] @ [4] @ [1, 9]) no_alloc = (Inr g, d') \<and> map_frame elems elems (fst g) = Stream 4 0 False [9]"
  using stream_type_aliased [of "0x10a" 0 4 "[9]" no_alloc decodeFrameSlice]
  by (simp add: max_quic_varint_eq validate_defs varint_bytes_def data_bytes_def len64_def)

end
