(* ===== verification/Frame_Payload.thy ===== *)
theory Frame_Payload
  imports Frame_Proofs
begin

text \<open>
  Which frames a packet may carry (\<^verbatim>\<open>src/src/quic/frame_rules.zig\<close>), the transport error codes
  (\<^verbatim>\<open>src/src/quic/transport_error.zig\<close>), and the walk over a packet payload that decides with which error a
  connection is closed (\<^verbatim>\<open>src/src/quic/frame_payload.zig\<close>).
\<close>

section \<open>Frame rules\<close>

datatype frame_packet_type = Packet_initial | Packet_zero_rtt | Packet_handshake | Packet_one_rtt

datatype transport_error_code =
    No_error | Internal_error | Connection_refused | Flow_control_error | Stream_limit_error | Stream_state_error
  | Final_size_error | Frame_encoding_error | Transport_parameter_error | Connection_id_limit_error
  | Protocol_violation | Invalid_token | Application_error | Crypto_buffer_exceeded | Key_update_error
  | Aead_limit_reached | No_viable_path | Version_negotiation_error

fun frameIsAckEliciting :: "('b, 'r) frame \<Rightarrow> bool" where
  "frameIsAckEliciting (Padding _) = False"
| "frameIsAckEliciting (Ack _) = False"
| "frameIsAckEliciting (Ack_ecn _ _) = False"
| "frameIsAckEliciting (Connection_close _ _ _) = False"
| "frameIsAckEliciting (Application_close _ _) = False"
| "frameIsAckEliciting _ = True"

fun frame_allowed_handshake :: "('b, 'r) frame \<Rightarrow> bool" where
  "frame_allowed_handshake (Padding _) = True"
| "frame_allowed_handshake Ping = True"
| "frame_allowed_handshake (Ack _) = True"
| "frame_allowed_handshake (Ack_ecn _ _) = True"
| "frame_allowed_handshake (Crypto _ _) = True"
| "frame_allowed_handshake (Connection_close _ _ _) = True"
| "frame_allowed_handshake _ = False"

fun frame_allowed_zero_rtt :: "('b, 'r) frame \<Rightarrow> bool" where
  "frame_allowed_zero_rtt (Padding _) = True"
| "frame_allowed_zero_rtt Ping = True"
| "frame_allowed_zero_rtt (Reset_stream _ _ _) = True"
| "frame_allowed_zero_rtt (Stop_sending _ _) = True"
| "frame_allowed_zero_rtt (Stream _ _ _ _) = True"
| "frame_allowed_zero_rtt (Max_data _) = True"
| "frame_allowed_zero_rtt (Max_stream_data _ _) = True"
| "frame_allowed_zero_rtt (Max_streams_bidi _) = True"
| "frame_allowed_zero_rtt (Max_streams_uni _) = True"
| "frame_allowed_zero_rtt (Data_blocked _) = True"
| "frame_allowed_zero_rtt (Stream_data_blocked _ _) = True"
| "frame_allowed_zero_rtt (Streams_blocked_bidi _) = True"
| "frame_allowed_zero_rtt (Streams_blocked_uni _) = True"
| "frame_allowed_zero_rtt (New_connection_id _ _ _ _) = True"
| "frame_allowed_zero_rtt (Path_challenge _) = True"
| "frame_allowed_zero_rtt (Connection_close _ _ _) = True"
| "frame_allowed_zero_rtt (Application_close _ _) = True"
| "frame_allowed_zero_rtt _ = False"

fun frameAllowedInFramePacketType :: "('b, 'r) frame \<Rightarrow> frame_packet_type \<Rightarrow> bool" where
  "frameAllowedInFramePacketType decoded Packet_initial = frame_allowed_handshake decoded"
| "frameAllowedInFramePacketType decoded Packet_handshake = frame_allowed_handshake decoded"
| "frameAllowedInFramePacketType decoded Packet_zero_rtt = frame_allowed_zero_rtt decoded"
| "frameAllowedInFramePacketType decoded Packet_one_rtt = True"

definition framePacketTypeErrorCode :: "('b, 'r) frame \<Rightarrow> frame_packet_type \<Rightarrow> transport_error_code option" where
  "framePacketTypeErrorCode decoded packet_type =
     (if frameAllowedInFramePacketType decoded packet_type then None else Some Protocol_violation)"

fun defaultFramePacketTypeForSpace :: "packet_number_space \<Rightarrow> frame_packet_type" where
  "defaultFramePacketTypeForSpace Space_initial = Packet_initial"
| "defaultFramePacketTypeForSpace Space_handshake = Packet_handshake"
| "defaultFramePacketTypeForSpace Space_application = Packet_one_rtt"

fun packetNumberSpaceForFramePacketType :: "frame_packet_type \<Rightarrow> packet_number_space" where
  "packetNumberSpaceForFramePacketType Packet_initial = Space_initial"
| "packetNumberSpaceForFramePacketType Packet_handshake = Space_handshake"
| "packetNumberSpaceForFramePacketType Packet_zero_rtt = Space_application"
| "packetNumberSpaceForFramePacketType Packet_one_rtt = Space_application"

definition frameAllowedInPacketNumberSpace :: "('b, 'r) frame \<Rightarrow> packet_number_space \<Rightarrow> bool" where
  "frameAllowedInPacketNumberSpace decoded space =
     frameAllowedInFramePacketType decoded (defaultFramePacketTypeForSpace space)"

fun frameDecodeErrorCode :: "zig_error \<Rightarrow> transport_error_code option" where
  "frameDecodeErrorCode UnsupportedFrameType = Some Frame_encoding_error"
| "frameDecodeErrorCode InvalidAckRange = Some Frame_encoding_error"
| "frameDecodeErrorCode InvalidPaddingLength = Some Frame_encoding_error"
| "frameDecodeErrorCode InvalidConnectionIdLength = Some Frame_encoding_error"
| "frameDecodeErrorCode InvalidFrameLength = Some Frame_encoding_error"
| "frameDecodeErrorCode InvalidFrameValue = Some Frame_encoding_error"
| "frameDecodeErrorCode EndOfStream = Some Frame_encoding_error"
| "frameDecodeErrorCode _ = None"

section \<open>Classifying a payload\<close>

record close_error =
  close_code :: transport_error_code
  close_frame_type :: u64
  close_reason :: string

definition rawFrameTypeValue :: "byte list \<Rightarrow> u64" where
  "rawFrameTypeValue data = (case fst (decodeVarInt (fixedReader data)) of Inl _ \<Rightarrow> 0 | Inr (value, _) \<Rightarrow> value)"

function classify_loop ::
  "frame_packet_type \<Rightarrow> byte list \<Rightarrow> nat \<Rightarrow> decoder \<Rightarrow> close_error option zig_result \<times> decoder" where
  "classify_loop packet_type datagram offset d =
     (if offset < length datagram then
        let frame_type_value = rawFrameTypeValue (drop offset datagram) in
        case decodeFrameSlice (drop offset datagram) d of
          (Inl err, d) \<Rightarrow>
            if err = OutOfMemory then (Inl OutOfMemory, d)
            else (case frameDecodeErrorCode err of
                Some code \<Rightarrow>
                  (Inr (Some \<lparr>close_code = code, close_frame_type = frame_type_value, close_reason = ''frame encoding''\<rparr>), d)
              | None \<Rightarrow> (Inr None, d))
        | (Inr (decoded, len), d) \<Rightarrow>
            if len = 0 then
              (Inr (Some \<lparr>close_code = Frame_encoding_error, close_frame_type = frame_type_value,
                 close_reason = ''frame encoding''\<rparr>), deinitFrame decoded d)
            else (case framePacketTypeErrorCode decoded packet_type of
                Some code \<Rightarrow>
                  (Inr (Some \<lparr>close_code = code, close_frame_type = frame_type_value, close_reason = ''packet type''\<rparr>),
                   deinitFrame decoded d)
              | None \<Rightarrow> classify_loop packet_type datagram (offset + len) (deinitFrame decoded d))
      else (Inr None, d))"
  by pat_completeness auto
termination
  by (relation "measure (\<lambda>(packet_type, datagram, offset, d). length datagram - offset)") auto

declare classify_loop.simps [simp del]

definition classifyCloseError ::
  "frame_packet_type \<Rightarrow> byte list \<Rightarrow> decoder \<Rightarrow> close_error option zig_result \<times> decoder" where
  "classifyCloseError packet_type datagram d =
     (if length datagram = 0 then
        (Inr (Some \<lparr>close_code = Protocol_violation, close_frame_type = 0, close_reason = ''empty payload''\<rparr>), d)
      else classify_loop packet_type datagram 0 d)"

section \<open>Errors of the decoder\<close>

text \<open>Every error of the decoder is one that closes the connection, or the allocator's.\<close>

definition frame_error :: "zig_error \<Rightarrow> bool" where
  "frame_error e \<longleftrightarrow> e = OutOfMemory \<or> frameDecodeErrorCode e \<noteq> None"

definition throws_frame_error :: "('a, decoder) zig \<Rightarrow> bool" where
  "throws_frame_error p \<longleftrightarrow> (\<forall>d e d'. p d = (Inl e, d') \<longrightarrow> frame_error e)"

lemma throws_bind: "throws_frame_error p \<Longrightarrow> (\<And>x. throws_frame_error (f x)) \<Longrightarrow> throws_frame_error (zbind p f)"
  unfolding throws_frame_error_def zbind_eq by blast

lemma throws_errdefer: "throws_frame_error p \<Longrightarrow> throws_frame_error (errdefer f p)"
  unfolding throws_frame_error_def errdefer_eq by blast

lemma throws_cond: "throws_frame_error p \<Longrightarrow> throws_frame_error q \<Longrightarrow> throws_frame_error (if c then p else q)"
  by simp

lemma throws_at: "(\<And>d0. throws_frame_error (f d0)) \<Longrightarrow> throws_frame_error (\<lambda>d. f d d)"
  unfolding throws_frame_error_def by blast

lemma throws_basic:
  "throws_frame_error (zret x)" "frame_error e \<Longrightarrow> throws_frame_error (zfail e)" "throws_frame_error readByte"
  "throws_frame_error (readNoEof n)" "throws_frame_error (zig_alloc n)" "throws_frame_error (readBytes borrow n)"
  "(\<And>e. r = Inl e \<Longrightarrow> frame_error e) \<Longrightarrow> throws_frame_error (zcheck r)"
  by (auto simp: throws_frame_error_def zret_def zfail_def readByte_def readNoEof_def zig_alloc_def readBytes_def
      readSlice_def readOwnedBytes_def Let_def zcheck_def frame_error_def zbind_def errdefer_def split: if_splits)

lemma ztry_Inl: "ztry r f = Inl e \<longleftrightarrow> r = Inl e \<or> (\<exists>x. r = Inr x \<and> f x = Inl e)"
  by (auto simp: ztry_def split: sum.splits)

lemma validateAckRanges_error: "validateAckRanges S ranges = Inl e \<Longrightarrow> frame_error e"
  by (induction S ranges rule: validateAckRanges.induct)
    (auto simp: ztry_Inl validateFrameVarInt_def frame_error_def Let_def split: if_splits option.splits)

lemma validation_errors:
  "validateFrameVarInt v = Inl e \<Longrightarrow> frame_error e" "cast_u64 n = Inl e \<Longrightarrow> frame_error e"
  "validateFrameEndOffset off len = Inl e \<Longrightarrow> frame_error e" "validateStreamCount c = Inl e \<Longrightarrow> frame_error e"
  "validateConnectionIdLen n = Inl e \<Longrightarrow> frame_error e" "minimalVarIntLen v = Inl e \<Longrightarrow> frame_error e"
  by (auto simp: validateFrameVarInt_def cast_u64_def validateFrameEndOffset_def validateStreamCount_def
      validateConnectionIdLen_def minimalVarIntLen_def frame_error_def split: if_splits option.splits)

lemma validateFrameEndOffsetFromLen_error: "validateFrameEndOffsetFromLen off n = Inl e \<Longrightarrow> frame_error e"
  by (auto simp: validateFrameEndOffsetFromLen_def ztry_Inl intro: validation_errors)

lemma validateAckFrame_error: "validateAckFrame ack = Inl e \<Longrightarrow> frame_error e"
  by (auto simp: validateAckFrame_def ztry_Inl frame_error_def split: if_splits
      dest!: validation_errors(1,2) [unfolded frame_error_def] validateAckRanges_error [unfolded frame_error_def])

lemmas throws_rules = throws_bind throws_errdefer throws_cond throws_basic(1,3-)

lemma decodeVarInt_throws: "throws_frame_error decodeVarInt"
  unfolding decodeVarInt_def Let_def by (intro throws_rules)

lemma readVarInt_throws: "throws_frame_error readVarInt"
  unfolding readVarInt_def by (intro throws_rules decodeVarInt_throws)

lemma decodeAckFrameFields_throws: "throws_frame_error decodeAckFrameFields"
proof -
  have "throws_frame_error (validateAckRangeCountFitsReader n)" for n
    by (simp add: throws_frame_error_def validateAckRangeCountFitsReader_def frame_error_def)
  moreover have "throws_frame_error (decodeAckRanges n)" for n
    by (induction n) (simp_all add: throws_rules readVarInt_throws)
  ultimately show ?thesis
    unfolding decodeAckFrameFields_def Let_def by (intro throws_rules readVarInt_throws validateAckFrame_error)
qed

lemma decodeStreamFrame_throws: "throws_frame_error (decodeStreamFrame borrow t)"
proof -
  have "throws_frame_error (\<lambda>d. zbind (zcheck (validateFrameEndOffsetFromLen off (remainingLen d))) (\<lambda>_. zret (remainingLen d)) d)" for off
    by (rule throws_at [where f = "\<lambda>d0. zbind (zcheck (validateFrameEndOffsetFromLen off (remainingLen d0)))
          (\<lambda>_. zret (remainingLen d0))"]) (intro throws_rules validateFrameEndOffsetFromLen_error)
  then show ?thesis
    unfolding decodeStreamFrame_def Let_def by (intro throws_rules readVarInt_throws validation_errors(3))
qed

lemma decodeFrameImpl_throws: "throws_frame_error (decodeFrameImpl borrow)"
proof -
  have "throws_frame_error (decodeNewConnectionIdFrame borrow)"
    unfolding decodeNewConnectionIdFrame_def
    by (intro throws_rules readVarInt_throws) (auto dest: validation_errors(5) simp: frame_error_def [of InvalidFrameValue])
  then have "throws_frame_error (decodeFrameOf borrow t)" for t
    unfolding decodeFrameOf_def
    by (intro throws_rules readVarInt_throws decodeAckFrameFields_throws decodeStreamFrame_throws throws_basic(2))
      (auto dest: validation_errors(3,4) simp: frame_error_def [of InvalidFrameValue] frame_error_def [of UnsupportedFrameType])
  moreover have "throws_frame_error (\<lambda>r. (minimalVarIntLen v, r))" for v
    using validation_errors(6) by (auto simp: throws_frame_error_def)
  ultimately show ?thesis
    unfolding decodeFrameImpl_def decodeFrameType_def
    by (auto intro!: throws_rules throws_basic(2) decodeVarInt_throws simp: frame_error_def)
qed

lemma decodeFrameSlice_error:
  assumes "decodeFrameSlice data d = (Inl e, d')"
  shows "frame_error e"
proof -
  from assms have "decode_slice (decodeFrameImpl False) data d = (Inl e, d')" by (simp add: decodeFrameSlice_def decodeFrame_def)
  then show ?thesis
  proof (cases rule: decode_slice_cases)
    case (frame r1)
    then have "decodeFrameImpl False (d\<lparr>fr_data := data, fr_pos := 0\<rparr>) = (Inl e, d')" by (cases r1) simp_all
    then show ?thesis using decodeFrameImpl_throws [of False] unfolding throws_frame_error_def by blast
  qed (simp_all add: frame_error_def)
qed

section \<open>The walk over a payload\<close>

text \<open>\<open>decodes_to data fs\<close>: the payload decodes, frame after frame, into \<open>fs\<close>.\<close>

inductive decodes_to :: "byte list \<Rightarrow> plain_frame list \<Rightarrow> bool" where
  decodes_end: "decodes_to [] []"
| decodes_frame: "decodeFrameSlice data d = (Inr (g, len), d') \<Longrightarrow> decodes_to (drop len data) fs \<Longrightarrow>
    decodes_to data (map_frame elems elems g # fs)"

inductive_simps decodes_to_Nil: "decodes_to data []"

lemma allowed_map [simp]: "frameAllowedInFramePacketType (map_frame f h g) pt = frameAllowedInFramePacketType g pt"
  by (cases pt; cases g) simp_all

lemma decodeFrameSlice_len: "decodeFrameSlice data d = (Inr (g, len), d') \<Longrightarrow> 1 \<le> len \<and> len \<le> length data"
  unfolding decodeFrameSlice_def decodeFrame_def by (rule decode_slice_len)

lemma decode_balanced:
  "decodeFrameSlice data d = (Inl e, d') \<Longrightarrow> al_live d' = al_live d \<and> al_bad d' = al_bad d"
  "decodeFrameSlice data d = (Inr (g, len), d') \<Longrightarrow>
     al_live (deinitFrame g d') = al_live d \<and> al_bad (deinitFrame g d') = al_bad d"
  using decodeFrameSlice_balance [where data = data and d = d] by simp_all

lemma classify_loop_sound:
  "classify_loop pt datagram offset d = (r, d') \<Longrightarrow> offset \<le> length datagram \<Longrightarrow>
     al_live d' = al_live d \<and> al_bad d' = al_bad d \<and>
     (r = Inl OutOfMemory \<or> (\<exists>c. r = Inr (Some c)) \<or>
      r = Inr None \<and> (\<exists>fs. decodes_to (drop offset datagram) fs \<and> (\<forall>f \<in> set fs. frameAllowedInFramePacketType f pt)))"
proof (induction pt datagram offset d arbitrary: r d' rule: classify_loop.induct)
  case (1 pt datagram offset d)
  show ?case
  proof (cases "offset < length datagram")
    case False
    with 1 show ?thesis by (auto simp: classify_loop.simps [of pt datagram offset d] intro: decodes_end)
  next
    case True
    let ?data = "drop offset datagram"
    obtain r1 d1 where dec: "decodeFrameSlice ?data d = (r1, d1)" by fastforce
    show ?thesis
    proof (cases r1)
      case (Inl e)
      with decodeFrameSlice_error [of ?data d e d1] dec have "frame_error e" by simp
      with decode_balanced(1) [of ?data d e d1] dec Inl True "1.prems" show ?thesis
        by (auto simp: classify_loop.simps [of pt datagram offset d] Let_def frame_error_def split: if_splits)
    next
      case (Inr gl)
      obtain g len where gl: "gl = (g, len)" by fastforce
      with dec Inr have dec': "decodeFrameSlice ?data d = (Inr (g, len), d1)" by simp
      then have len: "1 \<le> len" "offset + len \<le> length datagram" using decodeFrameSlice_len [OF dec'] True by auto
      note free = decode_balanced(2) [OF dec']
      show ?thesis
      proof (cases "frameAllowedInFramePacketType g pt")
        case False
        then show ?thesis using "1.prems" True dec' len free
          by (auto simp: classify_loop.simps [of pt datagram offset d] Let_def framePacketTypeErrorCode_def)
      next
        case allowed: True
        have "classify_loop pt datagram (offset + len) (deinitFrame g d1) = (r, d')"
          using "1.prems"(1) True dec' len(1) allowed
          by (simp add: classify_loop.simps [of pt datagram offset d] Let_def framePacketTypeErrorCode_def)
        note IH = "1.IH" [OF True refl dec' [symmetric] refl refl _ _ this len(2)]
        from len(1) allowed have "al_live d' = al_live d \<and> al_bad d' = al_bad d \<and>
            (r = Inl OutOfMemory \<or> (\<exists>c. r = Inr (Some c)) \<or> r = Inr None \<and>
             (\<exists>fs. decodes_to (drop (offset + len) datagram) fs \<and> (\<forall>f \<in> set fs. frameAllowedInFramePacketType f pt)))"
          using IH free by (simp add: framePacketTypeErrorCode_def)
        then show ?thesis using decodes_frame [OF dec'] allowed
          by (auto simp: add.commute intro!: exI [of _ "map_frame elems elems g # _"])
      qed
    qed
  qed
qed

text \<open>Property C7: whatever a packet carries, the walk over its payload ends with all memory given back, and it
  finds nothing to close the connection for only when the payload decodes completely into frames that
  are allowed in that type of packet.\<close>

theorem classify_sound:
  assumes "classifyCloseError pt datagram d = (r, d')"
  shows "al_live d' = al_live d \<and> al_bad d' = al_bad d \<and>
    (r = Inl OutOfMemory \<or> (\<exists>c. r = Inr (Some c)) \<or>
     r = Inr None \<and> (\<exists>fs. fs \<noteq> [] \<and> decodes_to datagram fs \<and> (\<forall>f \<in> set fs. frameAllowedInFramePacketType f pt)))"
proof (cases "datagram = []")
  case True
  then show ?thesis using assms by (auto simp: classifyCloseError_def)
next
  case False
  then have "fs \<noteq> []" if "decodes_to datagram fs" for fs using that by (auto simp: decodes_to_Nil)
  moreover have "classify_loop pt datagram 0 d = (r, d')" using False assms by (simp add: classifyCloseError_def)
  note classify_loop_sound [OF this, simplified]
  ultimately show ?thesis by fast
qed

lemma classify_sound_witness:
  "\<exists>fs. fs \<noteq> [] \<and> decodes_to [0x01, 0x1c, 0, 0, 0] fs \<and> (\<forall>f \<in> set fs. frameAllowedInFramePacketType f Packet_initial)"
proof -
  let ?data = "[0x01, 0x1c, 0, 0, 0] :: byte list"
  have run: "fst (classifyCloseError Packet_initial ?data no_alloc) = Inr None" by code_simp
  show ?thesis
    using classify_sound [OF surjective_pairing, of Packet_initial ?data no_alloc] unfolding run by simp
qed

lemma classify_loop_shift: "classify_loop pt datagram (a + b) d = classify_loop pt (drop a datagram) b d"
proof (induction pt "drop a datagram" b d rule: classify_loop.induct)
  case (1 pt b d)
  have 2: "drop b (drop a datagram) = drop (a + b) datagram" by (simp add: add.commute)
  show ?case
    unfolding classify_loop.simps [of pt datagram "a + b" d] classify_loop.simps [of pt "drop a datagram" b d] 2
    using 1 [unfolded 2]
    by (auto simp: Let_def less_diff_conv ac_simps split: sum.splits prod.splits option.splits)
qed

lemma zig_free_fails [simp]: "al_fails (zig_free s d) = al_fails d"
  by (cases s) (simp_all add: free_id_def)

lemma deinitFrame_fails [simp]: "al_fails (deinitFrame g d) = al_fails d"
  by (cases g) (simp_all add: deinitAckFrame_def)

lemma rawFrameTypeValue_byte:
  assumes "b \<le> 63"
  shows "rawFrameTypeValue (b # data) = ucast b"
proof -
  have "unat (b div 64) = 0" using assms by (simp add: unat_div_distrib word_le_nat_alt)
  then have "b div 64 = 0" by (simp only: unat_eq_zero)
  then have high: "drop_bit 6 b = 0" by (simp add: drop_bit_eq_div)
  then have "take_bit 6 b = b" using bits_ident [of 6 b] by simp
  then have "b AND 0x3f = b" unfolding byte_masks by (simp add: take_bit_eq_mask)
  with high show ?thesis
    by (simp add: rawFrameTypeValue_def decodeVarInt_def zbind_def readByte_def fixedReader_def zret_def)
qed

lemma frame_bytes_type: "frame_check f = Inr () \<Longrightarrow> \<exists>b bs. frame_bytes f = b # bs \<and> b \<le> 63"
  by (cases f) (auto simp: Suc_le_D gr0_conv_Suc)

definition frame_type_of :: "plain_frame \<Rightarrow> u64" where
  "frame_type_of f = ucast (hd (frame_bytes f))"

definition is_padding :: "('b, 'r) frame \<Rightarrow> bool" where
  "is_padding f \<longleftrightarrow> (\<exists>n. f = Padding n)"

text \<open>What closes the connection for a payload of well-formed frames: the first one that the packet must not carry.\<close>

definition payload_verdict :: "frame_packet_type \<Rightarrow> plain_frame list \<Rightarrow> close_error option" where
  "payload_verdict pt fs =
     map_option (\<lambda>f. \<lparr>close_code = Protocol_violation, close_frame_type = frame_type_of f, close_reason = ''packet type''\<rparr>)
       (find (\<lambda>f. \<not> frameAllowedInFramePacketType f pt) fs)"

lemma classify_loop_frames:
  "\<forall>f \<in> set fs. frame_check f = Inr () \<and> frame_shape f \<Longrightarrow>
     successively (\<lambda>f f'. \<not> (is_padding f \<and> is_padding f')) fs \<Longrightarrow> \<forall>i. \<not> al_fails d i \<Longrightarrow>
     fst (classify_loop pt (concat (map frame_bytes fs)) 0 d) = Inr (payload_verdict pt fs)"
proof (induction fs arbitrary: d)
  case Nil
  then show ?case by (simp add: classify_loop.simps payload_verdict_def)
next
  case (Cons f fs)
  let ?rest = "concat (map frame_bytes fs)" and ?data = "concat (map frame_bytes (f # fs))"
  from Cons.prems(1) have f: "frame_check f = Inr ()" "frame_shape f" by simp_all
  obtain b bs where b: "frame_bytes f = b # bs" "b \<le> 63" using frame_bytes_type [OF f(1)] by auto
  have after: "hd ?rest \<noteq> 0" if "\<exists>n. f = Padding n" "fs = f' # fs'" for f' fs'
  proof -
    have "\<not> is_padding f'" using Cons.prems(2) that by (auto simp: is_padding_def)
    then have "frame_bytes f' \<noteq> []" "frame_bytes f' ! 0 \<noteq> 0" using frame_bytes_first [of f'] by (auto simp: is_padding_def)
    then show ?thesis using that by (simp add: hd_append hd_conv_nth)
  qed
  have "(\<exists>n. f = Padding n) \<longrightarrow> ?rest = [] \<or> hd ?rest \<noteq> 0"
    by (cases fs) (use after in auto)
  from decode_slice_frame_bytes [OF f Cons.prems(3) this, where borrow = False] obtain g d1 where
    dec: "decodeFrameSlice ?data d = (Inr (g, length (frame_bytes f)), d1)" "map_frame elems elems g = f" "al_fails d1 = al_fails d"
    by (auto simp: decodeFrameSlice_def decodeFrame_def)
  have type: "rawFrameTypeValue ?data = frame_type_of f" using rawFrameTypeValue_byte [OF b(2)] b(1) by (simp add: frame_type_of_def)
  have allowed: "frameAllowedInFramePacketType g pt = frameAllowedInFramePacketType f pt"
    using allowed_map [of elems elems g pt] dec(2) by simp
  have "fst (classify_loop pt ?rest 0 (deinitFrame g d1)) = Inr (payload_verdict pt fs)"
    using Cons.prems dec(3) by (intro Cons.IH) (auto simp: successively_Cons)
  moreover have "classify_loop pt ?data (length (frame_bytes f)) (deinitFrame g d1) = classify_loop pt ?rest 0 (deinitFrame g d1)"
    using classify_loop_shift [of pt ?data "length (frame_bytes f)" 0] by simp
  ultimately show ?case
    unfolding classify_loop.simps [of pt ?data 0 d] using dec(1) type allowed b(1)
    by (simp add: Let_def framePacketTypeErrorCode_def payload_verdict_def)
qed

text \<open>The verdict on a payload of well-formed frames is the first frame that this type of packet must
  not carry, with its type in the close, and none when every frame is allowed.\<close>

theorem classify_exact:
  assumes "fs \<noteq> []" and "\<forall>f \<in> set fs. frame_check f = Inr () \<and> frame_shape f"
    and "successively (\<lambda>f f'. \<not> (is_padding f \<and> is_padding f')) fs" and "\<forall>i. \<not> al_fails d i"
  shows "fst (classifyCloseError pt (concat (map frame_bytes fs)) d) = Inr (payload_verdict pt fs)"
proof -
  obtain f fs' where "fs = f # fs'" using assms(1) by (cases fs) auto
  then have "concat (map frame_bytes fs) \<noteq> []" using frame_bytes_type [of f] assms(2) by auto
  then show ?thesis using classify_loop_frames [OF assms(2-4)] by (simp only: classifyCloseError_def length_0_conv if_False)
qed

lemma classify_exact_witness:
  "fst (classifyCloseError Packet_handshake (concat (map frame_bytes [Ping, Handshake_done, Max_data 3])) no_alloc) =
     Inr (Some \<lparr>close_code = Protocol_violation, close_frame_type = 0x1e, close_reason = ''packet type''\<rparr>)"
  using classify_exact [of "[Ping, Handshake_done, Max_data 3]" no_alloc Packet_handshake]
  by (simp add: payload_verdict_def frame_type_of_def max_quic_varint_eq is_padding_def)

end
