(* ===== verification/Received_Ranges.thy ===== *)
theory Received_Ranges
  imports Frame_Proofs
begin

text \<open>
  The receive history of a packet number space (\<^verbatim>\<open>ReceivedPacketRanges\<close> of
  \<^verbatim>\<open>src/src/quic/packet_number_space.zig\<close>) and the reading of ACK frames
  (\<^verbatim>\<open>src/src/quic/frame_rules.zig\<close>). The ranges are the first \<^verbatim>\<open>count\<close> entries of the array, from the largest
  packet numbers to the smallest.
\<close>

section \<open>The receive history\<close>

record received_packet_range =
  smallest :: u64
  largest :: u64

record received_packet_ranges =
  rp_ranges :: "received_packet_range list"
  forgotten_through :: "u64 option"

definition max_ranges :: nat where
  "max_ranges = 32"

definition empty_ranges :: received_packet_ranges where
  "empty_ranges = \<lparr>rp_ranges = [], forgotten_through = None\<rparr>"

definition isImmediatelyBefore :: "u64 \<Rightarrow> u64 \<Rightarrow> bool" where
  "isImmediatelyBefore previous next = (if previous = 0xffffffffffffffff then False else previous + 1 = next)"

fun contains_loop :: "received_packet_range list \<Rightarrow> u64 \<Rightarrow> bool" where
  "contains_loop [] packet_number = False"
| "contains_loop (rng # ranges) packet_number =
     (if packet_number > largest rng then contains_loop ranges packet_number else packet_number \<ge> smallest rng)"

definition ranges_contains :: "received_packet_ranges \<Rightarrow> u64 \<Rightarrow> bool" where
  "ranges_contains self packet_number = contains_loop (rp_ranges self) packet_number"

fun canRecord_loop :: "received_packet_range list \<Rightarrow> nat \<Rightarrow> u64 \<Rightarrow> bool" where
  "canRecord_loop [] count packet_number = (count < max_ranges)"
| "canRecord_loop (rng # ranges) count packet_number =
     (if packet_number > largest rng then True
      else if packet_number \<ge> smallest rng then False
      else if isImmediatelyBefore packet_number (smallest rng) then True
      else canRecord_loop ranges count packet_number)"

definition canRecord :: "received_packet_ranges \<Rightarrow> u64 \<Rightarrow> bool" where
  "canRecord self packet_number =
     (if (case forgotten_through self of Some forgotten \<Rightarrow> packet_number \<le> forgotten | None \<Rightarrow> False) then False
      else canRecord_loop (rp_ranges self) (length (rp_ranges self)) packet_number)"

definition ranges_insert :: "received_packet_ranges \<Rightarrow> nat \<Rightarrow> received_packet_range \<Rightarrow> bool \<times> received_packet_ranges" where
  "ranges_insert self index rng =
     (let count = length (rp_ranges self) in
      if count = max_ranges \<and> index = count then (False, self)
      else
        let self =
          (if count = max_ranges then
             let forgotten = largest (rp_ranges self ! (count - 1)) in
             self\<lparr>forgotten_through := Some (case forgotten_through self of Some previous \<Rightarrow> max previous forgotten | None \<Rightarrow> forgotten),
               rp_ranges := take (count - 1) (rp_ranges self)\<rparr>
           else self)
        in (True, self\<lparr>rp_ranges := take index (rp_ranges self) @ rng # drop index (rp_ranges self)\<rparr>))"

definition ranges_remove :: "received_packet_ranges \<Rightarrow> nat \<Rightarrow> received_packet_ranges" where
  "ranges_remove self index = self\<lparr>rp_ranges := take index (rp_ranges self) @ drop (index + 1) (rp_ranges self)\<rparr>"

abbreviation set_range :: "nat \<Rightarrow> received_packet_range \<Rightarrow> received_packet_ranges \<Rightarrow> received_packet_ranges" where
  "set_range index rng self \<equiv> self\<lparr>rp_ranges := (rp_ranges self)[index := rng]\<rparr>"

function record_loop :: "received_packet_ranges \<Rightarrow> u64 \<Rightarrow> nat \<Rightarrow> bool \<times> received_packet_ranges" where
  "record_loop self packet_number index =
     (let ranges = rp_ranges self; count = length ranges in
      if index < count then
        let rng = ranges ! index in
        if packet_number > largest rng then
          if isImmediatelyBefore (largest rng) packet_number then
            let self = set_range index (rng\<lparr>largest := packet_number\<rparr>) self in
            if index \<noteq> 0 \<and> isImmediatelyBefore packet_number (smallest (ranges ! (index - 1))) then
              (True, ranges_remove (set_range (index - 1) ((ranges ! (index - 1))\<lparr>smallest := smallest rng\<rparr>) self) index)
            else (True, self)
          else ranges_insert self index \<lparr>smallest = packet_number, largest = packet_number\<rparr>
        else if packet_number \<ge> smallest rng then (False, self)
        else if isImmediatelyBefore packet_number (smallest rng) then
          let self = set_range index (rng\<lparr>smallest := packet_number\<rparr>) self in
          if index + 1 < count \<and> isImmediatelyBefore (largest (ranges ! (index + 1))) packet_number then
            (True, ranges_remove (set_range index (rng\<lparr>smallest := smallest (ranges ! (index + 1))\<rparr>) self) (index + 1))
          else (True, self)
        else record_loop self packet_number (index + 1)
      else ranges_insert self count \<lparr>smallest = packet_number, largest = packet_number\<rparr>)"
  by pat_completeness auto
termination by (relation "measure (\<lambda>(self, packet_number, index). length (rp_ranges self) - index)") auto

declare record_loop.simps [simp del]

definition ranges_record :: "received_packet_ranges \<Rightarrow> u64 \<Rightarrow> bool \<times> received_packet_ranges" where
  "ranges_record self packet_number =
     (if \<not> canRecord self packet_number then (False, self) else record_loop self packet_number 0)"

definition nextExpectedPacketNumber :: "received_packet_ranges \<Rightarrow> u64" where
  "nextExpectedPacketNumber self =
     (case rp_ranges self of [] \<Rightarrow> 0 | rng # _ \<Rightarrow> if largest rng = 0xffffffffffffffff then largest rng else largest rng + 1)"

fun ack_ranges_of :: "u64 \<Rightarrow> received_packet_range list \<Rightarrow> ack_range list" where
  "ack_ranges_of previous_smallest [] = []"
| "ack_ranges_of previous_smallest (rng # ranges) =
     AckRange (previous_smallest - largest rng - 2) (largest rng - smallest rng) # ack_ranges_of (smallest rng) ranges"

definition ackFrame :: "received_packet_ranges \<Rightarrow> ack_range list ack_frame option" where
  "ackFrame self =
     (case rp_ranges self of [] \<Rightarrow> None
      | largest_range # ranges \<Rightarrow>
          Some (AckFrame (largest largest_range) 0 (largest largest_range - smallest largest_range)
            (ack_ranges_of (smallest largest_range) ranges)))"

section \<open>Reading ACK frames\<close>

fun ackRangesAreValid_loop :: "u64 \<Rightarrow> ack_range list \<Rightarrow> bool" where
  "ackRangesAreValid_loop range_smallest [] = True"
| "ackRangesAreValid_loop range_smallest (rng # ranges) =
     (case math_add (ack_gap rng) 2 of
        None \<Rightarrow> False
      | Some skipped \<Rightarrow>
        if range_smallest < skipped then False
        else let range_largest = range_smallest - skipped in
          if ack_len rng > range_largest then False
          else ackRangesAreValid_loop (range_largest - ack_len rng) ranges)"

definition ackFrameRangesAreValid :: "ack_range list ack_frame \<Rightarrow> bool" where
  "ackFrameRangesAreValid ack =
     (if first_ack_range ack > largest_acknowledged ack then False
      else ackRangesAreValid_loop (largest_acknowledged ack - first_ack_range ack) (ack_ranges ack))"

fun ackContains_loop :: "u64 \<Rightarrow> ack_range list \<Rightarrow> u64 \<Rightarrow> bool" where
  "ackContains_loop range_smallest [] packet_number = False"
| "ackContains_loop range_smallest (rng # ranges) packet_number =
     (case math_add (ack_gap rng) 2 of
        None \<Rightarrow> False
      | Some skipped \<Rightarrow>
        if range_smallest < skipped then False
        else let range_largest = range_smallest - skipped in
          if ack_len rng > range_largest then False
          else let range_smallest = range_largest - ack_len rng in
            if packet_number \<ge> range_smallest \<and> packet_number \<le> range_largest then True
            else ackContains_loop range_smallest ranges packet_number)"

definition ackFrameContains :: "ack_range list ack_frame \<Rightarrow> u64 \<Rightarrow> bool" where
  "ackFrameContains ack packet_number =
     (if first_ack_range ack > largest_acknowledged ack then False
      else let range_smallest = largest_acknowledged ack - first_ack_range ack in
        if packet_number \<ge> range_smallest \<and> packet_number \<le> largest_acknowledged ack then True
        else ackContains_loop range_smallest (ack_ranges ack) packet_number)"

section \<open>The history as a set\<close>

definition ranges_set :: "received_packet_range list \<Rightarrow> u64 set" where
  "ranges_set rs = {p. \<exists>r \<in> set rs. smallest r \<le> p \<and> p \<le> largest r}"

definition retained :: "received_packet_ranges \<Rightarrow> u64 set" where
  "retained s = ranges_set (rp_ranges s)"

definition forgotten :: "received_packet_ranges \<Rightarrow> u64 \<Rightarrow> bool" where
  "forgotten s p = (case forgotten_through s of Some f \<Rightarrow> p \<le> f | None \<Rightarrow> False)"

text \<open>Ranges are not empty, descend, and do not touch.\<close>

definition apart :: "received_packet_range \<Rightarrow> received_packet_range \<Rightarrow> bool" where
  "apart a b \<longleftrightarrow> unat (largest b) + 1 < unat (smallest a)"

definition ranges_ok :: "received_packet_range list \<Rightarrow> bool" where
  "ranges_ok rs \<longleftrightarrow> sorted_wrt apart rs \<and> (\<forall>r \<in> set rs. smallest r \<le> largest r)"

definition rp_ok :: "received_packet_ranges \<Rightarrow> bool" where
  "rp_ok s \<longleftrightarrow> ranges_ok (rp_ranges s) \<and> length (rp_ranges s) \<le> max_ranges \<and> (\<forall>p \<in> retained s. \<not> forgotten s p)"

lemma isImmediatelyBefore_iff: "isImmediatelyBefore a b \<longleftrightarrow> unat b = unat a + 1"
proof (cases "a = 0xffffffffffffffff")
  case True
  then have "unat a + 1 = 2 ^ 64" by simp
  then show ?thesis using True unsigned_less [of b, where ?'a = nat] by (simp add: isImmediatelyBefore_def)
next
  case False
  moreover have "(- 1 :: u64) = 0xffffffffffffffff" by simp
  ultimately have "1 + a \<noteq> 0" by (metis add_eq_0_iff)
  then have "unat (a + 1) = unat a + 1" using unatSuc [of a] by (simp add: add.commute)
  then show ?thesis using False by (auto simp: isImmediatelyBefore_def word_unat_eq_iff)
qed

text \<open>The list of ranges with one more number, as an unbounded list.\<close>

fun add_packet :: "u64 \<Rightarrow> received_packet_range list \<Rightarrow> received_packet_range list" where
  "add_packet p [] = [\<lparr>smallest = p, largest = p\<rparr>]"
| "add_packet p (r # rs) =
     (if p > largest r then
        if isImmediatelyBefore (largest r) p then r\<lparr>largest := p\<rparr> # rs else \<lparr>smallest = p, largest = p\<rparr> # r # rs
      else if p \<ge> smallest r then r # rs
      else if isImmediatelyBefore p (smallest r) then
        case rs of
          [] \<Rightarrow> [r\<lparr>smallest := p\<rparr>]
        | r2 # rs2 \<Rightarrow>
            if isImmediatelyBefore (largest r2) p then r\<lparr>smallest := smallest r2\<rparr> # rs2 else r\<lparr>smallest := p\<rparr> # rs
      else r # add_packet p rs)"

lemmas word_nat = word_le_nat_alt word_less_nat_alt

lemma ranges_set_simps [simp]:
  "ranges_set [] = {}" "ranges_set (r # rs) = {p. smallest r \<le> p \<and> p \<le> largest r} \<union> ranges_set rs"
  by (auto simp: ranges_set_def)

lemma ranges_ok_Cons: "ranges_ok (r # rs) \<longleftrightarrow> smallest r \<le> largest r \<and> (\<forall>x \<in> set rs. apart r x) \<and> ranges_ok rs"
  by (auto simp: ranges_ok_def)

lemma add_packet_set:
  "ranges_ok rs \<Longrightarrow> p \<notin> ranges_set rs \<Longrightarrow> q \<in> ranges_set (add_packet p rs) \<longleftrightarrow> q = p \<or> q \<in> ranges_set rs"
proof (induction rs)
  case (Cons r rs)
  consider (above) "largest r < p" | (inside) "\<not> largest r < p" "smallest r \<le> p"
    | (before) "\<not> largest r < p" "\<not> smallest r \<le> p" "isImmediatelyBefore p (smallest r)"
    | (below) "\<not> largest r < p" "\<not> smallest r \<le> p" "\<not> isImmediatelyBefore p (smallest r)"
    by blast
  then show ?case
  proof cases
    case above
    with Cons.prems show ?thesis
      by (simp add: ranges_ok_Cons isImmediatelyBefore_iff word_nat word_unat_eq_iff) linarith
  next
    case inside
    with Cons.prems show ?thesis by auto
  next
    case before
    with Cons.prems show ?thesis
      by (cases rs) (auto simp: ranges_ok_Cons isImmediatelyBefore_iff word_nat word_unat_eq_iff apart_def)
  next
    case below
    with Cons show ?thesis by (simp add: ranges_ok_Cons) blast
  qed
qed (auto simp: word_nat word_unat_eq_iff)

lemma add_packet_bound:
  "ranges_ok rs \<Longrightarrow> x \<in> set (add_packet p rs) \<Longrightarrow> \<forall>y \<in> set rs. apart r y \<Longrightarrow> unat p + 1 < unat (smallest r) \<Longrightarrow> apart r x"
proof (induction rs)
  case (Cons a rs)
  then show ?case
    by (cases rs) (auto simp: ranges_ok_Cons isImmediatelyBefore_iff word_nat apart_def split: if_splits)
qed (simp add: apart_def)

lemma add_packet_ok: "ranges_ok rs \<Longrightarrow> ranges_ok (add_packet p rs)"
proof (induction rs)
  case (Cons r rs)
  have "apart r x" if "x \<in> set (add_packet p rs)" "\<not> largest r < p" "\<not> smallest r \<le> p" "unat (smallest r) \<noteq> unat p + 1" for x
    using that Cons.prems add_packet_bound [of rs x p r] by (simp add: ranges_ok_Cons word_nat)
  with Cons show ?case
    by (cases rs) (auto simp: ranges_ok_Cons isImmediatelyBefore_iff word_nat apart_def split: if_splits)
qed (simp add: ranges_ok_def)

text \<open>The bound: the oldest range goes and what it held is forgotten.\<close>

definition trim_ranges :: "received_packet_ranges \<Rightarrow> received_packet_ranges" where
  "trim_ranges s =
     (if length (rp_ranges s) > max_ranges then
        let f = largest (last (rp_ranges s)) in
        s\<lparr>forgotten_through := Some (case forgotten_through s of Some previous \<Rightarrow> max previous f | None \<Rightarrow> f),
          rp_ranges := butlast (rp_ranges s)\<rparr>
      else s)"

lemma length_add_packet: "length (add_packet p rs) \<le> length rs + 1"
  by (induction rs) (auto split: list.splits)

lemma ranges_insert_trim:
  assumes "length (pre @ post) \<le> max_ranges" and "rp_ranges s = pre @ post" and "post \<noteq> [] \<or> length pre < max_ranges"
  shows "ranges_insert s (length pre) r = (True, trim_ranges (s\<lparr>rp_ranges := pre @ r # post\<rparr>))"
proof (cases "length (pre @ post) = max_ranges")
  case True
  then have "post \<noteq> []" using assms(3) by auto
  then obtain xs x where post: "post = xs @ [x]" by (metis rev_exhaust)
  with True have m: "max_ranges - Suc 0 = length (pre @ xs)" "Suc (length pre + length xs) = max_ranges" by simp_all
  have "(pre @ xs @ [x]) ! (max_ranges - Suc 0) = x" using nth_append_length [of "pre @ xs" x "[]"] unfolding m(1) by simp
  with m assms(2) post show ?thesis
    by (simp add: ranges_insert_def trim_ranges_def Let_def butlast_append)
next
  case False
  with assms show ?thesis by (auto simp: ranges_insert_def trim_ranges_def Let_def)
qed

lemma record_loop_add:
  assumes "rp_ranges s = pre @ post" and "length (rp_ranges s) \<le> max_ranges" and "ranges_ok (rp_ranges s)"
    and "\<And>r. r \<in> set pre \<Longrightarrow> unat p + 1 < unat (smallest r)"
    and "canRecord_loop post (length (rp_ranges s)) p"
  shows "record_loop s p (length pre) = (True, trim_ranges (s\<lparr>rp_ranges := pre @ add_packet p post\<rparr>))"
  using assms
proof (induction post arbitrary: pre)
  case Nil
  then show ?case using ranges_insert_trim [of pre "[]" s] by (subst record_loop.simps) (simp add: Let_def)
next
  case (Cons r post)
  have prev: "\<not> isImmediatelyBefore p (smallest (pre ! (length pre - 1)))" if "pre \<noteq> []"
    using Cons.prems(4) [of "pre ! (length pre - 1)"] that by (simp add: isImmediatelyBefore_iff)
  consider (above) "largest r < p" | (before) "\<not> largest r < p" "\<not> smallest r \<le> p" "isImmediatelyBefore p (smallest r)"
    | (below) "\<not> largest r < p" "\<not> smallest r \<le> p" "\<not> isImmediatelyBefore p (smallest r)"
    using Cons.prems(5) by (auto split: if_splits)
  then show ?case
  proof cases
    case above
    then show ?thesis
      using Cons.prems(1,2) prev ranges_insert_trim [of pre "r # post" s "\<lparr>smallest = p, largest = p\<rparr>"]
      by (subst record_loop.simps) (auto simp: Let_def nth_append trim_ranges_def)
  next
    case before
    then show ?thesis
      using Cons.prems(1,2)
      by (subst record_loop.simps, cases post)
        (auto simp: Let_def nth_append trim_ranges_def ranges_remove_def list_update_append)
  next
    case below
    then have "unat p + 1 < unat (smallest r)" by (auto simp: isImmediatelyBefore_iff word_nat)
    then have "record_loop s p (length (pre @ [r])) = (True, trim_ranges (s\<lparr>rp_ranges := (pre @ [r]) @ add_packet p post\<rparr>))"
      using Cons.prems below by (intro Cons.IH) (auto split: if_splits)
    then show ?thesis using below Cons.prems(1) by (subst record_loop.simps) (simp add: Let_def nth_append)
  qed
qed

lemma canRecord_loop_iff:
  "ranges_ok rs \<Longrightarrow> canRecord_loop rs n p \<longleftrightarrow>
     p \<notin> ranges_set rs \<and> (n < max_ranges \<or> (\<exists>q \<in> ranges_set rs. unat q \<le> unat p + 1))"
proof (induction rs)
  case (Cons r rs)
  have lower: "q < smallest r" if "q \<in> ranges_set rs" for q
    using that Cons.prems by (force simp: ranges_set_def ranges_ok_Cons apart_def word_nat)
  have r: "smallest r \<in> ranges_set (r # rs)" "smallest r \<le> largest r" using Cons.prems by (simp_all add: ranges_ok_Cons)
  consider (above) "largest r < p" | (inside) "\<not> largest r < p" "smallest r \<le> p"
    | (before) "\<not> largest r < p" "\<not> smallest r \<le> p" "isImmediatelyBefore p (smallest r)"
    | (below) "\<not> largest r < p" "\<not> smallest r \<le> p" "\<not> isImmediatelyBefore p (smallest r)"
    by blast
  then show ?case
  proof cases
    case above
    then have "unat (smallest r) \<le> unat p + 1" using r(2) by (simp add: word_nat)
    moreover have "p \<notin> ranges_set (r # rs)" using lower [of p] above r(2) by (auto simp: word_nat)
    ultimately show ?thesis using above r(1) by auto
  next
    case inside
    then show ?thesis by auto
  next
    case before
    then have "unat (smallest r) \<le> unat p + 1" by (simp add: isImmediatelyBefore_iff)
    moreover have "p \<notin> ranges_set rs"
      using before(3) Cons.prems by (force simp: ranges_set_def ranges_ok_Cons apart_def word_nat isImmediatelyBefore_iff)
    ultimately show ?thesis using before r(1) by auto
  next
    case below
    then have "\<not> unat q \<le> unat p + 1" if "smallest r \<le> q" for q
      using that by (auto simp: isImmediatelyBefore_iff word_nat)
    then show ?thesis using below Cons by (auto simp: ranges_ok_Cons)
  qed
qed simp

lemma ranges_set_snoc: "ranges_set (rs @ [x]) = ranges_set rs \<union> {p. smallest x \<le> p \<and> p \<le> largest x}"
  by (auto simp: ranges_set_def)

lemma trim_ranges_props:
  assumes "ranges_ok (rp_ranges s)" and "length (rp_ranges s) \<le> max_ranges + 1" and "\<forall>p \<in> retained s. \<not> forgotten s p"
  shows "rp_ok (trim_ranges s) \<and> retained (trim_ranges s) = {q \<in> retained s. \<not> forgotten (trim_ranges s) q} \<and>
    (\<forall>q. forgotten s q \<longrightarrow> forgotten (trim_ranges s) q)"
proof (cases "length (rp_ranges s) > max_ranges")
  case True
  then have "rp_ranges s \<noteq> []" by auto
  then obtain rs x where rs: "rp_ranges s = rs @ [x]" by (metis rev_exhaust)
  have upper: "\<not> q \<le> largest x" if "q \<in> ranges_set rs" for q
    using that assms(1) rs by (force simp: ranges_set_def ranges_ok_def sorted_wrt_append apart_def word_nat)
  have trim: "rp_ranges (trim_ranges s) = rs" "forgotten (trim_ranges s) q \<longleftrightarrow> forgotten s q \<or> q \<le> largest x" for q
    using True rs by (auto simp: trim_ranges_def Let_def forgotten_def le_max_iff_disj split: option.splits)
  have "ranges_ok rs" using assms(1) rs by (auto simp: ranges_ok_def sorted_wrt_append)
  with trim rs assms(2,3) upper show ?thesis
    by (auto simp: rp_ok_def retained_def ranges_set_snoc)
next
  case False
  then show ?thesis using assms by (auto simp: trim_ranges_def rp_ok_def)
qed

lemma add_packet_last:
  "ranges_ok rs \<Longrightarrow> canRecord_loop rs max_ranges p \<Longrightarrow> length rs < length (add_packet p rs) \<Longrightarrow>
     largest (last (add_packet p rs)) < p"
proof (induction rs)
  case (Cons r rs)
  have last: "largest x \<le> largest r" if "x \<in> set rs" for x
    using that Cons.prems(1) by (force simp: ranges_ok_Cons apart_def word_nat)
  have "largest (last (r # rs)) \<le> largest r" using last [of "last rs"] by (cases "rs = []") simp_all
  moreover have "add_packet p rs \<noteq> []" by (cases rs) (simp_all split: list.splits)
  ultimately show ?case using Cons by (auto simp: ranges_ok_Cons split: if_splits list.splits)
qed simp

lemma add_packet_not_forgotten:
  assumes "ranges_ok (rp_ranges s)" and "length (rp_ranges s) \<le> max_ranges"
    and "canRecord_loop (rp_ranges s) (length (rp_ranges s)) p" and "\<not> forgotten s p"
  shows "\<not> forgotten (trim_ranges (s\<lparr>rp_ranges := add_packet p (rp_ranges s)\<rparr>)) p"
proof (cases "length (add_packet p (rp_ranges s)) > max_ranges")
  case True
  then have "length (rp_ranges s) = max_ranges" using length_add_packet [of p "rp_ranges s"] assms(2) by simp
  then have "largest (last (add_packet p (rp_ranges s))) < p" using add_packet_last assms(1,3) True by simp
  with True assms(4) show ?thesis
    by (auto simp: trim_ranges_def Let_def forgotten_def le_max_iff_disj split: option.splits)
next
  case False
  then show ?thesis using assms(4) by (simp add: trim_ranges_def forgotten_def)
qed

lemma record_props:
  assumes "rp_ok s" and "ranges_record s p = (ok, s')"
  shows "rp_ok s' \<and>
    (ok \<longleftrightarrow> p \<notin> retained s \<and> \<not> forgotten s p \<and>
      (length (rp_ranges s) < max_ranges \<or> (\<exists>q \<in> retained s. unat q \<le> unat p + 1))) \<and>
    (if ok then retained s' = {q \<in> insert p (retained s). \<not> forgotten s' q} \<and> p \<in> retained s' \<and>
       (\<forall>q. forgotten s q \<longrightarrow> forgotten s' q)
     else s' = s)"
proof -
  have ok: "ranges_ok (rp_ranges s)" "length (rp_ranges s) \<le> max_ranges" "\<forall>q \<in> retained s. \<not> forgotten s q"
    using assms(1) by (simp_all add: rp_ok_def)
  have can: "canRecord s p \<longleftrightarrow> p \<notin> retained s \<and> \<not> forgotten s p \<and>
      (length (rp_ranges s) < max_ranges \<or> (\<exists>q \<in> retained s. unat q \<le> unat p + 1))"
    using canRecord_loop_iff [OF ok(1)] by (auto simp: canRecord_def forgotten_def retained_def split: option.splits)
  show ?thesis
  proof (cases "canRecord s p")
    case False
    then have "\<not> ok" "s' = s" using assms(2) by (simp_all add: ranges_record_def)
    then show ?thesis using assms(1) can False by simp
  next
    case True
    then have new: "p \<notin> retained s" "\<not> forgotten s p" using can by simp_all
    have can_loop: "canRecord_loop (rp_ranges s) (length (rp_ranges s)) p" using True by (simp add: canRecord_def split: if_splits)
    then have s': "ok" "s' = trim_ranges (s\<lparr>rp_ranges := add_packet p (rp_ranges s)\<rparr>)"
      using record_loop_add [of s "[]" "rp_ranges s" p] ok True assms(2) by (simp_all add: ranges_record_def)
    let ?t = "s\<lparr>rp_ranges := add_packet p (rp_ranges s)\<rparr>"
    have t: "retained ?t = insert p (retained s)" "forgotten ?t = forgotten s"
      using add_packet_set [OF ok(1)] new(1) by (auto simp: retained_def forgotten_def)
    have "rp_ok s' \<and> retained s' = {q \<in> retained ?t. \<not> forgotten s' q} \<and> (\<forall>q. forgotten s q \<longrightarrow> forgotten s' q)"
      using trim_ranges_props [of ?t] add_packet_ok [OF ok(1), of p] length_add_packet [of p "rp_ranges s"] ok new t s'(2)
      by auto
    moreover have "\<not> forgotten s' p" using add_packet_not_forgotten [OF ok(1,2) can_loop new(2)] s'(2) by simp
    ultimately show ?thesis using s'(1) can True t by auto
  qed
qed

text \<open>Property C9: recording a packet number is an insertion into a set that is bounded from below. A number is
  accepted exactly when it is new, not forgotten, and there is room for it or it is not older than all that
  is retained; then it is retained and only forgotten numbers are dropped; a refusal changes nothing.\<close>

theorem ranges_record_refines:
  assumes "rp_ok s" and "ranges_record s p = (ok, s')"
  shows "rp_ok s' \<and>
    (ok \<longleftrightarrow> p \<notin> retained s \<and> \<not> forgotten s p \<and>
      (length (rp_ranges s) < max_ranges \<or> (\<exists>q \<in> retained s. unat q \<le> unat p + 1))) \<and>
    (if ok then retained s' = {q \<in> insert p (retained s). \<not> forgotten s' q} \<and> p \<in> retained s' \<and>
       (\<forall>q. forgotten s q \<longrightarrow> forgotten s' q)
     else s' = s)"
  using assms by (rule record_props)

lemma ranges_record_refines_witness:
  "ranges_record \<lparr>rp_ranges = [\<lparr>smallest = 5, largest = 7\<rparr>], forgotten_through = None\<rparr> 8 =
     (True, \<lparr>rp_ranges = [\<lparr>smallest = 5, largest = 8\<rparr>], forgotten_through = None\<rparr>) \<and>
   rp_ok \<lparr>rp_ranges = [\<lparr>smallest = 5, largest = 8\<rparr>], forgotten_through = None\<rparr>"
proof -
  let ?s = "\<lparr>rp_ranges = [\<lparr>smallest = 5, largest = 7\<rparr>], forgotten_through = None\<rparr>"
  have "rp_ok ?s" by (simp add: rp_ok_def ranges_ok_def max_ranges_def forgotten_def)
  moreover have "ranges_record ?s 8 = (True, \<lparr>rp_ranges = [\<lparr>smallest = 5, largest = 8\<rparr>], forgotten_through = None\<rparr>)"
    by code_simp
  ultimately show ?thesis using ranges_record_refines [of ?s 8] by simp
qed

text \<open>A sequence of arrivals, with the numbers that were accepted, latest first.\<close>

fun record_all :: "u64 list \<Rightarrow> u64 list \<times> received_packet_ranges \<Rightarrow> u64 list \<times> received_packet_ranges" where
  "record_all [] h = h"
| "record_all (p # ps) (accepted, s) =
     (case ranges_record s p of (ok, s') \<Rightarrow> record_all ps (if ok then p # accepted else accepted, s'))"

definition history_ok :: "u64 list \<times> received_packet_ranges \<Rightarrow> bool" where
  "history_ok h \<longleftrightarrow> (case h of (accepted, s) \<Rightarrow> rp_ok s \<and> distinct accepted \<and>
     retained s = {p \<in> set accepted. \<not> forgotten s p})"

lemma record_all_ok: "history_ok h \<Longrightarrow> history_ok (record_all ps h)"
proof (induction ps h rule: record_all.induct)
  case (2 p ps accepted s)
  obtain ok s' where r: "ranges_record s p = (ok, s')" by fastforce
  from "2.prems" have h: "rp_ok s" "distinct accepted" "retained s = {p \<in> set accepted. \<not> forgotten s p}"
    by (simp_all add: history_ok_def)
  note props = record_props [OF h(1) r]
  have "history_ok (if ok then p # accepted else accepted, s')"
  proof (cases ok)
    case True
    with props have s': "rp_ok s'" "p \<notin> retained s" "\<not> forgotten s p" "\<forall>q. forgotten s q \<longrightarrow> forgotten s' q"
        "retained s' = {q \<in> insert p (retained s). \<not> forgotten s' q}" by simp_all
    then have "p \<notin> set accepted" using h(3) by blast
    moreover have "retained s' = {q \<in> set (p # accepted). \<not> forgotten s' q}" using s'(4,5) h(3) by auto
    ultimately show ?thesis using True s'(1) h(2) by (simp add: history_ok_def)
  next
    case False
    with props "2.prems" show ?thesis by simp
  qed
  with "2.IH" [OF r [symmetric]] show ?case by (simp add: r)
qed simp

lemma history_empty: "history_ok ([], empty_ranges)"
  by (simp add: history_ok_def rp_ok_def empty_ranges_def ranges_ok_def retained_def)

text \<open>Property C8: however packets arrive, reordered and repeated, no packet number is accepted twice, and what
  the history retains are exactly the accepted numbers above the bound below which it has forgotten.\<close>

theorem accepted_once:
  assumes "record_all ps ([], empty_ranges) = (accepted, s)"
  shows "distinct accepted \<and> retained s = {p \<in> set accepted. \<not> forgotten s p} \<and> length (rp_ranges s) \<le> max_ranges"
  using record_all_ok [OF history_empty, of ps] unfolding assms history_ok_def rp_ok_def prod.case by blast

lemma accepted_once_witness:
  "record_all [3, 1, 3] ([], empty_ranges) =
     ([1, 3], \<lparr>rp_ranges = [\<lparr>smallest = 3, largest = 3\<rparr>, \<lparr>smallest = 1, largest = 1\<rparr>], forgotten_through = None\<rparr>) \<and>
   distinct [1, 3 :: u64]"
proof -
  have "record_all [3, 1, 3] ([], empty_ranges) =
      ([1, 3], \<lparr>rp_ranges = [\<lparr>smallest = 3, largest = 3\<rparr>, \<lparr>smallest = 1, largest = 1\<rparr>], forgotten_through = None\<rparr>)"
    by code_simp
  with accepted_once [OF this] show ?thesis by simp
qed

section \<open>Acknowledging the history\<close>

lemma unat_diff: "b \<le> a \<Longrightarrow> unat (a - b :: u64) = unat a - unat b"
  by (simp add: unat_sub)

lemma ack_step:
  assumes "unat (largest x) + 1 < unat S" and "smallest x \<le> largest x"
  shows "math_add (S - largest x - 2) 2 = Some (S - largest x)" "\<not> S < S - largest x"
    "\<not> largest x < largest x - smallest x" "unat (S - largest x - 2) = unat S - unat (largest x) - 2"
    "unat (largest x - smallest x) = unat (largest x) - unat (smallest x)"
proof -
  have a: "unat (S - largest x) = unat S - unat (largest x)" using assms(1) by (intro unat_diff) (simp add: word_nat)
  moreover have "2 \<le> S - largest x" using assms(1) a by (simp add: word_nat)
  ultimately show b: "unat (S - largest x - 2) = unat S - unat (largest x) - 2" using unat_diff [of 2 "S - largest x"] by simp
  show c: "unat (largest x - smallest x) = unat (largest x) - unat (smallest x)" using assms(2) by (rule unat_diff)
  show "math_add (S - largest x - 2) 2 = Some (S - largest x)" using a b assms(1) by simp
  show "\<not> S < S - largest x" "\<not> largest x < largest x - smallest x" using a c by (simp_all add: word_nat)
qed

lemma ack_ranges_exact:
  "ranges_ok rs \<Longrightarrow> \<forall>x \<in> set rs. unat (largest x) + 1 < unat S \<Longrightarrow> S \<le> max_quic_varint \<Longrightarrow>
     validateAckRanges S (ack_ranges_of S rs) = Inr () \<and> ackRangesAreValid_loop S (ack_ranges_of S rs) \<and>
     (ackContains_loop S (ack_ranges_of S rs) p \<longleftrightarrow> p \<in> ranges_set rs)"
proof (induction rs arbitrary: S)
  case (Cons x rs)
  then have x: "unat (largest x) + 1 < unat S" "smallest x \<le> largest x" "\<forall>y \<in> set rs. unat (largest y) + 1 < unat (smallest x)"
      "ranges_ok rs" by (auto simp: ranges_ok_Cons apart_def)
  note step = ack_step [OF x(1,2)]
  have bounds: "S - largest x - 2 \<le> max_quic_varint" "largest x - smallest x \<le> max_quic_varint" "smallest x \<le> max_quic_varint"
    using step(4,5) Cons.prems(3) x(1,2) by (simp_all add: varint_max word_nat)
  show ?case
    using Cons.IH [OF x(4,3) bounds(3)] step(2,3) bounds
    by (auto simp: step(1) Let_def simp del: math_add_Some)
qed simp

lemma length_ack_ranges_of: "length (ack_ranges_of S rs) = length rs"
  by (induction S rs rule: ack_ranges_of.induct) simp_all

text \<open>Property C10: the ACK frame built from the history is valid, acknowledges exactly the retained packet
  numbers, and there is none only when nothing is retained.\<close>

theorem ack_frame_exact:
  assumes "rp_ok s" and "\<forall>p \<in> retained s. p \<le> max_packet_number"
  shows "case ackFrame s of
      None \<Rightarrow> retained s = {}
    | Some ack \<Rightarrow> validateAckFrame ack = Inr () \<and> ackFrameRangesAreValid ack \<and>
        (\<forall>p. ackFrameContains ack p \<longleftrightarrow> p \<in> retained s) \<and> largest_acknowledged ack \<in> retained s \<and>
        (\<forall>p \<in> retained s. p \<le> largest_acknowledged ack)"
proof (cases "rp_ranges s")
  case Nil
  then show ?thesis by (simp add: ackFrame_def retained_def)
next
  case (Cons r rs)
  then have r: "smallest r \<le> largest r" "\<forall>x \<in> set rs. unat (largest x) + 1 < unat (smallest r)" "ranges_ok rs"
      "length rs < 2 ^ 62" "largest r \<in> retained s"
    using assms(1) by (auto simp: rp_ok_def ranges_ok_Cons apart_def max_ranges_def retained_def)
  then have bounds: "largest r \<le> max_quic_varint" "smallest r \<le> max_quic_varint" "largest r - smallest r \<le> max_quic_varint"
      "\<not> largest r < largest r - smallest r"
    using assms(2) unat_diff [OF r(1)] by (auto simp: varint_max max_quic_varint_eq word_nat)
  note exact = ack_ranges_exact [OF r(3,2) bounds(2)]
  let ?ack = "AckFrame (largest r) 0 (largest r - smallest r) (ack_ranges_of (smallest r) rs)"
  obtain v :: u64 where "unat v = length rs" "v \<le> max_quic_varint"
    using cast_u64_bound [THEN iffD2, OF r(4)] by (auto simp: varint_max)
  then have "validateAckFrame ?ack = Inr ()"
    using exact bounds by (auto simp: validateAckFrame_def length_ack_ranges_of max_quic_varint_eq)
  moreover have "ackFrameContains ?ack p \<longleftrightarrow> p \<in> retained s" for p
    using exact bounds(4) Cons by (auto simp: ackFrameContains_def Let_def retained_def)
  moreover have "p \<le> largest r" if "p \<in> retained s" for p
    using that r(1,2) Cons by (force simp: retained_def ranges_set_def word_nat)
  ultimately show ?thesis
    using exact bounds(4) r(5) Cons by (simp add: ackFrame_def ackFrameRangesAreValid_def)
qed

lemma ack_frame_exact_witness:
  "ackFrame \<lparr>rp_ranges = [\<lparr>smallest = 7, largest = 9\<rparr>, \<lparr>smallest = 2, largest = 2\<rparr>], forgotten_through = None\<rparr> =
     Some (AckFrame 9 0 2 [AckRange 3 0]) \<and>
   validateAckFrame (AckFrame 9 0 2 [AckRange 3 0]) = Inr ()"
proof -
  let ?s = "\<lparr>rp_ranges = [\<lparr>smallest = 7, largest = 9\<rparr>, \<lparr>smallest = 2, largest = 2\<rparr>], forgotten_through = None\<rparr>"
  have "rp_ok ?s" by (simp add: rp_ok_def ranges_ok_def apart_def max_ranges_def forgotten_def)
  moreover have "\<forall>p \<in> retained ?s. p \<le> max_packet_number"
    by (auto simp: retained_def max_quic_varint_eq intro: order_trans)
  moreover have "ackFrame ?s = Some (AckFrame 9 0 2 [AckRange 3 0])" by (simp add: ackFrame_def)
  ultimately show ?thesis using ack_frame_exact [of ?s] by simp
qed

end
