(* ===== verification/Packet_Header.thy ===== *)
theory Packet_Header
  imports Frame_Proofs
begin

text \<open>
  Packet headers (\<^verbatim>\<open>src/src/quic/packet.zig\<close>): long and short headers, whole packets with an opaque payload,
  Version Negotiation and Retry packets, stateless resets; encoders, parsers and the functions that
  release what a parser allocated. As for frames, the records are parametrised by how byte strings are
  held. The target is a 64-bit one, so that \<^verbatim>\<open>std.math.cast(usize, value)\<close> of a \<^verbatim>\<open>u64\<close> succeeds.
\<close>

section \<open>Versions and packet types\<close>

type_synonym version = "32 word"

definition version_v1 :: version where
  "version_v1 = 0x00000001"

definition version_v2 :: version where
  "version_v2 = 0x6b3343cf"

definition isReservedVersion :: "version \<Rightarrow> bool" where
  "isReservedVersion version \<longleftrightarrow> version AND 0x0f0f0f0f = 0x0a0a0a0a"

datatype packet_type = Type_initial | Type_zero_rtt | Type_handshake | Type_retry

fun intFromPacketType :: "packet_type \<Rightarrow> 2 word" where
  "intFromPacketType Type_initial = 0"
| "intFromPacketType Type_zero_rtt = 1"
| "intFromPacketType Type_handshake = 2"
| "intFromPacketType Type_retry = 3"

definition longHeaderPacketTypeBits :: "version \<Rightarrow> packet_type \<Rightarrow> 2 word" where
  "longHeaderPacketTypeBits version packet_type =
     (if version = version_v2 then
        (case packet_type of
           Type_initial \<Rightarrow> 1
         | Type_zero_rtt \<Rightarrow> 2
         | Type_handshake \<Rightarrow> 3
         | Type_retry \<Rightarrow> 0)
      else intFromPacketType packet_type)"

definition longHeaderPacketTypeFromBits :: "version \<Rightarrow> 2 word \<Rightarrow> packet_type" where
  "longHeaderPacketTypeFromBits version bits =
     (if version = version_v2 then
        (if bits = 0 then Type_retry
         else if bits = 1 then Type_initial
         else if bits = 2 then Type_zero_rtt
         else Type_handshake)
      else if bits = 0 then Type_initial
      else if bits = 1 then Type_zero_rtt
      else if bits = 2 then Type_handshake
      else Type_retry)"

datatype header_form = Form_long | Form_short

definition parseHeaderForm :: "byte \<Rightarrow> header_form" where
  "parseHeaderForm first_byte = (if first_byte AND 0x80 \<noteq> 0 then Form_long else Form_short)"

section \<open>Headers and packets\<close>

record 'b long_header =
  lh_version :: version
  lh_dcid :: 'b
  lh_scid :: 'b
  lh_packet_type :: packet_type
  lh_token :: 'b
  lh_packet_number :: u64
  lh_payload_length :: u64

record 'b short_header =
  sh_dcid :: 'b
  sh_spin_bit :: bool
  sh_key_phase :: bool
  sh_packet_number :: u64

record ('b, 'v) version_negotiation_packet =
  vn_dcid :: 'b
  vn_scid :: 'b
  vn_versions :: 'v

record 'b retry_packet =
  rt_version :: version
  rt_dcid :: 'b
  rt_scid :: 'b
  rt_token :: 'b
  rt_integrity_tag :: "byte list"

record 'b long_packet =
  lp_header :: "'b long_header"
  lp_payload :: 'b

record 'b short_packet =
  sp_header :: "'b short_header"
  sp_payload :: 'b

record 'b decoded_long_packet =
  dl_packet :: "'b long_packet"
  dl_len :: nat

abbreviation free_nonempty :: "'e slice \<Rightarrow> decoder \<Rightarrow> decoder" where
  "free_nonempty s d \<equiv> if length (elems s) \<noteq> 0 then zig_free s d else d"

definition deinitLongHeader :: "byte slice long_header \<Rightarrow> decoder \<Rightarrow> decoder" where
  "deinitLongHeader header d =
     free_nonempty (lh_token header) (zig_free (lh_scid header) (zig_free (lh_dcid header) d))"

definition deinitShortHeader :: "byte slice short_header \<Rightarrow> decoder \<Rightarrow> decoder" where
  "deinitShortHeader header = zig_free (sh_dcid header)"

definition deinitVersionNegotiationPacket ::
    "(byte slice, version slice) version_negotiation_packet \<Rightarrow> decoder \<Rightarrow> decoder" where
  "deinitVersionNegotiationPacket packet d =
     zig_free (vn_versions packet) (zig_free (vn_scid packet) (zig_free (vn_dcid packet) d))"

definition deinitRetryPacket :: "byte slice retry_packet \<Rightarrow> decoder \<Rightarrow> decoder" where
  "deinitRetryPacket packet d =
     zig_free (rt_token packet) (zig_free (rt_scid packet) (zig_free (rt_dcid packet) d))"

definition deinitLongPacket :: "byte slice long_packet \<Rightarrow> decoder \<Rightarrow> decoder" where
  "deinitLongPacket packet d = free_nonempty (lp_payload packet) (deinitLongHeader (lp_header packet) d)"

definition deinitShortPacket :: "byte slice short_packet \<Rightarrow> decoder \<Rightarrow> decoder" where
  "deinitShortPacket packet d = free_nonempty (sp_payload packet) (deinitShortHeader (sp_header packet) d)"

section \<open>Validation\<close>

definition validateVersionNegotiationCidLen :: "nat \<Rightarrow> unit zig_result" where
  "validateVersionNegotiationCidLen len = ensure (\<not> len > 255) InvalidConnectionIdLength"

definition validateVersionNegotiationVersion :: "version \<Rightarrow> unit zig_result" where
  "validateVersionNegotiationVersion version = ensure (version \<noteq> 0) InvalidVersionList"

definition validateVersionedPacketVersion :: "version \<Rightarrow> unit zig_result" where
  "validateVersionedPacketVersion version = ensure (version \<noteq> 0) InvalidVersionNegotiation"

definition validateLengthVarInt :: "u64 \<Rightarrow> unit zig_result" where
  "validateLengthVarInt value = ensure (\<not> value > max_quic_varint) InvalidLength"

definition validateLongHeaderCidLen :: "nat \<Rightarrow> unit zig_result" where
  "validateLongHeaderCidLen len = ensure (\<not> len > 20) InvalidConnectionIdLength"

text \<open>\<^verbatim>\<open>std.math.cast(u64, len) orelse return error.InvalidLength\<close>, and big-endian 32-bit integers.\<close>

definition cast_length :: "nat \<Rightarrow> u64 zig_result" where
  "cast_length n = (if n < 2 ^ 64 then Inr (word_of_nat n) else Inl InvalidLength)"

definition u32_bytes :: "32 word \<Rightarrow> byte list" where
  "u32_bytes v = [ucast (drop_bit 24 v), ucast (drop_bit 16 v), ucast (drop_bit 8 v), ucast v]"

definition readInt_u32 :: "byte list \<Rightarrow> 32 word" where
  "readInt_u32 buf = push_bit 24 (ucast (buf ! 0)) OR push_bit 16 (ucast (buf ! 1)) OR push_bit 8 (ucast (buf ! 2)) OR ucast (buf ! 3)"

section \<open>Long headers\<close>

text \<open>
  The checks of \<^verbatim>\<open>encodeLongHeaderWithPacketNumberEncoding\<close>, which all come before its first write; their result is the
  value of the Length field.
\<close>

definition longHeader_check :: "byte list long_header \<Rightarrow> packet_number_encoding \<Rightarrow> u64 zig_result" where
  "longHeader_check header encoding =
     ztry (validateLongHeaderCidLen (length (lh_dcid header))) (\<lambda>_.
     ztry (validateLongHeaderCidLen (length (lh_scid header))) (\<lambda>_.
     ztry (validateVersionedPacketVersion (lh_version header)) (\<lambda>_.
     if lh_packet_type header = Type_retry then Inl UnsupportedPacketType
     else if lh_packet_type header \<noteq> Type_initial \<and> length (lh_token header) \<noteq> 0 then Inl UnexpectedToken
     else ztry (validatePacketNumberEncodingMatches (lh_packet_number header) encoding) (\<lambda>_.
     ztry (case math_add (lh_payload_length header) (word_of_nat (pne_len encoding)) of
        None \<Rightarrow> Inl InvalidLength | Some wire_length \<Rightarrow> Inr wire_length) (\<lambda>wire_length.
     ztry (validateLengthVarInt wire_length) (\<lambda>_.
     ztry (if lh_packet_type header = Type_initial
           then ztry (cast_length (length (lh_token header))) validateLengthVarInt
           else Inr ()) (\<lambda>_.
     Inr wire_length)))))))"

definition longHeader_first_byte :: "byte list long_header \<Rightarrow> packet_number_encoding \<Rightarrow> byte" where
  "longHeader_first_byte header encoding =
     0x80 OR 0x40 OR push_bit 4 (ucast (longHeaderPacketTypeBits (lh_version header) (lh_packet_type header)))
       OR word_of_nat (pne_len encoding - 1)"

definition encodeLongHeaderWithPacketNumberEncoding ::
    "byte list long_header \<Rightarrow> packet_number_encoding \<Rightarrow> (unit, fixed_writer) zig" where
  "encodeLongHeaderWithPacketNumberEncoding header encoding w =
     (case longHeader_check header encoding of
        Inl e \<Rightarrow> (Inl e, w)
      | Inr wire_length \<Rightarrow> zseq
          [writeByte (longHeader_first_byte header encoding),
           writeAll (u32_bytes (lh_version header)),
           writeByte (word_of_nat (length (lh_dcid header))),
           writeAll (lh_dcid header),
           writeByte (word_of_nat (length (lh_scid header))),
           writeAll (lh_scid header),
           if lh_packet_type header = Type_initial
             then zseq [encodeVarInt (len64 (lh_token header)), writeAll (lh_token header)]
             else zret (),
           encodeVarInt wire_length,
           encodePacketNumber (ucast (pne_truncated encoding)) (pne_len encoding)] w)"

definition encodeLongHeader :: "byte list long_header \<Rightarrow> (unit, fixed_writer) zig" where
  "encodeLongHeader header w =
     (case packetNumberLen (lh_packet_number header) of
        Inl e \<Rightarrow> (Inl e, w)
      | Inr pn_len \<Rightarrow> encodeLongHeaderWithPacketNumberEncoding header
          \<lparr>pne_len = pn_len, pne_truncated = ucast (lh_packet_number header)\<rparr> w)"

text \<open>The packet number of a parsed header: reconstructed when the caller knows what to expect.\<close>

definition received_number :: "u64 option \<Rightarrow> u64 \<Rightarrow> nat \<Rightarrow> u64 zig_result" where
  "received_number expected_packet_number truncated pn_len =
     (case expected_packet_number of
        Some expected \<Rightarrow> reconstructPacketNumber expected truncated pn_len
      | None \<Rightarrow> Inr truncated)"

definition ztry_with :: "'a zig_result \<Rightarrow> ('a \<Rightarrow> ('b, 's) zig) \<Rightarrow> ('b, 's) zig" where
  "ztry_with r f = (case r of Inl e \<Rightarrow> zfail e | Inr x \<Rightarrow> f x)"

text \<open>A connection ID of a given length: allocated, released if anything after it fails, and filled.\<close>

definition with_cid :: "nat \<Rightarrow> (byte slice \<Rightarrow> ('a, decoder) zig) \<Rightarrow> ('a, decoder) zig" where
  "with_cid len f = zbind (zig_alloc len) (\<lambda>cid. errdefer (free_block cid)
     (zbind (readNoEof len) (\<lambda>bytes. f (as_slice cid bytes))))"

definition parseLongHeaderInternal :: "u64 option \<Rightarrow> (byte slice long_header, decoder) zig" where
  "parseLongHeaderInternal expected_packet_number =
     zbind readByte (\<lambda>first_byte.
     zbind (zcheck (ensure (first_byte AND 0x80 \<noteq> 0) InvalidHeaderForm)) (\<lambda>_.
     zbind (zcheck (ensure (first_byte AND 0x40 \<noteq> 0) InvalidFixedBit)) (\<lambda>_.
     zbind (zcheck (ensure (first_byte AND 0x0c = 0) InvalidReservedBits)) (\<lambda>_.
     let pn_len = unat (first_byte AND 0x03) + 1;
         packet_type_bits = ucast (drop_bit 4 first_byte AND 0x03) in
     zbind (readNoEof 4) (\<lambda>version_buf.
     let version = readInt_u32 version_buf in
     zbind (zcheck (validateVersionedPacketVersion version)) (\<lambda>_.
     let packet_type = longHeaderPacketTypeFromBits version packet_type_bits in
     zbind (zcheck (ensure (packet_type \<noteq> Type_retry) UnsupportedPacketType)) (\<lambda>_.
     zbind readByte (\<lambda>dcid_len.
     zbind (zcheck (ensure (\<not> dcid_len > 20) InvalidConnectionIdLength)) (\<lambda>_.
     with_cid (unat dcid_len) (\<lambda>dcid.
     zbind readByte (\<lambda>scid_len.
     zbind (zcheck (ensure (\<not> scid_len > 20) InvalidConnectionIdLength)) (\<lambda>_.
     with_cid (unat scid_len) (\<lambda>scid.
     zbind
       (if packet_type = Type_initial then
          zbind decodeVarInt (\<lambda>(token_len, _).
            if unat token_len \<noteq> 0 then readOwnedBytes (unat token_len) else zret (Unowned []))
        else zret (Unowned [])) (\<lambda>token.
     errdefer (free_nonempty token) (
     zbind decodeVarInt (\<lambda>(wire_length, _).
     zbind (zcheck (ensure (\<not> wire_length < word_of_nat pn_len) InvalidLength)) (\<lambda>_.
     zbind (decodePacketNumber pn_len) (\<lambda>truncated_packet_number.
     ztry_with (received_number expected_packet_number truncated_packet_number pn_len) (\<lambda>packet_number.
     zret \<lparr>lh_version = version, lh_dcid = dcid, lh_scid = scid, lh_packet_type = packet_type, lh_token = token,
       lh_packet_number = packet_number, lh_payload_length = wire_length - word_of_nat pn_len\<rparr>)))))))))))))))))))"

definition parseLongHeader :: "(byte slice long_header, decoder) zig" where
  "parseLongHeader = parseLongHeaderInternal None"

definition parseLongHeaderWithExpectedPacketNumber :: "u64 \<Rightarrow> (byte slice long_header, decoder) zig" where
  "parseLongHeaderWithExpectedPacketNumber expected_packet_number = parseLongHeaderInternal (Some expected_packet_number)"

text \<open>Whole packets: the encoders derive the payload length, the parser takes it from the Length field.\<close>

definition encodeLongPacket :: "byte list long_packet \<Rightarrow> (unit, fixed_writer) zig" where
  "encodeLongPacket packet w =
     (case cast_length (length (lp_payload packet)) of
        Inl e \<Rightarrow> (Inl e, w)
      | Inr payload_length \<Rightarrow> zseq
          [encodeLongHeader ((lp_header packet)\<lparr>lh_payload_length := payload_length\<rparr>),
           writeAll (lp_payload packet)] w)"

definition encodeLongPacketWithPacketNumberEncoding ::
    "byte list long_packet \<Rightarrow> packet_number_encoding \<Rightarrow> (unit, fixed_writer) zig" where
  "encodeLongPacketWithPacketNumberEncoding packet encoding w =
     (case cast_length (length (lp_payload packet)) of
        Inl e \<Rightarrow> (Inl e, w)
      | Inr payload_length \<Rightarrow> zseq
          [encodeLongHeaderWithPacketNumberEncoding ((lp_header packet)\<lparr>lh_payload_length := payload_length\<rparr>) encoding,
           writeAll (lp_payload packet)] w)"

definition owned_or_empty :: "nat \<Rightarrow> (byte slice, decoder) zig" where
  "owned_or_empty len = (if len = 0 then zret (Unowned []) else readOwnedBytes len)"

definition with_reader :: "byte list \<Rightarrow> ('a, decoder) zig \<Rightarrow> ('a, decoder) zig" where
  "with_reader data p d = p (d\<lparr>fr_data := data, fr_pos := 0\<rparr>)"

definition parseLongPacketInternal :: "byte list \<Rightarrow> u64 option \<Rightarrow> (byte slice decoded_long_packet, decoder) zig" where
  "parseLongPacketInternal data expected_packet_number = with_reader data (
     zbind (parseLongHeaderInternal expected_packet_number) (\<lambda>header.
     errdefer (deinitLongHeader header) (
     let payload_len = unat (lh_payload_length header) in
     zbind (zget remainingLen) (\<lambda>remaining.
     zbind (zcheck (ensure (\<not> payload_len > remaining) InvalidLength)) (\<lambda>_.
     zbind (owned_or_empty payload_len) (\<lambda>payload.
     errdefer (free_nonempty payload) (
     zbind (zget fr_pos) (\<lambda>pos.
     zret \<lparr>dl_packet = \<lparr>lp_header = header, lp_payload = payload\<rparr>, dl_len = pos\<rparr>))))))))"

definition parseLongPacket :: "byte list \<Rightarrow> (byte slice decoded_long_packet, decoder) zig" where
  "parseLongPacket data = parseLongPacketInternal data None"

definition parseLongPacketWithExpectedPacketNumber ::
    "byte list \<Rightarrow> u64 \<Rightarrow> (byte slice decoded_long_packet, decoder) zig" where
  "parseLongPacketWithExpectedPacketNumber data expected_packet_number =
     parseLongPacketInternal data (Some expected_packet_number)"

section \<open>Short headers\<close>

definition shortHeader_check :: "byte list short_header \<Rightarrow> packet_number_encoding \<Rightarrow> unit zig_result" where
  "shortHeader_check header encoding =
     ztry (ensure (\<not> length (sh_dcid header) > 20) InvalidConnectionIdLength) (\<lambda>_.
     validatePacketNumberEncodingMatches (sh_packet_number header) encoding)"

definition shortHeader_first_byte :: "byte list short_header \<Rightarrow> packet_number_encoding \<Rightarrow> byte" where
  "shortHeader_first_byte header encoding =
     0x40 OR (if sh_spin_bit header then 0x20 else 0) OR (if sh_key_phase header then 0x04 else 0)
       OR word_of_nat (pne_len encoding - 1)"

definition encodeShortHeaderWithPacketNumberEncoding ::
    "byte list short_header \<Rightarrow> packet_number_encoding \<Rightarrow> (unit, fixed_writer) zig" where
  "encodeShortHeaderWithPacketNumberEncoding header encoding =
     checked (shortHeader_check header encoding)
       [writeByte (shortHeader_first_byte header encoding),
        writeAll (sh_dcid header),
        encodePacketNumber (ucast (pne_truncated encoding)) (pne_len encoding)]"

definition encodeShortHeader :: "byte list short_header \<Rightarrow> (unit, fixed_writer) zig" where
  "encodeShortHeader header w =
     (case packetNumberLen (sh_packet_number header) of
        Inl e \<Rightarrow> (Inl e, w)
      | Inr pn_len \<Rightarrow> encodeShortHeaderWithPacketNumberEncoding header
          \<lparr>pne_len = pn_len, pne_truncated = ucast (sh_packet_number header)\<rparr> w)"

definition parseShortHeaderInternal :: "nat \<Rightarrow> u64 option \<Rightarrow> (byte slice short_header, decoder) zig" where
  "parseShortHeaderInternal dcid_len expected_packet_number =
     zbind readByte (\<lambda>first_byte.
     zbind (zcheck (ensure (first_byte AND 0x80 = 0) InvalidHeaderForm)) (\<lambda>_.
     zbind (zcheck (ensure (first_byte AND 0x40 \<noteq> 0) InvalidFixedBit)) (\<lambda>_.
     zbind (zcheck (ensure (first_byte AND 0x18 = 0) InvalidReservedBits)) (\<lambda>_.
     let spin_bit = (first_byte AND 0x20 \<noteq> 0);
         key_phase = (first_byte AND 0x04 \<noteq> 0);
         pn_len = unat (first_byte AND 0x03) + 1 in
     zbind (zcheck (ensure (\<not> dcid_len > 20) InvalidConnectionIdLength)) (\<lambda>_.
     with_cid dcid_len (\<lambda>dcid.
     zbind (decodePacketNumber pn_len) (\<lambda>truncated_packet_number.
     ztry_with (received_number expected_packet_number truncated_packet_number pn_len) (\<lambda>packet_number.
     zret \<lparr>sh_dcid = dcid, sh_spin_bit = spin_bit, sh_key_phase = key_phase, sh_packet_number = packet_number\<rparr>))))))))"

definition parseShortHeader :: "nat \<Rightarrow> (byte slice short_header, decoder) zig" where
  "parseShortHeader dcid_len = parseShortHeaderInternal dcid_len None"

definition parseShortHeaderWithExpectedPacketNumber :: "nat \<Rightarrow> u64 \<Rightarrow> (byte slice short_header, decoder) zig" where
  "parseShortHeaderWithExpectedPacketNumber dcid_len expected_packet_number =
     parseShortHeaderInternal dcid_len (Some expected_packet_number)"

definition encodeShortPacket :: "byte list short_packet \<Rightarrow> (unit, fixed_writer) zig" where
  "encodeShortPacket packet = zseq [encodeShortHeader (sp_header packet), writeAll (sp_payload packet)]"

definition encodeShortPacketWithPacketNumberEncoding ::
    "byte list short_packet \<Rightarrow> packet_number_encoding \<Rightarrow> (unit, fixed_writer) zig" where
  "encodeShortPacketWithPacketNumberEncoding packet encoding =
     zseq [encodeShortHeaderWithPacketNumberEncoding (sp_header packet) encoding, writeAll (sp_payload packet)]"

definition parseShortPacketInternal :: "byte list \<Rightarrow> nat \<Rightarrow> u64 option \<Rightarrow> (byte slice short_packet, decoder) zig" where
  "parseShortPacketInternal data dcid_len expected_packet_number = with_reader data (
     zbind (parseShortHeaderInternal dcid_len expected_packet_number) (\<lambda>header.
     errdefer (deinitShortHeader header) (
     zbind (zget remainingLen) (\<lambda>payload_len.
     zbind (owned_or_empty payload_len) (\<lambda>payload.
     errdefer (free_nonempty payload) (
     zret \<lparr>sp_header = header, sp_payload = payload\<rparr>))))))"

definition parseShortPacket :: "byte list \<Rightarrow> nat \<Rightarrow> (byte slice short_packet, decoder) zig" where
  "parseShortPacket data dcid_len = parseShortPacketInternal data dcid_len None"

definition parseShortPacketWithExpectedPacketNumber ::
    "byte list \<Rightarrow> nat \<Rightarrow> u64 \<Rightarrow> (byte slice short_packet, decoder) zig" where
  "parseShortPacketWithExpectedPacketNumber data dcid_len expected_packet_number =
     parseShortPacketInternal data dcid_len (Some expected_packet_number)"

section \<open>Version Negotiation, Retry, stateless reset\<close>

fun validate_versions :: "version list \<Rightarrow> unit zig_result" where
  "validate_versions [] = Inr ()"
| "validate_versions (version # versions) =
     ztry (validateVersionNegotiationVersion version) (\<lambda>_. validate_versions versions)"

definition versionNegotiation_check :: "(byte list, version list) version_negotiation_packet \<Rightarrow> unit zig_result" where
  "versionNegotiation_check packet =
     ztry (validateVersionNegotiationCidLen (length (vn_dcid packet))) (\<lambda>_.
     ztry (validateVersionNegotiationCidLen (length (vn_scid packet))) (\<lambda>_.
     ztry (ensure (length (vn_versions packet) \<noteq> 0) InvalidVersionList) (\<lambda>_.
     validate_versions (vn_versions packet))))"

definition encodeVersionNegotiationPacket ::
    "(byte list, version list) version_negotiation_packet \<Rightarrow> (unit, fixed_writer) zig" where
  "encodeVersionNegotiationPacket packet =
     checked (versionNegotiation_check packet)
       ([writeByte 0xc0,
         writeAll [0x00, 0x00, 0x00, 0x00],
         writeByte (word_of_nat (length (vn_dcid packet))),
         writeAll (vn_dcid packet),
         writeByte (word_of_nat (length (vn_scid packet))),
         writeAll (vn_scid packet)]
        @ map (\<lambda>version. writeAll (u32_bytes version)) (vn_versions packet))"

fun read_versions :: "nat \<Rightarrow> (version list, decoder) zig" where
  "read_versions 0 = zret []"
| "read_versions (Suc n) =
     zbind (readNoEof 4) (\<lambda>version_buf.
     let version = readInt_u32 version_buf in
     zbind (zcheck (validateVersionNegotiationVersion version)) (\<lambda>_.
     zbind (read_versions n) (\<lambda>versions. zret (version # versions))))"

definition parseVersionNegotiationPacket ::
    "byte list \<Rightarrow> ((byte slice, version slice) version_negotiation_packet, decoder) zig" where
  "parseVersionNegotiationPacket data = with_reader data (
     zbind readByte (\<lambda>first_byte.
     zbind (zcheck (ensure (first_byte AND 0x80 \<noteq> 0) InvalidHeaderForm)) (\<lambda>_.
     zbind (readNoEof 4) (\<lambda>version_buf.
     zbind (zcheck (ensure (readInt_u32 version_buf = 0) InvalidVersionNegotiation)) (\<lambda>_.
     zbind readByte (\<lambda>dcid_len.
     zbind (readOwnedBytes (unat dcid_len)) (\<lambda>dcid. errdefer (zig_free dcid) (
     zbind readByte (\<lambda>scid_len.
     zbind (readOwnedBytes (unat scid_len)) (\<lambda>scid. errdefer (zig_free scid) (
     zbind (zget remainingLen) (\<lambda>versions_len.
     zbind (zcheck (ensure (\<not> (versions_len = 0 \<or> versions_len mod 4 \<noteq> 0)) InvalidVersionList)) (\<lambda>_.
     zbind (zig_alloc (versions_len div 4)) (\<lambda>versions. errdefer (free_block versions) (
     zbind (read_versions (versions_len div 4)) (\<lambda>values.
     zret \<lparr>vn_dcid = dcid, vn_scid = scid, vn_versions = as_slice versions values\<rparr>))))))))))))))))"

definition retry_check :: "byte list retry_packet \<Rightarrow> unit zig_result" where
  "retry_check retry =
     ztry (validateLongHeaderCidLen (length (rt_dcid retry))) (\<lambda>_.
     ztry (validateLongHeaderCidLen (length (rt_scid retry))) (\<lambda>_.
     ztry (validateVersionedPacketVersion (rt_version retry)) (\<lambda>_.
     ensure (length (rt_token retry) \<noteq> 0) InvalidRetryPacket)))"

definition encodeRetryPacket :: "byte list retry_packet \<Rightarrow> (unit, fixed_writer) zig" where
  "encodeRetryPacket retry =
     checked (retry_check retry)
       [writeByte (0x80 OR 0x40 OR push_bit 4 (ucast (longHeaderPacketTypeBits (rt_version retry) Type_retry))),
        writeAll (u32_bytes (rt_version retry)),
        writeByte (word_of_nat (length (rt_dcid retry))),
        writeAll (rt_dcid retry),
        writeByte (word_of_nat (length (rt_scid retry))),
        writeAll (rt_scid retry),
        writeAll (rt_token retry),
        writeAll (rt_integrity_tag retry)]"

definition parseRetryPacket :: "byte list \<Rightarrow> (byte slice retry_packet, decoder) zig" where
  "parseRetryPacket data = with_reader data (
     zbind readByte (\<lambda>first_byte.
     zbind (zcheck (ensure (first_byte AND 0x80 \<noteq> 0) InvalidHeaderForm)) (\<lambda>_.
     zbind (zcheck (ensure (first_byte AND 0x40 \<noteq> 0) InvalidFixedBit)) (\<lambda>_.
     let packet_type_bits = ucast (drop_bit 4 first_byte AND 0x03) in
     zbind (readNoEof 4) (\<lambda>version_buf.
     let version = readInt_u32 version_buf in
     zbind (zcheck (validateVersionedPacketVersion version)) (\<lambda>_.
     let packet_type = longHeaderPacketTypeFromBits version packet_type_bits in
     zbind (zcheck (ensure (packet_type = Type_retry) InvalidRetryPacket)) (\<lambda>_.
     zbind readByte (\<lambda>dcid_len.
     zbind (zcheck (validateLongHeaderCidLen (unat dcid_len))) (\<lambda>_.
     zbind (readOwnedBytes (unat dcid_len)) (\<lambda>dcid. errdefer (zig_free dcid) (
     zbind readByte (\<lambda>scid_len.
     zbind (zcheck (validateLongHeaderCidLen (unat scid_len))) (\<lambda>_.
     zbind (readOwnedBytes (unat scid_len)) (\<lambda>scid. errdefer (zig_free scid) (
     zbind (zget remainingLen) (\<lambda>remaining.
     zbind (zcheck (ensure (\<not> remaining \<le> 16) InvalidRetryPacket)) (\<lambda>_.
     zbind (readOwnedBytes (remaining - 16)) (\<lambda>token. errdefer (zig_free token) (
     zbind (readNoEof 16) (\<lambda>integrity_tag.
     zret \<lparr>rt_version = version, rt_dcid = dcid, rt_scid = scid, rt_token = token,
       rt_integrity_tag = integrity_tag\<rparr>))))))))))))))))))))"

definition stateless_reset_token_len :: nat where
  "stateless_reset_token_len = 16"

definition min_stateless_reset_datagram_len :: nat where
  "min_stateless_reset_datagram_len = stateless_reset_token_len + 5"

definition statelessResetTokenCandidate :: "byte list \<Rightarrow> byte list option" where
  "statelessResetTokenCandidate datagram =
     (if length datagram < min_stateless_reset_datagram_len then None
      else Some (drop (length datagram - stateless_reset_token_len) datagram))"

definition matchesStatelessReset :: "byte list \<Rightarrow> byte list \<Rightarrow> bool" where
  "matchesStatelessReset datagram expected_token =
     (case statelessResetTokenCandidate datagram of None \<Rightarrow> False | Some candidate \<Rightarrow> candidate = expected_token)"

definition isStatelessResetPrefix :: "byte list \<Rightarrow> bool" where
  "isStatelessResetPrefix unpredictable_prefix \<longleftrightarrow>
     (if length unpredictable_prefix = 0 then False else unpredictable_prefix ! 0 AND 0xc0 = 0x40)"

definition encodeStatelessReset :: "byte list \<Rightarrow> byte list \<Rightarrow> (unit, fixed_writer) zig" where
  "encodeStatelessReset unpredictable_prefix token =
     checked
       (ztry (ensure (\<not> length unpredictable_prefix < min_stateless_reset_datagram_len - stateless_reset_token_len)
          InvalidLength) (\<lambda>_.
        ensure (isStatelessResetPrefix unpredictable_prefix) InvalidHeaderForm))
       [writeAll unpredictable_prefix, writeAll token]"

end
