(* ===== verification/Zig_Memory.thy ===== *)
theory Zig_Memory
  imports Zig_Buffer "HOL-Library.Multiset"
begin

text \<open>
  Ownership: which blocks a value holds, in whatever order they were allocated, and growing arrays
  (\<^verbatim>\<open>std.ArrayList\<close>). A list grows when the library's policy says so: the policy is the argument \<open>grow\<close>, from the
  number of elements to whether the next append allocates a new block. Growing allocates the new block, copies the
  elements and frees the old one; a failed append leaves the list as it was.
\<close>

section \<open>What a value holds\<close>

text \<open>
  What is live is a permutation of the value's own blocks, in front of what was live before.
\<close>

definition holds :: "nat multiset \<Rightarrow> nat list \<Rightarrow> decoder \<Rightarrow> bool" where
  "holds own live d \<longleftrightarrow> (\<exists>ids. mset ids = own \<and> al_live d = ids @ live)"

lemma holds_own: "al_live d = ids @ live \<Longrightarrow> holds (mset ids) live d"
  by (auto simp: holds_def)

lemma holds_none: "holds {#} live d \<longleftrightarrow> al_live d = live"
  by (simp add: holds_def)

lemma holds_free:
  assumes "slice_wf x" and "holds (own + mset (owned_ids x)) live d"
  shows "holds own live (zig_free x d)" "al_bad (zig_free x d) = al_bad d"
proof -
  from assms(2) obtain ids where ids: "mset ids = own + mset (owned_ids x)" "al_live d = ids @ live"
    unfolding holds_def by blast
  have "holds own live (zig_free x d) \<and> al_bad (zig_free x d) = al_bad d"
  proof (cases x)
    case (Owned i xs)
    with ids(1) have "i \<in># mset ids" by simp
    then have "i \<in> set ids" by simp
    then have "remove1 i (ids @ live) = remove1 i ids @ live" by (simp add: remove1_append)
    moreover have "mset (remove1 i ids) = own" using ids(1) Owned by simp
    ultimately show ?thesis
      using Owned ids(2) \<open>i \<in> set ids\<close> unfolding holds_def by (auto simp: free_id_def)
  next
    case (Unowned xs)
    with assms show ?thesis by simp
  qed
  then show "holds own live (zig_free x d)" "al_bad (zig_free x d) = al_bad d" by blast+
qed

text \<open>\<open>balanced p deinit\<close>: an error leaves nothing allocated, and after a success \<open>deinit\<close> releases all.\<close>

definition balanced :: "('a, decoder) zig \<Rightarrow> ('a \<Rightarrow> decoder \<Rightarrow> decoder) \<Rightarrow> bool" where
  "balanced p deinit \<longleftrightarrow> (\<forall>d. case p d of
      (Inl e, d') \<Rightarrow> al_live d' = al_live d \<and> al_bad d' = al_bad d
    | (Inr x, d') \<Rightarrow> al_live (deinit x d') = al_live d \<and> al_bad (deinit x d') = al_bad d)"

lemma balancedI:
  assumes "mem_safe p own" and "yields p Q"
    and "\<And>x d live. Q x \<Longrightarrow> holds (mset (own x)) live d \<Longrightarrow> holds {#} live (deinit x d) \<and> al_bad (deinit x d) = al_bad d"
  shows "balanced p deinit"
  unfolding balanced_def
proof (intro allI, split prod.split, intro allI impI, split sum.split, intro conjI allI impI)
  fix d r d' e
  assume "p d = (r, d')" "r = Inl e"
  with mem_safeD [OF assms(1)] show "al_live d' = al_live d" "al_bad d' = al_bad d" by fastforce+
next
  fix d r d' x
  assume p: "p d = (r, d')" "r = Inr x"
  with mem_safeD [OF assms(1) p(1)] have "al_live d' = own x @ al_live d" "al_bad d' = al_bad d" by simp_all
  moreover have "Q x" using assms(2) p unfolding yields_def by blast
  ultimately show "al_live (deinit x d') = al_live d" "al_bad (deinit x d') = al_bad d"
    using assms(3) [of x "al_live d" d'] holds_own by (auto simp: holds_none)
qed

section \<open>Growing arrays\<close>

record 'e array_list =
  list_block :: "nat option"
  list_items :: "'e list"

definition list_deinit :: "'e array_list \<Rightarrow> decoder \<Rightarrow> decoder" where
  "list_deinit xs = free_block (list_block xs)"

definition list_append :: "(nat \<Rightarrow> bool) \<Rightarrow> 'e array_list \<Rightarrow> 'e \<Rightarrow> ('e array_list, decoder) zig" where
  "list_append grow xs x d =
     (if grow (length (list_items xs)) then
        (case zig_alloc (Suc (length (list_items xs))) d of
           (Inl e, d) \<Rightarrow> (Inl e, d)
         | (Inr block, d) \<Rightarrow>
             (Inr \<lparr>list_block = block, list_items = list_items xs @ [x]\<rparr>, free_block (list_block xs) d))
      else (Inr (xs\<lparr>list_items := list_items xs @ [x]\<rparr>), d))"

definition block_ids :: "nat option \<Rightarrow> nat list" where
  "block_ids b = (case b of None \<Rightarrow> [] | Some i \<Rightarrow> [i])"

lemma holds_free_block:
  assumes "holds (own + mset (block_ids b)) live d"
  shows "holds own live (free_block b d)" "al_bad (free_block b d) = al_bad d"
  using assms holds_free [of "Owned (the b) [()]" own live d]
  by (cases b; simp add: block_ids_def free_block_def)+

lemma holds_more: "holds own live d \<Longrightarrow> al_live d' = ids @ al_live d \<Longrightarrow> holds (own + mset ids) live d'"
  unfolding holds_def by (metis append.assoc mset_append add.commute)

lemma list_append_safe:
  assumes "holds (own + mset (block_ids (list_block xs))) live d" and "list_append grow xs y d = (x, d')"
  shows "al_bad d' = al_bad d \<and> (case x of
      Inl e \<Rightarrow> holds (own + mset (block_ids (list_block xs))) live d'
    | Inr xs' \<Rightarrow> holds (own + mset (block_ids (list_block xs'))) live d' \<and> list_items xs' = list_items xs @ [y])"
proof (cases "grow (length (list_items xs))")
  case True
  let ?n = "Suc (length (list_items xs))"
  obtain r d1 where a: "zig_alloc ?n d = (r, d1)" by fastforce
  show ?thesis
  proof (cases r)
    case (Inl e)
    with a have "al_live d1 = al_live d" "al_bad d1 = al_bad d" by (auto simp: zig_alloc_def Let_def split: if_splits)
    with Inl a True assms show ?thesis by (auto simp: list_append_def holds_def)
  next
    case (Inr b)
    with a have d1: "al_live d1 = block_ids b @ al_live d" "al_bad d1 = al_bad d"
      by (auto simp: zig_alloc_def Let_def block_ids_def split: if_splits)
    have "holds (own + mset (block_ids b) + mset (block_ids (list_block xs))) live d1"
      using holds_more [OF assms(1) d1(1)] by (simp add: add.assoc add.commute [of "mset (block_ids b)"])
    with Inr a True assms(2) d1 holds_free_block [OF this] show ?thesis by (auto simp: list_append_def)
  qed
next
  case False
  with assms show ?thesis by (auto simp: list_append_def)
qed

end
