(* ===== verification/Packet_Header_Proofs.thy ===== *)
theory Packet_Header_Proofs
  imports Packet_Header Zig_Memory
begin

text \<open>
  Proofs about packet headers: every encoder writes exactly the bytes of its packet, every parser gives them
  back, no datagram is taken for packets of two kinds, and no parser leaks or frees anything twice.
\<close>

section \<open>The fields of the wire format\<close>

lemma readInt_u32_bytes [simp]: "readInt_u32 (u32_bytes v) = v"
proof -
  let ?x = "push_bit 24 (ucast (ucast (drop_bit 24 v) :: byte)) OR push_bit 16 (ucast (ucast (drop_bit 16 v) :: byte))
      OR push_bit 8 (ucast (ucast (drop_bit 8 v) :: byte)) OR ucast (ucast v :: byte) :: 32 word"
  have "?x = v"
  proof (rule bit_word_eqI)
    fix n
    assume "n < LENGTH(32)"
    then consider "n < 8" | "8 \<le> n" "n < 16" | "16 \<le> n" "n < 24" | "24 \<le> n" "n < 32" by fastforce
    then show "bit ?x n = bit v n" by cases (auto simp: bit_simps)
  qed
  then show ?thesis by (simp add: readInt_u32_def u32_bytes_def)
qed

lemma length_u32_bytes [simp]: "length (u32_bytes v) = 4"
  by (simp add: u32_bytes_def)

lemma two_bits: obtains "b = (0 :: 2 word)" | "b = 1" | "b = 2" | "b = 3"
proof -
  have "unat b < 4" using unsigned_less [of b, where ?'a = nat] by simp
  then have "unat b = 0 \<or> unat b = 1 \<or> unat b = 2 \<or> unat b = 3" by linarith
  then show ?thesis using that by (auto simp: word_unat_eq_iff)
qed

lemma packet_type_bits_roundtrip [simp]:
  "longHeaderPacketTypeFromBits v (longHeaderPacketTypeBits v t) = t"
  by (cases t) (simp_all add: longHeaderPacketTypeFromBits_def longHeaderPacketTypeBits_def)

lemma packet_type_bits_onto [simp]:
  "longHeaderPacketTypeBits v (longHeaderPacketTypeFromBits v b) = b"
  by (rule two_bits [of b]) (simp_all add: longHeaderPacketTypeFromBits_def longHeaderPacketTypeBits_def)

lemma long_first_byte:
  fixes b :: "2 word"
  assumes "1 \<le> n" and "n \<le> 4"
  defines "f \<equiv> 0x80 OR 0x40 OR push_bit 4 (ucast b) OR word_of_nat (n - 1) :: byte"
  shows "f AND 0x80 \<noteq> 0" "f AND 0x40 \<noteq> 0" "f AND 0x0c = 0" "unat (f AND 0x03) + 1 = n" "ucast (drop_bit 4 f AND 0x03) = b"
proof -
  consider "n = 1" | "n = 2" | "n = 3" | "n = 4" using assms by linarith
  then have "f AND 0x80 \<noteq> 0 \<and> f AND 0x40 \<noteq> 0 \<and> f AND 0x0c = 0 \<and> unat (f AND 0x03) + 1 = n \<and>
      ucast (drop_bit 4 f AND 0x03) = b"
    unfolding f_def by (cases; rule two_bits [of b]; simp)
  then show "f AND 0x80 \<noteq> 0" "f AND 0x40 \<noteq> 0" "f AND 0x0c = 0" "unat (f AND 0x03) + 1 = n" "ucast (drop_bit 4 f AND 0x03) = b"
    by blast+
qed

lemma short_first_byte:
  fixes spin phase :: bool
  assumes "1 \<le> n" and "n \<le> 4"
  defines "f \<equiv> 0x40 OR (if spin then 0x20 else 0) OR (if phase then 0x04 else 0) OR word_of_nat (n - 1) :: byte"
  shows "f AND 0x80 = 0" "f AND 0x40 \<noteq> 0" "f AND 0x18 = 0" "unat (f AND 0x03) + 1 = n" "f AND 0x20 \<noteq> 0 \<longleftrightarrow> spin"
    "f AND 0x04 \<noteq> 0 \<longleftrightarrow> phase"
proof -
  consider "n = 1" | "n = 2" | "n = 3" | "n = 4" using assms by linarith
  then have "f AND 0x80 = 0 \<and> f AND 0x40 \<noteq> 0 \<and> f AND 0x18 = 0 \<and> unat (f AND 0x03) + 1 = n \<and>
      (f AND 0x20 \<noteq> 0 \<longleftrightarrow> spin) \<and> (f AND 0x04 \<noteq> 0 \<longleftrightarrow> phase)"
    unfolding f_def by cases (cases spin; cases phase; simp)+
  then show "f AND 0x80 = 0" "f AND 0x40 \<noteq> 0" "f AND 0x18 = 0" "unat (f AND 0x03) + 1 = n" "f AND 0x20 \<noteq> 0 \<longleftrightarrow> spin"
    "f AND 0x04 \<noteq> 0 \<longleftrightarrow> phase"
    by blast+
qed

section \<open>Wire formats\<close>

definition cid_bytes :: "byte list \<Rightarrow> byte list" where
  "cid_bytes cid = word_of_nat (length cid) # cid"

definition token_bytes :: "byte list long_header \<Rightarrow> byte list" where
  "token_bytes h = (if lh_packet_type h = Type_initial then varint_bytes (len64 (lh_token h)) @ lh_token h else [])"

definition long_header_bytes :: "byte list long_header \<Rightarrow> packet_number_encoding \<Rightarrow> u64 \<Rightarrow> byte list" where
  "long_header_bytes h enc wire_length =
     longHeader_first_byte h enc # u32_bytes (lh_version h) @ cid_bytes (lh_dcid h) @ cid_bytes (lh_scid h) @
     token_bytes h @ varint_bytes wire_length @ packet_number_bytes (ucast (pne_truncated enc)) (pne_len enc)"

definition short_header_bytes :: "byte list short_header \<Rightarrow> packet_number_encoding \<Rightarrow> byte list" where
  "short_header_bytes h enc =
     shortHeader_first_byte h enc # sh_dcid h @ packet_number_bytes (ucast (pne_truncated enc)) (pne_len enc)"

definition version_negotiation_bytes :: "(byte list, version list) version_negotiation_packet \<Rightarrow> byte list" where
  "version_negotiation_bytes p =
     0xc0 # u32_bytes 0 @ cid_bytes (vn_dcid p) @ cid_bytes (vn_scid p) @ concat (map u32_bytes (vn_versions p))"

definition retry_bytes :: "byte list retry_packet \<Rightarrow> byte list" where
  "retry_bytes p =
     (0x80 OR 0x40 OR push_bit 4 (ucast (longHeaderPacketTypeBits (rt_version p) Type_retry))) #
     u32_bytes (rt_version p) @ cid_bytes (rt_dcid p) @ cid_bytes (rt_scid p) @ rt_token p @ rt_integrity_tag p"

section \<open>What the checks of the encoders say\<close>

lemma encoding_matches:
  assumes "validatePacketNumberEncodingMatches pn enc = Inr u"
  shows "1 \<le> pne_len enc" "pne_len enc \<le> 4" "unat (ucast (pne_truncated enc) :: u64) = unat pn mod 2 ^ (pne_len enc * 8)"
    "pn \<le> max_packet_number"
proof -
  let ?n = "pne_len enc"
  from assms show n: "1 \<le> ?n" "?n \<le> 4"
    by (auto simp: validatePacketNumberEncodingMatches_def validatePacketNumberEncoding_def split: if_splits)
  from assms show "pn \<le> max_packet_number"
    by (auto simp: validatePacketNumberEncodingMatches_def split: if_splits)
  from assms have "ucast (pne_truncated enc) = pn AND (push_bit (?n * 8) 1 - 1)"
    unfolding validatePacketNumberEncodingMatches_def Let_def by (simp del: push_bit_of_1 split: if_splits)
  then have "ucast (pne_truncated enc) = take_bit (?n * 8) pn"
    unfolding window_props(2) [OF n] take_bit_eq_mask .
  then show "unat (ucast (pne_truncated enc) :: u64) = unat pn mod 2 ^ (?n * 8)"
    by (metis unsigned_take_bit_eq take_bit_eq_mod)
qed

lemma cast_length_Inr [simp]: "cast_length n = Inr v \<longleftrightarrow> n < 2 ^ 64 \<and> v = word_of_nat n"
  by (auto simp: cast_length_def)

lemma validate_cid_len [simp]:
  "validateLongHeaderCidLen n = Inr u \<longleftrightarrow> n \<le> 20" "validateVersionNegotiationCidLen n = Inr u \<longleftrightarrow> n \<le> 255"
  "validateVersionedPacketVersion v = Inr u \<longleftrightarrow> v \<noteq> 0" "validateVersionNegotiationVersion v = Inr u \<longleftrightarrow> v \<noteq> 0"
  "validateLengthVarInt l = Inr u \<longleftrightarrow> l \<le> max_quic_varint"
  by (auto simp: validateLongHeaderCidLen_def validateVersionNegotiationCidLen_def validateVersionedPacketVersion_def
      validateVersionNegotiationVersion_def validateLengthVarInt_def)

lemma longHeader_check_Inr:
  assumes "longHeader_check h enc = Inr wire_length"
  shows "length (lh_dcid h) \<le> 20" "length (lh_scid h) \<le> 20" "lh_version h \<noteq> 0" "lh_packet_type h \<noteq> Type_retry"
    "lh_packet_type h \<noteq> Type_initial \<Longrightarrow> lh_token h = []"
    "validatePacketNumberEncodingMatches (lh_packet_number h) enc = Inr ()"
    "unat wire_length = unat (lh_payload_length h) + pne_len enc" "wire_length \<le> max_quic_varint"
    "lh_packet_type h = Type_initial \<Longrightarrow> length (lh_token h) < 2 ^ 62"
    "lh_packet_type h = Type_initial \<Longrightarrow> len64 (lh_token h) \<le> max_quic_varint"
proof -
  note check = assms [unfolded longHeader_check_def]
  from check show enc: "validatePacketNumberEncodingMatches (lh_packet_number h) enc = Inr ()"
    by (auto split: if_splits)
  from check show "length (lh_dcid h) \<le> 20" "length (lh_scid h) \<le> 20" "lh_version h \<noteq> 0" "lh_packet_type h \<noteq> Type_retry"
      "lh_packet_type h \<noteq> Type_initial \<Longrightarrow> lh_token h = []" "wire_length \<le> max_quic_varint"
    by (auto split: if_splits)
  have "unat (word_of_nat (pne_len enc) :: u64) = pne_len enc"
    using encoding_matches(2) [OF enc] by (simp add: unsigned_of_nat take_bit_nat_eq_self)
  with check show "unat wire_length = unat (lh_payload_length h) + pne_len enc"
    by (auto split: if_splits option.splits)
  assume "lh_packet_type h = Type_initial"
  with check have t: "length (lh_token h) < 2 ^ 64" "len64 (lh_token h) \<le> max_quic_varint"
    by (auto simp: len64_def split: if_splits)
  from t(1) have "unat (len64 (lh_token h)) = length (lh_token h)"
    by (simp add: len64_def unsigned_of_nat take_bit_nat_eq_self)
  with t(2) show "length (lh_token h) < 2 ^ 62" "len64 (lh_token h) \<le> max_quic_varint"
    by (auto simp: max_quic_varint_eq word_le_nat_alt)
qed

section \<open>The encoders\<close>

lemma writes_nested: "writes m bs \<Longrightarrow> writes (if c then m else zret ()) (if c then bs else [])"
  using writes_ret by simp

lemma longHeader_encoded:
  assumes "longHeader_check h enc = Inr wire_length"
  shows "writes (encodeLongHeaderWithPacketNumberEncoding h enc) (long_header_bytes h enc wire_length)"
proof -
  note c = longHeader_check_Inr [OF assms]
  have token: "writes (if lh_packet_type h = Type_initial
      then zseq [encodeVarInt (len64 (lh_token h)), writeAll (lh_token h)] else zret ()) (token_bytes h)"
    using c(10) by (auto simp: token_bytes_def intro: writes_zseq_rules encodeVarInt_writes writes_all writes_ret)
  have "writes (zseq
      [writeByte (longHeader_first_byte h enc), writeAll (u32_bytes (lh_version h)),
       writeByte (word_of_nat (length (lh_dcid h))), writeAll (lh_dcid h),
       writeByte (word_of_nat (length (lh_scid h))), writeAll (lh_scid h),
       if lh_packet_type h = Type_initial then zseq [encodeVarInt (len64 (lh_token h)), writeAll (lh_token h)] else zret (),
       encodeVarInt wire_length, encodePacketNumber (ucast (pne_truncated enc)) (pne_len enc)])
      (long_header_bytes h enc wire_length)"
    unfolding long_header_bytes_def cid_bytes_def append_Cons encodePacketNumber_def
    by (intro writes_zseq_rules writes_all token encodeVarInt_writes [OF c(8)])
  with assms show ?thesis by (simp add: writes_def encodeLongHeaderWithPacketNumberEncoding_def)
qed

lemma longHeader_rejected:
  "longHeader_check h enc = Inl e \<Longrightarrow> encodeLongHeaderWithPacketNumberEncoding h enc w = (Inl e, w)"
  by (simp add: encodeLongHeaderWithPacketNumberEncoding_def)

lemma shortHeader_encoded:
  "shortHeader_check h enc = Inr () \<Longrightarrow>
     writes (encodeShortHeaderWithPacketNumberEncoding h enc) (short_header_bytes h enc)"
  unfolding encodeShortHeaderWithPacketNumberEncoding_def short_header_bytes_def encodePacketNumber_def
  by (intro writes_check writes_zseq_rules writes_all) simp_all

lemma writes_versions: "writes (zseq (map (\<lambda>v. writeAll (u32_bytes v)) vs)) (concat (map u32_bytes vs))"
proof (induction vs)
  case (Cons v vs)
  then show ?case using writes_bind [OF writes_all] by (simp add: zseq_def)
qed (simp add: zseq_def writes_ret)

lemma zseq_Cons: "zseq (m # ms) = zbind m (\<lambda>_. zseq ms)"
  by (simp add: zseq_def)

lemma versionNegotiation_encoded:
  assumes "versionNegotiation_check p = Inr ()"
  shows "writes (encodeVersionNegotiationPacket p) (version_negotiation_bytes p)"
proof -
  have bytes: "version_negotiation_bytes p = [0xc0] @ [0, 0, 0, 0] @ [word_of_nat (length (vn_dcid p))] @ vn_dcid p @
      [word_of_nat (length (vn_scid p))] @ vn_scid p @ concat (map u32_bytes (vn_versions p))"
    by (simp add: version_negotiation_bytes_def cid_bytes_def u32_bytes_def)
  show ?thesis
    unfolding encodeVersionNegotiationPacket_def append_Cons append_Nil zseq_Cons
    by (subst bytes) (intro writes_check writes_bind writes_all writes_byte writes_versions assms)
qed

lemma retry_encoded:
  "retry_check p = Inr () \<Longrightarrow> writes (encodeRetryPacket p) (retry_bytes p)"
  unfolding encodeRetryPacket_def retry_bytes_def cid_bytes_def append_Cons
  by (intro writes_check writes_zseq_rules writes_all) simp_all

section \<open>Parsing what was encoded\<close>

lemma reads_owned: "n = length bs \<Longrightarrow> reads (readOwnedBytes n) bs (\<lambda>x. elems x = bs)"
  using reads_bytes [of n bs False] by (simp add: readBytes_def)

lemma reads_cid:
  assumes "n = length bs" and "\<And>c. elems c = bs \<Longrightarrow> reads (f c) cs P"
  shows "reads (with_cid n f) (bs @ cs) P"
proof -
  have rest: "reads (zbind (readNoEof n) (\<lambda>bytes. f (as_slice i bytes))) (bs @ cs) P" for i
    by (rule reads_bind [OF reads_no_eof [OF assms(1)]]) (simp add: assms(2))
  show ?thesis
    unfolding with_cid_def by (rule reads_alloc) (rule reads_errdefer [OF rest])
qed

lemma reads_no_eof_then: "length bs = n \<Longrightarrow> reads (f bs) cs P \<Longrightarrow> reads (zbind (readNoEof n) f) (bs @ cs) P"
  by (rule reads_bind [OF reads_no_eof]) simp_all

lemma reads_varint_then:
  "v \<le> max_quic_varint \<Longrightarrow> reads (f (v, length (varint_bytes v))) cs P \<Longrightarrow>
     reads (zbind decodeVarInt f) (varint_bytes v @ cs) P"
  by (rule reads_bind [OF decodeVarInt_reads]) simp_all

lemma reads_number:
  assumes "unat t = k mod 2 ^ (n * 8)" and "reads (f t) [] P"
  shows "reads (zbind (decodePacketNumber n) f) (packet_number_bytes t n) P"
  using reads_bind [OF decodePacketNumber_reads [of t n], of f "[]" P] assms by simp

lemma reads_try_with: "r = Inr x \<Longrightarrow> reads (f x) bs P \<Longrightarrow> reads (ztry_with r f) bs P"
  by (simp add: ztry_with_def)

lemma cid_len_byte: "length cid \<le> 20 \<Longrightarrow> unat (word_of_nat (length cid) :: byte) = length cid"
    "length cid \<le> 20 \<Longrightarrow> \<not> (word_of_nat (length cid) :: byte) > 20"
  by (simp_all add: unsigned_of_nat take_bit_nat_eq_self word_less_nat_alt)

definition header_elems :: "byte slice long_header \<Rightarrow> byte list long_header" where
  "header_elems h = \<lparr>lh_version = lh_version h, lh_dcid = elems (lh_dcid h), lh_scid = elems (lh_scid h),
     lh_packet_type = lh_packet_type h, lh_token = elems (lh_token h), lh_packet_number = lh_packet_number h,
     lh_payload_length = lh_payload_length h\<rparr>"

definition short_elems :: "byte slice short_header \<Rightarrow> byte list short_header" where
  "short_elems h = \<lparr>sh_dcid = elems (sh_dcid h), sh_spin_bit = sh_spin_bit h, sh_key_phase = sh_key_phase h,
     sh_packet_number = sh_packet_number h\<rparr>"

lemma reads_token:
  assumes "lh_packet_type h = Type_initial \<Longrightarrow> len64 (lh_token h) \<le> max_quic_varint"
    and "lh_packet_type h = Type_initial \<Longrightarrow> length (lh_token h) < 2 ^ 62"
    and "lh_packet_type h \<noteq> Type_initial \<Longrightarrow> lh_token h = []"
  shows "reads (if lh_packet_type h = Type_initial then
      zbind decodeVarInt (\<lambda>(token_len, _). if unat token_len \<noteq> 0 then readOwnedBytes (unat token_len) else zret (Unowned []))
      else zret (Unowned [])) (token_bytes h) (\<lambda>x. elems x = lh_token h)"
proof (cases "lh_packet_type h = Type_initial")
  case True
  then have "unat (len64 (lh_token h)) = length (lh_token h)"
    using assms(2) by (simp add: len64_def unsigned_of_nat take_bit_nat_eq_self)
  with True assms(1) show ?thesis
    by (auto simp: token_bytes_def intro!: reads_bind [OF decodeVarInt_reads] reads_owned reads_ret)
next
  case False
  with assms(3) show ?thesis by (auto simp: token_bytes_def)
qed

lemma longHeader_parsed:
  assumes "longHeader_check h enc = Inr wire_length"
    and "received_number expected (ucast (pne_truncated enc)) (pne_len enc) = Inr pn"
  shows "reads (parseLongHeaderInternal expected) (long_header_bytes h enc wire_length)
    (\<lambda>x. header_elems x = h\<lparr>lh_packet_number := pn\<rparr>)"
proof -
  note c = longHeader_check_Inr [OF assms(1)] and m = encoding_matches [OF longHeader_check_Inr(6) [OF assms(1)]]
  note first = long_first_byte [OF m(1,2), of "longHeaderPacketTypeBits (lh_version h) (lh_packet_type h)",
      folded longHeader_first_byte_def]
  have n: "unat (word_of_nat (pne_len enc) :: u64) = pne_len enc"
    using m(2) by (simp add: unsigned_of_nat take_bit_nat_eq_self)
  have len: "\<not> wire_length < word_of_nat (pne_len enc)" "wire_length - word_of_nat (pne_len enc) = lh_payload_length h"
    using c(7) n by (simp_all add: word_less_nat_alt word_unat_eq_iff unat_sub word_le_nat_alt)
  show ?thesis
    unfolding parseLongHeaderInternal_def long_header_bytes_def cid_bytes_def append_Cons Let_def
    apply (intro reads_byte_then reads_check reads_no_eof_then)
           apply (simp_all only: first readInt_u32_bytes packet_type_bits_roundtrip c validate_cid_len ensure_simps
        not_False_eq_True length_u32_bytes cid_len_byte [OF c(1)])
    apply (intro reads_byte_then reads_check reads_cid)
       apply (simp_all only: cid_len_byte [OF c(2)] not_False_eq_True ensure_simps)
    apply (rule reads_bind [OF reads_token [OF c(10,9,5)]], assumption+)
    apply (intro reads_errdefer reads_varint_then [OF c(8)], unfold prod.case)
    apply (intro reads_check reads_number [OF m(3)] reads_try_with [OF assms(2)] reads_ret)
     apply (simp_all add: len header_elems_def)
    done
qed

lemma shortHeader_parsed:
  assumes "shortHeader_check h enc = Inr ()"
    and "received_number expected (ucast (pne_truncated enc)) (pne_len enc) = Inr pn"
  shows "reads (parseShortHeaderInternal (length (sh_dcid h)) expected) (short_header_bytes h enc)
    (\<lambda>x. short_elems x = h\<lparr>sh_packet_number := pn\<rparr>)"
proof -
  from assms(1) have c: "length (sh_dcid h) \<le> 20" "validatePacketNumberEncodingMatches (sh_packet_number h) enc = Inr ()"
    by (auto simp: shortHeader_check_def)
  note m = encoding_matches [OF c(2)]
  note first = short_first_byte [OF m(1,2), of "sh_spin_bit h" "sh_key_phase h", folded shortHeader_first_byte_def]
  show ?thesis
    unfolding parseShortHeaderInternal_def short_header_bytes_def Let_def
    apply (intro reads_byte_then reads_check)
        apply (simp_all only: first ensure_simps not_less c(1) not_False_eq_True)
    apply (intro reads_cid [OF refl] reads_number [OF m(3)] reads_try_with [OF assms(2)] reads_ret)
    apply (simp add: short_elems_def)
    done
qed

section \<open>Memory\<close>

lemma free_nonempty_wf: "slice_wf x \<Longrightarrow> free_nonempty x d = zig_free x d"
  by (cases x) simp_all

text \<open>The blocks of a packet, the latest first, and what well-formed means for it.\<close>

definition header_own :: "byte slice long_header \<Rightarrow> nat list" where
  "header_own h = owned_ids (lh_token h) @ owned_ids (lh_scid h) @ owned_ids (lh_dcid h)"

definition header_wf :: "byte slice long_header \<Rightarrow> bool" where
  "header_wf h \<longleftrightarrow> slice_wf (lh_token h) \<and> slice_wf (lh_scid h) \<and> slice_wf (lh_dcid h)"

lemma deinitLongHeader_frees:
  assumes "header_wf h" and "holds (own + mset (header_own h)) live d"
  shows "holds own live (deinitLongHeader h d)" "al_bad (deinitLongHeader h d) = al_bad d"
proof -
  have wf: "slice_wf (lh_token h)" "slice_wf (lh_scid h)" "slice_wf (lh_dcid h)" using assms(1) by (auto simp: header_wf_def)
  have "holds (own + mset (owned_ids (lh_token h)) + mset (owned_ids (lh_scid h)) + mset (owned_ids (lh_dcid h))) live d"
    using assms(2) by (simp add: header_own_def add.assoc)
  note 1 = holds_free [OF wf(3) this]
  note 2 = holds_free [OF wf(2) 1(1)]
  note 3 = holds_free [OF wf(1) 2(1)]
  show "holds own live (deinitLongHeader h d)" "al_bad (deinitLongHeader h d) = al_bad d"
    unfolding deinitLongHeader_def free_nonempty_wf [OF wf(1)] using 1 2 3 by simp_all
qed

text \<open>Rules for the combinators of the parsers.\<close>

lemma mem_safe_cid:
  assumes "\<And>c. mem_safe (g c) part" and "\<And>c. yields (g c) (\<lambda>y. own y = part y @ owned_ids c)"
  shows "mem_safe (with_cid n g) own"
  unfolding with_cid_def
proof (rule mem_safe_scope [OF allocates_alloc, where part = "\<lambda>_. part"])
  fix i
  show "mem_safe (zbind (readNoEof n) (\<lambda>bytes. g (as_slice i bytes))) part"
    by (intro mem_safe_bind mem_safe_basic assms(1))
  show "yields (zbind (readNoEof n) (\<lambda>bytes. g (as_slice i bytes)))
      (\<lambda>y. own y = part y @ (case i of None \<Rightarrow> [] | Some k \<Rightarrow> [k]))"
    by (rule yields_bind_any) (rule assms(2) [of "as_slice i _", unfolded owned_ids_as_slice])
qed

lemma yields_cid:
  assumes "\<And>c. slice_wf c \<Longrightarrow> length (elems c) = n \<Longrightarrow> yields (g c) P"
  shows "yields (with_cid n g) P"
  unfolding with_cid_def
  by (intro yields_bind [OF yields_alloc] yields_errdefer yields_bind [OF yields_no_eof] assms slice_wf_as_slice)
    (simp_all flip: length_0_conv)

lemma yields_try_with: "(\<And>x. r = Inr x \<Longrightarrow> yields (f x) P) \<Longrightarrow> yields (ztry_with r f) P"
  by (cases r) (simp_all add: ztry_with_def yields_basic)

lemma yields_prod: "(\<And>a b. yields (f a b) P) \<Longrightarrow> yields (case x of (a, b) \<Rightarrow> f a b) P"
  by (cases x) simp

lemma mem_safe_try_with: "(\<And>x. mem_safe (f x) own) \<Longrightarrow> mem_safe (ztry_with r f) own"
  by (cases r) (simp_all add: ztry_with_def mem_safe_basic)

lemma mem_safe_prod: "(\<And>a b. mem_safe (f a b) own) \<Longrightarrow> mem_safe (case x of (a, b) \<Rightarrow> f a b) own"
  by (cases x) simp

lemma decodePacketNumber_mem_safe: "mem_safe (decodePacketNumber n) (\<lambda>_. [])"
proof -
  have "mem_safe (decodePacketNumber_loop n v) (\<lambda>_. [])" for v
    by (induction n arbitrary: v) (simp_all add: mem_safe_basic mem_safe_bind)
  then show ?thesis by (simp add: decodePacketNumber_def)
qed

lemma yields_owned: "yields (readOwnedBytes n) slice_wf"
  using yields_bytes [of False n] by (simp add: readBytes_def yields_def)

lemma yields_owned_or_empty: "yields (owned_or_empty n) slice_wf"
  unfolding owned_or_empty_def by (intro yields_cond yields_owned yields_basic) simp

lemma allocates_owned_or_empty: "allocates (owned_or_empty n) owned_ids free_nonempty"
  by (rule allocates_nonempty [OF _ yields_owned_or_empty])
    (simp add: owned_or_empty_def allocates_owned allocates_empty)

lemma allocates_token:
  "allocates (if initial then
      zbind decodeVarInt (\<lambda>(token_len, _). if unat token_len \<noteq> 0 then readOwnedBytes (unat token_len) else zret (Unowned []))
      else zret (Unowned [])) owned_ids free_nonempty" (is ?A)
  and yields_token:
  "yields (if initial then
      zbind decodeVarInt (\<lambda>(token_len, _). if unat token_len \<noteq> 0 then readOwnedBytes (unat token_len) else zret (Unowned []))
      else zret (Unowned [])) slice_wf" (is ?Y)
proof -
  show y: ?Y
    by (intro yields_cond yields_bind_any yields_prod yields_owned yields_basic) simp_all
  show ?A
    by (rule allocates_nonempty [OF _ y])
      (auto intro!: allocates_bind decodeVarInt_mem_safe allocates_owned allocates_empty split: prod.splits)
qed

lemmas packet_mem_safe_rules = mem_safe_bind mem_safe_basic decodeVarInt_mem_safe mem_safe_prod decodePacketNumber_mem_safe
  mem_safe_try_with zget_keeps(2)

lemmas packet_yields_rules = yields_bind_any yields_errdefer yields_cid yields_try_with yields_prod yields_basic

lemma parseLongHeader_mem_safe: "mem_safe (parseLongHeaderInternal expected) header_own"
  unfolding parseLongHeaderInternal_def Let_def
  apply (intro mem_safe_bind mem_safe_basic)
  apply (rule mem_safe_cid [where part = "\<lambda>h. owned_ids (lh_token h) @ owned_ids (lh_scid h)"])
   apply (intro mem_safe_bind mem_safe_basic)
   apply (rule mem_safe_cid [where part = "\<lambda>h. owned_ids (lh_token h)"])
    apply (rule mem_safe_scope [OF allocates_token, where part = "\<lambda>_ _. []"])
     apply (intro packet_mem_safe_rules refl)
    apply (intro packet_yields_rules; simp)
   apply (intro packet_yields_rules; simp)
  apply (intro packet_yields_rules; simp add: header_own_def)
  done

lemma parseLongHeader_wf: "yields (parseLongHeaderInternal expected) header_wf"
  unfolding parseLongHeaderInternal_def Let_def
  by (intro yields_bind [OF yields_token] packet_yields_rules) (simp add: header_wf_def)

lemma parseLongHeader_allocates: "allocates (parseLongHeaderInternal expected) header_own deinitLongHeader"
proof -
  have "al_live (deinitLongHeader h d) = live \<and> al_bad (deinitLongHeader h d) = al_bad d"
    if "header_wf h" "al_live d = header_own h @ live" for h d live
    using deinitLongHeader_frees [OF that(1), of "{#}" live d] holds_own [OF that(2)] by (simp add: holds_none)
  then have "yields (parseLongHeaderInternal expected) (\<lambda>h. \<forall>d live. al_live d = header_own h @ live \<longrightarrow>
      al_live (deinitLongHeader h d) = live \<and> al_bad (deinitLongHeader h d) = al_bad d)"
    using parseLongHeader_wf [of expected] unfolding yields_def by blast
  with parseLongHeader_mem_safe show ?thesis by (simp add: allocates_def)
qed

lemma mem_safe_reader: "mem_safe p own \<Longrightarrow> mem_safe (with_reader data p) own"
proof -
  assume "mem_safe p own"
  from mem_safeD [OF this] show "mem_safe (with_reader data p) own"
    unfolding mem_safe_def with_reader_def by fastforce
qed

lemma yields_reader: "yields p P \<Longrightarrow> yields (with_reader data p) P"
  unfolding yields_def with_reader_def by blast

lemma balanced_long: "balanced (parseLongPacketInternal data expected) (\<lambda>x. deinitLongPacket (dl_packet x))"
proof (rule balancedI [where own = "\<lambda>x. owned_ids (lp_payload (dl_packet x)) @ header_own (lp_header (dl_packet x))"
      and Q = "\<lambda>x. slice_wf (lp_payload (dl_packet x)) \<and> header_wf (lp_header (dl_packet x))"])
  show "mem_safe (parseLongPacketInternal data expected)
      (\<lambda>x. owned_ids (lp_payload (dl_packet x)) @ header_own (lp_header (dl_packet x)))"
    unfolding parseLongPacketInternal_def Let_def
    apply (rule mem_safe_reader)
    apply (rule mem_safe_scope [OF parseLongHeader_allocates, where part = "\<lambda>_ x. owned_ids (lp_payload (dl_packet x))"])
     apply (rule mem_safe_bind, rule packet_mem_safe_rules, rule mem_safe_bind, rule packet_mem_safe_rules)
     apply (rule mem_safe_scope [OF allocates_owned_or_empty, where part = "\<lambda>_ _. []"])
      apply (intro packet_mem_safe_rules refl)
     apply (intro packet_yields_rules; simp)
    apply (intro packet_yields_rules; simp)
    done
  show "yields (parseLongPacketInternal data expected)
      (\<lambda>x. slice_wf (lp_payload (dl_packet x)) \<and> header_wf (lp_header (dl_packet x)))"
    unfolding parseLongPacketInternal_def Let_def
    by (intro yields_reader yields_bind [OF parseLongHeader_wf] yields_bind [OF yields_owned_or_empty] packet_yields_rules) simp
  show "holds {#} live (deinitLongPacket (dl_packet x) d) \<and> al_bad (deinitLongPacket (dl_packet x) d) = al_bad d"
    if wf: "slice_wf (lp_payload (dl_packet x)) \<and> header_wf (lp_header (dl_packet x))"
      and own: "holds (mset (owned_ids (lp_payload (dl_packet x)) @ header_own (lp_header (dl_packet x)))) live d" for x d live
    using deinitLongHeader_frees [OF conjunct2 [OF wf], of "mset (owned_ids (lp_payload (dl_packet x)))" live d] own
      holds_free [OF conjunct1 [OF wf], of "{#}" live "deinitLongHeader (lp_header (dl_packet x)) d"] free_nonempty_wf [OF conjunct1 [OF wf]]
    by (simp add: deinitLongPacket_def)
qed

lemma parseShortHeader_mem_safe: "mem_safe (parseShortHeaderInternal n expected) (\<lambda>h. owned_ids (sh_dcid h))"
  unfolding parseShortHeaderInternal_def Let_def
  apply (intro mem_safe_bind mem_safe_basic)
  apply (rule mem_safe_cid [where part = "\<lambda>_. []"])
   apply (intro packet_mem_safe_rules refl)
  apply (intro packet_yields_rules; simp)
  done

lemma parseShortHeader_wf: "yields (parseShortHeaderInternal n expected) (\<lambda>h. slice_wf (sh_dcid h))"
  unfolding parseShortHeaderInternal_def Let_def by (intro packet_yields_rules) simp

lemma parseShortHeader_allocates:
  "allocates (parseShortHeaderInternal n expected) (\<lambda>h. owned_ids (sh_dcid h)) deinitShortHeader"
  using parseShortHeader_mem_safe [of n expected] parseShortHeader_wf [of n expected] zig_free_own
  unfolding allocates_def yields_def deinitShortHeader_def by blast

lemma balanced_short: "balanced (parseShortPacketInternal data n expected) deinitShortPacket"
proof (rule balancedI [where own = "\<lambda>x. owned_ids (sp_payload x) @ owned_ids (sh_dcid (sp_header x))"
      and Q = "\<lambda>x. slice_wf (sp_payload x) \<and> slice_wf (sh_dcid (sp_header x))"])
  show "mem_safe (parseShortPacketInternal data n expected) (\<lambda>x. owned_ids (sp_payload x) @ owned_ids (sh_dcid (sp_header x)))"
    unfolding parseShortPacketInternal_def
    apply (rule mem_safe_reader)
    apply (rule mem_safe_scope [OF parseShortHeader_allocates, where part = "\<lambda>_ x. owned_ids (sp_payload x)"])
     apply (rule mem_safe_bind, rule packet_mem_safe_rules)
     apply (rule mem_safe_scope [OF allocates_owned_or_empty, where part = "\<lambda>_ _. []"])
      apply (intro packet_mem_safe_rules refl)
     apply (intro packet_yields_rules; simp)
    apply (intro packet_yields_rules; simp)
    done
  show "yields (parseShortPacketInternal data n expected) (\<lambda>x. slice_wf (sp_payload x) \<and> slice_wf (sh_dcid (sp_header x)))"
    unfolding parseShortPacketInternal_def
    by (intro yields_reader yields_bind [OF parseShortHeader_wf] yields_bind [OF yields_owned_or_empty] packet_yields_rules) simp
  show "holds {#} live (deinitShortPacket x d) \<and> al_bad (deinitShortPacket x d) = al_bad d"
    if wf: "slice_wf (sp_payload x) \<and> slice_wf (sh_dcid (sp_header x))"
      and own: "holds (mset (owned_ids (sp_payload x) @ owned_ids (sh_dcid (sp_header x)))) live d" for x d live
    using holds_free [OF conjunct2 [OF wf], of "mset (owned_ids (sp_payload x))" live d] own
      holds_free [OF conjunct1 [OF wf], of "{#}" live "deinitShortHeader (sp_header x) d"] free_nonempty_wf [OF conjunct1 [OF wf]]
    by (simp add: deinitShortPacket_def deinitShortHeader_def)
qed

text \<open>Version Negotiation and Retry packets have three blocks each.\<close>

lemma holds_free3:
  assumes "slice_wf a" and "slice_wf b" and "slice_wf c"
    and "holds (mset (owned_ids c @ owned_ids b @ owned_ids a)) live d"
  shows "holds {#} live (zig_free c (zig_free b (zig_free a d)))"
    "al_bad (zig_free c (zig_free b (zig_free a d))) = al_bad d"
proof -
  have "holds (mset (owned_ids c) + mset (owned_ids b) + mset (owned_ids a)) live d"
    using assms(4) by (simp add: add.assoc)
  note 1 = holds_free [OF assms(1) this]
  note 2 = holds_free [OF assms(2) 1(1)]
  note 3 = holds_free [OF assms(3), of "{#}", simplified, OF 2(1)]
  show "holds {#} live (zig_free c (zig_free b (zig_free a d)))"
      "al_bad (zig_free c (zig_free b (zig_free a d))) = al_bad d"
    using 1 2 3 by simp_all
qed

lemma read_versions_mem_safe: "mem_safe (read_versions n) (\<lambda>_. [])"
  by (induction n) (simp_all add: Let_def mem_safe_bind mem_safe_basic)

lemma yields_versions: "yields (read_versions n) (\<lambda>vs. length vs = n)"
proof (induction n)
  case (Suc n)
  then show ?case unfolding read_versions.simps Let_def by (intro yields_bind_any yields_bind [OF Suc] yields_basic) simp
qed (simp add: yields_basic)

lemma balanced_version_negotiation: "balanced (parseVersionNegotiationPacket data) deinitVersionNegotiationPacket"
proof (rule balancedI [where own = "\<lambda>x. owned_ids (vn_versions x) @ owned_ids (vn_scid x) @ owned_ids (vn_dcid x)"
      and Q = "\<lambda>x. slice_wf (vn_versions x) \<and> slice_wf (vn_scid x) \<and> slice_wf (vn_dcid x)"])
  show "mem_safe (parseVersionNegotiationPacket data)
      (\<lambda>x. owned_ids (vn_versions x) @ owned_ids (vn_scid x) @ owned_ids (vn_dcid x))"
    unfolding parseVersionNegotiationPacket_def
    apply (rule mem_safe_reader)
    apply (rule mem_safe_bind, rule packet_mem_safe_rules)+
    apply (rule mem_safe_scope [OF allocates_owned, where part = "\<lambda>_ x. owned_ids (vn_versions x) @ owned_ids (vn_scid x)"])
     apply (rule mem_safe_bind, rule packet_mem_safe_rules)+
     apply (rule mem_safe_scope [OF allocates_owned, where part = "\<lambda>_ x. owned_ids (vn_versions x)"])
      apply (rule mem_safe_bind, rule packet_mem_safe_rules)+
      apply (rule mem_safe_scope [OF allocates_alloc, where part = "\<lambda>_ _. []"])
       apply (intro packet_mem_safe_rules read_versions_mem_safe refl)
      apply (intro packet_yields_rules; simp add: owned_ids_as_slice)
     apply (intro packet_yields_rules; simp)
    apply (intro packet_yields_rules; simp)
    done
  show "yields (parseVersionNegotiationPacket data) (\<lambda>x. slice_wf (vn_versions x) \<and> slice_wf (vn_scid x) \<and> slice_wf (vn_dcid x))"
    unfolding parseVersionNegotiationPacket_def
    by (intro yields_reader yields_bind [OF yields_owned] yields_bind [OF yields_alloc] yields_bind [OF yields_versions] packet_yields_rules)
      (auto intro!: slice_wf_as_slice)
  show "holds {#} live (deinitVersionNegotiationPacket x d) \<and> al_bad (deinitVersionNegotiationPacket x d) = al_bad d"
    if "slice_wf (vn_versions x) \<and> slice_wf (vn_scid x) \<and> slice_wf (vn_dcid x)"
      "holds (mset (owned_ids (vn_versions x) @ owned_ids (vn_scid x) @ owned_ids (vn_dcid x))) live d" for x d live
    unfolding deinitVersionNegotiationPacket_def
    using holds_free3 [of "vn_dcid x" "vn_scid x" "vn_versions x" live d] that by blast
qed

lemma balanced_retry: "balanced (parseRetryPacket data) deinitRetryPacket"
proof (rule balancedI [where own = "\<lambda>x. owned_ids (rt_token x) @ owned_ids (rt_scid x) @ owned_ids (rt_dcid x)"
      and Q = "\<lambda>x. slice_wf (rt_token x) \<and> slice_wf (rt_scid x) \<and> slice_wf (rt_dcid x)"])
  show "mem_safe (parseRetryPacket data) (\<lambda>x. owned_ids (rt_token x) @ owned_ids (rt_scid x) @ owned_ids (rt_dcid x))"
    unfolding parseRetryPacket_def Let_def
    apply (rule mem_safe_reader)
    apply (rule mem_safe_bind, rule packet_mem_safe_rules)+
    apply (rule mem_safe_scope [OF allocates_owned, where part = "\<lambda>_ x. owned_ids (rt_token x) @ owned_ids (rt_scid x)"])
     apply (rule mem_safe_bind, rule packet_mem_safe_rules)+
     apply (rule mem_safe_scope [OF allocates_owned, where part = "\<lambda>_ x. owned_ids (rt_token x)"])
      apply (rule mem_safe_bind, rule packet_mem_safe_rules)+
      apply (rule mem_safe_scope [OF allocates_owned, where part = "\<lambda>_ _. []"])
       apply (intro packet_mem_safe_rules refl)
      apply (intro packet_yields_rules; simp)
     apply (intro packet_yields_rules; simp)
    apply (intro packet_yields_rules; simp)
    done
  show "yields (parseRetryPacket data) (\<lambda>x. slice_wf (rt_token x) \<and> slice_wf (rt_scid x) \<and> slice_wf (rt_dcid x))"
    unfolding parseRetryPacket_def Let_def
    by (intro yields_reader yields_bind [OF yields_owned] packet_yields_rules) simp
  show "holds {#} live (deinitRetryPacket x d) \<and> al_bad (deinitRetryPacket x d) = al_bad d"
    if "slice_wf (rt_token x) \<and> slice_wf (rt_scid x) \<and> slice_wf (rt_dcid x)"
      "holds (mset (owned_ids (rt_token x) @ owned_ids (rt_scid x) @ owned_ids (rt_dcid x))) live d" for x d live
    unfolding deinitRetryPacket_def
    using holds_free3 [of "rt_dcid x" "rt_scid x" "rt_token x" live d] that by blast
qed

text \<open>
  Property C23: no packet parser leaks or frees wrongly. Whatever the datagram, wherever parsing or an allocation
  fails, an error leaves exactly the blocks live that were live before; after a success the matching
  \<^verbatim>\<open>deinit\<close> function releases exactly what the parser had allocated, and nothing is ever freed that is not live.
\<close>

theorem packet_parsers_balanced:
  "balanced (parseLongPacketInternal data expected) (\<lambda>x. deinitLongPacket (dl_packet x)) \<and>
   balanced (parseShortPacketInternal data dcid_len expected) deinitShortPacket \<and>
   balanced (parseVersionNegotiationPacket data) deinitVersionNegotiationPacket \<and>
   balanced (parseRetryPacket data) deinitRetryPacket"
  by (intro conjI balanced_long balanced_short balanced_version_negotiation balanced_retry)

section \<open>One kind per datagram\<close>

lemma step_iffs:
  "zbind readByte f d = (Inr x, d') \<longleftrightarrow>
     fr_pos d < length (fr_data d) \<and> f (fr_data d ! fr_pos d) (d\<lparr>fr_pos := fr_pos d + 1\<rparr>) = (Inr x, d')"
  "zbind (zcheck r) g d = (Inr x, d') \<longleftrightarrow> r = Inr () \<and> g () d = (Inr x, d')"
  "zbind (readNoEof n) h d = (Inr x, d') \<longleftrightarrow>
     n \<le> length (fr_data d) - fr_pos d \<and>
     h (take n (drop (fr_pos d) (fr_data d))) (d\<lparr>fr_pos := fr_pos d + n\<rparr>) = (Inr x, d')"
  by (auto simp: zbind_def readByte_def zcheck_def readNoEof_def split: sum.splits)

datatype packet_kind = Kind_long | Kind_retry | Kind_version_negotiation | Kind_short

definition datagram_kind :: "byte list \<Rightarrow> packet_kind" where
  "datagram_kind data =
     (let version = readInt_u32 (take 4 (drop 1 data)) in
      if data ! 0 AND 0x80 = 0 then Kind_short
      else if version = 0 then Kind_version_negotiation
      else if longHeaderPacketTypeFromBits version (ucast (drop_bit 4 (data ! 0) AND 0x03)) = Type_retry then Kind_retry
      else Kind_long)"

definition accepts :: "('a, decoder) zig \<Rightarrow> decoder \<Rightarrow> bool" where
  "accepts p d = (case fst (p d) of Inl e \<Rightarrow> False | Inr x \<Rightarrow> True)"

lemma accepts_iff: "accepts p d \<longleftrightarrow> (\<exists>x d'. p d = (Inr x, d'))"
  unfolding accepts_def by (cases "p d"; cases "fst (p d)") auto

lemma zbind_Inr: "zbind p f d = (Inr y, d') \<Longrightarrow> \<exists>x d1. p d = (Inr x, d1)"
  by (auto simp: zbind_eq)

lemma accepted_long: "accepts (parseLongPacketInternal data expected) d \<Longrightarrow> datagram_kind data = Kind_long"
  unfolding accepts_iff parseLongPacketInternal_def with_reader_def
  by (elim exE, drule zbind_Inr)
    (auto simp: parseLongHeaderInternal_def Let_def step_iffs datagram_kind_def)

lemma accepted_short: "accepts (parseShortPacketInternal data n expected) d \<Longrightarrow> datagram_kind data = Kind_short"
  unfolding accepts_iff parseShortPacketInternal_def with_reader_def
  by (elim exE, drule zbind_Inr)
    (auto simp: parseShortHeaderInternal_def Let_def step_iffs datagram_kind_def)

lemma accepted_version_negotiation:
  "accepts (parseVersionNegotiationPacket data) d \<Longrightarrow> datagram_kind data = Kind_version_negotiation"
  unfolding accepts_iff parseVersionNegotiationPacket_def with_reader_def
  by (auto simp: step_iffs datagram_kind_def)

lemma accepted_retry: "accepts (parseRetryPacket data) d \<Longrightarrow> datagram_kind data = Kind_retry"
  unfolding accepts_iff parseRetryPacket_def with_reader_def
  by (auto simp: Let_def step_iffs datagram_kind_def)

text \<open>
  No datagram is taken for packets of two kinds. Whatever its bytes, whatever connection ID length and
  packet number are expected, and whatever the state of the allocator, at most one of the parsers for
  long-header, short-header, Version Negotiation and Retry packets accepts it.
\<close>

theorem packet_kinds_exclusive:
  "length (filter (\<lambda>accepted. accepted)
     [accepts (parseLongPacketInternal data long_expected) d,
      accepts (parseShortPacketInternal data dcid_len short_expected) d,
      accepts (parseVersionNegotiationPacket data) d,
      accepts (parseRetryPacket data) d]) \<le> 1"
  using accepted_long [of data long_expected d] accepted_short [of data dcid_len short_expected d]
    accepted_version_negotiation [of data d] accepted_retry [of data d]
  by auto

section \<open>Round trips\<close>

definition packet_elems :: "byte slice long_packet \<Rightarrow> byte list long_packet" where
  "packet_elems p = \<lparr>lp_header = header_elems (lp_header p), lp_payload = elems (lp_payload p)\<rparr>"

definition short_packet_elems :: "byte slice short_packet \<Rightarrow> byte list short_packet" where
  "short_packet_elems p = \<lparr>sp_header = short_elems (sp_header p), sp_payload = elems (sp_payload p)\<rparr>"

lemma reads_owned_or_empty: "n = length bs \<Longrightarrow> reads (owned_or_empty n) bs (\<lambda>x. elems x = bs)"
  by (auto simp: owned_or_empty_def reads_owned)

lemma reads_at_payload:
  assumes "n = length bs" and "\<And>x. elems x = bs \<Longrightarrow> reads_at (k + length bs) (f x) [] rest Q"
  shows "reads_at k (zbind (owned_or_empty n) f) bs rest Q"
proof -
  have "reads_at k (zbind (owned_or_empty n) f) (bs @ []) rest Q"
    by (rule reads_at_bind [OF reads_reads_at [OF reads_owned_or_empty [OF assms(1)]] assms(2)])
  then show ?thesis by simp
qed

lemma header_elems_payload:
  "header_elems x = h\<lparr>lh_packet_number := pn\<rparr> \<Longrightarrow> lh_payload_length x = lh_payload_length h"
  by (drule arg_cong [of _ _ lh_payload_length]) (simp add: header_elems_def)

lemma with_reader_reads_at:
  assumes "reads_at 0 p bs rest P" and "\<forall>i. \<not> al_fails d i"
  shows "\<exists>x d'. with_reader (bs @ rest) p d = (Inr x, d') \<and> P x"
  by (rule reads_atD [OF assms(1), of "d\<lparr>fr_data := bs @ rest, fr_pos := 0\<rparr>"])
    (auto simp: assms(2) with_reader_def fr_ok_def)

lemma longPacket_parsed:
  assumes "longHeader_check h enc = Inr wire_length" and "unat (lh_payload_length h) = length payload"
    and "received_number expected (ucast (pne_truncated enc)) (pne_len enc) = Inr pn" and "\<forall>i. \<not> al_fails d i"
  shows "\<exists>x d'. parseLongPacketInternal ((long_header_bytes h enc wire_length @ payload) @ rest) expected d = (Inr x, d') \<and>
    packet_elems (dl_packet x) = \<lparr>lp_header = h\<lparr>lh_packet_number := pn\<rparr>, lp_payload = payload\<rparr> \<and>
    dl_len x = length (long_header_bytes h enc wire_length @ payload)"
  unfolding parseLongPacketInternal_def Let_def
  apply (rule with_reader_reads_at [OF _ assms(4)])
  apply (rule reads_at_bind [OF reads_reads_at [OF longHeader_parsed [OF assms(1,3)]]])
  apply (intro reads_at_errdefer reads_at_remaining reads_at_check reads_at_payload reads_at_pos)
    apply (simp_all add: header_elems_payload assms(2))
  apply (auto intro!: reads_reads_at simp: packet_elems_def)
  done

lemma shortPacket_parsed:
  assumes "shortHeader_check h enc = Inr ()"
    and "received_number expected (ucast (pne_truncated enc)) (pne_len enc) = Inr pn" and "\<forall>i. \<not> al_fails d i"
  shows "\<exists>x d'. parseShortPacketInternal (short_header_bytes h enc @ payload) (length (sh_dcid h)) expected d = (Inr x, d') \<and>
    short_packet_elems x = \<lparr>sp_header = h\<lparr>sh_packet_number := pn\<rparr>, sp_payload = payload\<rparr>"
  unfolding parseShortPacketInternal_def
  apply (rule with_reader_reads_at [of _ _ "[]", unfolded append_Nil2, OF _ assms(3)])
  apply (rule reads_at_bind [OF reads_reads_at [OF shortHeader_parsed [OF assms(1,2)]]])
  apply (intro reads_at_errdefer reads_at_remaining reads_at_payload)
   apply (auto intro!: reads_reads_at simp: short_packet_elems_def)
  done

text \<open>A successful write of a whole packet wrote its bytes.\<close>

lemma written:
  assumes "writes m bs" and "m (fixedWriter buffer) = (Inr (), w)"
  shows "getWritten w = bs"
proof -
  have ok: "fw_ok (fixedWriter buffer)" by (simp add: fw_ok_def fixedWriter_def)
  with assms have room: "length bs \<le> fw_room (fixedWriter buffer)" and w: "w = fw_put bs (fixedWriter buffer)"
    unfolding writes_def by (metis (no_types, lifting) Inl_Inr_False prod.inject)+
  then show ?thesis using fw_put_props(3) [OF ok room] by (simp add: getWritten_def fixedWriter_def)
qed

lemma longPacket_written:
  assumes "encodeLongPacketWithPacketNumberEncoding packet enc (fixedWriter buffer) = (Inr (), w)"
  defines "h \<equiv> (lp_header packet)\<lparr>lh_payload_length := len64 (lp_payload packet)\<rparr>"
  obtains wire_length where "longHeader_check h enc = Inr wire_length"
    "unat (lh_payload_length h) = length (lp_payload packet)"
    "getWritten w = long_header_bytes h enc wire_length @ lp_payload packet"
proof -
  from assms(1) have len: "length (lp_payload packet) < 2 ^ 64"
      and run: "zseq [encodeLongHeaderWithPacketNumberEncoding h enc, writeAll (lp_payload packet)] (fixedWriter buffer) = (Inr (), w)"
    unfolding encodeLongPacketWithPacketNumberEncoding_def h_def
    by (auto simp: cast_length_def len64_def split: if_splits)
  from run obtain wire_length where c: "longHeader_check h enc = Inr wire_length"
    by (cases "longHeader_check h enc") (auto simp: zseq_def zbind_def longHeader_rejected)
  have "writes (zseq [encodeLongHeaderWithPacketNumberEncoding h enc, writeAll (lp_payload packet)])
      (long_header_bytes h enc wire_length @ lp_payload packet)"
    by (intro writes_zseq_rules longHeader_encoded [OF c] writes_all)
  with run c len that show ?thesis
    by (auto simp: h_def len64_def unsigned_of_nat take_bit_nat_eq_self dest: written)
qed

text \<open>
  Property C22: a long-header packet survives the wire. The packet is encoded with the packet number encoding that the
  sender chose from its acknowledgement state. If the number that the receiver expects is above
  the acknowledged one, at most \<open>2 ^ 62\<close> and less than half a window above the packet number, then, whatever follows the packet in the datagram, the receiver gets the same header and
  payload back, with the full packet number and the payload length filled in, and learns exactly where
  the next coalesced packet starts.
\<close>

theorem long_packet_roundtrip:
  assumes "encodePacketNumberForHeader (lh_packet_number (lp_header packet)) la = Inr enc"
    and "\<forall>l. la = Some l \<longrightarrow> l < expected"
    and "unat expected < unat (lh_packet_number (lp_header packet)) + 2 ^ (pne_len enc * 8) div 2"
    and "unat expected \<le> 2 ^ 62"
    and "encodeLongPacketWithPacketNumberEncoding packet enc (fixedWriter buffer) = (Inr (), w)"
    and "\<forall>i. \<not> al_fails d i"
  shows "\<exists>x d'. parseLongPacketWithExpectedPacketNumber (getWritten w @ rest) expected d = (Inr x, d') \<and>
     packet_elems (dl_packet x) =
       packet\<lparr>lp_header := (lp_header packet)\<lparr>lh_payload_length := len64 (lp_payload packet)\<rparr>\<rparr> \<and>
     dl_len x = length (getWritten w)"
proof -
  from longPacket_written [OF assms(5)] obtain wire_length where
      c: "longHeader_check ((lp_header packet)\<lparr>lh_payload_length := len64 (lp_payload packet)\<rparr>) enc = Inr wire_length"
        "unat (lh_payload_length ((lp_header packet)\<lparr>lh_payload_length := len64 (lp_payload packet)\<rparr>)) = length (lp_payload packet)"
      and w: "getWritten w = long_header_bytes ((lp_header packet)\<lparr>lh_payload_length := len64 (lp_payload packet)\<rparr>) enc wire_length
        @ lp_payload packet" .
  have "received_number (Some expected) (ucast (pne_truncated enc)) (pne_len enc) = Inr (lh_packet_number (lp_header packet))"
    using reconstruct_sent(1) [OF assms(1-4)] by (simp add: received_number_def)
  from longPacket_parsed [OF c this assms(6), of rest] show ?thesis
    unfolding w parseLongPacketWithExpectedPacketNumber_def by (cases packet) simp
qed

theorem long_packet_roundtrip_witness:
  "\<exists>x d'. parseLongPacketWithExpectedPacketNumber
       ([0xc0, 0, 0, 0, 1, 2, 0xaa, 0xbb, 1, 0x11, 1, 0xde, 3, 5, 0x01, 0x02] @ [0x40]) 4 no_alloc = (Inr x, d') \<and>
     packet_elems (dl_packet x) =
       \<lparr>lp_header = \<lparr>lh_version = version_v1, lh_dcid = [0xaa, 0xbb], lh_scid = [0x11], lh_packet_type = Type_initial,
          lh_token = [0xde], lh_packet_number = 5, lh_payload_length = 2\<rparr>,
        lp_payload = [0x01, 0x02]\<rparr> \<and>
     dl_len x = length [0xc0, 0, 0, 0, 1, 2, 0xaa, 0xbb, 1, 0x11, 1, 0xde, 3, 5, 0x01, 0x02 :: byte]"
proof -
  let ?packet = "\<lparr>lp_header = \<lparr>lh_version = version_v1, lh_dcid = [0xaa, 0xbb], lh_scid = [0x11], lh_packet_type = Type_initial,
      lh_token = [0xde], lh_packet_number = 5, lh_payload_length = 0\<rparr>, lp_payload = [0x01, 0x02]\<rparr> :: byte list long_packet"
  let ?w = "\<lparr>fw_buffer = [0xc0, 0, 0, 0, 1, 2, 0xaa, 0xbb, 1, 0x11, 1, 0xde, 3, 5, 0x01, 0x02], fw_pos = 16\<rparr>"
  have e: "encodePacketNumberForHeader 5 (Some 3) = Inr \<lparr>pne_len = 1, pne_truncated = 5\<rparr>"
    by (simp add: encodePacketNumberForHeader_def packetNumberEncodingLenForUnacked_def max_quic_varint_eq)
  have check: "longHeader_check ((lp_header ?packet)\<lparr>lh_payload_length := 2\<rparr>) \<lparr>pne_len = 1, pne_truncated = 5\<rparr> = Inr 3"
    by (simp add: longHeader_check_def cast_length_def validatePacketNumberEncodingMatches_def validatePacketNumberEncoding_def
        version_v1_def max_quic_varint_eq math_add_def ensure_def validateLongHeaderCidLen_def validateVersionedPacketVersion_def
        validateLengthVarInt_def)
  have run: "encodeLongPacketWithPacketNumberEncoding ?packet \<lparr>pne_len = 1, pne_truncated = 5\<rparr> =
      zseq [encodeLongHeaderWithPacketNumberEncoding ((lp_header ?packet)\<lparr>lh_payload_length := 2\<rparr>)
        \<lparr>pne_len = 1, pne_truncated = 5\<rparr>, writeAll [0x01, 0x02]]"
    by (rule ext) (simp add: encodeLongPacketWithPacketNumberEncoding_def cast_length_def)
  have "encodeLongPacketWithPacketNumberEncoding ?packet \<lparr>pne_len = 1, pne_truncated = 5\<rparr> (fixedWriter (replicate 16 0)) = (Inr (), ?w)"
    unfolding run encodeLongHeaderWithPacketNumberEncoding_def [abs_def] check sum.case by code_simp
  from long_packet_roundtrip [of ?packet "Some 3", OF _ _ _ _ this, of 4 no_alloc "[0x40]"] e show ?thesis
    by (simp add: getWritten_def len64_def)
qed

text \<open>
  A short-header packet survives the wire in the same way; it takes the rest of the datagram, and
  the spin and key phase bits come back as they were sent.
\<close>

theorem short_packet_roundtrip:
  assumes "encodePacketNumberForHeader (sh_packet_number (sp_header packet)) la = Inr enc"
    and "\<forall>l. la = Some l \<longrightarrow> l < expected"
    and "unat expected < unat (sh_packet_number (sp_header packet)) + 2 ^ (pne_len enc * 8) div 2"
    and "unat expected \<le> 2 ^ 62"
    and "encodeShortPacketWithPacketNumberEncoding packet enc (fixedWriter buffer) = (Inr (), w)"
    and "\<forall>i. \<not> al_fails d i"
  shows "\<exists>x d'. parseShortPacketWithExpectedPacketNumber (getWritten w) (length (sh_dcid (sp_header packet))) expected d
       = (Inr x, d') \<and> short_packet_elems x = packet"
proof -
  let ?h = "sp_header packet"
  from assms(5) have c: "shortHeader_check ?h enc = Inr ()"
    by (cases "shortHeader_check ?h enc")
      (auto simp: encodeShortPacketWithPacketNumberEncoding_def encodeShortHeaderWithPacketNumberEncoding_def zseq_def zbind_def
        zcheck_def)
  have "writes (encodeShortPacketWithPacketNumberEncoding packet enc) (short_header_bytes ?h enc @ sp_payload packet)"
    unfolding encodeShortPacketWithPacketNumberEncoding_def
    by (intro writes_zseq_rules shortHeader_encoded [OF c] writes_all)
  from written [OF this assms(5)] have w: "getWritten w = short_header_bytes ?h enc @ sp_payload packet" .
  have "received_number (Some expected) (ucast (pne_truncated enc)) (pne_len enc) = Inr (sh_packet_number ?h)"
    using reconstruct_sent(1) [OF assms(1-4)] by (simp add: received_number_def)
  from shortPacket_parsed [OF c this assms(6), of "sp_payload packet"] show ?thesis
    unfolding w parseShortPacketWithExpectedPacketNumber_def by (cases packet) simp
qed

theorem short_packet_roundtrip_witness:
  "\<exists>x d'. parseShortPacketWithExpectedPacketNumber [0x64, 0xaa, 0xbb, 5, 0x01, 0x02] (length [0xaa, 0xbb :: byte]) 4 no_alloc = (Inr x, d') \<and>
     short_packet_elems x =
       \<lparr>sp_header = \<lparr>sh_dcid = [0xaa, 0xbb], sh_spin_bit = True, sh_key_phase = True, sh_packet_number = 5\<rparr>,
        sp_payload = [0x01, 0x02]\<rparr>"
proof -
  let ?packet = "\<lparr>sp_header = \<lparr>sh_dcid = [0xaa, 0xbb], sh_spin_bit = True, sh_key_phase = True, sh_packet_number = 5\<rparr>,
      sp_payload = [0x01, 0x02]\<rparr> :: byte list short_packet"
  let ?w = "\<lparr>fw_buffer = [0x64, 0xaa, 0xbb, 5, 0x01, 0x02, 0], fw_pos = 6\<rparr>"
  have e: "encodePacketNumberForHeader 5 (Some 3) = Inr \<lparr>pne_len = 1, pne_truncated = 5\<rparr>"
    by (simp add: encodePacketNumberForHeader_def packetNumberEncodingLenForUnacked_def max_quic_varint_eq)
  have "encodeShortPacketWithPacketNumberEncoding ?packet \<lparr>pne_len = 1, pne_truncated = 5\<rparr> (fixedWriter (replicate 7 0)) = (Inr (), ?w)"
    by code_simp
  from short_packet_roundtrip [of ?packet "Some 3", OF _ _ _ _ this, of 4 no_alloc] e show ?thesis
    by (simp add: getWritten_def)
qed

text \<open>Version Negotiation and Retry packets, which fill the datagram.\<close>

lemma reads_at_byte_then: "reads_at (Suc k) (f b) bs rest P \<Longrightarrow> reads_at k (zbind readByte f) (b # bs) rest P"
proof -
  assume "reads_at (Suc k) (f b) bs rest P"
  then have "reads_at k (zbind readByte f) ([b] @ bs) rest P"
    by (intro reads_at_bind [OF reads_reads_at [OF reads_byte]]) simp
  then show ?thesis by simp
qed

lemma reads_at_no_eof_then:
  "length bs = n \<Longrightarrow> reads_at (k + n) (f bs) cs rest P \<Longrightarrow> reads_at k (zbind (readNoEof n) f) (bs @ cs) rest P"
  by (rule reads_at_bind [OF reads_reads_at [OF reads_no_eof]]) simp_all

lemma reads_at_owned_then:
  "n = length bs \<Longrightarrow> (\<And>x. elems x = bs \<Longrightarrow> reads_at (k + n) (errdefer (g x) (f x)) cs rest P) \<Longrightarrow>
     reads_at k (zbind (readOwnedBytes n) (\<lambda>x. errdefer (g x) (f x))) (bs @ cs) rest P"
  by (rule reads_at_bind [OF reads_reads_at [OF reads_owned]]) simp_all

definition version_negotiation_elems ::
    "(byte slice, version slice) version_negotiation_packet \<Rightarrow> (byte list, version list) version_negotiation_packet" where
  "version_negotiation_elems p =
     \<lparr>vn_dcid = elems (vn_dcid p), vn_scid = elems (vn_scid p), vn_versions = elems (vn_versions p)\<rparr>"

definition retry_elems :: "byte slice retry_packet \<Rightarrow> byte list retry_packet" where
  "retry_elems p = \<lparr>rt_version = rt_version p, rt_dcid = elems (rt_dcid p), rt_scid = elems (rt_scid p),
     rt_token = elems (rt_token p), rt_integrity_tag = rt_integrity_tag p\<rparr>"

lemma validate_versions_Inr: "validate_versions vs = Inr u \<longleftrightarrow> (\<forall>v \<in> set vs. v \<noteq> 0)"
  by (induction vs) simp_all

lemma reads_versions: "\<forall>v \<in> set vs. v \<noteq> 0 \<Longrightarrow> reads (read_versions (length vs)) (concat (map u32_bytes vs)) (\<lambda>x. x = vs)"
proof (induction vs)
  case (Cons v vs)
  have "reads (zbind (read_versions (length vs)) (\<lambda>versions. zret (v # versions))) (concat (map u32_bytes vs) @ []) (\<lambda>x. x = v # vs)"
    by (rule reads_bind [OF Cons.IH]) (use Cons.prems in auto)
  with Cons.prems show ?case
    unfolding read_versions.simps list.size(4) list.map concat.simps Let_def One_nat_def add_Suc_right add_0_right
    by (intro reads_no_eof_then reads_check) simp_all
qed auto

lemma length_versions: "length (concat (map u32_bytes vs)) = 4 * length vs"
  by (induction vs) simp_all

lemma version_negotiation_roundtrip:
  assumes "encodeVersionNegotiationPacket p (fixedWriter buffer) = (Inr (), w)" and "\<forall>i. \<not> al_fails d i"
  shows "\<exists>x d'. parseVersionNegotiationPacket (getWritten w) d = (Inr x, d') \<and> version_negotiation_elems x = p"
proof -
  from assms(1) have c: "versionNegotiation_check p = Inr ()"
    by (cases "versionNegotiation_check p") (auto simp: encodeVersionNegotiationPacket_def zbind_def zcheck_def)
  then have v: "length (vn_dcid p) \<le> 255" "length (vn_scid p) \<le> 255" "vn_versions p \<noteq> []" "\<forall>v \<in> set (vn_versions p). v \<noteq> 0"
    by (auto simp: versionNegotiation_check_def validate_versions_Inr)
  have cid: "unat (word_of_nat n :: byte) = n" if "n \<le> 255" for n
    using that by (simp add: unsigned_of_nat take_bit_nat_eq_self)
  show ?thesis
    unfolding written [OF versionNegotiation_encoded [OF c] assms(1)] version_negotiation_bytes_def parseVersionNegotiationPacket_def
      cid_bytes_def append_Cons
    apply (rule with_reader_reads_at [of _ _ "[]", unfolded append_Nil2, OF _ assms(2)])
    apply (intro reads_at_byte_then reads_at_check reads_at_no_eof_then)
        apply (simp_all add: v cid)
    apply (intro reads_at_owned_then [OF refl] reads_at_errdefer reads_at_byte_then)
    apply (simp add: v cid)
    apply (intro reads_at_owned_then [OF refl] reads_at_errdefer reads_at_remaining reads_at_check)
     apply (simp_all add: v length_versions)
    apply (intro reads_reads_at)
    apply (intro reads_alloc reads_errdefer)
    apply (rule reads_bind [OF reads_versions [OF v(4)], where cs = "[]", unfolded append_Nil2])
    apply (auto simp: version_negotiation_elems_def)
    done
qed

lemma retry_roundtrip:
  assumes "encodeRetryPacket p (fixedWriter buffer) = (Inr (), w)" and "length (rt_integrity_tag p) = 16"
    and "\<forall>i. \<not> al_fails d i"
  shows "\<exists>x d'. parseRetryPacket (getWritten w) d = (Inr x, d') \<and> retry_elems x = p"
proof -
  from assms(1) have c: "retry_check p = Inr ()"
    by (cases "retry_check p") (auto simp: encodeRetryPacket_def zbind_def zcheck_def)
  then have v: "length (rt_dcid p) \<le> 20" "length (rt_scid p) \<le> 20" "rt_version p \<noteq> 0" "rt_token p \<noteq> []"
    by (auto simp: retry_check_def)
  note first = long_first_byte [of 1 "longHeaderPacketTypeBits (rt_version p) Type_retry", simplified]
  show ?thesis
    unfolding written [OF retry_encoded [OF c] assms(1)] retry_bytes_def parseRetryPacket_def Let_def cid_bytes_def append_Cons
    apply (rule with_reader_reads_at [of _ _ "[]", unfolded append_Nil2, OF _ assms(3)])
    apply (intro reads_at_byte_then reads_at_check reads_at_no_eof_then)
          apply (simp_all add: first v cid_len_byte)
    apply (intro reads_at_owned_then [OF refl] reads_at_errdefer reads_at_byte_then reads_at_check)
     apply (simp_all add: v cid_len_byte)
    apply (intro reads_at_owned_then [OF refl] reads_at_errdefer reads_at_remaining reads_at_check)
     apply (simp_all add: v assms(2))
    apply (intro reads_at_owned_then [OF refl] reads_at_errdefer)
    apply (rule reads_at_no_eof_then [where cs = "[]", unfolded append_Nil2])
     apply (auto intro!: reads_reads_at simp: assms(2) retry_elems_def)
    done
qed

text \<open>
  The encoders without an explicit packet number encoding send the whole number, and the parsers without an
  expected number return what was sent.
\<close>

lemma packetNumberLen_Inr: "packetNumberLen pn = Inr n \<Longrightarrow> ucast (ucast pn :: 32 word) = pn"
  by (rule bit_word_eqI)
    (auto simp: packetNumberLen_def bit_simps word_le_nat_alt split: if_splits dest: bit_below [of pn 32, rotated])

lemma long_packet_plain_roundtrip:
  assumes "encodeLongPacket packet (fixedWriter buffer) = (Inr (), w)" and "\<forall>i. \<not> al_fails d i"
  shows "\<exists>x d'. parseLongPacket (getWritten w @ rest) d = (Inr x, d') \<and>
     packet_elems (dl_packet x) =
       packet\<lparr>lp_header := (lp_header packet)\<lparr>lh_payload_length := len64 (lp_payload packet)\<rparr>\<rparr> \<and>
     dl_len x = length (getWritten w)"
proof -
  let ?pn = "lh_packet_number (lp_header packet)" and ?h = "(lp_header packet)\<lparr>lh_payload_length := len64 (lp_payload packet)\<rparr>"
  obtain n where n: "packetNumberLen ?pn = Inr n"
      and run: "encodeLongPacketWithPacketNumberEncoding packet \<lparr>pne_len = n, pne_truncated = ucast ?pn\<rparr> (fixedWriter buffer) = (Inr (), w)"
    using assms(1)
    by (cases "packetNumberLen ?pn")
      (auto simp: encodeLongPacket_def encodeLongPacketWithPacketNumberEncoding_def encodeLongHeader_def zseq_def zbind_def
        split: sum.splits)
  let ?enc = "\<lparr>pne_len = n, pne_truncated = ucast ?pn\<rparr>"
  from longPacket_written [OF run] obtain wire_length where
      c: "longHeader_check ?h ?enc = Inr wire_length" "unat (lh_payload_length ?h) = length (lp_payload packet)"
      and w: "getWritten w = long_header_bytes ?h ?enc wire_length @ lp_payload packet" .
  have "received_number None (ucast (pne_truncated ?enc)) (pne_len ?enc) = Inr ?pn"
    using packetNumberLen_Inr [OF n] by (simp add: received_number_def)
  from longPacket_parsed [OF c this assms(2), of rest] show ?thesis
    unfolding w parseLongPacket_def by (cases packet) simp
qed

text \<open>
  A stateless reset that was generated for a token is recognised by that token and no other, and looks like a
  short-header packet.
\<close>

theorem stateless_reset_recognised:
  assumes "encodeStatelessReset unpredictable_prefix token (fixedWriter buffer) = (Inr (), w)" and "length token = 16"
  shows "matchesStatelessReset (getWritten w) expected \<longleftrightarrow> expected = token"
    "parseHeaderForm (getWritten w ! 0) = Form_short"
proof -
  let ?check = "ztry (ensure (\<not> length unpredictable_prefix < min_stateless_reset_datagram_len - stateless_reset_token_len)
      InvalidLength) (\<lambda>_. ensure (isStatelessResetPrefix unpredictable_prefix) InvalidHeaderForm)"
  from assms(1) have c: "?check = Inr ()"
    by (cases ?check) (auto simp: encodeStatelessReset_def zbind_def zcheck_def)
  have "writes (encodeStatelessReset unpredictable_prefix token) (unpredictable_prefix @ token)"
    unfolding encodeStatelessReset_def by (intro writes_check [OF c] writes_zseq_rules writes_all)
  from written [OF this assms(1)] have w: "getWritten w = unpredictable_prefix @ token" .
  from c have len: "5 \<le> length unpredictable_prefix" and b: "unpredictable_prefix ! 0 AND 0xc0 = 0x40"
    by (auto simp: min_stateless_reset_datagram_len_def stateless_reset_token_len_def isStatelessResetPrefix_def split: if_splits)
  show "matchesStatelessReset (getWritten w) expected \<longleftrightarrow> expected = token"
    using len assms(2) by (auto simp: w matchesStatelessReset_def statelessResetTokenCandidate_def
        min_stateless_reset_datagram_len_def stateless_reset_token_len_def)
  have "unpredictable_prefix ! 0 AND 0x80 = (unpredictable_prefix ! 0 AND 0xc0) AND 0x80"
    by (simp add: and.assoc)
  also have "\<dots> = 0" by (simp add: b)
  finally show "parseHeaderForm (getWritten w ! 0) = Form_short"
    using len by (cases unpredictable_prefix) (auto simp: w parseHeaderForm_def)
qed

end
