(* ===== verification/Wire_Len.thy ===== *)
theory Wire_Len
  imports Packet_Header_Proofs
begin

text \<open>
  Sizes on the wire (\<^verbatim>\<open>src/src/quic/wire_len.zig\<close>): how many bytes a frame or a protected datagram will take,
  how much data fits into a STREAM or CRYPTO frame, and how far a payload has to be padded. A \<^verbatim>\<open>usize\<close> is a
  \<open>nat\<close>, and the code's checked additions fail at \<open>2 ^ 64\<close>.
\<close>

section \<open>Checked additions\<close>

definition usize_add :: "zig_error \<Rightarrow> nat \<Rightarrow> nat \<Rightarrow> nat zig_result" where
  "usize_add overflow a b = (if a + b < 2 ^ 64 then Inr (a + b) else Inl overflow)"

definition addWireLen :: "nat \<Rightarrow> nat \<Rightarrow> nat zig_result" where
  "addWireLen current extra = usize_add Internal current extra"

definition addDatagramWireLen :: "nat \<Rightarrow> nat \<Rightarrow> nat zig_result" where
  "addDatagramWireLen current extra = usize_add BufferTooSmall current extra"

text \<open>\<^verbatim>\<open>std.math.cast(u64, len) orelse return e\<close>\<close>

definition cast_or :: "zig_error \<Rightarrow> nat \<Rightarrow> u64 zig_result" where
  "cast_or e n = (if n < 2 ^ 64 then Inr (word_of_nat n) else Inl e)"

definition max_connection_id_len :: nat where
  "max_connection_id_len = 20"

definition aead_tag_len :: nat where
  "aead_tag_len = 16"

definition quicVarIntWireLen :: "u64 \<Rightarrow> nat zig_result" where
  "quicVarIntWireLen value =
     (if value \<le> 63 then Inr 1
      else if value \<le> 16383 then Inr 2
      else if value \<le> 1073741823 then Inr 4
      else if value \<le> max_quic_varint then Inr 8
      else Inl InvalidPacket)"

definition quicFrameVarIntWireLen :: "u64 \<Rightarrow> nat zig_result" where
  "quicFrameVarIntWireLen value = (if value > max_quic_varint then Inl InvalidPacket else quicVarIntWireLen value)"

text \<open>\<^verbatim>\<open>len = try addWireLen(len, try quicVarIntWireLen(value))\<close>, with either of the two functions.\<close>

definition add_varint :: "nat \<Rightarrow> u64 \<Rightarrow> nat zig_result" where
  "add_varint len value = ztry (quicVarIntWireLen value) (addWireLen len)"

definition add_frame_varint :: "nat \<Rightarrow> u64 \<Rightarrow> nat zig_result" where
  "add_frame_varint len value = ztry (quicFrameVarIntWireLen value) (addWireLen len)"

section \<open>Frames\<close>

definition validateFrameDataRange :: "u64 \<Rightarrow> nat \<Rightarrow> unit zig_result" where
  "validateFrameDataRange offset data_len =
     ztry (ensure (\<not> offset > max_quic_varint) InvalidPacket) (\<lambda>_.
     ztry (cast_or InvalidPacket data_len) (\<lambda>data_len_u64.
     ztry (ensure (\<not> data_len_u64 > max_quic_varint) InvalidPacket) (\<lambda>_.
     case math_add offset data_len_u64 of
       None \<Rightarrow> Inl InvalidPacket
     | Some end_offset \<Rightarrow> ensure (\<not> end_offset > max_quic_varint) InvalidPacket)))"

definition streamFrameWireLen :: "u64 \<Rightarrow> u64 \<Rightarrow> nat \<Rightarrow> nat zig_result" where
  "streamFrameWireLen stream_id offset data_len =
     ztry (ensure (\<not> stream_id > max_quic_varint) InvalidPacket) (\<lambda>_.
     ztry (validateFrameDataRange offset data_len) (\<lambda>_.
     ztry (add_varint 1 stream_id) (\<lambda>len.
     ztry (if offset \<noteq> 0 then add_varint len offset else Inr len) (\<lambda>len.
     ztry (cast_or Internal data_len) (\<lambda>data_len_u64.
     ztry (add_varint len data_len_u64) (\<lambda>len.
     addWireLen len data_len))))))"

definition cryptoFrameWireLen :: "u64 \<Rightarrow> nat \<Rightarrow> nat zig_result" where
  "cryptoFrameWireLen offset data_len =
     ztry (validateFrameDataRange offset data_len) (\<lambda>_.
     ztry (add_varint 1 offset) (\<lambda>len.
     ztry (cast_or Internal data_len) (\<lambda>data_len_u64.
     ztry (add_varint len data_len_u64) (\<lambda>len.
     addWireLen len data_len))))"

definition datagramFrameWireLen :: "nat \<Rightarrow> nat zig_result" where
  "datagramFrameWireLen data_len =
     ztry (quicVarIntWireLen (word_of_nat data_len)) (\<lambda>len_field. Inr (1 + len_field + data_len))"

fun validateAckRangesWire :: "u64 \<Rightarrow> ack_range list \<Rightarrow> unit zig_result" where
  "validateAckRangesWire smallest [] = Inr ()"
| "validateAckRangesWire smallest (rng # ranges) =
     (case math_add (ack_gap rng) 2 of
        None \<Rightarrow> Inl InvalidPacket
      | Some skipped \<Rightarrow>
        if smallest < skipped then Inl InvalidPacket
        else let range_largest = smallest - skipped in
          if ack_len rng > range_largest then Inl InvalidPacket
          else validateAckRangesWire (range_largest - ack_len rng) ranges)"

definition validateAckFrameWireRange :: "ack_range list ack_frame \<Rightarrow> unit zig_result" where
  "validateAckFrameWireRange ack =
     (if first_ack_range ack > largest_acknowledged ack then Inl InvalidPacket
      else validateAckRangesWire (largest_acknowledged ack - first_ack_range ack) (ack_ranges ack))"

fun ackRangesWireLen :: "nat \<Rightarrow> ack_range list \<Rightarrow> nat zig_result" where
  "ackRangesWireLen len [] = Inr len"
| "ackRangesWireLen len (rng # ranges) =
     ztry (add_frame_varint len (ack_gap rng)) (\<lambda>len.
     ztry (add_frame_varint len (ack_len rng)) (\<lambda>len.
     ackRangesWireLen len ranges))"

definition ackFrameWireLen :: "ack_range list ack_frame \<Rightarrow> nat zig_result" where
  "ackFrameWireLen ack =
     ztry (validateAckFrameWireRange ack) (\<lambda>_.
     ztry (add_frame_varint 1 (largest_acknowledged ack)) (\<lambda>len.
     ztry (add_frame_varint len (ack_delay ack)) (\<lambda>len.
     ztry (cast_or InvalidPacket (length (ack_ranges ack))) (\<lambda>range_count.
     ztry (add_frame_varint len range_count) (\<lambda>len.
     ztry (add_frame_varint len (first_ack_range ack)) (\<lambda>len.
     ackRangesWireLen len (ack_ranges ack)))))))"

definition pathResponseFrameWireLen :: nat where
  "pathResponseFrameWireLen = 9"

definition pathChallengeFrameWireLen :: nat where
  "pathChallengeFrameWireLen = 9"

definition pingFrameWireLen :: nat where
  "pingFrameWireLen = 1"

definition resetStreamFrameWireLen :: "u64 \<Rightarrow> u64 \<Rightarrow> u64 \<Rightarrow> nat zig_result" where
  "resetStreamFrameWireLen stream_id application_error_code final_size =
     (if stream_id > max_quic_varint \<or> application_error_code > max_quic_varint \<or> final_size > max_quic_varint
      then Inl InvalidPacket
      else ztry (add_varint 1 stream_id) (\<lambda>len.
        ztry (add_varint len application_error_code) (\<lambda>len. add_varint len final_size)))"

definition stopSendingFrameWireLen :: "u64 \<Rightarrow> u64 \<Rightarrow> nat zig_result" where
  "stopSendingFrameWireLen stream_id application_error_code =
     (if stream_id > max_quic_varint \<or> application_error_code > max_quic_varint then Inl InvalidPacket
      else ztry (add_varint 1 stream_id) (\<lambda>len. add_varint len application_error_code))"

definition retireConnectionIdFrameWireLen :: "u64 \<Rightarrow> nat zig_result" where
  "retireConnectionIdFrameWireLen sequence_number = add_frame_varint 1 sequence_number"

record local_connection_id =
  lci_sequence_number :: u64
  lci_retire_prior_to :: u64
  lci_connection_id :: "byte list"
  lci_stateless_reset_token :: "byte list"
  lci_sent :: bool
  lci_retired :: bool

definition newConnectionIdFrameWireLen :: "local_connection_id \<Rightarrow> nat zig_result" where
  "newConnectionIdFrameWireLen local_id =
     (if length (lci_connection_id local_id) = 0 \<or> length (lci_connection_id local_id) > max_connection_id_len
      then Inl InvalidPacket
      else if lci_sequence_number local_id > max_quic_varint \<or> lci_retire_prior_to local_id > max_quic_varint
      then Inl InvalidPacket
      else if lci_retire_prior_to local_id > lci_sequence_number local_id then Inl InvalidPacket
      else ztry (add_frame_varint 1 (lci_sequence_number local_id)) (\<lambda>len.
        ztry (add_frame_varint len (lci_retire_prior_to local_id)) (\<lambda>len.
        ztry (addWireLen len 1) (\<lambda>len.
        ztry (addWireLen len (length (lci_connection_id local_id))) (\<lambda>len.
        addWireLen len (length (lci_stateless_reset_token local_id)))))))"

definition newTokenFrameWireLen :: "byte list \<Rightarrow> nat zig_result" where
  "newTokenFrameWireLen token =
     (if length token = 0 then Inl InvalidPacket
      else ztry (cast_or BufferTooSmall (length token)) (\<lambda>token_len.
        if token_len > max_quic_varint then Inl InvalidPacket
        else ztry (add_varint 1 token_len) (\<lambda>len. addWireLen len (length token))))"

definition handshakeDoneFrameWireLen :: nat where
  "handshakeDoneFrameWireLen = 1"

definition closeReasonLenWireLen :: "nat \<Rightarrow> nat zig_result" where
  "closeReasonLenWireLen reason_len =
     ztry (cast_or BufferTooSmall reason_len) (\<lambda>value.
       if value > max_quic_varint then Inl InvalidPacket else quicVarIntWireLen value)"

definition connectionCloseFrameWireLen :: "u64 \<Rightarrow> u64 \<Rightarrow> byte list \<Rightarrow> nat zig_result" where
  "connectionCloseFrameWireLen error_code frame_type reason_phrase =
     (if error_code > max_quic_varint \<or> frame_type > max_quic_varint then Inl InvalidPacket
      else ztry (add_varint 1 error_code) (\<lambda>len.
        ztry (add_varint len frame_type) (\<lambda>len.
        ztry (ztry (closeReasonLenWireLen (length reason_phrase)) (addWireLen len)) (\<lambda>len.
        addWireLen len (length reason_phrase)))))"

definition applicationCloseFrameWireLen :: "u64 \<Rightarrow> byte list \<Rightarrow> nat zig_result" where
  "applicationCloseFrameWireLen error_code reason_phrase =
     (if error_code > max_quic_varint then Inl InvalidPacket
      else ztry (add_varint 1 error_code) (\<lambda>len.
        ztry (ztry (closeReasonLenWireLen (length reason_phrase)) (addWireLen len)) (\<lambda>len.
        addWireLen len (length reason_phrase))))"

datatype pending_close_frame = Close_connection u64 u64 "byte list" | Close_application u64 "byte list"

fun closeFrameWireLen :: "pending_close_frame \<Rightarrow> nat zig_result" where
  "closeFrameWireLen (Close_connection error_code frame_type reason_phrase) =
     connectionCloseFrameWireLen error_code frame_type reason_phrase"
| "closeFrameWireLen (Close_application error_code reason_phrase) = applicationCloseFrameWireLen error_code reason_phrase"

definition validateStreamCountWireLen :: "u64 \<Rightarrow> unit zig_result" where
  "validateStreamCountWireLen maximum_streams = ensure (\<not> maximum_streams > max_stream_count) InvalidPacket"

datatype pending_blocked_frame =
    Blocked_data u64
  | Blocked_stream_data u64 u64
  | Blocked_streams_bidi u64
  | Blocked_streams_uni u64

fun blockedFrameWireLen :: "pending_blocked_frame \<Rightarrow> nat zig_result" where
  "blockedFrameWireLen (Blocked_data maximum_data) = add_frame_varint 1 maximum_data"
| "blockedFrameWireLen (Blocked_stream_data stream_id maximum_stream_data) =
     ztry (add_frame_varint 1 stream_id) (\<lambda>len. add_frame_varint len maximum_stream_data)"
| "blockedFrameWireLen (Blocked_streams_bidi maximum_streams) =
     ztry (validateStreamCountWireLen maximum_streams) (\<lambda>_. add_frame_varint 1 maximum_streams)"
| "blockedFrameWireLen (Blocked_streams_uni maximum_streams) =
     ztry (validateStreamCountWireLen maximum_streams) (\<lambda>_. add_frame_varint 1 maximum_streams)"

datatype pending_max_frame =
    Max_frame_data u64
  | Max_frame_stream_data u64 u64
  | Max_frame_streams_bidi u64
  | Max_frame_streams_uni u64

fun maxFrameWireLen :: "pending_max_frame \<Rightarrow> nat zig_result" where
  "maxFrameWireLen (Max_frame_data maximum_data) = add_frame_varint 1 maximum_data"
| "maxFrameWireLen (Max_frame_stream_data stream_id maximum_stream_data) =
     ztry (add_frame_varint 1 stream_id) (\<lambda>len. add_frame_varint len maximum_stream_data)"
| "maxFrameWireLen (Max_frame_streams_bidi maximum_streams) =
     ztry (validateStreamCountWireLen maximum_streams) (\<lambda>_. add_frame_varint 1 maximum_streams)"
| "maxFrameWireLen (Max_frame_streams_uni maximum_streams) =
     ztry (validateStreamCountWireLen maximum_streams) (\<lambda>_. add_frame_varint 1 maximum_streams)"

section \<open>How much data fits\<close>

text \<open>
  The two binary searches differ only in the size function, their argument \<open>wire\<close>. The loop returns the value of
  \<^verbatim>\<open>best\<close> when it ends.
\<close>

function search_loop :: "(nat \<Rightarrow> nat zig_result) \<Rightarrow> nat \<Rightarrow> nat \<Rightarrow> nat \<Rightarrow> nat \<Rightarrow> nat zig_result" where
  "search_loop wire max_datagram_size best low high =
     (if low \<le> high then
        let mid = low + (high - low) div 2 in
        ztry (wire mid) (\<lambda>encoded_len.
          if encoded_len \<le> max_datagram_size then
            (if mid = 2 ^ 64 - 1 then Inr mid
             else search_loop wire max_datagram_size mid (mid + 1) high)
          else if mid = 0 then Inr best
          else search_loop wire max_datagram_size best low (mid - 1))
      else Inr best)"
  by pat_completeness auto

termination
  by (relation "measure (\<lambda>(wire, size, best, low, high). Suc high - low)") auto

declare search_loop.simps [simp del]

definition max_data_len :: "(nat \<Rightarrow> nat zig_result) \<Rightarrow> u64 \<Rightarrow> nat \<Rightarrow> nat \<Rightarrow> nat zig_result" where
  "max_data_len wire offset remaining max_datagram_size =
     ztry (wire 0) (\<lambda>empty_len.
     if empty_len > max_datagram_size then Inl BufferTooSmall
     else if remaining = 0 then Inr 0
     else let end_offset_budget = unat (max_quic_varint - offset);
              high = min (min remaining max_datagram_size) end_offset_budget in
       ztry (search_loop wire max_datagram_size 0 1 high) (\<lambda>best.
         if best = 0 then Inl BufferTooSmall else Inr best))"

definition maxStreamFrameDataLen :: "u64 \<Rightarrow> u64 \<Rightarrow> nat \<Rightarrow> nat \<Rightarrow> nat zig_result" where
  "maxStreamFrameDataLen stream_id offset remaining max_datagram_size =
     max_data_len (streamFrameWireLen stream_id offset) offset remaining max_datagram_size"

definition maxCryptoFrameDataLen :: "u64 \<Rightarrow> nat \<Rightarrow> nat \<Rightarrow> nat zig_result" where
  "maxCryptoFrameDataLen offset remaining max_datagram_size =
     max_data_len (cryptoFrameWireLen offset) offset remaining max_datagram_size"

section \<open>Protected datagrams\<close>

definition protectedLongDatagramWireLen :: "byte list long_header \<Rightarrow> nat \<Rightarrow> nat \<Rightarrow> nat zig_result" where
  "protectedLongDatagramWireLen header packet_number_len plaintext_len =
     (if packet_number_len = 0 \<or> packet_number_len > 4 then Inl InvalidPacket
      else if length (lh_dcid header) > max_connection_id_len \<or> length (lh_scid header) > max_connection_id_len
      then Inl InvalidPacket
      else if lh_version header = 0 then Inl InvalidPacket
      else if lh_packet_type header = Type_retry then Inl InvalidPacket
      else if lh_packet_type header \<noteq> Type_initial \<and> length (lh_token header) \<noteq> 0 then Inl InvalidPacket
      else ztry (usize_add BufferTooSmall plaintext_len aead_tag_len) (\<lambda>protected_payload_len.
        ztry (cast_or BufferTooSmall protected_payload_len) (\<lambda>protected_payload_len_u64.
        ztry (case math_add protected_payload_len_u64 (word_of_nat packet_number_len) of
            None \<Rightarrow> Inl BufferTooSmall | Some wire_length \<Rightarrow> Inr wire_length) (\<lambda>wire_length.
        if wire_length > max_quic_varint then Inl BufferTooSmall
        else let header_len = 1 + 4 + 1 + length (lh_dcid header) + 1 + length (lh_scid header) in
          ztry (if lh_packet_type header = Type_initial then
              ztry (cast_or BufferTooSmall (length (lh_token header))) (\<lambda>token_len_u64.
              if token_len_u64 > max_quic_varint then Inl InvalidPacket
              else ztry (ztry (quicVarIntWireLen token_len_u64) (addDatagramWireLen header_len)) (\<lambda>header_len.
                addDatagramWireLen header_len (length (lh_token header))))
            else Inr header_len) (\<lambda>header_len.
          ztry (ztry (quicVarIntWireLen wire_length) (addDatagramWireLen header_len)) (\<lambda>header_len.
          ztry (addDatagramWireLen header_len packet_number_len) (\<lambda>header_len.
          addDatagramWireLen header_len protected_payload_len)))))))"

definition protectedShortDatagramWireLen :: "nat \<Rightarrow> nat \<Rightarrow> nat \<Rightarrow> nat zig_result" where
  "protectedShortDatagramWireLen dcid_len packet_number_len plaintext_len =
     (if packet_number_len = 0 \<or> packet_number_len > 4 then Inl InvalidPacket
      else if dcid_len > max_connection_id_len then Inl InvalidPacket
      else ztry (usize_add BufferTooSmall plaintext_len aead_tag_len) (\<lambda>protected_payload_len.
        ztry (addDatagramWireLen 1 dcid_len) (\<lambda>len.
        ztry (addDatagramWireLen len packet_number_len) (\<lambda>len.
        addDatagramWireLen len protected_payload_len))))"

text \<open>
  The padding loops, again with the size function as an argument. Nothing in the loop itself makes it end: not
  returning is the value \<open>None\<close>.
\<close>

partial_function (option) pad_loop :: "(nat \<Rightarrow> nat zig_result) \<Rightarrow> nat \<Rightarrow> nat \<Rightarrow> nat zig_result option" where
  "pad_loop wire min_datagram_len expanded_len =
     (case wire expanded_len of
        Inl e \<Rightarrow> Some (Inl e)
      | Inr current_len \<Rightarrow>
        if current_len < min_datagram_len then
          (case addDatagramWireLen expanded_len (min_datagram_len - current_len) of
             Inl e \<Rightarrow> Some (Inl e)
           | Inr expanded_len \<Rightarrow> pad_loop wire min_datagram_len expanded_len)
        else Some (Inr expanded_len))"

definition protectedLongPlaintextLenForMinDatagram ::
    "byte list long_header \<Rightarrow> nat \<Rightarrow> nat \<Rightarrow> nat \<Rightarrow> nat zig_result option" where
  "protectedLongPlaintextLenForMinDatagram header packet_number_len plaintext_len min_datagram_len =
     (if min_datagram_len = 0 then Some (Inr plaintext_len)
      else pad_loop (protectedLongDatagramWireLen header packet_number_len) min_datagram_len plaintext_len)"

definition protectedShortPlaintextLenForMinDatagram :: "nat \<Rightarrow> nat \<Rightarrow> nat \<Rightarrow> nat \<Rightarrow> nat zig_result option" where
  "protectedShortPlaintextLenForMinDatagram dcid_len packet_number_len plaintext_len min_datagram_len =
     (if min_datagram_len = 0 then Some (Inr plaintext_len)
      else pad_loop (protectedShortDatagramWireLen dcid_len packet_number_len) min_datagram_len plaintext_len)"

section \<open>Sizes are exact\<close>

text \<open>
  \<open>sized r P n\<close>: unless the size \<open>n\<close> is beyond the address space, the computation \<open>r\<close> gives \<open>n\<close> when \<open>P\<close>
  holds and \<^verbatim>\<open>InvalidPacket\<close> otherwise.
\<close>

definition sized :: "nat zig_result \<Rightarrow> bool \<Rightarrow> nat \<Rightarrow> bool" where
  "sized r P n \<longleftrightarrow> (n < 2 ^ 64 \<longrightarrow> r = (if P then Inr n else Inl InvalidPacket))"

lemma sized_cong: "sized r P n \<Longrightarrow> n = m \<Longrightarrow> (m < 2 ^ 64 \<Longrightarrow> P = Q) \<Longrightarrow> sized r Q m"
  by (auto simp: sized_def)

lemma sized_bind: "sized r P n \<Longrightarrow> sized (f n) Q m \<Longrightarrow> n \<le> m \<Longrightarrow> sized (ztry r f) (P \<and> Q) m"
  by (auto simp: sized_def)

lemma sized_check: "(\<And>e. r = Inl e \<Longrightarrow> e = InvalidPacket) \<Longrightarrow> sized (f ()) P n \<Longrightarrow> sized (ztry r f) (r = Inr () \<and> P) n"
  by (cases r) (auto simp: sized_def)

lemma sized_guard: "sized r P n \<Longrightarrow> sized (if bad then Inl InvalidPacket else r) (\<not> bad \<and> P) n"
  by (auto simp: sized_def)

lemma sized_if: "sized r P n \<Longrightarrow> sized q Q m \<Longrightarrow> sized (if c then r else q) (if c then P else Q) (if c then n else m)"
  by simp

lemma sized_value: "sized (Inr n) True n"
  by (simp add: sized_def)

lemma varint_len_bounds: "1 \<le> length (varint_bytes v)" "length (varint_bytes v) \<le> 8"
  by (simp_all add: length_varint_bytes)

lemma quicVarIntWireLen_eq:
  "quicVarIntWireLen v = (if v \<le> max_quic_varint then Inr (length (varint_bytes v)) else Inl InvalidPacket)"
  "quicFrameVarIntWireLen v = quicVarIntWireLen v"
  by (auto simp: quicVarIntWireLen_def quicFrameVarIntWireLen_def length_varint_bytes max_quic_varint_eq word_le_nat_alt not_less word_less_nat_alt)

lemma sized_add: "sized (addWireLen len n) True (len + n)"
  by (simp add: sized_def addWireLen_def usize_add_def)

lemma sized_varint:
  "sized (add_varint len v) (v \<le> max_quic_varint) (len + length (varint_bytes v))"
  "sized (add_frame_varint len v) (v \<le> max_quic_varint) (len + length (varint_bytes v))"
  by (simp_all add: sized_def add_varint_def add_frame_varint_def quicVarIntWireLen_eq addWireLen_def usize_add_def)

lemma sized_cast:
  "sized (f (word_of_nat n)) P m \<Longrightarrow> n \<le> m \<Longrightarrow> sized (ztry (cast_or e n) f) P m"
  by (auto simp: sized_def cast_or_def)

lemmas sized_rules = sized_check sized_bind sized_cast sized_guard sized_if sized_varint sized_add sized_value

lemma validateFrameDataRange_ok:
  "validateFrameDataRange off n = Inr u \<longleftrightarrow> unat off + n < 2 ^ 62"
  "validateFrameDataRange off n = Inl e \<Longrightarrow> e = InvalidPacket"
proof -
  have word: "unat (word_of_nat n :: u64) = n" if "n < 2 ^ 64" using that by (simp add: unsigned_of_nat take_bit_nat_eq_self)
  have "math_add off (word_of_nat n) = Some (off + word_of_nat n) \<and> unat (off + word_of_nat n) = unat off + n"
    if "unat off < 2 ^ 62" "n < 2 ^ 62"
    using math_add_fits [of off "word_of_nat n"] that word by simp
  then show "validateFrameDataRange off n = Inr u \<longleftrightarrow> unat off + n < 2 ^ 62" 
    "validateFrameDataRange off n = Inl e \<Longrightarrow> e = InvalidPacket"
    using word
    by (auto simp: validateFrameDataRange_def cast_or_def not_less varint_max ztry_def ensure_def split: option.splits if_splits)
qed

lemma validateStreamCountWireLen_ok:
  "validateStreamCountWireLen n = Inr () \<longleftrightarrow> validateStreamCount n = Inr ()"
  "validateStreamCountWireLen n = Inl e \<Longrightarrow> e = InvalidPacket"
  by (auto simp: validateStreamCountWireLen_def validateStreamCount_def)

lemma len64_ok: "word_of_nat (length xs) = len64 xs"
  by (simp add: len64_def)

lemma length_varint: "n < 2 ^ 64 \<Longrightarrow> word_of_nat n \<le> max_quic_varint \<longleftrightarrow> n < 2 ^ 62"
  by (simp add: varint_max unsigned_of_nat take_bit_nat_eq_self)

lemma sized_stream:
  "sized (streamFrameWireLen s off (length data)) (frame_check (Stream s off fin data) = Inr ())
     (length (frame_bytes (Stream s off fin data)))"
  unfolding streamFrameWireLen_def
  by (rule sized_cong, (rule sized_rules | erule validateFrameDataRange_ok | simp; fail)+)
    (auto simp: validateFrameDataRange_ok validate_defs data_bytes_def len64_def length_varint not_less dest: offset_varint [simplified])

lemma sized_crypto:
  "sized (cryptoFrameWireLen off (length data)) (frame_check (Crypto off data) = Inr ()) (length (frame_bytes (Crypto off data)))"
  unfolding cryptoFrameWireLen_def
  by (rule sized_cong, (rule sized_rules | erule validateFrameDataRange_ok | simp; fail)+)
    (auto simp: validateFrameDataRange_ok data_bytes_def len64_def length_varint dest: offset_varint [simplified])

lemma sized_reset:
  "sized (resetStreamFrameWireLen s e n) (frame_check (Reset_stream s e n) = Inr ()) (length (frame_bytes (Reset_stream s e n)))"
  unfolding resetStreamFrameWireLen_def
  by (rule sized_cong, (rule sized_rules | simp; fail)+) (auto simp: validate_defs)

lemma sized_stop:
  "sized (stopSendingFrameWireLen s e) (frame_check (Stop_sending s e) = Inr ()) (length (frame_bytes (Stop_sending s e)))"
  unfolding stopSendingFrameWireLen_def
  by (rule sized_cong, (rule sized_rules | simp; fail)+) (auto simp: validate_defs)

lemma sized_retire:
  "sized (retireConnectionIdFrameWireLen n) (frame_check (Retire_connection_id n) = Inr ()) (length (frame_bytes (Retire_connection_id n)))"
  unfolding retireConnectionIdFrameWireLen_def by (rule sized_cong, (rule sized_rules | simp; fail)+)

lemma sized_new_connection_id:
  assumes "length token = 16"
  shows "sized (newConnectionIdFrameWireLen \<lparr>lci_sequence_number = s, lci_retire_prior_to = r, lci_connection_id = cid,
      lci_stateless_reset_token = token, lci_sent = sent, lci_retired = retired\<rparr>)
    (frame_check (New_connection_id s r cid token) = Inr ()) (length (frame_bytes (New_connection_id s r cid token)))"
  unfolding newConnectionIdFrameWireLen_def
  by (rule sized_cong, (rule sized_rules | simp; fail)+)
    (auto simp: validate_defs max_connection_id_len_def assms not_less Suc_le_eq)

lemma sized_new_token:
  "sized (newTokenFrameWireLen token) (frame_check (New_token token) = Inr ()) (length (frame_bytes (New_token token)))"
  unfolding newTokenFrameWireLen_def
  by (rule sized_cong, (rule sized_rules | simp; fail)+)
    (auto simp: validate_defs data_bytes_def len64_def length_varint not_less)

lemma sized_reason:
  assumes "sized (f (len + length (varint_bytes (word_of_nat n)))) Q m" and "n \<le> m"
    and "len + length (varint_bytes (word_of_nat n)) \<le> m"
  shows "sized (ztry (ztry (closeReasonLenWireLen n) (addWireLen len)) f) (word_of_nat n \<le> max_quic_varint \<and> Q) m"
  using assms
  by (auto simp: sized_def closeReasonLenWireLen_def cast_or_def quicVarIntWireLen_eq not_less addWireLen_def usize_add_def)

lemma sized_connection_close:
  "sized (connectionCloseFrameWireLen e t reason) (frame_check (Connection_close e t reason) = Inr ())
    (length (frame_bytes (Connection_close e t reason)))"
  unfolding connectionCloseFrameWireLen_def
  by (rule sized_cong, (rule sized_reason sized_rules | simp; fail)+)
    (auto simp: validate_defs data_bytes_def len64_def length_varint not_less)

lemma sized_application_close:
  "sized (applicationCloseFrameWireLen e reason) (frame_check (Application_close e reason) = Inr ())
    (length (frame_bytes (Application_close e reason)))"
  unfolding applicationCloseFrameWireLen_def
  by (rule sized_cong, (rule sized_reason sized_rules | simp; fail)+)
    (auto simp: validate_defs data_bytes_def len64_def length_varint not_less)

lemma sized_blocked:
  "sized (blockedFrameWireLen (Blocked_data n)) (frame_check (Data_blocked n) = Inr ()) (length (frame_bytes (Data_blocked n)))"
  "sized (blockedFrameWireLen (Blocked_stream_data s n)) (frame_check (Stream_data_blocked s n) = Inr ())
     (length (frame_bytes (Stream_data_blocked s n)))"
  "sized (blockedFrameWireLen (Blocked_streams_bidi n)) (frame_check (Streams_blocked_bidi n) = Inr ())
     (length (frame_bytes (Streams_blocked_bidi n)))"
  "sized (blockedFrameWireLen (Blocked_streams_uni n)) (frame_check (Streams_blocked_uni n) = Inr ())
     (length (frame_bytes (Streams_blocked_uni n)))"
  unfolding blockedFrameWireLen.simps
  by (rule sized_cong, (rule sized_rules | erule validateStreamCountWireLen_ok | simp; fail)+;
      auto simp: validate_defs validateStreamCountWireLen_ok dest: validateStreamCount_varint)+

lemma sized_max:
  "sized (maxFrameWireLen (Max_frame_data n)) (frame_check (Max_data n) = Inr ()) (length (frame_bytes (Max_data n)))"
  "sized (maxFrameWireLen (Max_frame_stream_data s n)) (frame_check (Max_stream_data s n) = Inr ())
     (length (frame_bytes (Max_stream_data s n)))"
  "sized (maxFrameWireLen (Max_frame_streams_bidi n)) (frame_check (Max_streams_bidi n) = Inr ())
     (length (frame_bytes (Max_streams_bidi n)))"
  "sized (maxFrameWireLen (Max_frame_streams_uni n)) (frame_check (Max_streams_uni n) = Inr ())
     (length (frame_bytes (Max_streams_uni n)))"
  unfolding maxFrameWireLen.simps
  by (rule sized_cong, (rule sized_rules | erule validateStreamCountWireLen_ok | simp; fail)+;
      auto simp: validate_defs validateStreamCountWireLen_ok dest: validateStreamCount_varint)+

text \<open>ACK frames: the ranges one by one, and two validations that agree.\<close>

lemma sized_ack_ranges:
  "sized (ackRangesWireLen len ranges)
     (\<forall>rng \<in> set ranges. ack_gap rng \<le> max_quic_varint \<and> ack_len rng \<le> max_quic_varint)
     (len + length (concat (map ack_range_bytes ranges)))"
proof (induction ranges arbitrary: len)
  case (Cons rng ranges)
  show ?case
    unfolding ackRangesWireLen.simps
    by (rule sized_cong, (rule sized_rules Cons | simp; fail)+) (auto simp: ack_range_bytes_def)
qed (simp add: sized_value)

lemma validateAckRangesWire_ok:
  "validateAckRanges smallest ranges = Inr () \<longleftrightarrow> validateAckRangesWire smallest ranges = Inr () \<and>
     (\<forall>rng \<in> set ranges. ack_gap rng \<le> max_quic_varint \<and> ack_len rng \<le> max_quic_varint)"
  by (induction smallest ranges rule: validateAckRangesWire.induct)
    (auto simp: Let_def simp del: math_add_Some math_add_None split: if_splits option.splits)

lemma validateAckRangesWire_error: "validateAckRangesWire smallest ranges = Inl e \<Longrightarrow> e = InvalidPacket"
  by (induction smallest ranges rule: validateAckRangesWire.induct)
    (auto simp: Let_def simp del: math_add_Some math_add_None split: if_splits option.splits)

lemma validateAckFrame_wire:
  "validateAckFrame ack = Inr () \<longleftrightarrow> validateAckFrameWireRange ack = Inr () \<and>
     largest_acknowledged ack \<le> max_quic_varint \<and> ack_delay ack \<le> max_quic_varint \<and> first_ack_range ack \<le> max_quic_varint \<and>
     length (ack_ranges ack) < 2 ^ 62 \<and>
     (\<forall>rng \<in> set (ack_ranges ack). ack_gap rng \<le> max_quic_varint \<and> ack_len rng \<le> max_quic_varint)"
  using cast_u64_bound [of "length (ack_ranges ack)"]
  by (auto simp: validateAckFrame_def validateAckFrameWireRange_def validateAckRangesWire_ok varint_max)

lemma sized_ack: "sized (ackFrameWireLen ack) (frame_check (Ack ack) = Inr ()) (length (frame_bytes (Ack ack)))"
proof -
  have e: "validateAckFrameWireRange ack = Inl e \<Longrightarrow> e = InvalidPacket" for e
    by (auto simp: validateAckFrameWireRange_def dest: validateAckRangesWire_error split: if_splits)
  have n: "length (ack_ranges ack) \<le> length (concat (map ack_range_bytes (ack_ranges ack)))"
    using length_ack_ranges [of "ack_ranges ack"] by simp
  show ?thesis
    unfolding ackFrameWireLen_def
    by (rule sized_cong, (rule sized_ack_ranges sized_rules | erule e | simp; fail)+)
      (use n in \<open>auto simp: ack_bytes_def len64_def validateAckFrame_wire length_varint\<close>)
qed

text \<open>
  The size function for each kind of frame. The module has none for PADDING and for ACK frames with ECN
  counts.
\<close>

fun frame_wire_len :: "plain_frame \<Rightarrow> nat zig_result option" where
  "frame_wire_len (Padding n) = None"
| "frame_wire_len (Ack_ecn ack ecn) = None"
| "frame_wire_len Ping = Some (Inr pingFrameWireLen)"
| "frame_wire_len (Ack ack) = Some (ackFrameWireLen ack)"
| "frame_wire_len (Reset_stream s e n) = Some (resetStreamFrameWireLen s e n)"
| "frame_wire_len (Stop_sending s e) = Some (stopSendingFrameWireLen s e)"
| "frame_wire_len (New_token token) = Some (newTokenFrameWireLen token)"
| "frame_wire_len (Stream s off fin data) = Some (streamFrameWireLen s off (length data))"
| "frame_wire_len (Crypto off data) = Some (cryptoFrameWireLen off (length data))"
| "frame_wire_len (Max_data n) = Some (maxFrameWireLen (Max_frame_data n))"
| "frame_wire_len (Max_stream_data s n) = Some (maxFrameWireLen (Max_frame_stream_data s n))"
| "frame_wire_len (Max_streams_bidi n) = Some (maxFrameWireLen (Max_frame_streams_bidi n))"
| "frame_wire_len (Max_streams_uni n) = Some (maxFrameWireLen (Max_frame_streams_uni n))"
| "frame_wire_len (Data_blocked n) = Some (blockedFrameWireLen (Blocked_data n))"
| "frame_wire_len (Stream_data_blocked s n) = Some (blockedFrameWireLen (Blocked_stream_data s n))"
| "frame_wire_len (Streams_blocked_bidi n) = Some (blockedFrameWireLen (Blocked_streams_bidi n))"
| "frame_wire_len (Streams_blocked_uni n) = Some (blockedFrameWireLen (Blocked_streams_uni n))"
| "frame_wire_len (New_connection_id s r cid token) = Some (newConnectionIdFrameWireLen
     \<lparr>lci_sequence_number = s, lci_retire_prior_to = r, lci_connection_id = cid, lci_stateless_reset_token = token,
      lci_sent = False, lci_retired = False\<rparr>)"
| "frame_wire_len (Retire_connection_id n) = Some (retireConnectionIdFrameWireLen n)"
| "frame_wire_len (Path_challenge data) = Some (Inr pathChallengeFrameWireLen)"
| "frame_wire_len (Path_response data) = Some (Inr pathResponseFrameWireLen)"
| "frame_wire_len (Connection_close e t reason) = Some (closeFrameWireLen (Close_connection e t reason))"
| "frame_wire_len (Application_close e reason) = Some (closeFrameWireLen (Close_application e reason))"
| "frame_wire_len Handshake_done = Some (Inr handshakeDoneFrameWireLen)"
| "frame_wire_len (Datagram data) = Some (datagramFrameWireLen (length data))"

lemma sized_datagram: "length data < 2 ^ 62 \<Longrightarrow> sized (datagramFrameWireLen (length data)) True (length (frame_bytes (Datagram data)))"
  using length_varint [of "length data"]
  by (simp add: sized_def datagramFrameWireLen_def quicVarIntWireLen_eq data_bytes_def len64_def)

lemma sized_fixed:
  "sized (Inr pingFrameWireLen) (frame_check Ping = Inr ()) (length (frame_bytes Ping))"
  "sized (Inr handshakeDoneFrameWireLen) (frame_check Handshake_done = Inr ()) (length (frame_bytes Handshake_done))"
  "length d = 8 \<Longrightarrow> sized (Inr pathChallengeFrameWireLen) (frame_check (Path_challenge d) = Inr ()) (length (frame_bytes (Path_challenge d)))"
  "length d = 8 \<Longrightarrow> sized (Inr pathResponseFrameWireLen) (frame_check (Path_response d) = Inr ()) (length (frame_bytes (Path_response d)))"
  "length d < 2 ^ 62 \<Longrightarrow> sized (datagramFrameWireLen (length d)) (frame_check (Datagram d) = Inr ()) (length (frame_bytes (Datagram d)))"
  by (simp_all add: sized_def pingFrameWireLen_def handshakeDoneFrameWireLen_def pathChallengeFrameWireLen_def
      pathResponseFrameWireLen_def sized_datagram [unfolded sized_def, simplified])

lemma frame_wire_len_sized:
  "frame_wire_len f = Some r \<Longrightarrow> frame_shape f \<Longrightarrow> sized r (frame_check f = Inr ()) (length (frame_bytes f))"
  by (cases f)
    (auto intro: sized_stream sized_crypto sized_reset sized_stop sized_retire sized_new_connection_id sized_new_token
      sized_connection_close sized_application_close sized_blocked sized_max sized_ack sized_fixed sized_fixed(5) [simplified]
      simp del: frame_bytes.simps frame_check.simps blockedFrameWireLen.simps maxFrameWireLen.simps)

text \<open>
  Property C27: the size functions agree with the encoder. For every frame that the encoder accepts, the size
  computed beforehand is exactly the number of bytes that \<^verbatim>\<open>encodeFrame\<close> writes; for every frame that the encoder refuses,
  the size function fails with \<^verbatim>\<open>InvalidPacket\<close>.
\<close>

theorem frame_wire_len_exact:
  assumes "frame_wire_len f = Some r" and "frame_shape f" and "length (frame_bytes f) < 2 ^ 64"
    and "length (frame_bytes f) \<le> length buffer"
  shows "r = (case encodeFrame f (fixedWriter buffer) of
      (Inl e, w) \<Rightarrow> Inl InvalidPacket
    | (Inr _, w) \<Rightarrow> Inr (length (getWritten w)))"
proof (cases "frame_check f")
  case (Inl e)
  then show ?thesis
    using frame_wire_len_sized [OF assms(1,2)] assms(3) by (simp add: sized_def encodeFrame_invalid)
next
  case (Inr u)
  then have check: "frame_check f = Inr ()" by simp
  from encodeFrame_fits [OF check assms(2,4)] obtain w where w: "encodeFrame f (fixedWriter buffer) = (Inr (), w)" by blast
  with encodeFrame_done(2) [OF w assms(2)] check show ?thesis
    using frame_wire_len_sized [OF assms(1,2)] assms(3) by (simp add: sized_def)
qed

theorem frame_wire_len_exact_witness:
  "streamFrameWireLen 4 64 3 = (case encodeFrame (Stream 4 64 True [1, 2, 3]) (fixedWriter (replicate 20 0)) of
      (Inl e, w) \<Rightarrow> Inl InvalidPacket
    | (Inr _, w) \<Rightarrow> Inr (length (getWritten w)))"
proof -
  have "frame_wire_len (Stream 4 64 True [1, 2, 3]) = Some (streamFrameWireLen 4 64 3)" by (simp add: eval_nat_numeral)
  moreover have "length (frame_bytes (Stream 4 64 True [1, 2, 3])) = 8"
    by (simp add: data_bytes_def len64_def length_varint_bytes)
  ultimately show ?thesis
    using frame_wire_len_exact [of "Stream 4 64 True [1, 2, 3]" _ "replicate 20 0"] by simp
qed

section \<open>The largest frame that fits\<close>

definition frame_fits :: "(nat \<Rightarrow> nat zig_result) \<Rightarrow> nat \<Rightarrow> nat \<Rightarrow> bool" where
  "frame_fits wire room n = (case wire n of Inl e \<Rightarrow> False | Inr k \<Rightarrow> k \<le> room)"

definition best_fit :: "(nat \<Rightarrow> nat zig_result) \<Rightarrow> nat \<Rightarrow> nat \<Rightarrow> nat zig_result" where
  "best_fit wire remaining room =
     (case wire 0 of
        Inl e \<Rightarrow> Inl e
      | Inr k \<Rightarrow>
        if room < k then Inl BufferTooSmall
        else if remaining = 0 then Inr 0
        else let fitting = {n \<in> {1..remaining}. frame_fits wire room n} in
          if fitting = {} then Inl BufferTooSmall else Inr (Max fitting))"

text \<open>
  What the search relies on: the size grows with the data and is larger than it, and a frame with data up to
  the budget can be sized.
\<close>

locale sized_data =
  fixes wire :: "nat \<Rightarrow> nat zig_result" and budget :: nat
  assumes larger: "wire n = Inr k \<Longrightarrow> n < k"
    and grows: "wire m = Inr k \<Longrightarrow> n \<le> m \<Longrightarrow> \<exists>j \<le> k. wire n = Inr j"
    and within: "wire 0 = Inr j \<Longrightarrow> (\<exists>k. wire n = Inr k) \<longleftrightarrow> n \<le> budget"
    and budget: "wire 0 = Inr j \<Longrightarrow> budget < 2 ^ 64 - 1"
begin

lemma fits_iff: "frame_fits wire room n \<longleftrightarrow> (\<exists>k. wire n = Inr k \<and> k \<le> room)"
  by (auto simp: frame_fits_def split: sum.splits)

lemma fits_down: "frame_fits wire room m \<Longrightarrow> n \<le> m \<Longrightarrow> frame_fits wire room n"
  unfolding fits_iff using grows by (meson order_trans)

lemma search:
  assumes "wire 0 = Inr j"
  shows "high \<le> budget \<Longrightarrow> high \<le> limit \<Longrightarrow> best \<le> limit \<Longrightarrow> low = best + 1 \<Longrightarrow> best = 0 \<or> frame_fits wire room best \<Longrightarrow>
    \<forall>n. high < n \<longrightarrow> n \<le> limit \<longrightarrow> \<not> frame_fits wire room n \<Longrightarrow>
    \<exists>b. search_loop wire room best low high = Inr b \<and> b \<le> limit \<and> (b = 0 \<or> frame_fits wire room b) \<and>
      (\<forall>n. b < n \<longrightarrow> n \<le> limit \<longrightarrow> \<not> frame_fits wire room n)"
proof (induction "Suc high - low" arbitrary: best low high rule: less_induct)
  case less
  note step = search_loop.simps [of wire room best low high]
  show ?case
  proof (cases "low \<le> high")
    case False
    then have "search_loop wire room best low high = Inr best" by (simp add: step)
    with False less.prems show ?thesis by auto
  next
    case True
    define mid where "mid = low + (high - low) div 2"
    have mid: "low \<le> mid" "mid \<le> high" using True by (auto simp: mid_def)
    obtain k where k: "wire mid = Inr k" using within [OF assms, of mid] mid less.prems(1) by auto
    have mid': "mid \<noteq> 2 ^ 64 - 1" "mid \<noteq> 0" using budget [OF assms] mid less.prems(1,4) by auto
    show ?thesis
    proof (cases "k \<le> room")
      case fit: True
      then have "search_loop wire room best low high = search_loop wire room mid (mid + 1) high"
        using True k mid' by (simp add: step mid_def [symmetric])
      moreover have "frame_fits wire room mid" using k fit by (auto simp: fits_iff)
      ultimately show ?thesis using less.hyps [of high "mid + 1" mid] less.prems mid by auto
    next
      case unfit: False
      then have "search_loop wire room best low high = search_loop wire room best low (mid - 1)"
        using True k mid' by (simp add: step mid_def [symmetric])
      moreover have "\<not> frame_fits wire room mid" using k unfit by (auto simp: fits_iff)
      then have "\<forall>n. mid - 1 < n \<longrightarrow> n \<le> limit \<longrightarrow> \<not> frame_fits wire room n" using fits_down mid'(2) by auto
      ultimately show ?thesis using less.hyps [of "mid - 1" low best] less.prems mid mid' by auto
    qed
  qed
qed

lemma max_data_len_best:
  assumes "budget = unat (max_quic_varint - offset)"
  shows "max_data_len wire offset remaining room = best_fit wire remaining room"
proof (cases "wire 0")
  case (Inr j)
  define high where "high = min (min remaining room) budget"
  have in_reach: "n \<le> high \<longleftrightarrow> n \<le> remaining" if "frame_fits wire room n" for n
    using that larger within [OF Inr, of n] by (auto simp: fits_iff high_def) fastforce+
  have "high \<le> budget" by (simp add: high_def)
  moreover have "\<forall>n. high < n \<longrightarrow> n \<le> remaining \<longrightarrow> \<not> frame_fits wire room n" using in_reach by fastforce
  moreover have "high \<le> remaining" by (simp add: high_def)
  ultimately obtain b where b: "search_loop wire room 0 1 high = Inr b" "b \<le> remaining" "b = 0 \<or> frame_fits wire room b"
      "\<forall>n. b < n \<longrightarrow> n \<le> remaining \<longrightarrow> \<not> frame_fits wire room n"
    using search [OF Inr, of high remaining 0 1 room] by auto
  have "Max {n \<in> {1..remaining}. frame_fits wire room n} = b" if "b \<noteq> 0"
  proof (rule Max_eqI)
    show "n \<le> b" if "n \<in> {n \<in> {1..remaining}. frame_fits wire room n}" for n using that b(4) by (auto simp: not_less [symmetric])
    show "b \<in> {n \<in> {1..remaining}. frame_fits wire room n}" using that b by auto
  qed simp
  moreover have "{n \<in> {1..remaining}. frame_fits wire room n} = {} \<longleftrightarrow> b = 0"
    using b by (auto simp: Suc_le_eq)
  ultimately show ?thesis
    using b(1) Inr unfolding high_def assms by (simp add: max_data_len_def best_fit_def Let_def)
qed (simp add: max_data_len_def best_fit_def)

end

text \<open>Both size functions have these properties.\<close>

lemma stream_wire_len:
  "streamFrameWireLen s off n =
     (if s \<le> max_quic_varint \<and> unat off + n < 2 ^ 62
      then Inr (1 + length (varint_bytes s) + (if off \<noteq> 0 then length (varint_bytes off) else 0) +
        length (varint_bytes (word_of_nat n)) + n)
      else Inl InvalidPacket)"
proof (cases "s \<le> max_quic_varint \<and> unat off + n < 2 ^ 62")
  case True
  then show ?thesis
    using sized_stream [of s off "replicate n 0" False] varint_len_bounds(2) [of s] varint_len_bounds(2) [of off]
      varint_len_bounds(2) [of "word_of_nat n"]
    by (auto simp: sized_def validate_defs data_bytes_def len64_def)
next
  case False
  show ?thesis
  proof (cases "s \<le> max_quic_varint")
    case True
    then obtain e where "validateFrameDataRange off n = Inl e"
      using False validateFrameDataRange_ok(1) [of off n] by (cases "validateFrameDataRange off n") auto
    with validateFrameDataRange_ok(2) [OF this] True False show ?thesis by (simp add: streamFrameWireLen_def not_less)
  qed (simp add: streamFrameWireLen_def not_le)
qed

lemma crypto_wire_len:
  "cryptoFrameWireLen off n =
     (if unat off + n < 2 ^ 62
      then Inr (1 + length (varint_bytes off) + length (varint_bytes (word_of_nat n)) + n)
      else Inl InvalidPacket)"
proof (cases "unat off + n < 2 ^ 62")
  case True
  then show ?thesis
    using sized_crypto [of off "replicate n 0"] varint_len_bounds(2) [of off] varint_len_bounds(2) [of "word_of_nat n"]
    by (auto simp: sized_def data_bytes_def len64_def)
next
  case False
  then obtain e where "validateFrameDataRange off n = Inl e"
    using validateFrameDataRange_ok(1) [of off n] by (cases "validateFrameDataRange off n") auto
  with validateFrameDataRange_ok(2) [OF this] False show ?thesis by (simp add: cryptoFrameWireLen_def)
qed

lemma varint_len_mono: "n \<le> m \<Longrightarrow> m < 2 ^ 64 \<Longrightarrow> length (varint_bytes (word_of_nat n)) \<le> length (varint_bytes (word_of_nat m))"
  by (auto simp: length_varint_bytes word_le_nat_alt unsigned_of_nat take_bit_nat_eq_self)

lemma offset_budget: "unat off < 2 ^ 62 \<Longrightarrow> unat off + n < 2 ^ 62 \<longleftrightarrow> n \<le> unat (max_quic_varint - off)"
  by (auto simp: max_quic_varint_eq unat_sub word_le_nat_alt)

interpretation stream_size: sized_data "streamFrameWireLen s off" "unat (max_quic_varint - off)" for s off
proof
  show "n < k" if "streamFrameWireLen s off n = Inr k" for n k using that by (auto simp: stream_wire_len split: if_splits)
  show "\<exists>j \<le> k. streamFrameWireLen s off n = Inr j" if "streamFrameWireLen s off m = Inr k" "n \<le> m" for m k n
    using that varint_len_mono [of n m] by (auto simp: stream_wire_len split: if_splits)
  show "(\<exists>k. streamFrameWireLen s off n = Inr k) \<longleftrightarrow> n \<le> unat (max_quic_varint - off)" if "streamFrameWireLen s off 0 = Inr j" for j n
    using that offset_budget [of off n] by (auto simp: stream_wire_len split: if_splits)
  show "unat (max_quic_varint - off) < 2 ^ 64 - 1" if "streamFrameWireLen s off 0 = Inr j" for j
    using that by (auto simp: stream_wire_len max_quic_varint_eq unat_sub word_le_nat_alt split: if_splits)
qed

interpretation crypto_size: sized_data "cryptoFrameWireLen off" "unat (max_quic_varint - off)" for off
proof
  show "n < k" if "cryptoFrameWireLen off n = Inr k" for n k using that by (auto simp: crypto_wire_len split: if_splits)
  show "\<exists>j \<le> k. cryptoFrameWireLen off n = Inr j" if "cryptoFrameWireLen off m = Inr k" "n \<le> m" for m k n
    using that varint_len_mono [of n m] by (auto simp: crypto_wire_len split: if_splits)
  show "(\<exists>k. cryptoFrameWireLen off n = Inr k) \<longleftrightarrow> n \<le> unat (max_quic_varint - off)" if "cryptoFrameWireLen off 0 = Inr j" for j n
    using that offset_budget [of off n] by (auto simp: crypto_wire_len split: if_splits)
  show "unat (max_quic_varint - off) < 2 ^ 64 - 1" if "cryptoFrameWireLen off 0 = Inr j" for j
    using that by (auto simp: crypto_wire_len max_quic_varint_eq unat_sub word_le_nat_alt split: if_splits)
qed

text \<open>
  Property C28: the binary searches find the largest amount of data that fits. With data left to send, the result
  is the greatest number of bytes, at least one and at most what remains, for which the frame can be encoded and takes
  no more than the room there is; if there is none, or if not even an empty frame fits, it is \<^verbatim>\<open>BufferTooSmall\<close>; and
  an offset or stream ID that cannot be encoded is the error of the size function.
\<close>

theorem max_frame_data_optimal:
  "maxStreamFrameDataLen stream_id offset remaining room = best_fit (streamFrameWireLen stream_id offset) remaining room \<and>
   maxCryptoFrameDataLen offset remaining room = best_fit (cryptoFrameWireLen offset) remaining room"
  unfolding maxStreamFrameDataLen_def maxCryptoFrameDataLen_def
  by (intro conjI stream_size.max_data_len_best crypto_size.max_data_len_best refl)

section \<open>Padding to a minimum\<close>

text \<open>What the padding loops rely on: adding plaintext adds at least as much to the datagram, and little more.\<close>

locale padded_size =
  fixes wire :: "nat \<Rightarrow> nat zig_result"
  assumes pad_grows: "wire n = Inr k \<Longrightarrow> wire (n + g) = Inr k' \<Longrightarrow> k + g \<le> k' \<and> k' \<le> k + g + 7"
    and pad_larger: "wire n = Inr k \<Longrightarrow> n \<le> k"
    and pad_small: "wire n = Inr k \<Longrightarrow> m < 2 ^ 32 \<Longrightarrow> \<exists>k'. wire m = Inr k'"
begin

lemma pad_once:
  assumes "wire n = Inr k"
  shows "pad_loop wire least n =
    (if least \<le> k then Some (Inr n)
     else case addDatagramWireLen n (least - k) of
       Inl e \<Rightarrow> Some (Inl e)
     | Inr m \<Rightarrow> (case wire m of Inl e \<Rightarrow> Some (Inl e) | Inr k' \<Rightarrow> Some (Inr m)))"
proof (cases "least \<le> k")
  case False
  have "pad_loop wire least m = (case wire m of Inl e \<Rightarrow> Some (Inl e) | Inr k' \<Rightarrow> Some (Inr m))"
    if "addDatagramWireLen n (least - k) = Inr m" for m
  proof (cases "wire m")
    case (Inr k')
    have "m = n + (least - k)" using that by (auto simp: addDatagramWireLen_def usize_add_def split: if_splits)
    with pad_grows [OF assms, of "least - k" k'] Inr False have "\<not> k' < least" by simp
    with Inr show ?thesis by (subst pad_loop.simps) simp
  qed (subst pad_loop.simps, simp)
  with False assms show ?thesis by (subst pad_loop.simps) (simp split: sum.splits)
qed (subst pad_loop.simps, simp add: assms)

lemma pad_returns: "\<exists>r. pad_loop wire least n = Some r"
proof (cases "wire n")
  case (Inr k)
  then show ?thesis by (simp add: pad_once split: sum.splits)
qed (subst pad_loop.simps, simp)

lemma pad_reaches:
  assumes "wire n = Inr k" and "least \<le> 65535"
  shows "\<exists>m k'. pad_loop wire least n = Some (Inr m) \<and> n \<le> m \<and> wire m = Inr k' \<and> max k least \<le> k' \<and> k' \<le> max k least + 7"
proof (cases "least \<le> k")
  case False
  let ?m = "n + (least - k)"
  have "?m \<le> 65535" using pad_larger [OF assms(1)] assms(2) False by simp
  moreover from this obtain k' where k': "wire ?m = Inr k'" using pad_small [OF assms(1), of ?m] by auto
  ultimately have "pad_loop wire least n = Some (Inr ?m)"
    using False by (simp add: pad_once [OF assms(1)] addDatagramWireLen_def usize_add_def)
  with False k' pad_grows [OF assms(1) k'] show ?thesis by (intro exI [of _ ?m] exI [of _ k']) auto
qed (use assms pad_once in auto)

end

definition long_header_ok :: "byte list long_header \<Rightarrow> nat \<Rightarrow> bool" where
  "long_header_ok h pn_len \<longleftrightarrow> 1 \<le> pn_len \<and> pn_len \<le> 4 \<and> length (lh_dcid h) \<le> 20 \<and> length (lh_scid h) \<le> 20 \<and>
     lh_version h \<noteq> 0 \<and> lh_packet_type h \<noteq> Type_retry \<and>
     (if lh_packet_type h = Type_initial then length (lh_token h) < 2 ^ 62 else lh_token h = [])"

lemma wire_length_field:
  assumes "pn_len \<le> 4" and "n < 2 ^ 64"
  shows "ztry (case math_add (word_of_nat n) (word_of_nat pn_len) of None \<Rightarrow> Inl BufferTooSmall | Some w \<Rightarrow> Inr w)
      (\<lambda>w. if w > max_quic_varint then Inl BufferTooSmall else f w) =
    (if n + pn_len < 2 ^ 62 then f (word_of_nat (n + pn_len)) else Inl BufferTooSmall)"
proof -
  have u: "unat (word_of_nat n :: u64) = n" "unat (word_of_nat pn_len :: u64) = pn_len"
    using assms by (simp_all add: unsigned_of_nat take_bit_nat_eq_self)
  have "max_quic_varint < (word_of_nat (n + pn_len) :: u64) \<longleftrightarrow> \<not> n + pn_len < 2 ^ 62" if "n + pn_len < 2 ^ 64"
    using length_varint [OF that] by (simp add: not_le [symmetric])
  then show ?thesis
    using u by (simp add: math_add_def del: math_add_Some math_add_None flip: of_nat_add)
qed

lemma token_size:
  assumes "len \<le> 47" and "\<not> (t \<noteq> Type_initial \<and> length token \<noteq> 0)"
  shows "(if t = Type_initial then
        ztry (cast_or BufferTooSmall (length token)) (\<lambda>w.
        if w > max_quic_varint then Inl InvalidPacket
        else ztry (ztry (quicVarIntWireLen w) (addDatagramWireLen len)) (\<lambda>len. addDatagramWireLen len (length token)))
      else Inr len) = Inr m \<longleftrightarrow>
    (t = Type_initial \<longrightarrow> length token < 2 ^ 62) \<and>
    m = len + (if t = Type_initial then length (varint_bytes (len64 token)) + length token else 0)"
proof (cases "t = Type_initial \<and> length token < 2 ^ 64")
  case True
  then have "max_quic_varint < (word_of_nat (length token) :: u64) \<longleftrightarrow> \<not> length token < 2 ^ 62"
    using length_varint [of "length token"] by (simp add: not_le [symmetric])
  with True assms show ?thesis
    using varint_len_bounds(2) [of "len64 token"]
    by (auto simp: cast_or_def quicVarIntWireLen_eq addDatagramWireLen_def usize_add_def len64_def not_le [symmetric])
next
  case False
  then show ?thesis using assms by (auto simp: cast_or_def)
qed

definition long_header_guards :: "byte list long_header \<Rightarrow> nat \<Rightarrow> bool" where
  "long_header_guards h pn_len \<longleftrightarrow> 1 \<le> pn_len \<and> pn_len \<le> 4 \<and> length (lh_dcid h) \<le> 20 \<and> length (lh_scid h) \<le> 20 \<and>
     lh_version h \<noteq> 0 \<and> lh_packet_type h \<noteq> Type_retry \<and> \<not> (lh_packet_type h \<noteq> Type_initial \<and> length (lh_token h) \<noteq> 0)"

lemma long_wire_len_guarded:
  assumes "long_header_guards h pn_len"
  shows "protectedLongDatagramWireLen h pn_len n =
    (if n + 16 + pn_len < 2 ^ 62 then
       ztry (let len = 7 + length (lh_dcid h) + length (lh_scid h) in
         if lh_packet_type h = Type_initial then
           ztry (cast_or BufferTooSmall (length (lh_token h))) (\<lambda>w.
           if w > max_quic_varint then Inl InvalidPacket
           else ztry (ztry (quicVarIntWireLen w) (addDatagramWireLen len)) (\<lambda>len. addDatagramWireLen len (length (lh_token h))))
         else Inr len) (\<lambda>len.
       ztry (ztry (quicVarIntWireLen (word_of_nat (n + 16 + pn_len))) (addDatagramWireLen len)) (\<lambda>len.
       ztry (addDatagramWireLen len pn_len) (\<lambda>len. addDatagramWireLen len (n + 16))))
     else Inl BufferTooSmall)"
proof (cases "n + 16 < 2 ^ 64")
  case True
  have guards: "pn_len \<noteq> 0" "\<not> pn_len > 4" "pn_len \<le> 4" "\<not> length (lh_dcid h) > 20" "\<not> length (lh_scid h) > 20" "lh_version h \<noteq> 0"
      "lh_packet_type h \<noteq> Type_retry" "\<not> (lh_packet_type h \<noteq> Type_initial \<and> length (lh_token h) \<noteq> 0)"
    using assms by (auto simp: long_header_guards_def)
  have len: "1 + 4 + 1 + a + 1 + b = 7 + a + b" for a b :: nat by simp
  show ?thesis
    unfolding protectedLongDatagramWireLen_def max_connection_id_len_def aead_tag_len_def usize_add_def [of BufferTooSmall n] Let_def len
    by (simp only: guards True simp_thms if_True if_False ztry_simps cast_or_def [of BufferTooSmall "n + 16"]
        wire_length_field [OF guards(3) True])
next
  case False
  then show ?thesis
    using assms by (auto simp: protectedLongDatagramWireLen_def aead_tag_len_def usize_add_def max_connection_id_len_def long_header_guards_def)
qed

lemma long_wire_len:
  "protectedLongDatagramWireLen h pn_len n = Inr k \<longleftrightarrow>
     long_header_ok h pn_len \<and> n + 16 + pn_len < 2 ^ 62 \<and>
     k = 7 + length (lh_dcid h) + length (lh_scid h) + length (token_bytes h) +
       length (varint_bytes (word_of_nat (n + 16 + pn_len))) + pn_len + n + 16"
proof (cases "long_header_guards h pn_len")
  case True
  let ?len = "7 + length (lh_dcid h) + length (lh_scid h)"
  have len: "?len \<le> 47" and token: "\<not> (lh_packet_type h \<noteq> Type_initial \<and> length (lh_token h) \<noteq> 0)"
    using True by (auto simp: long_header_guards_def)
  have ok: "long_header_ok h pn_len \<longleftrightarrow> (lh_packet_type h = Type_initial \<longrightarrow> length (lh_token h) < 2 ^ 62)"
    using True by (auto simp: long_header_guards_def long_header_ok_def)
  have pn: "pn_len \<le> 4" using True by (simp add: long_header_guards_def)
  have bound: "length (token_bytes h) \<le> 8 + 2 ^ 62" if "long_header_ok h pn_len"
    using that varint_len_bounds(2) [of "len64 (lh_token h)"] by (auto simp: token_bytes_def ok)
  define T where "T = (if lh_packet_type h = Type_initial then
      ztry (cast_or BufferTooSmall (length (lh_token h))) (\<lambda>w.
      if w > max_quic_varint then Inl InvalidPacket
      else ztry (ztry (quicVarIntWireLen w) (addDatagramWireLen ?len)) (\<lambda>len. addDatagramWireLen len (length (lh_token h))))
    else Inr ?len)"
  have T: "T = Inr m \<longleftrightarrow> long_header_ok h pn_len \<and> m = ?len + length (token_bytes h)" for m
    unfolding T_def token_size [OF len token] ok by (simp add: token_bytes_def)
  note step = long_wire_len_guarded [OF True, of n, unfolded Let_def, folded T_def]
  show ?thesis
  proof (cases "long_header_ok h pn_len \<and> n + 16 + pn_len < 2 ^ 62")
    case True
    then have "T = Inr (?len + length (token_bytes h))" using T by simp
    with True show ?thesis
      unfolding step
      using bound pn len length_varint [of "n + 16 + pn_len"] varint_len_bounds(2) [of "word_of_nat (n + 16 + pn_len)"]
      by (auto simp: quicVarIntWireLen_eq addDatagramWireLen_def usize_add_def simp del: of_nat_add)
  next
    case False
    then show ?thesis unfolding step by (auto simp: T)
  qed
next
  case False
  then show ?thesis
    by (auto simp: protectedLongDatagramWireLen_def max_connection_id_len_def long_header_guards_def long_header_ok_def split: if_splits)
qed

lemma short_wire_len:
  "protectedShortDatagramWireLen dcid_len pn_len n = Inr k \<longleftrightarrow>
     1 \<le> pn_len \<and> pn_len \<le> 4 \<and> dcid_len \<le> 20 \<and> k < 2 ^ 64 \<and> k = 1 + dcid_len + pn_len + n + 16"
  by (auto simp: protectedShortDatagramWireLen_def max_connection_id_len_def aead_tag_len_def usize_add_def
      addDatagramWireLen_def split: if_splits)

interpretation long_size: padded_size "protectedLongDatagramWireLen h pn_len" for h pn_len
proof
  show "k + g \<le> k' \<and> k' \<le> k + g + 7" if "protectedLongDatagramWireLen h pn_len n = Inr k" "protectedLongDatagramWireLen h pn_len (n + g) = Inr k'"
    for n k g k'
    using that varint_len_mono [of "n + 16 + pn_len" "n + g + 16 + pn_len"] varint_len_bounds(1) [of "word_of_nat (n + 16 + pn_len)"]
      varint_len_bounds(2) [of "word_of_nat (n + g + 16 + pn_len)"]
    unfolding long_wire_len by auto
  show "n \<le> k" if "protectedLongDatagramWireLen h pn_len n = Inr k" for n k using that unfolding long_wire_len by auto
  show "\<exists>k'. protectedLongDatagramWireLen h pn_len m = Inr k'" if "protectedLongDatagramWireLen h pn_len n = Inr k" "m < 2 ^ 32" for n k m
    using that unfolding long_wire_len by (auto simp: long_header_ok_def)
qed

interpretation short_size: padded_size "protectedShortDatagramWireLen dcid_len pn_len" for dcid_len pn_len
  by unfold_locales (auto simp: short_wire_len)

text \<open>
  Property C29: padding reaches the minimum datagram size. For a payload that can be sent at all and any minimum
  up to the largest UDP datagram, both padding loops return and succeed, never shrink the payload, leave
  the datagram as it is when it is large enough, and the padded datagram is at least as large as the minimum; it
  exceeds the larger of minimum and original by at most 7 bytes for a long header, whose Length field may grow, and by
  none for a short header.
\<close>

theorem padding_reaches_minimum:
  assumes "0 < least" and "least \<le> 65535"
    and "protectedLongDatagramWireLen h pn_len n = Inr k" and "protectedShortDatagramWireLen dcid_len pn_len n = Inr s"
  shows "(\<exists>m k'. protectedLongPlaintextLenForMinDatagram h pn_len n least = Some (Inr m) \<and> n \<le> m \<and>
      protectedLongDatagramWireLen h pn_len m = Inr k' \<and> max k least \<le> k' \<and> k' \<le> max k least + 7) \<and>
    (\<exists>m. protectedShortPlaintextLenForMinDatagram dcid_len pn_len n least = Some (Inr m) \<and> n \<le> m \<and>
      protectedShortDatagramWireLen dcid_len pn_len m = Inr (max s least))"
proof -
  have nonzero: "least \<noteq> 0" using assms(1) by simp
  have "max s least = 1 + dcid_len + pn_len + m + 16"
    if "n \<le> m" "pad_loop (protectedShortDatagramWireLen dcid_len pn_len) least n = Some (Inr m)" for m
    using that short_size.pad_once [OF assms(4), of least] assms(4) nonzero
    by (auto simp: short_wire_len addDatagramWireLen_def usize_add_def split: if_splits sum.splits)
  with short_size.pad_reaches [OF assms(4,2)] long_size.pad_reaches [OF assms(3,2)] nonzero show ?thesis
    unfolding protectedLongPlaintextLenForMinDatagram_def protectedShortPlaintextLenForMinDatagram_def
    by (fastforce simp: short_wire_len)
qed

theorem padding_reaches_minimum_witness:
  "(\<exists>m k'. protectedLongPlaintextLenForMinDatagram
      \<lparr>lh_version = version_v1, lh_dcid = [1, 2], lh_scid = [3], lh_packet_type = Type_initial, lh_token = [],
       lh_packet_number = 0, lh_payload_length = 0\<rparr> 2 10 1200 = Some (Inr m) \<and> 10 \<le> m \<and>
     protectedLongDatagramWireLen
      \<lparr>lh_version = version_v1, lh_dcid = [1, 2], lh_scid = [3], lh_packet_type = Type_initial, lh_token = [],
       lh_packet_number = 0, lh_payload_length = 0\<rparr> 2 m = Inr k' \<and> 1200 \<le> k' \<and> k' \<le> 1207) \<and>
   (\<exists>m. protectedShortPlaintextLenForMinDatagram 8 2 10 1200 = Some (Inr m) \<and> 10 \<le> m \<and>
     protectedShortDatagramWireLen 8 2 m = Inr 1200)"
proof -
  let ?h = "\<lparr>lh_version = version_v1, lh_dcid = [1, 2], lh_scid = [3], lh_packet_type = Type_initial, lh_token = [],
       lh_packet_number = 0, lh_payload_length = 0\<rparr> :: byte list long_header"
  have "protectedLongDatagramWireLen ?h 2 10 = Inr 40"
    by (simp add: long_wire_len long_header_ok_def version_v1_def token_bytes_def len64_def length_varint_bytes)
  moreover have "protectedShortDatagramWireLen 8 2 10 = Inr 37" by (simp add: short_wire_len)
  ultimately show ?thesis using padding_reaches_minimum [of 1200 ?h 2 10 40 8 37] by simp
qed

text \<open>Whatever the arguments, the padding loops return.\<close>

lemma padding_returns:
  "\<exists>r. protectedLongPlaintextLenForMinDatagram h pn_len n least = Some r"
  "\<exists>r. protectedShortPlaintextLenForMinDatagram dcid_len pn_len n least = Some r"
  using long_size.pad_returns short_size.pad_returns
  by (auto simp: protectedLongPlaintextLenForMinDatagram_def protectedShortPlaintextLenForMinDatagram_def)

text \<open>
  The predicted size of a protected long-header datagram is the size of the encoded header, the plaintext and
  the authentication tag.
\<close>

theorem protected_long_exact:
  assumes "longHeader_check h enc = Inr wire_length" and "unat (lh_payload_length h) = plaintext_len + 16"
  shows "protectedLongDatagramWireLen h (pne_len enc) plaintext_len =
    Inr (length (long_header_bytes h enc wire_length) + plaintext_len + 16)"
proof -
  note c = longHeader_check_Inr [OF assms(1)]
  have n: "1 \<le> pne_len enc" "pne_len enc \<le> 4" using encoding_matches [OF c(6)] by simp_all
  have u: "plaintext_len + 16 + pne_len enc = unat wire_length" using c(7) assms(2) by simp
  have w: "wire_length = word_of_nat (plaintext_len + 16 + pne_len enc)" unfolding u by simp
  have "plaintext_len + 16 + pne_len enc < 2 ^ 62" using c(7,8) assms(2) by (simp add: varint_max)
  then show ?thesis
    using c n w by (auto simp: long_wire_len long_header_ok_def long_header_bytes_def cid_bytes_def)
qed

section \<open>Stream IDs and byte ranges\<close>

text \<open>\<^verbatim>\<open>src/src/quic/stream_id.zig\<close>\<close>

datatype connection_side = Side_client | Side_server

definition isBidirectional :: "u64 \<Rightarrow> bool" where
  "isBidirectional stream_id \<longleftrightarrow> stream_id AND 0x02 = 0"

definition isLocalInitiator :: "connection_side \<Rightarrow> u64 \<Rightarrow> bool" where
  "isLocalInitiator side stream_id \<longleftrightarrow> (if stream_id AND 0x01 = 0 then Side_client else Side_server) = side"

definition isLocalBidirectional :: "connection_side \<Rightarrow> u64 \<Rightarrow> bool" where
  "isLocalBidirectional side stream_id \<longleftrightarrow> isBidirectional stream_id \<and> isLocalInitiator side stream_id"

definition isLocalUnidirectional :: "connection_side \<Rightarrow> u64 \<Rightarrow> bool" where
  "isLocalUnidirectional side stream_id \<longleftrightarrow> \<not> isBidirectional stream_id \<and> isLocalInitiator side stream_id"

definition countForId :: "u64 \<Rightarrow> u64" where
  "countForId stream_id = stream_id div 4 + 1"

definition endOffset :: "u64 \<Rightarrow> nat \<Rightarrow> u64 option" where
  "endOffset offset data_len =
     (if \<not> data_len < 2 ^ 64 then None
      else case math_add offset (word_of_nat data_len) of
        None \<Rightarrow> None
      | Some end_offset \<Rightarrow> if end_offset > max_quic_varint then None else Some end_offset)"

definition rangesOverlap :: "u64 \<Rightarrow> nat \<Rightarrow> u64 \<Rightarrow> nat \<Rightarrow> bool" where
  "rangesOverlap a_offset a_len b_offset b_len =
     (case endOffset a_offset a_len of
        None \<Rightarrow> True
      | Some a_end \<Rightarrow> (case endOffset b_offset b_len of
          None \<Rightarrow> True
        | Some b_end \<Rightarrow> a_offset < b_end \<and> b_offset < a_end))"

lemma endOffset_eq: "endOffset off n = (if unat off + n < 2 ^ 62 then Some (off + word_of_nat n) else None)"
proof (cases "n < 2 ^ 64")
  case True
  then have u: "unat (word_of_nat n :: u64) = n" by (simp add: unsigned_of_nat take_bit_nat_eq_self)
  show ?thesis
  proof (cases "unat off + n < 2 ^ 64")
    case fits: True
    have "unat (off + word_of_nat n) = unat off + n" using math_add_fits(2) [of off "word_of_nat n"] u fits by simp
    then have "max_quic_varint < off + word_of_nat n \<longleftrightarrow> \<not> unat off + n < 2 ^ 62"
      by (simp add: not_le [symmetric] varint_max)
    with True u fits show ?thesis unfolding endOffset_def math_add_def by simp
  next
    case False
    then show ?thesis using True u by (simp add: endOffset_def math_add_def)
  qed
qed (simp add: endOffset_def)

lemma unat_end: "unat (off :: u64) + n < 2 ^ 62 \<Longrightarrow> unat (off + word_of_nat n) = unat off + n"
  using math_add_fits(2) [of off "word_of_nat n"] by (simp add: unsigned_of_nat take_bit_nat_eq_self)

text \<open>
  Two non-empty ranges within the limit overlap if and only if they share a byte, and a range beyond the limit counts as
  overlapping everything.
\<close>

theorem ranges_overlap_iff:
  assumes "0 < a_len" and "0 < b_len"
  shows "rangesOverlap a a_len b b_len \<longleftrightarrow>
    2 ^ 62 \<le> unat a + a_len \<or> 2 ^ 62 \<le> unat b + b_len \<or>
    {unat a ..< unat a + a_len} \<inter> {unat b ..< unat b + b_len} \<noteq> {}"
proof (cases "unat a + a_len < 2 ^ 62 \<and> unat b + b_len < 2 ^ 62")
  case True
  then have "rangesOverlap a a_len b b_len \<longleftrightarrow> unat a < unat b + b_len \<and> unat b < unat a + a_len"
    by (simp add: rangesOverlap_def endOffset_eq word_less_nat_alt unat_end)
  also have "\<dots> \<longleftrightarrow> {unat a ..< unat a + a_len} \<inter> {unat b ..< unat b + b_len} \<noteq> {}"
    using assms by (auto simp: ex_in_conv [symmetric] intro: exI [of _ "max (unat a) (unat b)"])
  finally show ?thesis using True by auto
next
  case False
  then show ?thesis by (auto simp: rangesOverlap_def endOffset_eq)
qed

end
