(* ===== verification/Transport_Parameters.thy ===== *)
theory Transport_Parameters
  imports Packet_Header_Proofs
begin

text \<open>
  Transport parameters (\<^verbatim>\<open>src/src/quic/transport_parameters.zig\<close>): the typed parameters, their encoding and the
  parser, with the buffers that parsed parameters own. As elsewhere, byte strings are plain lists for the
  encoder and slices with an owner for the parser. The growth policy of the parser's \<^verbatim>\<open>std.ArrayList\<close> of identifiers is the argument
  \<open>grow\<close>.
\<close>

section \<open>Parameters\<close>

datatype parameter_id =
    P_original_destination_connection_id | P_max_idle_timeout | P_stateless_reset_token | P_max_udp_payload_size
  | P_initial_max_data | P_initial_max_stream_data_bidi_local | P_initial_max_stream_data_bidi_remote
  | P_initial_max_stream_data_uni | P_initial_max_streams_bidi | P_initial_max_streams_uni | P_ack_delay_exponent
  | P_max_ack_delay | P_disable_active_migration | P_preferred_address | P_active_connection_id_limit
  | P_initial_source_connection_id | P_retry_source_connection_id | P_version_information

fun intFromParameterId :: "parameter_id \<Rightarrow> u64" where
  "intFromParameterId P_original_destination_connection_id = 0x00"
| "intFromParameterId P_max_idle_timeout = 0x01"
| "intFromParameterId P_stateless_reset_token = 0x02"
| "intFromParameterId P_max_udp_payload_size = 0x03"
| "intFromParameterId P_initial_max_data = 0x04"
| "intFromParameterId P_initial_max_stream_data_bidi_local = 0x05"
| "intFromParameterId P_initial_max_stream_data_bidi_remote = 0x06"
| "intFromParameterId P_initial_max_stream_data_uni = 0x07"
| "intFromParameterId P_initial_max_streams_bidi = 0x08"
| "intFromParameterId P_initial_max_streams_uni = 0x09"
| "intFromParameterId P_ack_delay_exponent = 0x0a"
| "intFromParameterId P_max_ack_delay = 0x0b"
| "intFromParameterId P_disable_active_migration = 0x0c"
| "intFromParameterId P_preferred_address = 0x0d"
| "intFromParameterId P_active_connection_id_limit = 0x0e"
| "intFromParameterId P_initial_source_connection_id = 0x0f"
| "intFromParameterId P_retry_source_connection_id = 0x10"
| "intFromParameterId P_version_information = 0x11"

text \<open>\<^verbatim>\<open>@enumFromInt\<close> of the non-exhaustive enum: \<open>None\<close> is a value without a name.\<close>

definition parameterIdFromInt :: "u64 \<Rightarrow> parameter_id option" where
  "parameterIdFromInt raw =
     (if raw = 0x00 then Some P_original_destination_connection_id
      else if raw = 0x01 then Some P_max_idle_timeout
      else if raw = 0x02 then Some P_stateless_reset_token
      else if raw = 0x03 then Some P_max_udp_payload_size
      else if raw = 0x04 then Some P_initial_max_data
      else if raw = 0x05 then Some P_initial_max_stream_data_bidi_local
      else if raw = 0x06 then Some P_initial_max_stream_data_bidi_remote
      else if raw = 0x07 then Some P_initial_max_stream_data_uni
      else if raw = 0x08 then Some P_initial_max_streams_bidi
      else if raw = 0x09 then Some P_initial_max_streams_uni
      else if raw = 0x0a then Some P_ack_delay_exponent
      else if raw = 0x0b then Some P_max_ack_delay
      else if raw = 0x0c then Some P_disable_active_migration
      else if raw = 0x0d then Some P_preferred_address
      else if raw = 0x0e then Some P_active_connection_id_limit
      else if raw = 0x0f then Some P_initial_source_connection_id
      else if raw = 0x10 then Some P_retry_source_connection_id
      else if raw = 0x11 then Some P_version_information
      else None)"

definition isReservedParameterId :: "u64 \<Rightarrow> bool" where
  "isReservedParameterId raw \<longleftrightarrow> raw mod 31 = 27"

record 'b preferred_address =
  pa_ipv4_address :: "byte list"
  pa_ipv4_port :: "16 word"
  pa_ipv6_address :: "byte list"
  pa_ipv6_port :: "16 word"
  pa_connection_id :: 'b
  pa_stateless_reset_token :: "byte list"

record 'v version_information =
  vi_chosen_version :: version
  vi_available_versions :: 'v

definition containsAvailableVersion :: "version list version_information \<Rightarrow> version \<Rightarrow> bool" where
  "containsAvailableVersion self version \<longleftrightarrow> (\<exists>available \<in> set (vi_available_versions self). available = version)"

record ('b, 'v) transport_parameters =
  tp_original_destination_connection_id :: "'b option"
  tp_max_idle_timeout :: u64
  tp_stateless_reset_token :: "byte list option"
  tp_max_udp_payload_size :: u64
  tp_initial_max_data :: u64
  tp_initial_max_stream_data_bidi_local :: u64
  tp_initial_max_stream_data_bidi_remote :: u64
  tp_initial_max_stream_data_uni :: u64
  tp_initial_max_streams_bidi :: u64
  tp_initial_max_streams_uni :: u64
  tp_ack_delay_exponent :: u64
  tp_max_ack_delay :: u64
  tp_disable_active_migration :: bool
  tp_preferred_address :: "'b preferred_address option"
  tp_active_connection_id_limit :: u64
  tp_initial_source_connection_id :: "'b option"
  tp_retry_source_connection_id :: "'b option"
  tp_version_information :: "'v version_information option"

type_synonym plain_parameters = "(byte list, version list) transport_parameters"
type_synonym held_parameters = "(byte slice, version slice) transport_parameters"

definition max_udp_payload_size_default :: u64 where
  "max_udp_payload_size_default = 65527"

definition max_idle_timeout_ms_cap :: u64 where
  "max_idle_timeout_ms_cap = push_bit 32 1"

definition default_parameters :: "('b, 'v) transport_parameters" where
  "default_parameters =
     \<lparr>tp_original_destination_connection_id = None, tp_max_idle_timeout = 0, tp_stateless_reset_token = None,
      tp_max_udp_payload_size = max_udp_payload_size_default, tp_initial_max_data = 0,
      tp_initial_max_stream_data_bidi_local = 0, tp_initial_max_stream_data_bidi_remote = 0,
      tp_initial_max_stream_data_uni = 0, tp_initial_max_streams_bidi = 0, tp_initial_max_streams_uni = 0,
      tp_ack_delay_exponent = 3, tp_max_ack_delay = 25, tp_disable_active_migration = False,
      tp_preferred_address = None, tp_active_connection_id_limit = 2, tp_initial_source_connection_id = None,
      tp_retry_source_connection_id = None, tp_version_information = None\<rparr>"

definition free_option :: "'e slice option \<Rightarrow> decoder \<Rightarrow> decoder" where
  "free_option s d = (case s of None \<Rightarrow> d | Some x \<Rightarrow> zig_free x d)"

text \<open>\<^verbatim>\<open>TransportParameters.deinit\<close>; the caller's variable also becomes \<open>default_parameters\<close>.\<close>

definition deinit_parameters :: "held_parameters \<Rightarrow> decoder \<Rightarrow> decoder" where
  "deinit_parameters self d =
     free_option (map_option vi_available_versions (tp_version_information self))
     (free_option (map_option pa_connection_id (tp_preferred_address self))
     (free_option (tp_retry_source_connection_id self)
     (free_option (tp_initial_source_connection_id self)
     (free_option (tp_original_destination_connection_id self) d))))"

section \<open>Validation\<close>

definition tp_validateConnectionIdLen :: "byte list \<Rightarrow> unit zig_result" where
  "tp_validateConnectionIdLen cid = ensure (\<not> length cid > 20) InvalidParameterValue"

definition validatePreferredAddressConnectionIdLen :: "byte list \<Rightarrow> unit zig_result" where
  "validatePreferredAddressConnectionIdLen cid = ensure (\<not> (length cid = 0 \<or> length cid > 20)) InvalidParameterValue"

definition validateIntegerParameter :: "parameter_id \<Rightarrow> u64 \<Rightarrow> unit zig_result" where
  "validateIntegerParameter p value =
     (if value > max_quic_varint then Inl InvalidParameterValue
      else case p of
        P_max_idle_timeout \<Rightarrow> ensure (\<not> value > max_idle_timeout_ms_cap) InvalidParameterValue
      | P_max_udp_payload_size \<Rightarrow> ensure (\<not> (value < 1200 \<or> value > max_udp_payload_size_default)) InvalidParameterValue
      | P_initial_max_streams_bidi \<Rightarrow> ensure (\<not> value > max_stream_count) InvalidParameterValue
      | P_initial_max_streams_uni \<Rightarrow> ensure (\<not> value > max_stream_count) InvalidParameterValue
      | P_ack_delay_exponent \<Rightarrow> ensure (\<not> value > 20) InvalidParameterValue
      | P_max_ack_delay \<Rightarrow> ensure (\<not> value \<ge> push_bit 14 1) InvalidParameterValue
      | P_active_connection_id_limit \<Rightarrow> ensure (\<not> value < 2) InvalidParameterValue
      | _ \<Rightarrow> Inr ())"

definition parseIntegerValue :: "parameter_id \<Rightarrow> byte list \<Rightarrow> u64 zig_result" where
  "parseIntegerValue p value =
     ztry (fst (decodeVarInt (fixedReader value))) (\<lambda>(parsed, len).
     ztry (ensure (len = length value) InvalidParameterLength) (\<lambda>_.
     ztry (validateIntegerParameter p parsed) (\<lambda>_. Inr parsed)))"

definition validateParameterIdVarInt :: "u64 \<Rightarrow> unit zig_result" where
  "validateParameterIdVarInt raw = ensure (\<not> raw > max_quic_varint) InvalidParameterValue"

definition validateParameterValueLen :: "byte list \<Rightarrow> u64 zig_result" where
  "validateParameterValueLen value =
     (if length value < 2 ^ 64 then
        let value_len = word_of_nat (length value) in
        if value_len > max_quic_varint then Inl InvalidParameterLength else Inr value_len
      else Inl InvalidParameterLength)"

definition validateVersion :: "version \<Rightarrow> unit zig_result" where
  "validateVersion version = ensure (version \<noteq> 0) InvalidParameterValue"

definition validateChosenVersion :: "version \<Rightarrow> unit zig_result" where
  "validateChosenVersion version =
     ztry (validateVersion version) (\<lambda>_. ensure (\<not> isReservedVersion version) InvalidParameterValue)"

definition versionInformationValueLen :: "nat \<Rightarrow> u64 zig_result" where
  "versionInformationValueLen available_count =
     (if 4 * available_count < 2 ^ 64 \<and> 4 + 4 * available_count < 2 ^ 64 then
        let value_len = word_of_nat (4 + 4 * available_count) in
        if value_len > max_quic_varint then Inl InvalidParameterLength else Inr value_len
      else Inl InvalidParameterLength)"

section \<open>Encoding\<close>

definition encodeBytesValue :: "parameter_id \<Rightarrow> byte list \<Rightarrow> (unit, fixed_writer) zig" where
  "encodeBytesValue p value =
     zbind (zcheck (validateParameterIdVarInt (intFromParameterId p))) (\<lambda>_.
     ztry_with (validateParameterValueLen value) (\<lambda>value_len.
     zseq [encodeVarInt (intFromParameterId p), encodeVarInt value_len, writeAll value]))"

definition encodeUncheckedIntegerValue :: "parameter_id \<Rightarrow> u64 \<Rightarrow> (unit, fixed_writer) zig" where
  "encodeUncheckedIntegerValue p value =
     zbind (zcheck (validateParameterIdVarInt (intFromParameterId p))) (\<lambda>_.
     zbind (zcheck (ensure (\<not> value > max_quic_varint) InvalidParameterValue)) (\<lambda>_.
     case encodeVarInt value (fixedWriter (replicate 8 0)) of
       (Inl e, _) \<Rightarrow> zfail e
     | (Inr _, value_writer) \<Rightarrow> encodeBytesValue p (getWritten value_writer)))"

definition encodeIntegerValue :: "parameter_id \<Rightarrow> u64 \<Rightarrow> (unit, fixed_writer) zig" where
  "encodeIntegerValue p value =
     zbind (zcheck (validateIntegerParameter p value)) (\<lambda>_. encodeUncheckedIntegerValue p value)"

definition encodeReservedParameter :: "u64 \<Rightarrow> byte list \<Rightarrow> (unit, fixed_writer) zig" where
  "encodeReservedParameter raw value =
     zbind (zcheck (validateParameterIdVarInt raw)) (\<lambda>_.
     ztry_with (validateParameterValueLen value) (\<lambda>value_len.
     zbind (zcheck (ensure (isReservedParameterId raw) InvalidParameterValue)) (\<lambda>_.
     zseq [encodeVarInt raw, encodeVarInt value_len, writeAll value])))"

definition encodeConnectionIdValue :: "parameter_id \<Rightarrow> byte list \<Rightarrow> (unit, fixed_writer) zig" where
  "encodeConnectionIdValue p cid = zbind (zcheck (tp_validateConnectionIdLen cid)) (\<lambda>_. encodeBytesValue p cid)"

definition encodeZeroLengthValue :: "parameter_id \<Rightarrow> (unit, fixed_writer) zig" where
  "encodeZeroLengthValue p = zseq [encodeVarInt (intFromParameterId p), encodeVarInt 0]"

definition encodeStatelessResetToken :: "byte list \<Rightarrow> (unit, fixed_writer) zig" where
  "encodeStatelessResetToken token = encodeBytesValue P_stateless_reset_token token"

definition u16_bytes :: "16 word \<Rightarrow> byte list" where
  "u16_bytes v = [ucast (drop_bit 8 v), ucast v]"

definition readInt_u16 :: "byte list \<Rightarrow> 16 word" where
  "readInt_u16 buf = push_bit 8 (ucast (buf ! 0)) OR ucast (buf ! 1)"

definition encodePreferredAddress :: "byte list preferred_address \<Rightarrow> (unit, fixed_writer) zig" where
  "encodePreferredAddress preferred =
     zbind (zcheck (validatePreferredAddressConnectionIdLen (pa_connection_id preferred))) (\<lambda>_.
     case zseq
         [writeAll (pa_ipv4_address preferred),
          writeAll (u16_bytes (pa_ipv4_port preferred)),
          writeAll (pa_ipv6_address preferred),
          writeAll (u16_bytes (pa_ipv6_port preferred)),
          writeByte (word_of_nat (length (pa_connection_id preferred))),
          writeAll (pa_connection_id preferred),
          writeAll (pa_stateless_reset_token preferred)] (fixedWriter (replicate 61 0)) of
       (Inl e, _) \<Rightarrow> zfail e
     | (Inr _, value_writer) \<Rightarrow> encodeBytesValue P_preferred_address (getWritten value_writer))"

fun validate_available :: "version list \<Rightarrow> unit zig_result" where
  "validate_available [] = Inr ()"
| "validate_available (available # versions) = ztry (validateVersion available) (\<lambda>_. validate_available versions)"

definition encodeVersionInformation :: "version list version_information \<Rightarrow> (unit, fixed_writer) zig" where
  "encodeVersionInformation version_information =
     zbind (zcheck (validateChosenVersion (vi_chosen_version version_information))) (\<lambda>_.
     ztry_with (versionInformationValueLen (length (vi_available_versions version_information))) (\<lambda>value_len.
     zbind (zcheck (validate_available (vi_available_versions version_information))) (\<lambda>_.
     zseq
       ([encodeVarInt (intFromParameterId P_version_information),
         encodeVarInt value_len,
         writeAll (u32_bytes (vi_chosen_version version_information))]
        @ map (\<lambda>available. writeAll (u32_bytes available)) (vi_available_versions version_information)))))"

abbreviation if_then :: "bool \<Rightarrow> (unit, 's) zig \<Rightarrow> (unit, 's) zig" where
  "if_then c m \<equiv> if c then m else zret ()"

definition if_some :: "'a option \<Rightarrow> ('a \<Rightarrow> (unit, 's) zig) \<Rightarrow> (unit, 's) zig" where
  "if_some x f = (case x of None \<Rightarrow> zret () | Some y \<Rightarrow> f y)"

definition encode_parameters :: "plain_parameters \<Rightarrow> (unit, fixed_writer) zig" where
  "encode_parameters params = zseq
     [if_some (tp_original_destination_connection_id params) (encodeConnectionIdValue P_original_destination_connection_id),
      if_then (tp_max_idle_timeout params \<noteq> 0) (encodeIntegerValue P_max_idle_timeout (tp_max_idle_timeout params)),
      if_some (tp_stateless_reset_token params) encodeStatelessResetToken,
      if_then (tp_max_udp_payload_size params \<noteq> max_udp_payload_size_default)
        (encodeIntegerValue P_max_udp_payload_size (tp_max_udp_payload_size params)),
      if_then (tp_initial_max_data params \<noteq> 0) (encodeIntegerValue P_initial_max_data (tp_initial_max_data params)),
      if_then (tp_initial_max_stream_data_bidi_local params \<noteq> 0)
        (encodeIntegerValue P_initial_max_stream_data_bidi_local (tp_initial_max_stream_data_bidi_local params)),
      if_then (tp_initial_max_stream_data_bidi_remote params \<noteq> 0)
        (encodeIntegerValue P_initial_max_stream_data_bidi_remote (tp_initial_max_stream_data_bidi_remote params)),
      if_then (tp_initial_max_stream_data_uni params \<noteq> 0)
        (encodeIntegerValue P_initial_max_stream_data_uni (tp_initial_max_stream_data_uni params)),
      if_then (tp_initial_max_streams_bidi params \<noteq> 0)
        (encodeIntegerValue P_initial_max_streams_bidi (tp_initial_max_streams_bidi params)),
      if_then (tp_initial_max_streams_uni params \<noteq> 0)
        (encodeIntegerValue P_initial_max_streams_uni (tp_initial_max_streams_uni params)),
      if_then (tp_ack_delay_exponent params \<noteq> 3) (encodeIntegerValue P_ack_delay_exponent (tp_ack_delay_exponent params)),
      if_then (tp_max_ack_delay params \<noteq> 25) (encodeIntegerValue P_max_ack_delay (tp_max_ack_delay params)),
      if_then (tp_disable_active_migration params) (encodeZeroLengthValue P_disable_active_migration),
      if_some (tp_preferred_address params) encodePreferredAddress,
      if_then (tp_active_connection_id_limit params \<noteq> 2)
        (encodeIntegerValue P_active_connection_id_limit (tp_active_connection_id_limit params)),
      if_some (tp_initial_source_connection_id params) (encodeConnectionIdValue P_initial_source_connection_id),
      if_some (tp_retry_source_connection_id params) (encodeConnectionIdValue P_retry_source_connection_id),
      if_some (tp_version_information params) encodeVersionInformation]"

section \<open>Parsing\<close>

definition cloneBytes :: "byte list \<Rightarrow> (byte slice, decoder) zig" where
  "cloneBytes data = zbind (zig_alloc (length data)) (\<lambda>owned. zret (as_slice owned data))"

text \<open>A reader of its own over \<open>data\<close>, next to the caller's; the allocator is shared.\<close>

definition inner_reader :: "byte list \<Rightarrow> ('a, decoder) zig \<Rightarrow> ('a, decoder) zig" where
  "inner_reader data p d =
     (case p (d\<lparr>fr_data := data, fr_pos := 0\<rparr>) of (r, d') \<Rightarrow> (r, d'\<lparr>fr_data := fr_data d, fr_pos := fr_pos d\<rparr>))"

definition parsePreferredAddress :: "byte list \<Rightarrow> (byte slice preferred_address, decoder) zig" where
  "parsePreferredAddress value =
     zbind (zcheck (ensure (\<not> length value < 41) InvalidParameterLength)) (\<lambda>_.
     inner_reader value (
     zbind (readNoEof 4) (\<lambda>ipv4_address.
     zbind (readNoEof 2) (\<lambda>ipv4_port.
     zbind (readNoEof 16) (\<lambda>ipv6_address.
     zbind (readNoEof 2) (\<lambda>ipv6_port.
     zbind readByte (\<lambda>cid_len.
     zbind (zcheck (ensure (\<not> (cid_len = 0 \<or> cid_len > 20)) InvalidParameterValue)) (\<lambda>_.
     zbind (zget remainingLen) (\<lambda>remaining.
     zbind (zcheck (ensure (remaining = unat cid_len + 16) InvalidParameterLength)) (\<lambda>_.
     zbind (readOwnedBytes (unat cid_len)) (\<lambda>connection_id. errdefer (zig_free connection_id) (
     zbind (readNoEof 16) (\<lambda>stateless_reset_token.
     zret \<lparr>pa_ipv4_address = ipv4_address, pa_ipv4_port = readInt_u16 ipv4_port, pa_ipv6_address = ipv6_address,
       pa_ipv6_port = readInt_u16 ipv6_port, pa_connection_id = connection_id,
       pa_stateless_reset_token = stateless_reset_token\<rparr>)))))))))))))"

fun parse_available :: "nat \<Rightarrow> byte list \<Rightarrow> version list zig_result" where
  "parse_available 0 value = Inr []"
| "parse_available (Suc n) value =
     (let available = readInt_u32 (take 4 value) in
      ztry (validateVersion available) (\<lambda>_.
      ztry (parse_available n (drop 4 value)) (\<lambda>versions. Inr (available # versions))))"

definition parseVersionInformation :: "byte list \<Rightarrow> (version slice version_information, decoder) zig" where
  "parseVersionInformation value =
     zbind (zcheck (ensure (\<not> (length value < 4 \<or> length value mod 4 \<noteq> 0)) InvalidParameterLength)) (\<lambda>_.
     let chosen_version = readInt_u32 (take 4 value) in
     zbind (zcheck (validateChosenVersion chosen_version)) (\<lambda>_.
     let available_count = length value div 4 - 1 in
     zbind (zig_alloc available_count) (\<lambda>block. errdefer (free_block block) (
     ztry_with (parse_available available_count (drop 4 value)) (\<lambda>available_versions.
     zret \<lparr>vi_chosen_version = chosen_version, vi_available_versions = as_slice block available_versions\<rparr>)))))"

definition readValueSlice :: "u64 \<Rightarrow> (byte list, decoder) zig" where
  "readValueSlice value_len d =
     (let len = unat value_len in
      if len > remainingLen d then (Inl EndOfStream, d)
      else (Inr (take len (drop (fr_pos d) (fr_data d))), d\<lparr>fr_pos := fr_pos d + len\<rparr>))"

type_synonym seen_list = "u64 array_list"

definition rememberParameterId :: "(nat \<Rightarrow> bool) \<Rightarrow> seen_list \<Rightarrow> u64 \<Rightarrow> (seen_list, decoder) zig" where
  "rememberParameterId grow seen raw =
     (if raw \<in> set (list_items seen) then zfail DuplicateParameter else list_append grow seen raw)"

definition zmap :: "('a \<Rightarrow> 'b) \<Rightarrow> ('a, 's) zig \<Rightarrow> ('b, 's) zig" where
  "zmap f m = zbind m (\<lambda>x. zret (f x))"

definition integer_value :: "parameter_id \<Rightarrow> byte list \<Rightarrow> (u64 \<Rightarrow> held_parameters) \<Rightarrow> (held_parameters, decoder) zig" where
  "integer_value p value set_field = ztry_with (parseIntegerValue p value) (\<lambda>v. zret (set_field v))"

definition connection_id_value :: "byte list \<Rightarrow> (byte slice \<Rightarrow> held_parameters) \<Rightarrow> (held_parameters, decoder) zig" where
  "connection_id_value value set_field =
     zbind (zcheck (tp_validateConnectionIdLen value)) (\<lambda>_. zmap set_field (cloneBytes value))"

definition parse_value :: "u64 \<Rightarrow> byte list \<Rightarrow> held_parameters \<Rightarrow> (held_parameters, decoder) zig" where
  "parse_value raw value result =
     (case parameterIdFromInt raw of
        None \<Rightarrow> zret result
      | Some p \<Rightarrow> (case p of
          P_original_destination_connection_id \<Rightarrow>
            connection_id_value value (\<lambda>cid. result\<lparr>tp_original_destination_connection_id := Some cid\<rparr>)
        | P_max_idle_timeout \<Rightarrow> integer_value p value (\<lambda>v. result\<lparr>tp_max_idle_timeout := v\<rparr>)
        | P_stateless_reset_token \<Rightarrow>
            zbind (zcheck (ensure (length value = 16) InvalidParameterLength)) (\<lambda>_.
            zret (result\<lparr>tp_stateless_reset_token := Some value\<rparr>))
        | P_max_udp_payload_size \<Rightarrow> integer_value p value (\<lambda>v. result\<lparr>tp_max_udp_payload_size := v\<rparr>)
        | P_initial_max_data \<Rightarrow> integer_value p value (\<lambda>v. result\<lparr>tp_initial_max_data := v\<rparr>)
        | P_initial_max_stream_data_bidi_local \<Rightarrow>
            integer_value p value (\<lambda>v. result\<lparr>tp_initial_max_stream_data_bidi_local := v\<rparr>)
        | P_initial_max_stream_data_bidi_remote \<Rightarrow>
            integer_value p value (\<lambda>v. result\<lparr>tp_initial_max_stream_data_bidi_remote := v\<rparr>)
        | P_initial_max_stream_data_uni \<Rightarrow>
            integer_value p value (\<lambda>v. result\<lparr>tp_initial_max_stream_data_uni := v\<rparr>)
        | P_initial_max_streams_bidi \<Rightarrow> integer_value p value (\<lambda>v. result\<lparr>tp_initial_max_streams_bidi := v\<rparr>)
        | P_initial_max_streams_uni \<Rightarrow> integer_value p value (\<lambda>v. result\<lparr>tp_initial_max_streams_uni := v\<rparr>)
        | P_ack_delay_exponent \<Rightarrow> integer_value p value (\<lambda>v. result\<lparr>tp_ack_delay_exponent := v\<rparr>)
        | P_max_ack_delay \<Rightarrow> integer_value p value (\<lambda>v. result\<lparr>tp_max_ack_delay := v\<rparr>)
        | P_disable_active_migration \<Rightarrow>
            zbind (zcheck (ensure (length value = 0) InvalidParameterLength)) (\<lambda>_.
            zret (result\<lparr>tp_disable_active_migration := True\<rparr>))
        | P_preferred_address \<Rightarrow>
            zmap (\<lambda>a. result\<lparr>tp_preferred_address := Some a\<rparr>) (parsePreferredAddress value)
        | P_active_connection_id_limit \<Rightarrow> integer_value p value (\<lambda>v. result\<lparr>tp_active_connection_id_limit := v\<rparr>)
        | P_initial_source_connection_id \<Rightarrow>
            connection_id_value value (\<lambda>cid. result\<lparr>tp_initial_source_connection_id := Some cid\<rparr>)
        | P_retry_source_connection_id \<Rightarrow>
            connection_id_value value (\<lambda>cid. result\<lparr>tp_retry_source_connection_id := Some cid\<rparr>)
        | P_version_information \<Rightarrow>
            zmap (\<lambda>v. result\<lparr>tp_version_information := Some v\<rparr>) (parseVersionInformation value)))"

text \<open>The two variable-length integers in front of a value.\<close>

definition read_header :: "(u64 \<times> u64, decoder) zig" where
  "read_header = zbind decodeVarInt (\<lambda>(id_raw, _). zbind decodeVarInt (\<lambda>(value_len, _). zret (id_raw, value_len)))"

text \<open>All parts of the loop body stay within the data and move forward, and the first moves.\<close>

lemma advances_prod: "(\<And>a b. advances (f a b)) \<Longrightarrow> advances (case x of (a, b) \<Rightarrow> f a b)"
  by (cases x) simp

lemma advances_try_with: "(\<And>x. advances (f x)) \<Longrightarrow> advances (ztry_with r f)"
  by (cases r) (simp_all add: ztry_with_def advances_basic)

lemma advances_inner: "advances (inner_reader data p)"
  by (auto simp: advances_def inner_reader_def fr_ok_def split: prod.splits)

lemma advances_clone: "advances (cloneBytes data)"
  unfolding cloneBytes_def by (intro advances_bind advances_basic)

lemma advances_map: "advances m \<Longrightarrow> advances (zmap f m)"
  unfolding zmap_def by (intro advances_bind advances_basic)

lemma advances_parse_value: "advances (parse_value raw value result)"
  unfolding parse_value_def connection_id_value_def integer_value_def parsePreferredAddress_def parseVersionInformation_def Let_def
  by (auto intro!: advances_bind advances_basic advances_map advances_clone advances_try_with advances_inner advances_errdefer
      split: option.splits parameter_id.splits)

lemma advances_value_slice: "advances (readValueSlice n)"
  by (auto simp: advances_def readValueSlice_def Let_def fr_ok_def remainingLen_def split: if_splits)

lemma advances_remember: "advances (rememberParameterId grow seen raw)"
  by (auto simp: advances_def rememberParameterId_def list_append_def zfail_def zig_alloc_def Let_def fr_ok_def
      split: prod.splits sum.splits if_splits)

lemma read_header_props: "advances read_header" "moves read_header"
  unfolding read_header_def
  by (intro advances_bind advances_prod decodeVarInt_advances advances_basic moves_bind decodeVarInt_moves)+

lemma loop_body_progress:
  assumes "remainingLen d \<noteq> 0" and "read_header d = (Inr h, d1)" and "rememberParameterId grow seen raw d1 = (Inr s, d2)"
    and "zbind (readValueSlice n) (\<lambda>value. parse_value raw value result) d2 = (Inr r, d3)"
  shows "remainingLen d3 < remainingLen d"
proof -
  have ok: "fr_ok d" using assms(1) by (simp add: remainingLen_def fr_ok_def)
  have "fr_pos d < fr_pos d1" using read_header_props(2) ok assms(2) unfolding moves_def by blast
  moreover note 1 = advancesD [OF read_header_props(1) ok assms(2)]
  moreover note 2 = advancesD [OF advances_remember _ assms(3)]
  moreover have "advances (zbind (readValueSlice n) (\<lambda>value. parse_value raw value result))"
    by (intro advances_bind advances_value_slice advances_parse_value)
  then have "fr_ok d2 \<Longrightarrow> fr_data d3 = fr_data d2 \<and> fr_pos d2 \<le> fr_pos d3 \<and> fr_ok d3"
    using assms(4) unfolding advances_def by blast
  ultimately show ?thesis by (auto simp: remainingLen_def fr_ok_def intro!: diff_less_mono2)
qed

text \<open>
  The loop. On an error the \<^verbatim>\<open>defer\<close> of the identifiers and then the \<^verbatim>\<open>errdefer\<close> of the result run, with what they
  hold at that point.
\<close>

function parse_loop :: "(nat \<Rightarrow> bool) \<Rightarrow> held_parameters \<Rightarrow> seen_list \<Rightarrow> (held_parameters, decoder) zig" where
  "parse_loop grow result seen d =
     (if remainingLen d \<noteq> 0 then
        (case read_header d of
           (Inl e, d) \<Rightarrow> (Inl e, deinit_parameters result (list_deinit seen d))
         | (Inr (id_raw, value_len), d) \<Rightarrow> (case rememberParameterId grow seen id_raw d of
             (Inl e, d) \<Rightarrow> (Inl e, deinit_parameters result (list_deinit seen d))
           | (Inr seen, d) \<Rightarrow>
               (case zbind (readValueSlice value_len) (\<lambda>value. parse_value id_raw value result) d of
                  (Inl e, d) \<Rightarrow> (Inl e, deinit_parameters result (list_deinit seen d))
                | (Inr result, d) \<Rightarrow> parse_loop grow result seen d)))
      else (Inr result, list_deinit seen d))"
  by pat_completeness auto

termination
  by (relation "measure (\<lambda>(grow, result, seen, d). remainingLen d)") (auto intro!: loop_body_progress [OF _ sym sym sym])

declare parse_loop.simps [simp del]

definition parse_parameters :: "(nat \<Rightarrow> bool) \<Rightarrow> byte list \<Rightarrow> (held_parameters, decoder) zig" where
  "parse_parameters grow data =
     with_reader data (parse_loop grow default_parameters \<lparr>list_block = None, list_items = []\<rparr>)"

end
