(* ===== verification/Transport_Parameters_Memory.thy ===== *)
theory Transport_Parameters_Memory
  imports Transport_Parameters
begin

text \<open>
  Memory of the transport parameter parser: the loop holds the buffers of the parameters so far and the block of the
  identifiers seen; it loses none of them and frees none twice.
\<close>

section \<open>What parsed parameters own\<close>

definition opt_ids :: "'e slice option \<Rightarrow> nat list" where
  "opt_ids s = (case s of None \<Rightarrow> [] | Some x \<Rightarrow> owned_ids x)"

definition opt_wf :: "'e slice option \<Rightarrow> bool" where
  "opt_wf s \<longleftrightarrow> (case s of None \<Rightarrow> True | Some x \<Rightarrow> slice_wf x)"

definition params_own :: "held_parameters \<Rightarrow> nat multiset" where
  "params_own r =
     mset (opt_ids (map_option vi_available_versions (tp_version_information r))) +
     mset (opt_ids (map_option pa_connection_id (tp_preferred_address r))) +
     mset (opt_ids (tp_retry_source_connection_id r)) + mset (opt_ids (tp_initial_source_connection_id r)) +
     mset (opt_ids (tp_original_destination_connection_id r))"

definition params_wf :: "held_parameters \<Rightarrow> bool" where
  "params_wf r \<longleftrightarrow>
     opt_wf (map_option vi_available_versions (tp_version_information r)) \<and>
     opt_wf (map_option pa_connection_id (tp_preferred_address r)) \<and> opt_wf (tp_retry_source_connection_id r) \<and>
     opt_wf (tp_initial_source_connection_id r) \<and> opt_wf (tp_original_destination_connection_id r)"

lemma holds_free_option:
  assumes "opt_wf s" and "holds (own + mset (opt_ids s)) live d"
  shows "holds own live (free_option s d)" "al_bad (free_option s d) = al_bad d"
  using assms holds_free [of "the s" own live d]
  by (cases s; simp add: opt_wf_def opt_ids_def free_option_def)+

lemma deinit_parameters_frees:
  assumes "params_wf r" and "holds (own + params_own r) live d"
  shows "holds own live (deinit_parameters r d)" "al_bad (deinit_parameters r d) = al_bad d"
proof -
  note wf = assms(1) [unfolded params_wf_def]
  let ?v = "mset (opt_ids (map_option vi_available_versions (tp_version_information r)))"
    and ?p = "mset (opt_ids (map_option pa_connection_id (tp_preferred_address r)))"
    and ?r = "mset (opt_ids (tp_retry_source_connection_id r))"
    and ?i = "mset (opt_ids (tp_initial_source_connection_id r))"
    and ?o = "mset (opt_ids (tp_original_destination_connection_id r))"
  have "holds ((((own + ?v) + ?p) + ?r) + ?i + ?o) live d" using assms(2) by (simp add: params_own_def add.assoc)
  note 1 = holds_free_option [OF _ this, simplified wf simp_thms]
  note 2 = holds_free_option [OF _ 1(1), simplified wf simp_thms]
  note 3 = holds_free_option [OF _ 2(1), simplified wf simp_thms]
  note 4 = holds_free_option [OF _ 3(1), simplified wf simp_thms]
  note 5 = holds_free_option [OF _ 4(1), simplified wf simp_thms]
  show "holds own live (deinit_parameters r d)" "al_bad (deinit_parameters r d) = al_bad d"
    unfolding deinit_parameters_def using 1 2 3 4 5 by simp_all
qed

text \<open>The parameters that are stored in memory of their own, and a step that stores one of them.\<close>

definition owned_field :: "parameter_id \<Rightarrow> held_parameters \<Rightarrow> bool" where
  "owned_field p r = (case p of
      P_original_destination_connection_id \<Rightarrow> tp_original_destination_connection_id r \<noteq> None
    | P_preferred_address \<Rightarrow> tp_preferred_address r \<noteq> None
    | P_initial_source_connection_id \<Rightarrow> tp_initial_source_connection_id r \<noteq> None
    | P_retry_source_connection_id \<Rightarrow> tp_retry_source_connection_id r \<noteq> None
    | P_version_information \<Rightarrow> tp_version_information r \<noteq> None
    | _ \<Rightarrow> False)"

definition adds :: "held_parameters \<Rightarrow> parameter_id \<Rightarrow> nat list \<Rightarrow> held_parameters \<Rightarrow> bool" where
  "adds r p ids r' \<longleftrightarrow> params_own r' = params_own r + mset ids \<and> params_wf r' \<and>
     (\<forall>q. owned_field q r' \<longrightarrow> owned_field q r \<or> q = p)"

definition stores :: "held_parameters \<Rightarrow> parameter_id \<Rightarrow> (held_parameters, decoder) zig \<Rightarrow> bool" where
  "stores r p m \<longleftrightarrow> (\<forall>d x d'. m d = (x, d') \<longrightarrow> al_bad d' = al_bad d \<and> (case x of
      Inl e \<Rightarrow> al_live d' = al_live d
    | Inr r' \<Rightarrow> \<exists>ids. al_live d' = ids @ al_live d \<and> adds r p ids r'))"

lemma storesD:
  "stores r p m \<Longrightarrow> m d = (x, d') \<Longrightarrow> al_bad d' = al_bad d \<and> (case x of
      Inl e \<Rightarrow> al_live d' = al_live d | Inr r' \<Rightarrow> \<exists>ids. al_live d' = ids @ al_live d \<and> adds r p ids r')"
  unfolding stores_def by blast

lemma stores_ret: "adds r p [] r' \<Longrightarrow> stores r p (zret r')"
  by (auto simp: stores_def zret_def)

lemma stores_check: "stores r p (f ()) \<Longrightarrow> stores r p (zbind (zcheck c) f)"
  by (cases c) (auto simp: stores_def zbind_def zcheck_def)

lemma stores_try_with: "(\<And>x. stores r p (f x)) \<Longrightarrow> stores r p (ztry_with c f)"
  by (cases c) (auto simp: stores_def ztry_with_def zfail_def)

lemma stores_map:
  assumes "mem_safe m own" and "yields m P" and "\<And>x. P x \<Longrightarrow> adds r p (own x) (f x)"
  shows "stores r p (zmap f m)"
  unfolding stores_def
proof (intro allI impI)
  fix d x d'
  assume "zmap f m d = (x, d')"
  then obtain y where y: "m d = (y, d')" "x = (case y of Inl e \<Rightarrow> Inl e | Inr a \<Rightarrow> Inr (f a))"
    by (auto simp: zmap_def zbind_def zret_def split: prod.splits sum.splits)
  moreover have "P a" if "y = Inr a" for a using assms(2) y(1) that unfolding yields_def by blast
  ultimately show "al_bad d' = al_bad d \<and> (case x of Inl e \<Rightarrow> al_live d' = al_live d
      | Inr r' \<Rightarrow> \<exists>ids. al_live d' = ids @ al_live d \<and> adds r p ids r')"
    using mem_safeD [OF assms(1) y(1)] assms(3) by (auto split: sum.splits)
qed

lemma clone_memory: "mem_safe (cloneBytes data) owned_ids" "yields (cloneBytes data) (\<lambda>s. slice_wf s \<and> elems s = data)"
  by (auto simp: mem_safe_def yields_def cloneBytes_def zbind_def zig_alloc_def zret_def as_slice_def Let_def
      split: sum.splits if_splits)

lemma mem_safe_inner: "mem_safe p own \<Longrightarrow> mem_safe (inner_reader data p) own"
  unfolding mem_safe_def inner_reader_def by (fastforce split: prod.splits)

lemma yields_inner: "yields p P \<Longrightarrow> yields (inner_reader data p) P"
  unfolding yields_def inner_reader_def by (auto split: prod.splits)

lemma preferred_address_memory:
  "mem_safe (parsePreferredAddress value) (\<lambda>a. owned_ids (pa_connection_id a))"
  "yields (parsePreferredAddress value) (\<lambda>a. slice_wf (pa_connection_id a))"
  unfolding parsePreferredAddress_def
  subgoal
    by (rule mem_safe_scope [OF allocates_owned, where part = "\<lambda>_ _. []"] packet_mem_safe_rules mem_safe_inner zget_keeps
      packet_yields_rules refl | simp)+
  subgoal by (rule yields_bind [OF yields_owned] yields_inner packet_yields_rules | simp)+
  done

lemma parse_available_length: "parse_available n value = Inr vs \<Longrightarrow> length vs = n"
  by (induction n "value" arbitrary: vs rule: parse_available.induct) (auto simp: Let_def)

lemma version_information_memory:
  "mem_safe (parseVersionInformation value) (\<lambda>v. owned_ids (vi_available_versions v))"
  "yields (parseVersionInformation value) (\<lambda>v. slice_wf (vi_available_versions v))"
  unfolding parseVersionInformation_def Let_def
  subgoal
    by (rule mem_safe_scope [OF allocates_alloc, where part = "\<lambda>_ _. []"] packet_mem_safe_rules mem_safe_try_with
      packet_yields_rules refl | simp add: owned_ids_as_slice)+
  subgoal
    by (rule yields_bind [OF yields_alloc] packet_yields_rules | simp)+
      (auto intro!: slice_wf_as_slice dest: parse_available_length)
  done

lemma parameterIdFromInt_int: "parameterIdFromInt raw = Some p \<Longrightarrow> raw = intFromParameterId p"
  by (auto simp: parameterIdFromInt_def split: if_splits)

lemmas adds_defs = adds_def params_own_def params_wf_def opt_ids_def opt_wf_def owned_field_def

lemma parse_value_stores:
  assumes "parameterIdFromInt raw = Some p" and "\<not> owned_field p r" and "params_wf r"
  shows "stores r p (parse_value raw value r)"
  using assms
  unfolding parse_value_def connection_id_value_def integer_value_def
  by (cases p) (auto simp: adds_defs split: parameter_id.splits
      intro!: stores_check stores_ret stores_try_with stores_map [OF clone_memory]
        stores_map [OF preferred_address_memory] stores_map [OF version_information_memory])

lemma stores_unknown: "parameterIdFromInt raw = None \<Longrightarrow> parse_value raw value r = zret r"
  by (simp add: parse_value_def)

definition fields_seen :: "held_parameters \<Rightarrow> seen_list \<Rightarrow> bool" where
  "fields_seen r seen \<longleftrightarrow> (\<forall>p. owned_field p r \<longrightarrow> intFromParameterId p \<in> set (list_items seen))"

text \<open>What the loop holds: the buffers of the result so far, and the identifiers' block.\<close>

definition loop_holds :: "held_parameters \<Rightarrow> seen_list \<Rightarrow> nat list \<Rightarrow> decoder \<Rightarrow> bool" where
  "loop_holds r seen live d \<longleftrightarrow>
     params_wf r \<and> fields_seen r seen \<and> holds (params_own r + mset (block_ids (list_block seen))) live d"

lemma loop_release:
  assumes "params_wf r" and "holds (params_own r + mset (block_ids (list_block seen))) live d"
  shows "al_live (deinit_parameters r (list_deinit seen d)) = live"
    "al_bad (deinit_parameters r (list_deinit seen d)) = al_bad d"
  using holds_free_block [OF assms(2)] deinit_parameters_frees [OF assms(1), of "{#}" live "list_deinit seen d"]
  by (simp_all add: list_deinit_def holds_none)

lemma remember_memory:
  assumes "loop_holds r seen live d" and "rememberParameterId grow seen raw d = (x, d')"
  shows "al_bad d' = al_bad d \<and> (case x of
      Inl e \<Rightarrow> loop_holds r seen live d'
    | Inr seen' \<Rightarrow> loop_holds r seen' live d' \<and> raw \<notin> set (list_items seen) \<and> list_items seen' = list_items seen @ [raw])"
proof (cases "raw \<in> set (list_items seen)")
  case True
  with assms show ?thesis by (auto simp: rememberParameterId_def zfail_def)
next
  case False
  with assms list_append_safe [of "params_own r" seen live d grow raw x d'] show ?thesis
    by (auto simp: rememberParameterId_def loop_holds_def fields_seen_def split: sum.splits)
qed

lemma body_memory:
  assumes "loop_holds r seen' live d" and "raw \<notin> set (list_items seen)" and "fields_seen r seen"
    and "list_items seen' = list_items seen @ [raw]"
    and "zbind (readValueSlice n) (\<lambda>value. parse_value raw value r) d = (x, d')"
  shows "al_bad d' = al_bad d \<and> (case x of Inl e \<Rightarrow> loop_holds r seen' live d' | Inr r' \<Rightarrow> loop_holds r' seen' live d')"
proof -
  obtain y d1 where y: "readValueSlice n d = (y, d1)" by fastforce
  then have d1: "al_live d1 = al_live d" "al_bad d1 = al_bad d" by (auto simp: readValueSlice_def Let_def split: if_splits)
  show ?thesis
  proof (cases y)
    case (Inl e)
    with y assms(1,5) d1 show ?thesis by (auto simp: zbind_def loop_holds_def holds_def)
  next
    case (Inr v)
    with y assms(5) have v: "parse_value raw v r d1 = (x, d')" by (simp add: zbind_def)
    show ?thesis
    proof (cases "parameterIdFromInt raw")
      case None
      with v assms(1) d1 show ?thesis by (auto simp: stores_unknown zret_def loop_holds_def holds_def)
    next
      case (Some p)
      with assms(2,3) have "\<not> owned_field p r" by (auto simp: fields_seen_def dest: parameterIdFromInt_int)
      moreover have "params_wf r" using assms(1) by (simp add: loop_holds_def)
      ultimately have s: "al_bad d' = al_bad d" "case x of Inl e \<Rightarrow> al_live d' = al_live d
          | Inr r' \<Rightarrow> \<exists>ids. al_live d' = ids @ al_live d \<and> adds r p ids r'"
        using storesD [OF parse_value_stores [OF Some] v] d1 by (simp_all split: sum.splits)
      show ?thesis
      proof (cases x)
        case (Inl e)
        with s assms(1) show ?thesis by (simp add: loop_holds_def holds_def)
      next
        case (Inr r')
        with s obtain ids where ids: "al_live d' = ids @ al_live d" "adds r p ids r'" by auto
        have "holds (params_own r' + mset (block_ids (list_block seen'))) live d'"
          using holds_more [OF _ ids(1), of "params_own r + mset (block_ids (list_block seen'))" live] assms(1) ids(2)
          by (simp add: loop_holds_def adds_def ac_simps)
        with s(1) Inr ids(2) assms(1,4) Some show ?thesis
          by (auto simp: loop_holds_def adds_def fields_seen_def dest: parameterIdFromInt_int)
      qed
    qed
  qed
qed

lemma parse_loop_cases:
  assumes "parse_loop grow r seen d = (x, d')"
  obtains (finished) "remainingLen d = 0" "x = Inr r" "d' = list_deinit seen d"
  | (header) e d1 where "read_header d = (Inl e, d1)" "x = Inl e" "d' = deinit_parameters r (list_deinit seen d1)"
  | (duplicate) raw n d1 e d2 where "read_header d = (Inr (raw, n), d1)" "rememberParameterId grow seen raw d1 = (Inl e, d2)"
      "x = Inl e" "d' = deinit_parameters r (list_deinit seen d2)"
  | (invalid) raw n d1 seen' d2 e d3 where "read_header d = (Inr (raw, n), d1)"
      "rememberParameterId grow seen raw d1 = (Inr seen', d2)"
      "zbind (readValueSlice n) (\<lambda>value. parse_value raw value r) d2 = (Inl e, d3)"
      "x = Inl e" "d' = deinit_parameters r (list_deinit seen' d3)"
  | (again) raw n d1 seen' d2 r' d3 where "read_header d = (Inr (raw, n), d1)"
      "rememberParameterId grow seen raw d1 = (Inr seen', d2)"
      "zbind (readValueSlice n) (\<lambda>value. parse_value raw value r) d2 = (Inr r', d3)"
      "parse_loop grow r' seen' d3 = (x, d')" "remainingLen d3 < remainingLen d"
proof (cases "remainingLen d = 0")
  case True
  with assms finished show ?thesis by (simp add: parse_loop.simps [of grow r seen d])
next
  case False
  note loop = assms [unfolded parse_loop.simps [of grow r seen d] if_P [OF False]]
  obtain h d1 where h: "read_header d = (h, d1)" by fastforce
  show ?thesis
  proof (cases h)
    case (Inl e)
    with loop h header show ?thesis by simp
  next
    case (Inr raw_n)
    obtain raw n where raw: "raw_n = (raw, n)" by fastforce
    obtain y d2 where y: "rememberParameterId grow seen raw d1 = (y, d2)" by fastforce
    show ?thesis
    proof (cases y)
      case (Inl e)
      with loop h \<open>h = Inr raw_n\<close> raw y duplicate show ?thesis by simp
    next
      case seen': (Inr seen')
      obtain z d3 where z: "zbind (readValueSlice n) (\<lambda>value. parse_value raw value r) d2 = (z, d3)" by fastforce
      note loop' = loop [unfolded h Inr raw prod.case sum.case y seen' z]
      show ?thesis
      proof (cases z)
        case (Inl e)
        from invalid [OF h [unfolded Inr raw] y [unfolded seen'] z [unfolded \<open>z = Inl e\<close>]] loop' \<open>z = Inl e\<close>
        show ?thesis by simp
      next
        case r': (Inr r')
        note steps = h [unfolded Inr raw] y [unfolded seen'] z [unfolded r']
        from again [OF steps] loop' r' loop_body_progress [OF False steps] show ?thesis by simp
      qed
    qed
  qed
qed

lemma read_header_memory: "read_header d = (h, d1) \<Longrightarrow> al_live d1 = al_live d \<and> al_bad d1 = al_bad d"
proof -
  have "mem_safe read_header (\<lambda>_. [])" unfolding read_header_def
    by (auto intro!: mem_safe_bind [OF decodeVarInt_mem_safe] mem_safe_basic split: prod.splits)
  then show "read_header d = (h, d1) \<Longrightarrow> ?thesis" by (auto dest!: mem_safeD split: sum.splits)
qed

lemma parse_loop_memory:
  assumes "loop_holds r seen live d" and "parse_loop grow r seen d = (x, d')"
  shows "al_bad d' = al_bad d \<and> (case x of
      Inl e \<Rightarrow> al_live d' = live | Inr r' \<Rightarrow> params_wf r' \<and> holds (params_own r') live d')"
  using assms
proof (induction "remainingLen d" arbitrary: r seen d rule: less_induct)
  case less
  have hdr: "loop_holds r seen live d1 \<and> al_bad d1 = al_bad d" if "read_header d = (h, d1)" for h d1
    using read_header_memory [OF that] less(2) by (simp add: loop_holds_def holds_def)
  have body: "al_bad d3 = al_bad d \<and> (case z of Inl e \<Rightarrow> loop_holds r seen' live d3 | Inr r' \<Rightarrow> loop_holds r' seen' live d3)"
    if "read_header d = (Inr (raw, n), d1)" "rememberParameterId grow seen raw d1 = (Inr seen', d2)"
      "zbind (readValueSlice n) (\<lambda>value. parse_value raw value r) d2 = (z, d3)" for raw n d1 seen' d2 z d3
  proof -
    have d1: "loop_holds r seen live d1" "al_bad d1 = al_bad d" using hdr [OF that(1)] by auto
    have d2: "al_bad d2 = al_bad d1" "loop_holds r seen' live d2" "raw \<notin> set (list_items seen)"
        "list_items seen' = list_items seen @ [raw]"
      using remember_memory [OF d1(1) that(2)] by auto
    have "fields_seen r seen" using d1(1) by (simp add: loop_holds_def)
    from body_memory [OF d2(2,3) this d2(4) that(3)] d1(2) d2(1) show ?thesis by simp
  qed
  from less(3) show ?case
  proof (cases rule: parse_loop_cases)
    case finished
    with less(2) holds_free_block [of "params_own r" "list_block seen" live d] show ?thesis
      by (simp add: list_deinit_def loop_holds_def)
  next
    case (header e d1)
    with hdr [OF header(1)] loop_release [of r seen live d1] show ?thesis by (simp add: loop_holds_def)
  next
    case (duplicate raw n d1 e d2)
    have d1: "loop_holds r seen live d1" "al_bad d1 = al_bad d" using hdr [OF duplicate(1)] by auto
    from remember_memory [OF d1(1) duplicate(2)] d1(2) duplicate loop_release [of r seen live d2]
    show ?thesis by (simp add: loop_holds_def)
  next
    case (invalid raw n d1 seen' d2 e d3)
    with body [OF invalid(1-3)] loop_release [of r seen' live d3] show ?thesis by (simp add: loop_holds_def)
  next
    case (again raw n d1 seen' d2 r' d3)
    with body [OF again(1-3)] less(1) [OF again(5) _ again(4)] show ?thesis by simp
  qed
qed

text \<open>
  Property C26: parsing the peer's transport parameters is memory safe. Whatever bytes the peer sends, wherever an
  allocation fails and however the list of identifiers grows, a failed parse has released everything that it had
  allocated, and after a successful one \<^verbatim>\<open>deinit\<close> of the result releases all the rest, each block once. That no
  buffer is overwritten and lost relies on the rejection of repeated parameters.
\<close>

theorem transport_parameters_balanced:
  "balanced (parse_parameters grow data) deinit_parameters"
  unfolding balanced_def
proof (intro allI)
  fix d :: decoder
  let ?d = "d\<lparr>fr_data := data, fr_pos := 0\<rparr>" and ?seen = "\<lparr>list_block = None, list_items = []\<rparr>"
  obtain x d' where run: "parse_loop grow default_parameters ?seen ?d = (x, d')" by fastforce
  have "loop_holds default_parameters ?seen (al_live d) ?d"
    by (auto simp: loop_holds_def fields_seen_def adds_defs default_parameters_def block_ids_def holds_none
        split: parameter_id.splits)
  from parse_loop_memory [OF this run] run deinit_parameters_frees [of "projr x" "{#}" "al_live d" d']
  show "case parse_parameters grow data d of
      (Inl e, d') \<Rightarrow> al_live d' = al_live d \<and> al_bad d' = al_bad d
    | (Inr x, d') \<Rightarrow> al_live (deinit_parameters x d') = al_live d \<and> al_bad (deinit_parameters x d') = al_bad d"
    by (cases x) (simp_all add: parse_parameters_def with_reader_def holds_none)
qed

end
