(* ===== verification/Transport_Parameters_Codec.thy ===== *)
theory Transport_Parameters_Codec
  imports Transport_Parameters_Memory
begin

text \<open>
  Encoding and parsing of transport parameters: what the parser accepts is valid, the encoder sends exactly
  the valid ones, and the parser gives them back.
\<close>

section \<open>What is sent\<close>

definition parameter_ids :: "parameter_id list" where
  "parameter_ids =
     [P_original_destination_connection_id, P_max_idle_timeout, P_stateless_reset_token, P_max_udp_payload_size,
      P_initial_max_data, P_initial_max_stream_data_bidi_local, P_initial_max_stream_data_bidi_remote,
      P_initial_max_stream_data_uni, P_initial_max_streams_bidi, P_initial_max_streams_uni, P_ack_delay_exponent,
      P_max_ack_delay, P_disable_active_migration, P_preferred_address, P_active_connection_id_limit,
      P_initial_source_connection_id, P_retry_source_connection_id, P_version_information]"

text \<open>The integer parameters: value and default.\<close>

fun integer_field :: "parameter_id \<Rightarrow> ('b, 'v) transport_parameters \<Rightarrow> u64 option" where
  "integer_field P_max_idle_timeout r = Some (tp_max_idle_timeout r)"
| "integer_field P_max_udp_payload_size r = Some (tp_max_udp_payload_size r)"
| "integer_field P_initial_max_data r = Some (tp_initial_max_data r)"
| "integer_field P_initial_max_stream_data_bidi_local r = Some (tp_initial_max_stream_data_bidi_local r)"
| "integer_field P_initial_max_stream_data_bidi_remote r = Some (tp_initial_max_stream_data_bidi_remote r)"
| "integer_field P_initial_max_stream_data_uni r = Some (tp_initial_max_stream_data_uni r)"
| "integer_field P_initial_max_streams_bidi r = Some (tp_initial_max_streams_bidi r)"
| "integer_field P_initial_max_streams_uni r = Some (tp_initial_max_streams_uni r)"
| "integer_field P_ack_delay_exponent r = Some (tp_ack_delay_exponent r)"
| "integer_field P_max_ack_delay r = Some (tp_max_ack_delay r)"
| "integer_field P_active_connection_id_limit r = Some (tp_active_connection_id_limit r)"
| "integer_field _ r = None"

definition preferred_bytes :: "byte list preferred_address \<Rightarrow> byte list" where
  "preferred_bytes a = pa_ipv4_address a @ u16_bytes (pa_ipv4_port a) @ pa_ipv6_address a @ u16_bytes (pa_ipv6_port a) @
     cid_bytes (pa_connection_id a) @ pa_stateless_reset_token a"

definition version_bytes :: "version list version_information \<Rightarrow> byte list" where
  "version_bytes v = u32_bytes (vi_chosen_version v) @ concat (map u32_bytes (vi_available_versions v))"

text \<open>The value that is sent for a parameter, or none if the parameter has its default.\<close>

fun field_value :: "parameter_id \<Rightarrow> plain_parameters \<Rightarrow> byte list option" where
  "field_value P_original_destination_connection_id r = tp_original_destination_connection_id r"
| "field_value P_initial_source_connection_id r = tp_initial_source_connection_id r"
| "field_value P_retry_source_connection_id r = tp_retry_source_connection_id r"
| "field_value P_stateless_reset_token r = tp_stateless_reset_token r"
| "field_value P_disable_active_migration r = (if tp_disable_active_migration r then Some [] else None)"
| "field_value P_preferred_address r = map_option preferred_bytes (tp_preferred_address r)"
| "field_value P_version_information r = map_option version_bytes (tp_version_information r)"
| "field_value p r =
     (if integer_field p r \<noteq> integer_field p (default_parameters :: plain_parameters)
      then map_option varint_bytes (integer_field p r) else None)"

definition tlv_bytes :: "parameter_id \<Rightarrow> byte list \<Rightarrow> byte list" where
  "tlv_bytes p v = varint_bytes (intFromParameterId p) @ varint_bytes (len64 v) @ v"

definition field_bytes :: "plain_parameters \<Rightarrow> parameter_id \<Rightarrow> byte list" where
  "field_bytes r p = (case field_value p r of None \<Rightarrow> [] | Some v \<Rightarrow> tlv_bytes p v)"

section \<open>What is valid\<close>

definition preferred_ok :: "byte list preferred_address \<Rightarrow> bool" where
  "preferred_ok a \<longleftrightarrow> length (pa_ipv4_address a) = 4 \<and> length (pa_ipv6_address a) = 16 \<and>
     1 \<le> length (pa_connection_id a) \<and> length (pa_connection_id a) \<le> 20 \<and> length (pa_stateless_reset_token a) = 16"

definition versions_ok :: "version list version_information \<Rightarrow> bool" where
  "versions_ok v \<longleftrightarrow> vi_chosen_version v \<noteq> 0 \<and> \<not> isReservedVersion (vi_chosen_version v) \<and>
     0 \<notin> set (vi_available_versions v) \<and> 4 + 4 * length (vi_available_versions v) < 2 ^ 62"

text \<open>
  Valid parameters: the limits of RFC 9000, section 18.2, and of RFC 9368 for the version information, with the cap
  on the idle timeout of this implementation.
\<close>

fun field_ok :: "plain_parameters \<Rightarrow> parameter_id \<Rightarrow> bool" where
  "field_ok r P_original_destination_connection_id \<longleftrightarrow> pred_option (\<lambda>c. length c \<le> 20) (tp_original_destination_connection_id r)"
| "field_ok r P_initial_source_connection_id \<longleftrightarrow> pred_option (\<lambda>c. length c \<le> 20) (tp_initial_source_connection_id r)"
| "field_ok r P_retry_source_connection_id \<longleftrightarrow> pred_option (\<lambda>c. length c \<le> 20) (tp_retry_source_connection_id r)"
| "field_ok r P_stateless_reset_token \<longleftrightarrow> pred_option (\<lambda>t. length t = 16) (tp_stateless_reset_token r)"
| "field_ok r P_max_idle_timeout \<longleftrightarrow> tp_max_idle_timeout r \<le> 0x100000000"
| "field_ok r P_max_udp_payload_size \<longleftrightarrow> 1200 \<le> tp_max_udp_payload_size r \<and> tp_max_udp_payload_size r \<le> 65527"
| "field_ok r P_initial_max_data \<longleftrightarrow> tp_initial_max_data r \<le> max_quic_varint"
| "field_ok r P_initial_max_stream_data_bidi_local \<longleftrightarrow> tp_initial_max_stream_data_bidi_local r \<le> max_quic_varint"
| "field_ok r P_initial_max_stream_data_bidi_remote \<longleftrightarrow> tp_initial_max_stream_data_bidi_remote r \<le> max_quic_varint"
| "field_ok r P_initial_max_stream_data_uni \<longleftrightarrow> tp_initial_max_stream_data_uni r \<le> max_quic_varint"
| "field_ok r P_initial_max_streams_bidi \<longleftrightarrow> tp_initial_max_streams_bidi r \<le> 0x1000000000000000"
| "field_ok r P_initial_max_streams_uni \<longleftrightarrow> tp_initial_max_streams_uni r \<le> 0x1000000000000000"
| "field_ok r P_ack_delay_exponent \<longleftrightarrow> tp_ack_delay_exponent r \<le> 20"
| "field_ok r P_max_ack_delay \<longleftrightarrow> tp_max_ack_delay r < 0x4000"
| "field_ok r P_disable_active_migration \<longleftrightarrow> True"
| "field_ok r P_preferred_address \<longleftrightarrow> pred_option preferred_ok (tp_preferred_address r)"
| "field_ok r P_active_connection_id_limit \<longleftrightarrow>
     2 \<le> tp_active_connection_id_limit r \<and> tp_active_connection_id_limit r \<le> max_quic_varint"
| "field_ok r P_version_information \<longleftrightarrow> pred_option versions_ok (tp_version_information r)"

definition params_valid :: "plain_parameters \<Rightarrow> bool" where
  "params_valid r \<longleftrightarrow> (\<forall>p \<in> set parameter_ids. field_ok r p)"

lemma parameter_ids_all: "p \<in> set parameter_ids"
  by (cases p) (simp_all add: parameter_ids_def)

lemma integer_field_ok:
  "integer_field p r = Some v \<Longrightarrow> validateIntegerParameter p v = Inr () \<longleftrightarrow> field_ok r p"
  by (cases p) (auto simp: validateIntegerParameter_def max_quic_varint_eq max_idle_timeout_ms_cap_def
      max_udp_payload_size_default_def max_stream_count_def word_le_nat_alt word_less_nat_alt)

section \<open>The encoder\<close>

text \<open>
  \<open>sends m ok bs\<close>: if \<open>ok\<close>, then \<open>m\<close> writes exactly \<open>bs\<close>, and otherwise it always fails.
\<close>

definition sends :: "(unit, fixed_writer) zig \<Rightarrow> bool \<Rightarrow> byte list \<Rightarrow> bool" where
  "sends m ok bs \<longleftrightarrow> (if ok then writes m bs else \<forall>w. \<exists>e w'. m w = (Inl e, w'))"

lemma sends_bind:
  assumes "sends m ok bs" and "sends n ok' cs"
  shows "sends (zbind m (\<lambda>_. n)) (ok \<and> ok') (bs @ cs)"
proof (cases ok)
  case False
  then have "\<exists>e w'. m w = (Inl e, w')" for w using assms(1) by (simp add: sends_def)
  then have "\<exists>e w'. zbind m (\<lambda>_. n) w = (Inl e, w')" for w by (metis zbind_eq)
  with False show ?thesis by (simp add: sends_def)
next
  case True
  show ?thesis
  proof (cases ok')
    case True
    with \<open>ok\<close> assms show ?thesis by (simp add: sends_def writes_bind)
  next
    case False
    then have n: "\<exists>e w'. n w = (Inl e, w')" for w using assms(2) by (simp add: sends_def)
    have "\<exists>e w'. zbind m (\<lambda>_. n) w = (Inl e, w')" for w
    proof (cases "m w")
      case (Pair r w1)
      with n [of w1] show ?thesis by (cases r) (auto simp: zbind_def)
    qed
    with False show ?thesis by (simp add: sends_def)
  qed
qed

lemma sends_zseq:
  assumes "list_all2 (\<lambda>m p. sends m (ok p) (bytes p)) ms ps"
  shows "sends (zseq ms) (\<forall>p \<in> set ps. ok p) (concat (map bytes ps))"
  using assms
proof (induction rule: list_all2_induct)
  case Nil
  show ?case by (simp add: sends_def zseq_def writes_ret)
next
  case (Cons m ms p ps)
  from sends_bind [OF this(1,3)] show ?case by (simp add: zseq_Cons)
qed

lemma zbind_check [simp]: "zbind (zcheck (Inr x)) f = f x"
  by (simp add: fun_eq_iff zbind_def zcheck_def)

lemma sends_check: "(r = Inr ()) = ok \<Longrightarrow> (ok \<Longrightarrow> writes (f ()) bs) \<Longrightarrow> sends (zbind (zcheck r) f) ok bs"
  by (cases r) (auto simp: sends_def zbind_def zcheck_def writes_def)

lemma sends_skip: "\<not> c \<longrightarrow> ok \<Longrightarrow> (c \<Longrightarrow> sends m ok bs) \<Longrightarrow> sends (if c then m else zret ()) ok (if c then bs else [])"
  by (auto simp: sends_def writes_ret)

lemma parameter_id_small: "intFromParameterId p \<le> 0x11"
  by (cases p) simp_all

lemma parameter_id_varint: "intFromParameterId p \<le> max_quic_varint"
  using parameter_id_small [of p] by (simp add: max_quic_varint_eq word_le_nat_alt)

lemma value_len_ok:
  assumes "length v < 2 ^ 62"
  shows "validateParameterValueLen v = Inr (len64 v)" "len64 v \<le> max_quic_varint" "unat (len64 v) = length v"
proof -
  show u: "unat (len64 v) = length v"
    using assms by (simp add: len64_def unsigned_of_nat take_bit_nat_eq_self)
  then show l: "len64 v \<le> max_quic_varint" using assms by (simp add: word_le_nat_alt max_quic_varint_eq)
  then show "validateParameterValueLen v = Inr (len64 v)"
    using assms u by (simp add: validateParameterValueLen_def len64_def Let_def not_less)
qed

lemma writes_bytes_value: "length v < 2 ^ 62 \<Longrightarrow> writes (encodeBytesValue p v) (tlv_bytes p v)"
  unfolding encodeBytesValue_def tlv_bytes_def
  by (intro writes_check)
    (simp_all add: validateParameterIdVarInt_def not_less parameter_id_varint value_len_ok ztry_with_def
      writes_zseq_rules encodeVarInt_writes writes_all)

lemma written_fits:
  assumes "writes m bs" and "length bs \<le> n"
  obtains w where "m (fixedWriter (replicate n 0)) = (Inr (), w)" "getWritten w = bs"
proof -
  have "fw_ok (fixedWriter (replicate n 0))" by (simp add: fw_ok_def fixedWriter_def)
  with assms have "m (fixedWriter (replicate n 0)) = (Inr (), fw_put bs (fixedWriter (replicate n 0)))"
    unfolding writes_def by (simp add: fw_room_def fixedWriter_def)
  with that written [OF assms(1)] show ?thesis by blast
qed

lemma length_varint_8: "length (varint_bytes v) \<le> 8"
  by (simp add: length_varint_bytes)

lemma writes_integer_value:
  assumes "v \<le> max_quic_varint"
  shows "writes (encodeUncheckedIntegerValue p v) (tlv_bytes p (varint_bytes v))"
proof -
  obtain w where "encodeVarInt v (fixedWriter (replicate 8 0)) = (Inr (), w)" "getWritten w = varint_bytes v"
    by (rule written_fits [OF encodeVarInt_writes [OF assms] length_varint_8])
  moreover have "length (varint_bytes v) < 2 ^ 62" using length_varint_8 [of v] by simp
  ultimately show ?thesis
    using assms parameter_id_varint [of p] unfolding encodeUncheckedIntegerValue_def
    by (intro writes_check) (simp_all add: validateParameterIdVarInt_def not_less writes_bytes_value)
qed

lemma integer_ok_varint: "validateIntegerParameter p v = Inr () \<Longrightarrow> v \<le> max_quic_varint"
  by (auto simp: validateIntegerParameter_def split: if_splits)

lemma integer_field_value:
  "integer_field p r = Some v \<Longrightarrow> field_value p r =
     (if Some v \<noteq> integer_field p (default_parameters :: plain_parameters) then Some (varint_bytes v) else None)"
  by (cases p) auto

lemma integer_default_ok:
  "integer_field p r = integer_field p (default_parameters :: plain_parameters) \<Longrightarrow> integer_field p r \<noteq> None \<Longrightarrow> field_ok r p"
  by (cases p) (simp_all add: default_parameters_def max_udp_payload_size_default_def max_quic_varint_eq)

lemma sends_integer:
  assumes "integer_field p r = Some v" and "integer_field p (default_parameters :: plain_parameters) = Some dflt"
  shows "sends (if v \<noteq> dflt then encodeIntegerValue p v else zret ()) (field_ok r p) (field_bytes r p)"
proof -
  have "field_bytes r p = (if v \<noteq> dflt then tlv_bytes p (varint_bytes v) else [])"
    by (simp add: field_bytes_def integer_field_value [OF assms(1)] assms(2))
  moreover have "v = dflt \<Longrightarrow> field_ok r p" using assms integer_default_ok [of p r] by simp
  ultimately show ?thesis
    using integer_field_ok [OF assms(1)] unfolding encodeIntegerValue_def
    by (simp only:) (intro sends_skip sends_check writes_integer_value integer_ok_varint; blast)
qed

lemma sends_some:
  assumes "ok = pred_option P x" and "\<And>y. x = Some y \<Longrightarrow> sends (f y) (P y) (tlv_bytes p (g y))"
    and "bs = (case x of None \<Rightarrow> [] | Some y \<Rightarrow> tlv_bytes p (g y))"
  shows "sends (if_some x f) ok bs"
  using assms by (cases x) (simp_all add: if_some_def sends_def writes_ret)

lemma sends_connection_id:
  "sends (encodeConnectionIdValue p c) (length c \<le> 20) (tlv_bytes p c)"
  unfolding encodeConnectionIdValue_def
  by (intro sends_check writes_bytes_value) (auto simp: tp_validateConnectionIdLen_def)

lemma sends_token: "length t = 16 \<Longrightarrow> sends (encodeStatelessResetToken t) (length t = 16) (tlv_bytes P_stateless_reset_token t)"
  by (simp add: sends_def encodeStatelessResetToken_def writes_bytes_value)

lemma sends_zero: "writes (encodeZeroLengthValue p) (tlv_bytes p [])"
proof -
  have "writes (zseq [encodeVarInt (intFromParameterId p), encodeVarInt 0])
      (varint_bytes (intFromParameterId p) @ varint_bytes 0)"
    by (intro writes_zseq_rules encodeVarInt_writes parameter_id_varint) simp
  then show ?thesis by (simp add: encodeZeroLengthValue_def tlv_bytes_def len64_def)
qed

text \<open>Fixed-size arrays of the code are lists of their length.\<close>

definition preferred_arrays :: "byte list preferred_address \<Rightarrow> bool" where
  "preferred_arrays a \<longleftrightarrow> length (pa_ipv4_address a) = 4 \<and> length (pa_ipv6_address a) = 16 \<and>
     length (pa_stateless_reset_token a) = 16"

definition params_arrays :: "plain_parameters \<Rightarrow> bool" where
  "params_arrays r \<longleftrightarrow> pred_option (\<lambda>t. length t = 16) (tp_stateless_reset_token r) \<and>
     pred_option preferred_arrays (tp_preferred_address r)"

lemma length_u16_bytes [simp]: "length (u16_bytes v) = 2"
  by (simp add: u16_bytes_def)

lemma sends_preferred:
  assumes "preferred_arrays a"
  shows "sends (encodePreferredAddress a) (preferred_ok a) (tlv_bytes P_preferred_address (preferred_bytes a))"
  unfolding encodePreferredAddress_def
proof (rule sends_check)
  show "(validatePreferredAddressConnectionIdLen (pa_connection_id a) = Inr ()) = preferred_ok a"
    using assms by (auto simp: validatePreferredAddressConnectionIdLen_def preferred_ok_def preferred_arrays_def Suc_le_eq)
  assume ok: "preferred_ok a"
  let ?m = "zseq [writeAll (pa_ipv4_address a), writeAll (u16_bytes (pa_ipv4_port a)), writeAll (pa_ipv6_address a),
      writeAll (u16_bytes (pa_ipv6_port a)), writeByte (word_of_nat (length (pa_connection_id a))),
      writeAll (pa_connection_id a), writeAll (pa_stateless_reset_token a)]"
  have m: "writes ?m (preferred_bytes a)"
    unfolding preferred_bytes_def cid_bytes_def append_Cons by (intro writes_zseq_rules writes_all)
  have len: "length (preferred_bytes a) \<le> 61"
    using ok by (simp add: preferred_bytes_def cid_bytes_def preferred_ok_def)
  obtain w where "?m (fixedWriter (replicate 61 0)) = (Inr (), w)" "getWritten w = preferred_bytes a"
    by (rule written_fits [OF m len])
  with len show "writes (case ?m (fixedWriter (replicate 61 0)) of (Inl e, _) \<Rightarrow> zfail e
      | (Inr _, value_writer) \<Rightarrow> encodeBytesValue P_preferred_address (getWritten value_writer))
      (tlv_bytes P_preferred_address (preferred_bytes a))"
    by (simp add: writes_bytes_value)
qed

lemma validate_available_Inr: "validate_available vs = Inr u \<longleftrightarrow> 0 \<notin> set vs"
  by (induction vs) (auto simp: validateVersion_def)

lemma version_len_ok:
  "versionInformationValueLen n = Inr l \<longleftrightarrow> 4 + 4 * n < 2 ^ 62 \<and> l = word_of_nat (4 + 4 * n)"
proof -
  have "(word_of_nat (4 + 4 * n) :: u64) > max_quic_varint \<longleftrightarrow> \<not> 4 + 4 * n < 2 ^ 62" if "4 + 4 * n < 2 ^ 64"
  proof -
    have "unat (word_of_nat (4 + 4 * n) :: u64) = 4 + 4 * n"
      using that by (simp add: unsigned_of_nat take_bit_nat_eq_self del: of_nat_add of_nat_mult)
    then show ?thesis by (simp add: word_less_nat_alt max_quic_varint_eq del: of_nat_add of_nat_mult) arith
  qed
  then show ?thesis by (auto simp: versionInformationValueLen_def Let_def simp del: of_nat_add of_nat_mult split: if_splits)
qed

lemma sends_versions:
  "sends (encodeVersionInformation v) (versions_ok v) (tlv_bytes P_version_information (version_bytes v))"
proof (cases "validateChosenVersion (vi_chosen_version v)")
  case (Inl e)
  then show ?thesis
    by (auto simp: sends_def encodeVersionInformation_def zbind_def zcheck_def versions_ok_def validateChosenVersion_def
        validateVersion_def ensure_def split: if_splits)
next
  case (Inr u)
  then have chosen: "validateChosenVersion (vi_chosen_version v) = Inr ()" "vi_chosen_version v \<noteq> 0"
      "\<not> isReservedVersion (vi_chosen_version v)"
    by (simp_all add: validateChosenVersion_def validateVersion_def)
  show ?thesis
  proof (cases "4 + 4 * length (vi_available_versions v) < 2 ^ 62")
    case False
    then obtain e where "versionInformationValueLen (length (vi_available_versions v)) = Inl e"
      using version_len_ok [of "length (vi_available_versions v)"]
      by (cases "versionInformationValueLen (length (vi_available_versions v))") auto
    with False chosen(1) show ?thesis
      by (auto simp: sends_def encodeVersionInformation_def zbind_def zcheck_def ztry_with_def zfail_def versions_ok_def)
  next
    case True
    then have len: "versionInformationValueLen (length (vi_available_versions v)) = Inr (len64 (version_bytes v))"
      and l: "length (version_bytes v) < 2 ^ 62"
      by (simp_all add: version_len_ok len64_def version_bytes_def length_versions)
    have "sends (zbind (zcheck (validate_available (vi_available_versions v))) (\<lambda>_. zseq
        ([encodeVarInt (intFromParameterId P_version_information), encodeVarInt (len64 (version_bytes v)),
          writeAll (u32_bytes (vi_chosen_version v))]
         @ map (\<lambda>available. writeAll (u32_bytes available)) (vi_available_versions v)))) (versions_ok v)
        (tlv_bytes P_version_information (version_bytes v))"
      unfolding tlv_bytes_def version_bytes_def [of v] append_Cons append_Nil zseq_Cons
      using True chosen(2,3) value_len_ok(2) [OF l] parameter_id_varint
      by (intro sends_check writes_bind encodeVarInt_writes writes_all writes_versions)
        (auto simp: validate_available_Inr versions_ok_def version_bytes_def max_quic_varint_eq)
    with chosen(1) len show ?thesis by (simp add: encodeVersionInformation_def ztry_with_def)
  qed
qed

definition params_bytes :: "plain_parameters \<Rightarrow> byte list" where
  "params_bytes r = concat (map (field_bytes r) parameter_ids)"

lemma encode_parameters_sends:
  assumes "params_arrays r"
  shows "sends (encode_parameters r) (params_valid r) (params_bytes r)"
proof -
  have token: "sends (if_some (tp_stateless_reset_token r) encodeStatelessResetToken) (field_ok r P_stateless_reset_token)
      (field_bytes r P_stateless_reset_token)"
    using assms by (intro sends_some [where g = "\<lambda>t. t", OF _ sends_token]) (auto simp: params_arrays_def field_bytes_def split: option.splits)
  have preferred: "sends (if_some (tp_preferred_address r) encodePreferredAddress) (field_ok r P_preferred_address)
      (field_bytes r P_preferred_address)"
    using assms by (intro sends_some [OF _ sends_preferred]) (auto simp: params_arrays_def field_bytes_def split: option.splits)
  have versions: "sends (if_some (tp_version_information r) encodeVersionInformation) (field_ok r P_version_information)
      (field_bytes r P_version_information)"
    by (intro sends_some [OF _ sends_versions]) (auto simp: field_bytes_def split: option.splits)
  have migration: "sends (if_then (tp_disable_active_migration r) (encodeZeroLengthValue P_disable_active_migration))
      (field_ok r P_disable_active_migration) (field_bytes r P_disable_active_migration)"
    using sends_zero writes_ret by (simp add: sends_def field_bytes_def)
  show ?thesis
    unfolding encode_parameters_def params_valid_def params_bytes_def
    apply (rule sends_zseq)
    unfolding parameter_ids_def list_all2_Cons list_all2_Nil
    by (intro conjI TrueI refl token preferred versions migration)
      (rule sends_integer sends_some [where g = "\<lambda>c. c", OF _ sends_connection_id];
       simp add: default_parameters_def field_bytes_def)+
qed

section \<open>The parser accepts valid parameters only\<close>

definition preferred_elems :: "byte slice preferred_address \<Rightarrow> byte list preferred_address" where
  "preferred_elems a = \<lparr>pa_ipv4_address = pa_ipv4_address a, pa_ipv4_port = pa_ipv4_port a,
     pa_ipv6_address = pa_ipv6_address a, pa_ipv6_port = pa_ipv6_port a, pa_connection_id = elems (pa_connection_id a),
     pa_stateless_reset_token = pa_stateless_reset_token a\<rparr>"

definition versions_elems :: "version slice version_information \<Rightarrow> version list version_information" where
  "versions_elems v = \<lparr>vi_chosen_version = vi_chosen_version v, vi_available_versions = elems (vi_available_versions v)\<rparr>"

definition params_elems :: "held_parameters \<Rightarrow> plain_parameters" where
  "params_elems r =
     \<lparr>tp_original_destination_connection_id = map_option elems (tp_original_destination_connection_id r),
      tp_max_idle_timeout = tp_max_idle_timeout r, tp_stateless_reset_token = tp_stateless_reset_token r,
      tp_max_udp_payload_size = tp_max_udp_payload_size r, tp_initial_max_data = tp_initial_max_data r,
      tp_initial_max_stream_data_bidi_local = tp_initial_max_stream_data_bidi_local r,
      tp_initial_max_stream_data_bidi_remote = tp_initial_max_stream_data_bidi_remote r,
      tp_initial_max_stream_data_uni = tp_initial_max_stream_data_uni r,
      tp_initial_max_streams_bidi = tp_initial_max_streams_bidi r, tp_initial_max_streams_uni = tp_initial_max_streams_uni r,
      tp_ack_delay_exponent = tp_ack_delay_exponent r, tp_max_ack_delay = tp_max_ack_delay r,
      tp_disable_active_migration = tp_disable_active_migration r,
      tp_preferred_address = map_option preferred_elems (tp_preferred_address r),
      tp_active_connection_id_limit = tp_active_connection_id_limit r,
      tp_initial_source_connection_id = map_option elems (tp_initial_source_connection_id r),
      tp_retry_source_connection_id = map_option elems (tp_retry_source_connection_id r),
      tp_version_information = map_option versions_elems (tp_version_information r)\<rparr>"

lemma yields_map: "yields m (\<lambda>x. P (f x)) \<Longrightarrow> yields (zmap f m) P"
  unfolding zmap_def by (erule yields_bind) (rule yields_basic)

lemma yields_weaken: "yields m P \<Longrightarrow> (\<And>x. P x \<Longrightarrow> Q x) \<Longrightarrow> yields m Q"
  unfolding yields_def by blast

lemma yields_ensure: "(c \<Longrightarrow> yields (f ()) P) \<Longrightarrow> yields (zbind (zcheck (ensure c e)) f) P"
  by (cases c) (auto simp: yields_def zbind_def zcheck_def)

lemma preferred_valid: "yields (parsePreferredAddress value) (\<lambda>a. preferred_ok (preferred_elems a))"
proof -
  have owned: "yields (readOwnedBytes n) (\<lambda>s. length (elems s) = n)" for n
    using yields_bytes [of False n] by (auto simp: readBytes_def elim: yields_weaken)
  have len: "Suc 0 \<le> unat n \<and> unat n \<le> 20" if "\<not> (n = 0 \<or> n > 20)" for n :: byte
    using that by (auto simp: word_less_nat_alt not_less Suc_le_eq unat_gt_0)
  show ?thesis
    unfolding parsePreferredAddress_def
    apply (rule yields_ensure yields_inner yields_bind [OF yields_no_eof] yields_bind [OF owned] yields_errdefer yields_bind_any
        yields_basic)+
    apply (simp add: preferred_ok_def preferred_elems_def len)
    done
qed

lemma parse_available_ok: "parse_available n value = Inr vs \<Longrightarrow> 0 \<notin> set vs \<and> length vs = n"
  by (induction n "value" arbitrary: vs rule: parse_available.induct) (auto simp: Let_def validateVersion_def)

lemma versions_valid:
  assumes "length value < 2 ^ 62"
  shows "yields (parseVersionInformation value) (\<lambda>v. versions_ok (versions_elems v))"
proof -
  have chosen: "yields (zbind (zcheck (validateChosenVersion c)) f) P"
    if "c \<noteq> 0 \<Longrightarrow> \<not> isReservedVersion c \<Longrightarrow> yields (f ()) P" for c P and f :: "unit \<Rightarrow> (version slice version_information, decoder) zig"
    using that unfolding validateChosenVersion_def validateVersion_def
    by (cases "c \<noteq> 0 \<and> \<not> isReservedVersion c") (auto simp: yields_def zbind_def zcheck_def ensure_def)
  show ?thesis
    unfolding parseVersionInformation_def Let_def
    apply (rule yields_ensure chosen yields_bind_any yields_errdefer yields_try_with yields_basic)+
    using assms apply (auto simp: versions_ok_def versions_elems_def dest!: parse_available_ok)
    done
qed

lemma integer_value_valid: "yields (integer_value p value f) P"
  if "\<And>v. validateIntegerParameter p v = Inr () \<Longrightarrow> P (f v)"
  unfolding integer_value_def by (intro yields_try_with yields_basic) (auto simp: parseIntegerValue_def that)

lemma connection_id_valid: "yields (connection_id_value value f) P"
  if "\<And>s. length (elems s) \<le> 20 \<Longrightarrow> P (f s)"
  unfolding connection_id_value_def tp_validateConnectionIdLen_def
  by (intro yields_ensure yields_map yields_weaken [OF clone_memory(2)]) (auto intro: that)

lemma parse_value_valid:
  assumes "params_valid (params_elems r)" and "length value < 2 ^ 62"
  shows "yields (parse_value raw value r) (\<lambda>r'. params_valid (params_elems r'))"
proof (cases "parameterIdFromInt raw")
  case None
  with assms(1) show ?thesis by (simp add: parse_value_def yields_basic)
next
  case (Some p)
  note fields = assms(1) [unfolded params_valid_def parameter_ids_def params_elems_def, simplified]
  note limits = validateIntegerParameter_def max_idle_timeout_ms_cap_def max_udp_payload_size_default_def max_stream_count_def
    not_less not_le
  show ?thesis
    using Some unfolding parse_value_def
    by (cases p; simp only: option.case parameter_id.case)
      (rule connection_id_valid integer_value_valid yields_ensure yields_map yields_weaken [OF preferred_valid]
        yields_weaken [OF versions_valid [OF assms(2)]] yields_basic
      | use fields in \<open>simp add: params_valid_def parameter_ids_def params_elems_def limits split: if_splits; fail\<close>)+
qed

lemma header_varints: "yields read_header (\<lambda>(raw, n). raw \<le> max_quic_varint \<and> n \<le> max_quic_varint)"
  unfolding read_header_def
  by (rule yields_bind [OF decodeVarInt_value] | rule yields_basic | clarsimp)+

lemma value_slice_length: "yields (readValueSlice n) (\<lambda>v. length v \<le> unat n)"
  by (auto simp: yields_def readValueSlice_def Let_def split: if_splits)

lemma parse_loop_valid:
  assumes "params_valid (params_elems r)" and "parse_loop grow r seen d = (Inr r', d')"
  shows "params_valid (params_elems r')"
  using assms
proof (induction "remainingLen d" arbitrary: r seen d rule: less_induct)
  case less
  from less(3) show ?case
  proof (cases rule: parse_loop_cases)
    case (again raw n d1 seen' d2 r1 d3)
    have "n \<le> max_quic_varint" using header_varints again(1) unfolding yields_def by fastforce
    then have n: "unat n < 2 ^ 62" by (simp add: word_le_nat_alt max_quic_varint_eq)
    have "yields (zbind (readValueSlice n) (\<lambda>value. parse_value raw value r)) (\<lambda>r'. params_valid (params_elems r'))"
      by (rule yields_bind [OF value_slice_length]) (rule parse_value_valid [OF less(2)], use n in simp)
    with again(3) have "params_valid (params_elems r1)" unfolding yields_def by blast
    then show ?thesis by (rule less(1) [OF again(5) _ again(4)])
  qed (use less(2) in auto)
qed

text \<open>
  Property C25: the parser accepts valid transport parameters only. Whatever the peer sends, every parameter of a
  successful parse is within the limits of the standards: connection IDs of at most 20 bytes, at least
  1200 and at most 65527 bytes of UDP payload, at most \<open>2 ^ 60\<close> streams, an acknowledgement delay exponent of at most
  20 and a delay below \<open>2 ^ 14\<close> ms, at least 2 connection IDs, a non-empty connection ID in a preferred address, no
  reserved or zero chosen version and no zero among the available ones, and an idle timeout of at most
  \<open>2 ^ 32\<close> ms, so that its conversion to nanoseconds cannot overflow.
\<close>

theorem transport_parameters_valid:
  "yields (parse_parameters grow data) (\<lambda>r. params_valid (params_elems r))"
proof -
  have "params_valid (params_elems default_parameters)"
    by (simp add: params_valid_def parameter_ids_def params_elems_def default_parameters_def max_udp_payload_size_default_def
        max_quic_varint_eq)
  then show ?thesis
    unfolding parse_parameters_def by (intro yields_reader) (auto simp: yields_def intro: parse_loop_valid)
qed

section \<open>The parser gives back what was sent\<close>

fun copy_field :: "plain_parameters \<Rightarrow> parameter_id \<Rightarrow> plain_parameters \<Rightarrow> plain_parameters" where
  "copy_field s P_original_destination_connection_id r =
     r\<lparr>tp_original_destination_connection_id := tp_original_destination_connection_id s\<rparr>"
| "copy_field s P_max_idle_timeout r = r\<lparr>tp_max_idle_timeout := tp_max_idle_timeout s\<rparr>"
| "copy_field s P_stateless_reset_token r = r\<lparr>tp_stateless_reset_token := tp_stateless_reset_token s\<rparr>"
| "copy_field s P_max_udp_payload_size r = r\<lparr>tp_max_udp_payload_size := tp_max_udp_payload_size s\<rparr>"
| "copy_field s P_initial_max_data r = r\<lparr>tp_initial_max_data := tp_initial_max_data s\<rparr>"
| "copy_field s P_initial_max_stream_data_bidi_local r =
     r\<lparr>tp_initial_max_stream_data_bidi_local := tp_initial_max_stream_data_bidi_local s\<rparr>"
| "copy_field s P_initial_max_stream_data_bidi_remote r =
     r\<lparr>tp_initial_max_stream_data_bidi_remote := tp_initial_max_stream_data_bidi_remote s\<rparr>"
| "copy_field s P_initial_max_stream_data_uni r = r\<lparr>tp_initial_max_stream_data_uni := tp_initial_max_stream_data_uni s\<rparr>"
| "copy_field s P_initial_max_streams_bidi r = r\<lparr>tp_initial_max_streams_bidi := tp_initial_max_streams_bidi s\<rparr>"
| "copy_field s P_initial_max_streams_uni r = r\<lparr>tp_initial_max_streams_uni := tp_initial_max_streams_uni s\<rparr>"
| "copy_field s P_ack_delay_exponent r = r\<lparr>tp_ack_delay_exponent := tp_ack_delay_exponent s\<rparr>"
| "copy_field s P_max_ack_delay r = r\<lparr>tp_max_ack_delay := tp_max_ack_delay s\<rparr>"
| "copy_field s P_disable_active_migration r = r\<lparr>tp_disable_active_migration := tp_disable_active_migration s\<rparr>"
| "copy_field s P_preferred_address r = r\<lparr>tp_preferred_address := tp_preferred_address s\<rparr>"
| "copy_field s P_active_connection_id_limit r = r\<lparr>tp_active_connection_id_limit := tp_active_connection_id_limit s\<rparr>"
| "copy_field s P_initial_source_connection_id r =
     r\<lparr>tp_initial_source_connection_id := tp_initial_source_connection_id s\<rparr>"
| "copy_field s P_retry_source_connection_id r = r\<lparr>tp_retry_source_connection_id := tp_retry_source_connection_id s\<rparr>"
| "copy_field s P_version_information r = r\<lparr>tp_version_information := tp_version_information s\<rparr>"

lemma reads_map: "reads m [] (\<lambda>x. P (f x)) \<Longrightarrow> reads (zmap f m) [] P"
  unfolding zmap_def using reads_bind [of m "[]" "\<lambda>x. P (f x)" "\<lambda>x. zret (f x)" "[]" P] by (simp add: reads_ret)

lemma reads_clone: "reads (cloneBytes data) [] (\<lambda>s. elems s = data)"
  unfolding cloneBytes_def by (intro reads_alloc reads_ret) simp

lemma reads_inner:
  assumes "reads_at 0 p data [] P"
  shows "reads (inner_reader data p) [] P"
  unfolding reads_def
proof (intro allI impI)
  fix d :: decoder and rest
  assume d: "fr_ok d" "\<forall>i. \<not> al_fails d i"
  obtain x d' where "p (d\<lparr>fr_data := data, fr_pos := 0\<rparr>) = (Inr x, d')" "P x" "al_fails d' = al_fails d"
    by (rule reads_atD [OF assms, of "d\<lparr>fr_data := data, fr_pos := 0\<rparr>"]) (use d in \<open>auto simp: fr_ok_def\<close>)
  then show "\<exists>x d'. inner_reader data p d = (Inr x, d') \<and> P x \<and> fr_data d' = fr_data d \<and>
      fr_pos d' = fr_pos d + length [] \<and> al_fails d' = al_fails d"
    by (simp add: inner_reader_def)
qed

lemma parseIntegerValue_varint:
  assumes "validateIntegerParameter p v = Inr ()"
  shows "parseIntegerValue p (varint_bytes v) = Inr v"
proof -
  have same: "fst (decodeVarInt (fixedReader data)) = fst (decodeVarInt (no_alloc\<lparr>fr_data := data\<rparr>))" for data
    by (auto simp: decodeVarInt_def zbind_def readByte_def readNoEof_def fixedReader_def zret_def Let_def split: if_splits)
  obtain d' where "decodeVarInt (no_alloc\<lparr>fr_data := varint_bytes v\<rparr>) = (Inr (v, length (varint_bytes v)), d')"
    by (rule readsD [OF decodeVarInt_reads [OF integer_ok_varint [OF assms]], of "no_alloc\<lparr>fr_data := varint_bytes v\<rparr>" "[]"])
      (simp_all add: fr_ok_def)
  with assms show ?thesis by (simp add: parseIntegerValue_def same)
qed

lemma reads_integer:
  "validateIntegerParameter p v = Inr () \<Longrightarrow> P (f v) \<Longrightarrow> reads (integer_value p (varint_bytes v) f) [] P"
  unfolding integer_value_def by (intro reads_try_with [OF parseIntegerValue_varint] reads_ret)

lemma reads_connection_id:
  "length c \<le> 20 \<Longrightarrow> (\<And>s. elems s = c \<Longrightarrow> P (f s)) \<Longrightarrow> reads (connection_id_value c f) [] P"
  unfolding connection_id_value_def
  by (intro reads_check reads_map reads_weaken [OF reads_clone]) (simp_all add: tp_validateConnectionIdLen_def)

lemma readInt_u16_bytes [simp]: "readInt_u16 (u16_bytes v) = v"
proof -
  have "push_bit 8 (ucast (ucast (drop_bit 8 v) :: byte)) OR ucast (ucast v :: byte) = (v :: 16 word)"
  proof (rule bit_word_eqI)
    fix n
    assume "n < LENGTH(16)"
    then consider "n < 8" | "8 \<le> n" "n < 16" by fastforce
    then show "bit (push_bit 8 (ucast (ucast (drop_bit 8 v) :: byte)) OR ucast (ucast v :: byte) :: 16 word) n = bit v n"
      by cases (auto simp: bit_simps)
  qed
  then show ?thesis by (simp add: readInt_u16_def u16_bytes_def)
qed

lemma reads_preferred:
  assumes "preferred_ok a"
  shows "reads (parsePreferredAddress (preferred_bytes a)) [] (\<lambda>x. preferred_elems x = a)"
proof -
  have len: "length (pa_ipv4_address a) = 4" "length (pa_ipv6_address a) = 16" "pa_connection_id a \<noteq> []"
      "length (pa_connection_id a) \<le> 20" "length (pa_stateless_reset_token a) = 16"
    using assms by (auto simp: preferred_ok_def)
  have cid: "unat (word_of_nat (length (pa_connection_id a)) :: byte) = length (pa_connection_id a)"
    "(word_of_nat (length (pa_connection_id a)) :: byte) \<noteq> 0"
    using cid_len_byte [OF len(4)] len(3) by (auto simp: unat_eq_0)
  show ?thesis
    unfolding parsePreferredAddress_def
    apply (rule reads_check)
     apply (use len in \<open>simp add: preferred_bytes_def cid_bytes_def Suc_le_eq\<close>)
    apply (rule reads_inner)
    unfolding preferred_bytes_def cid_bytes_def append_Cons
    apply (intro reads_at_no_eof_then reads_at_byte_then reads_at_check reads_at_remaining)
          apply (simp_all add: len cid cid_len_byte(2) [OF len(4)] del: word_of_nat_eq_0_iff)
    apply (rule reads_at_owned_then)
     apply (simp add: cid)
    apply (rule reads_at_errdefer)
    apply (rule reads_reads_at, rule reads_block_then)
    apply (simp_all add: len preferred_elems_def)
    done
qed

lemma parse_available_bytes:
  "0 \<notin> set vs \<Longrightarrow> parse_available (length vs) (concat (map u32_bytes vs)) = Inr vs"
  by (induction vs) (simp_all add: validateVersion_def Let_def)

lemma reads_versions_value:
  assumes "versions_ok v"
  shows "reads (parseVersionInformation (version_bytes v)) [] (\<lambda>x. versions_elems x = v)"
proof -
  have len: "length (version_bytes v) = 4 + 4 * length (vi_available_versions v)"
    by (simp add: version_bytes_def length_versions)
  have bytes: "take 4 (version_bytes v) = u32_bytes (vi_chosen_version v)"
      "drop 4 (version_bytes v) = concat (map u32_bytes (vi_available_versions v))"
    by (simp_all add: version_bytes_def)
  show ?thesis
    using assms parse_available_bytes [of "vi_available_versions v"]
    unfolding parseVersionInformation_def Let_def len bytes versions_ok_def
    by (intro reads_check reads_alloc reads_errdefer reads_try_with reads_ret)
      (auto simp: validateChosenVersion_def validateVersion_def versions_elems_def)
qed

lemma parameterIdFromInt_inverse [simp]: "parameterIdFromInt (intFromParameterId p) = Some p"
  by (cases p) (simp_all add: parameterIdFromInt_def)

lemma reads_value:
  assumes "field_value p s = Some v" and "field_ok s p"
  shows "reads (parse_value (intFromParameterId p) v r) [] (\<lambda>r'. params_elems r' = copy_field s p (params_elems r))"
proof -
  have int: "validateIntegerParameter p w = Inr () \<and> v = varint_bytes w" if "integer_field p s = Some w" for w
    using assms integer_field_ok [OF that] integer_field_value [OF that] by (auto split: if_splits)
  show ?thesis
    unfolding parse_value_def parameterIdFromInt_inverse option.case
    apply (cases p; simp only: parameter_id.case)
    using assms int
    apply (auto simp: params_elems_def split: if_splits
        intro!: reads_connection_id reads_integer reads_check reads_ret reads_map
          reads_weaken [OF reads_preferred] reads_weaken [OF reads_versions_value])
    done
qed

lemma reads_header:
  "raw \<le> max_quic_varint \<Longrightarrow> n \<le> max_quic_varint \<Longrightarrow>
     reads read_header (varint_bytes raw @ varint_bytes n) (\<lambda>h. h = (raw, n))"
  unfolding read_header_def
  by (intro reads_varint_then reads_varint_then [where cs = "[]", unfolded append_Nil2] reads_ret | simp)+

lemma reads_value_slice: "unat n = length v \<Longrightarrow> reads (readValueSlice n) v (\<lambda>x. x = v)"
  unfolding reads_def readValueSlice_def Let_def remainingLen_def
  using drop_pos(2) by (fastforce simp: fr_ok_def)

lemma reads_remember:
  "raw \<notin> set (list_items seen) \<Longrightarrow> reads (rememberParameterId grow seen raw) [] (\<lambda>seen'. list_items seen' = list_items seen @ [raw])"
  by (auto simp: reads_def rememberParameterId_def list_append_def zig_alloc_def Let_def free_block_def free_id_def
      split: option.splits)

definition copy_sent :: "plain_parameters \<Rightarrow> parameter_id \<Rightarrow> plain_parameters \<Rightarrow> plain_parameters" where
  "copy_sent s p r = (if field_value p s = None then r else copy_field s p r)"

lemma field_value_short: "field_value p s = Some v \<Longrightarrow> field_ok s p \<Longrightarrow> length v < 2 ^ 62"
  apply (cases p)
  by (auto simp: preferred_ok_def preferred_bytes_def cid_bytes_def versions_ok_def version_bytes_def length_versions
      length_varint_bytes split: if_splits)

lemma parse_loop_step:
  assumes "field_value p s = Some v" and "field_ok s p" and "intFromParameterId p \<notin> set (list_items seen)"
    and "fr_ok d" and "\<forall>i. \<not> al_fails d i" and "drop (fr_pos d) (fr_data d) = tlv_bytes p v @ rest"
  obtains r' seen' d' where "parse_loop grow r seen d = parse_loop grow r' seen' d'"
    "params_elems r' = copy_field s p (params_elems r)" "list_items seen' = list_items seen @ [intFromParameterId p]"
    "fr_ok d'" "\<forall>i. \<not> al_fails d' i" "drop (fr_pos d') (fr_data d') = rest"
proof -
  note len = value_len_ok [OF field_value_short [OF assms(1,2)]]
  let ?raw = "intFromParameterId p" and ?n = "len64 v"
  have 0: "drop (fr_pos d) (fr_data d) = (varint_bytes ?raw @ varint_bytes ?n) @ v @ rest"
    using assms(6) by (simp add: tlv_bytes_def)
  obtain d1 where 1: "read_header d = (Inr (?raw, ?n), d1)" "fr_data d1 = fr_data d" "al_fails d1 = al_fails d"
      "fr_pos d1 = fr_pos d + length (varint_bytes ?raw @ varint_bytes ?n)"
    by (rule readsD [OF reads_header [OF parameter_id_varint len(2)] assms(4,5) 0]) simp
  have d1: "fr_ok d1" "\<forall>i. \<not> al_fails d1 i" "drop (fr_pos d1) (fr_data d1) = [] @ v @ rest"
    using drop_pos [OF 0] assms(4,5) 1 by (simp_all add: fr_ok_def)
  obtain seen' d2 where 2: "rememberParameterId grow seen ?raw d1 = (Inr seen', d2)" "list_items seen' = list_items seen @ [?raw]"
      "fr_data d2 = fr_data d1" "al_fails d2 = al_fails d1" "fr_pos d2 = fr_pos d1 + length ([] :: byte list)"
    by (rule readsD [OF reads_remember [OF assms(3)] d1]) simp
  have d2: "fr_ok d2" "\<forall>i. \<not> al_fails d2 i" "drop (fr_pos d2) (fr_data d2) = (v @ []) @ rest"
    using d1 2 by (simp_all add: fr_ok_def)
  have "reads (zbind (readValueSlice ?n) (\<lambda>value. parse_value ?raw value r)) (v @ [])
      (\<lambda>r'. params_elems r' = copy_field s p (params_elems r))"
    by (rule reads_bind [OF reads_value_slice [OF len(3)]]) (simp add: reads_value [OF assms(1,2)])
  from readsD [OF this d2] obtain r' d3 where 3:
      "zbind (readValueSlice ?n) (\<lambda>value. parse_value ?raw value r) d2 = (Inr r', d3)"
      "params_elems r' = copy_field s p (params_elems r)" "fr_data d3 = fr_data d2"
      "fr_pos d3 = fr_pos d2 + length (v @ [])" "al_fails d3 = al_fails d2" .
  have "remainingLen d \<noteq> 0"
    using drop_pos(2) [OF 0] assms(4) by (simp add: remainingLen_def fr_ok_def length_varint_bytes split: if_splits)
  then have "parse_loop grow r seen d = parse_loop grow r' seen' d3"
    using 1(1) 2(1) 3(1) by (simp add: parse_loop.simps [of grow r seen d])
  moreover have "fr_ok d3" "\<forall>i. \<not> al_fails d3 i" "drop (fr_pos d3) (fr_data d3) = rest"
    using drop_pos [OF d2(3)] d2 3 by (simp_all add: fr_ok_def)
  ultimately show ?thesis using that 2(2) 3(2) by blast
qed

lemma parse_loop_reads:
  assumes "\<forall>p \<in> set ps. field_ok s p" and "distinct ps" and "intFromParameterId ` set ps \<inter> set (list_items seen) = {}"
    and "fr_ok d" and "\<forall>i. \<not> al_fails d i" and "drop (fr_pos d) (fr_data d) = concat (map (field_bytes s) ps)"
  shows "\<exists>r' d'. parse_loop grow r seen d = (Inr r', d') \<and> params_elems r' = fold (copy_sent s) ps (params_elems r)"
  using assms
proof (induction ps arbitrary: r seen d)
  case Nil
  then show ?case by (simp add: parse_loop.simps [of grow r seen d] remainingLen_def)
next
  case (Cons p ps)
  show ?case
  proof (cases "field_value p s")
    case None
    with Cons show ?thesis by (simp add: copy_sent_def field_bytes_def)
  next
    case (Some v)
    have "drop (fr_pos d) (fr_data d) = tlv_bytes p v @ concat (map (field_bytes s) ps)"
      using Cons.prems(6) Some by (simp add: field_bytes_def [of s p])
    from parse_loop_step [OF Some _ _ Cons.prems(4,5) this, of seen grow r] Cons.prems(1,3)
    obtain r' seen' d' where step: "parse_loop grow r seen d = parse_loop grow r' seen' d'"
        "params_elems r' = copy_field s p (params_elems r)" "list_items seen' = list_items seen @ [intFromParameterId p]"
        "fr_ok d'" "\<forall>i. \<not> al_fails d' i" "drop (fr_pos d') (fr_data d') = concat (map (field_bytes s) ps)"
      by auto
    have "intFromParameterId p \<noteq> intFromParameterId q" if "q \<in> set ps" for q
      using Cons.prems(2) that parameterIdFromInt_inverse by (metis distinct.simps(2) option.inject)
    then have "intFromParameterId ` set ps \<inter> set (list_items seen') = {}"
      using Cons.prems(3) step(3) by auto
    from Cons.IH [OF _ _ this step(4-6), of r'] Cons.prems(1,2) step(1,2) Some show ?thesis
      by (simp add: copy_sent_def)
  qed
qed

lemma copy_unsent: "field_value p s = None \<Longrightarrow> copy_field s p r = copy_field default_parameters p r"
  by (cases p) (auto simp: default_parameters_def split: if_splits)

lemma copy_sent_default: "copy_field default_parameters p r = r \<Longrightarrow> copy_sent s p r = copy_field s p r"
  by (auto simp: copy_sent_def copy_unsent)

lemma copy_all: "fold (copy_sent s) parameter_ids default_parameters = s"
  by (simp add: parameter_ids_def copy_sent_default default_parameters_def)

text \<open>
  Property C24: transport parameters survive the wire. Whatever parameters an endpoint encodes successfully, the parser
  of the peer accepts the bytes and returns the same parameters: those that the encoder left out because they
  have their defaults included.
\<close>

theorem transport_parameters_roundtrip:
  assumes "params_arrays params" and "encode_parameters params (fixedWriter buffer) = (Inr (), w)"
    and "\<forall>i. \<not> al_fails d i"
  shows "\<exists>r d'. parse_parameters grow (getWritten w) d = (Inr r, d') \<and> params_elems r = params"
proof -
  have sent: "sends (encode_parameters params) (params_valid params) (params_bytes params)"
    by (rule encode_parameters_sends [OF assms(1)])
  with assms(2) have valid: "params_valid params" unfolding sends_def by (metis Inl_Inr_False prod.inject)
  with sent have "writes (encode_parameters params) (params_bytes params)" by (simp add: sends_def)
  from written [OF this assms(2)] have bytes: "getWritten w = params_bytes params" .
  let ?d = "d\<lparr>fr_data := params_bytes params, fr_pos := 0\<rparr>"
  have "\<exists>r d'. parse_loop grow default_parameters \<lparr>list_block = None, list_items = []\<rparr> ?d = (Inr r, d') \<and>
      params_elems r = fold (copy_sent params) parameter_ids (params_elems default_parameters)"
    by (rule parse_loop_reads) (use valid assms(3) in \<open>simp_all add: params_valid_def parameter_ids_def fr_ok_def params_bytes_def\<close>)
  moreover have "params_elems default_parameters = default_parameters"
    by (simp add: params_elems_def default_parameters_def)
  ultimately show ?thesis
    by (simp add: bytes parse_parameters_def with_reader_def copy_all)
qed

lemma encoded_if_valid:
  assumes "params_arrays r" and "params_valid r" and "length (params_bytes r) \<le> n"
  obtains w where "encode_parameters r (fixedWriter (replicate n 0)) = (Inr (), w)"
proof -
  have "writes (encode_parameters r) (params_bytes r)"
    using encode_parameters_sends [OF assms(1)] assms(2) by (simp add: sends_def)
  with that assms(3) show ?thesis by (meson written_fits)
qed

theorem transport_parameters_roundtrip_witness:
  "let params = default_parameters\<lparr>tp_max_idle_timeout := 30000, tp_initial_source_connection_id := Some [1, 2, 3],
       tp_stateless_reset_token := Some (replicate 16 7), tp_disable_active_migration := True,
       tp_version_information := Some \<lparr>vi_chosen_version = 1, vi_available_versions = [1, 0x6b3343cf]\<rparr>\<rparr> in
   \<exists>w r d'. encode_parameters params (fixedWriter (replicate 64 0)) = (Inr (), w) \<and>
     parse_parameters even (getWritten w) no_alloc = (Inr r, d') \<and> params_elems r = params"
proof -
  let ?params = "default_parameters\<lparr>tp_max_idle_timeout := 30000, tp_initial_source_connection_id := Some [1, 2, 3],
       tp_stateless_reset_token := Some (replicate 16 7), tp_disable_active_migration := True,
       tp_version_information := Some \<lparr>vi_chosen_version = 1, vi_available_versions = [1, 0x6b3343cf]\<rparr>\<rparr>"
  have arrays: "params_arrays ?params" by (simp add: params_arrays_def default_parameters_def)
  moreover have "params_valid ?params"
    by (simp add: params_valid_def parameter_ids_def default_parameters_def max_udp_payload_size_default_def max_quic_varint_eq
        versions_ok_def isReservedVersion_def)
  moreover have "length (params_bytes ?params) \<le> 64"
    by (simp add: params_bytes_def parameter_ids_def field_bytes_def default_parameters_def tlv_bytes_def len64_def version_bytes_def
      length_varint_bytes)
  ultimately obtain w where w: "encode_parameters ?params (fixedWriter (replicate 64 0)) = (Inr (), w)"
    by (rule encoded_if_valid)
  from transport_parameters_roundtrip [OF arrays w, of no_alloc even] w show ?thesis
    unfolding Let_def by simp
qed

end
