(* ===== verification/Pmtu.thy ===== *)
theory Pmtu
  imports C_Memory
begin

text \<open>
  Path MTU discovery (\<^verbatim>\<open>src/src/quic/pmtu.zig\<close>): the state machine that probes with larger and larger datagrams. A
  \<^verbatim>\<open>usize\<close> is a \<open>nat\<close>; \<^verbatim>\<open>onProbeLost\<close> counts in a \<^verbatim>\<open>u8\<close>, and the value \<open>None\<close> is the panic on its overflow.
\<close>

section \<open>The state machine\<close>

definition quic_min_mtu :: nat where
  "quic_min_mtu = 1200"

definition default_probe_sizes :: "nat list" where
  "default_probe_sizes = [1200, 1350, 1500, 2000, 4000, 8000]"

record pmtu_probe =
  pm_effective_mtu :: nat
  pm_probe_index :: nat
  pm_probe_in_flight :: bool
  pm_probe_failures :: nat
  pm_max_probe_failures :: nat
  pm_probe_sizes :: "nat list"
  pm_discovery_complete :: bool

text \<open>\<^verbatim>\<open>PmtuProbe{}\<close> with the sizes and the number of attempts of the caller's choice.\<close>

definition new_probe :: "nat list \<Rightarrow> nat \<Rightarrow> pmtu_probe" where
  "new_probe probe_sizes max_probe_failures =
     \<lparr>pm_effective_mtu = quic_min_mtu, pm_probe_index = 0, pm_probe_in_flight = False, pm_probe_failures = 0,
      pm_max_probe_failures = max_probe_failures, pm_probe_sizes = probe_sizes, pm_discovery_complete = False\<rparr>"

function skip_sizes :: "nat list \<Rightarrow> nat \<Rightarrow> nat \<Rightarrow> nat" where
  "skip_sizes probe_sizes effective_mtu probe_index =
     (if probe_index < length probe_sizes \<and> probe_sizes ! probe_index \<le> effective_mtu
      then skip_sizes probe_sizes effective_mtu (probe_index + 1)
      else probe_index)"
  by pat_completeness auto

termination
  by (relation "measure (\<lambda>(sizes, mtu, i). length sizes - i)") auto

declare skip_sizes.simps [simp del]

definition nextProbeSize :: "pmtu_probe \<Rightarrow> nat option \<times> pmtu_probe" where
  "nextProbeSize self =
     (if pm_discovery_complete self then (None, self)
      else let
        i = skip_sizes (pm_probe_sizes self) (pm_effective_mtu self) (pm_probe_index self);
        self = self\<lparr>pm_probe_index := i\<rparr> in
      if i \<ge> length (pm_probe_sizes self) then (None, self\<lparr>pm_discovery_complete := True\<rparr>)
      else (Some (pm_probe_sizes self ! i), self))"

definition startProbe :: "pmtu_probe \<Rightarrow> nat option \<times> pmtu_probe" where
  "startProbe self =
     (case nextProbeSize self of
        (None, self) \<Rightarrow> (None, self\<lparr>pm_discovery_complete := True\<rparr>)
      | (Some probe_size, self) \<Rightarrow> (Some probe_size, self\<lparr>pm_probe_in_flight := True\<rparr>))"

definition onProbeAcked :: "pmtu_probe \<Rightarrow> pmtu_probe" where
  "onProbeAcked self =
     (if \<not> pm_probe_in_flight self then self
      else let
        self = (if pm_probe_index self < length (pm_probe_sizes self)
          then self\<lparr>pm_effective_mtu := pm_probe_sizes self ! pm_probe_index self\<rparr> else self);
        self = self\<lparr>pm_probe_in_flight := False, pm_probe_failures := 0, pm_probe_index := pm_probe_index self + 1\<rparr> in
      if pm_probe_index self \<ge> length (pm_probe_sizes self) then self\<lparr>pm_discovery_complete := True\<rparr> else self)"

definition onProbeLost :: "pmtu_probe \<Rightarrow> pmtu_probe option" where
  "onProbeLost self =
     (if \<not> pm_probe_in_flight self then Some self
      else if pm_probe_failures self + 1 > 255 then None
      else let self = self\<lparr>pm_probe_failures := pm_probe_failures self + 1\<rparr> in
        if pm_probe_failures self \<ge> pm_max_probe_failures self
        then Some (self\<lparr>pm_probe_in_flight := False, pm_discovery_complete := True\<rparr>)
        else Some self)"

definition reset_probe :: "pmtu_probe \<Rightarrow> pmtu_probe" where
  "reset_probe self = self\<lparr>pm_effective_mtu := quic_min_mtu, pm_probe_index := 0, pm_probe_in_flight := False,
     pm_probe_failures := 0, pm_discovery_complete := False\<rparr>"

section \<open>Safety: any order of events\<close>

datatype pmtu_event = Probe_start | Probe_acked | Probe_lost | Probe_reset

inductive pmtu_step :: "pmtu_probe \<Rightarrow> pmtu_event \<Rightarrow> pmtu_probe \<Rightarrow> bool" where
  step_start: "pmtu_step p Probe_start (snd (startProbe p))"
| step_acked: "pmtu_step p Probe_acked (onProbeAcked p)"
| step_lost: "onProbeLost p = Some p' \<Longrightarrow> pmtu_step p Probe_lost p'"
| step_reset: "pmtu_step p Probe_reset (reset_probe p)"

inductive pmtu_reachable :: "nat list \<Rightarrow> nat \<Rightarrow> pmtu_probe \<Rightarrow> bool" for probe_sizes attempts where
  reach_new: "pmtu_reachable probe_sizes attempts (new_probe probe_sizes attempts)"
| reach_step: "pmtu_reachable probe_sizes attempts p \<Longrightarrow> pmtu_step p event p' \<Longrightarrow> pmtu_reachable probe_sizes attempts p'"

inductive_simps pmtu_step_simps:
  "pmtu_step p Probe_start p'" "pmtu_step p Probe_acked p'" "pmtu_step p Probe_lost p'" "pmtu_step p Probe_reset p'"

text \<open>
  The invariant: a probe in flight is for a size beyond the confirmed one, the confirmed one is the
  minimum or was probed, and the failures stay within the number of attempts.
\<close>

definition pmtu_inv :: "nat list \<Rightarrow> nat \<Rightarrow> pmtu_probe \<Rightarrow> bool" where
  "pmtu_inv probe_sizes attempts p \<longleftrightarrow>
     pm_probe_sizes p = probe_sizes \<and> pm_max_probe_failures p = attempts \<and>
     quic_min_mtu \<le> pm_effective_mtu p \<and> pm_effective_mtu p \<in> insert quic_min_mtu (set probe_sizes) \<and>
     (pm_probe_in_flight p \<longrightarrow> \<not> pm_discovery_complete p \<and> pm_probe_index p < length probe_sizes \<and>
        pm_effective_mtu p < probe_sizes ! pm_probe_index p) \<and>
     (\<not> pm_discovery_complete p \<longrightarrow> pm_probe_failures p < max 1 attempts) \<and>
     (\<not> pm_discovery_complete p \<longrightarrow> \<not> pm_probe_in_flight p \<longrightarrow> pm_probe_failures p = 0)"

lemma skip_sizes_props:
  "i \<le> skip_sizes sizes mtu i"
  "skip_sizes sizes mtu i < length sizes \<Longrightarrow> mtu < sizes ! skip_sizes sizes mtu i"
  "i \<le> k \<Longrightarrow> k < skip_sizes sizes mtu i \<Longrightarrow> k < length sizes \<and> sizes ! k \<le> mtu"
proof (induction sizes mtu i rule: skip_sizes.induct)
  case (1 sizes mtu i)
  {
    case 1
    show ?case using "1.IH"(1) by (subst skip_sizes.simps) auto
  next
    case 2
    then show ?case using "1.IH"(2) by (subst (asm) skip_sizes.simps, subst skip_sizes.simps) (auto split: if_splits)
  next
    case 3
    then show ?case using "1.IH"(3) by (subst (asm) skip_sizes.simps) (cases "k = i"; auto split: if_splits)
  }
qed

lemma skip_sizes_here: "i < length sizes \<Longrightarrow> mtu < sizes ! i \<Longrightarrow> skip_sizes sizes mtu i = i"
  by (subst skip_sizes.simps) simp

lemma pmtu_inv_step:
  assumes "pmtu_inv sizes attempts p" and "pmtu_step p event p'"
  shows "pmtu_inv sizes attempts p'"
proof (cases event)
  case Probe_start
  let ?i = "skip_sizes (pm_probe_sizes p) (pm_effective_mtu p) (pm_probe_index p)"
  have "pm_probe_in_flight p \<Longrightarrow> ?i = pm_probe_index p" using assms(1) by (auto simp: pmtu_inv_def intro: skip_sizes_here)
  with assms Probe_start show ?thesis
    using skip_sizes_props(2) [of "pm_probe_sizes p" "pm_effective_mtu p" "pm_probe_index p"]
    by (auto simp: pmtu_step_simps pmtu_inv_def startProbe_def nextProbeSize_def Let_def)
next
  case Probe_acked
  with assms show ?thesis by (auto simp: pmtu_step_simps pmtu_inv_def onProbeAcked_def Let_def)
next
  case Probe_lost
  with assms show ?thesis by (auto simp: pmtu_step_simps pmtu_inv_def onProbeLost_def Let_def split: if_splits)
next
  case Probe_reset
  with assms show ?thesis by (auto simp: pmtu_step_simps pmtu_inv_def reset_probe_def)
qed

lemma pmtu_reachable_inv: "pmtu_reachable sizes attempts p \<Longrightarrow> pmtu_inv sizes attempts p"
proof (induction rule: pmtu_reachable.induct)
  case reach_new
  show ?case by (simp add: pmtu_inv_def new_probe_def)
qed (rule pmtu_inv_step)

text \<open>
  Probing is safe in any order of events. In every state that starts, acknowledgements, losses and
  resets can reach, the confirmed MTU is the QUIC minimum or one of the probe sizes and at least the minimum; an
  acknowledgement never lowers it; and with a limit of attempts that fits its \<^verbatim>\<open>u8\<close>, recording a loss never overflows
  the counter.
\<close>

theorem pmtu_safe:
  assumes "pmtu_reachable probe_sizes attempts p"
  shows "quic_min_mtu \<le> pm_effective_mtu p \<and> pm_effective_mtu p \<in> insert quic_min_mtu (set probe_sizes) \<and>
    pm_effective_mtu p \<le> pm_effective_mtu (onProbeAcked p) \<and> (attempts \<le> 255 \<longrightarrow> (\<exists>p'. onProbeLost p = Some p'))"
  using pmtu_reachable_inv [OF assms] by (auto simp: pmtu_inv_def onProbeAcked_def onProbeLost_def Let_def)

theorem pmtu_safe_witness:
  "quic_min_mtu \<le> pm_effective_mtu (new_probe default_probe_sizes 3) \<and>
   pm_effective_mtu (new_probe default_probe_sizes 3) \<in> insert quic_min_mtu (set default_probe_sizes) \<and>
   pm_effective_mtu (new_probe default_probe_sizes 3) \<le> pm_effective_mtu (onProbeAcked (new_probe default_probe_sizes 3)) \<and>
   (\<exists>p'. onProbeLost (new_probe default_probe_sizes 3) = Some p')"
  using pmtu_safe [OF reach_new [of default_probe_sizes 3]] by simp

section \<open>Liveness: discovery ends with the MTU of the path\<close>

text \<open>
  One round of probing on a path that delivers datagrams of up to \<open>mtu\<close> bytes: a probe is sent, and it is
  acknowledged or lost.
\<close>

definition probe_round :: "nat \<Rightarrow> pmtu_probe \<Rightarrow> pmtu_probe option" where
  "probe_round mtu p =
     (case startProbe p of
        (None, p) \<Rightarrow> Some p
      | (Some probe_size, p) \<Rightarrow> if probe_size \<le> mtu then Some (onProbeAcked p) else onProbeLost p)"

fun probe_rounds :: "nat \<Rightarrow> nat \<Rightarrow> pmtu_probe \<Rightarrow> pmtu_probe option" where
  "probe_rounds mtu 0 p = Some p"
| "probe_rounds mtu (Suc n) p = Option.bind (probe_round mtu p) (probe_rounds mtu n)"

definition path_inv :: "nat list \<Rightarrow> nat \<Rightarrow> nat \<Rightarrow> pmtu_probe \<Rightarrow> bool" where
  "path_inv sizes attempts mtu p \<longleftrightarrow> pmtu_inv sizes attempts p \<and> pm_effective_mtu p \<le> mtu \<and>
     (\<forall>k < pm_probe_index p. k < length sizes \<longrightarrow> sizes ! k \<le> pm_effective_mtu p) \<and>
     (0 < pm_probe_failures p \<longrightarrow> pm_probe_index p < length sizes \<and> mtu < sizes ! pm_probe_index p) \<and>
     (pm_discovery_complete p \<longrightarrow> pm_probe_index p \<ge> length sizes \<or> mtu < sizes ! pm_probe_index p)"

definition work :: "pmtu_probe \<Rightarrow> nat" where
  "work p = (if pm_discovery_complete p then 0
     else Suc (length (pm_probe_sizes p) - pm_probe_index p) + (max 1 (pm_max_probe_failures p) - pm_probe_failures p))"

lemma startProbe_cases:
  assumes "path_inv sizes attempts mtu p"
  obtains (done_before) "pm_discovery_complete p" "startProbe p = (None, p)"
    | (done_now) i where "\<not> pm_discovery_complete p" "length sizes \<le> i" "pm_probe_failures p = 0"
        "\<forall>k < i. k < length sizes \<longrightarrow> sizes ! k \<le> pm_effective_mtu p"
        "startProbe p = (None, p\<lparr>pm_probe_index := i, pm_discovery_complete := True\<rparr>)"
    | (sent) i where "\<not> pm_discovery_complete p" "pm_probe_index p \<le> i" "i < length sizes" "pm_effective_mtu p < sizes ! i"
        "\<forall>k < i. k < length sizes \<longrightarrow> sizes ! k \<le> pm_effective_mtu p" "0 < pm_probe_failures p \<Longrightarrow> i = pm_probe_index p"
        "startProbe p = (Some (sizes ! i), p\<lparr>pm_probe_index := i, pm_probe_in_flight := True\<rparr>)"
proof (cases "pm_discovery_complete p")
  case True
  then have "startProbe p = (None, p)" by (simp add: startProbe_def nextProbeSize_def)
  with True show ?thesis by (rule done_before)
next
  case False
  define i where "i = skip_sizes sizes (pm_effective_mtu p) (pm_probe_index p)"
  note skip = skip_sizes_props(1,2) [where i = "pm_probe_index p" and sizes = sizes and mtu = "pm_effective_mtu p", folded i_def]
  have sizes: "pm_probe_sizes p = sizes" using assms by (simp add: path_inv_def pmtu_inv_def)
  have below: "\<forall>k < i. k < length sizes \<longrightarrow> sizes ! k \<le> pm_effective_mtu p"
    using assms skip_sizes_props(3) [where i = "pm_probe_index p" and sizes = sizes and mtu = "pm_effective_mtu p", folded i_def]
    by (metis path_inv_def not_le)
  have again: "i = pm_probe_index p" "i < length sizes" if "0 < pm_probe_failures p"
    using assms that by (auto simp: path_inv_def i_def skip_sizes_here)
  show ?thesis
  proof (cases "i < length sizes")
    case True
    with False sizes have "startProbe p = (Some (sizes ! i), p\<lparr>pm_probe_index := i, pm_probe_in_flight := True\<rparr>)"
      by (simp add: startProbe_def nextProbeSize_def i_def [symmetric] Let_def)
    with False True skip(1,2) below again(1) show ?thesis by (intro sent)
  next
    case end_reached: False
    with False sizes have "startProbe p = (None, p\<lparr>pm_probe_index := i, pm_discovery_complete := True\<rparr>)"
      by (simp add: startProbe_def nextProbeSize_def i_def [symmetric] Let_def)
    with False end_reached below again(2) show ?thesis by (intro done_now) auto
  qed
qed

lemma probe_round_progress:
  assumes "path_inv sizes attempts mtu p" and "sorted sizes" and "attempts \<le> 255"
  shows "\<exists>p'. probe_round mtu p = Some p' \<and> path_inv sizes attempts mtu p' \<and> work p' \<le> work p - 1"
  using assms(1)
proof (cases rule: startProbe_cases)
  case done_before
  with assms(1) show ?thesis by (simp add: probe_round_def work_def)
next
  case (done_now i)
  then have "path_inv sizes attempts mtu (p\<lparr>pm_probe_index := i, pm_discovery_complete := True\<rparr>)"
    using assms(1) pmtu_inv_step [OF _ step_start [of p], of sizes attempts] by (auto simp: path_inv_def)
  with done_now show ?thesis by (simp add: probe_round_def work_def)
next
  case (sent i)
  let ?p = "p\<lparr>pm_probe_index := i, pm_probe_in_flight := True\<rparr>"
  have inv: "pmtu_inv sizes attempts ?p"
    using assms(1) pmtu_inv_step [OF _ step_start [of p], of sizes attempts] sent by (simp add: path_inv_def)
  have fail: "pm_probe_failures p < max 1 attempts" and fields: "pm_probe_sizes p = sizes" "pm_max_probe_failures p = attempts"
    using assms(1) sent(1) by (auto simp: path_inv_def pmtu_inv_def)
  show ?thesis
  proof (cases "sizes ! i \<le> mtu")
    case True
    then have "pm_probe_failures p = 0" using assms(1) sent(6) by (fastforce simp: path_inv_def)
    moreover have "sizes ! k \<le> sizes ! i" if "k < Suc i" for k
      using sorted_nth_mono [OF assms(2), of k i] that sent(3) by simp
    ultimately have "path_inv sizes attempts mtu (onProbeAcked ?p) \<and> work (onProbeAcked ?p) \<le> work p - 1"
      using pmtu_inv_step [OF inv step_acked] True sent fields
      by (auto simp: path_inv_def onProbeAcked_def work_def Let_def)
    with True sent show ?thesis by (simp add: probe_round_def)
  next
    case False
    have "pm_probe_failures p \<le> 254" using fail assms(3) by auto
    then have "\<exists>p'. onProbeLost ?p = Some p'" by (simp add: onProbeLost_def Let_def)
    then obtain p' where p': "onProbeLost ?p = Some p'" by blast
    with pmtu_inv_step [OF inv step_lost [OF p']] assms(1) False sent fields fail
    have "path_inv sizes attempts mtu p' \<and> work p' \<le> work p - 1"
      by (auto simp: path_inv_def onProbeLost_def work_def Let_def split: if_splits)
    with False sent p' show ?thesis by (simp add: probe_round_def)
  qed
qed

lemma probe_rounds_progress:
  assumes "sorted sizes" and "attempts \<le> 255"
  shows "path_inv sizes attempts mtu p \<Longrightarrow>
    \<exists>p'. probe_rounds mtu n p = Some p' \<and> path_inv sizes attempts mtu p' \<and> work p' \<le> work p - n"
proof (induction n arbitrary: p)
  case (Suc n)
  from probe_round_progress [OF Suc.prems assms] obtain p1 where
      1: "probe_round mtu p = Some p1" "path_inv sizes attempts mtu p1" "work p1 \<le> work p - 1" by blast
  from Suc.IH [OF 1(2)] 1 show ?case by fastforce
qed simp

lemma path_inv_complete:
  assumes "path_inv sizes attempts mtu p" and "sorted sizes" and "pm_discovery_complete p"
  shows "pm_effective_mtu p = Max (insert quic_min_mtu {s \<in> set sizes. s \<le> mtu})"
proof -
  have "s \<le> pm_effective_mtu p" if "s \<in> set sizes" "s \<le> mtu" for s
  proof -
    from that(1) obtain k where k: "k < length sizes" "s = sizes ! k" by (metis in_set_conv_nth)
    have "k < pm_probe_index p"
    proof (rule ccontr)
      assume "\<not> k < pm_probe_index p"
      then have "sizes ! pm_probe_index p \<le> s" "pm_probe_index p < length sizes"
        using k sorted_nth_mono [OF assms(2), of "pm_probe_index p" k] by auto
      with assms(1,3) that(2) show False by (auto simp: path_inv_def)
    qed
    with k assms(1) show ?thesis by (auto simp: path_inv_def)
  qed
  moreover have "quic_min_mtu \<le> pm_effective_mtu p" "pm_effective_mtu p \<le> mtu"
      "pm_effective_mtu p \<in> insert quic_min_mtu (set sizes)"
    using assms(1) by (auto simp: path_inv_def pmtu_inv_def)
  ultimately show ?thesis by (intro Max_eqI [symmetric]) auto
qed

text \<open>
  Property C30: discovery ends with the right answer. With ascending probe sizes, on a path that delivers
  datagrams of up to \<open>mtu\<close> bytes (at least the QUIC minimum), probing is complete after at most one round per probe
  size and one per attempt, plus one; and the MTU it has settled on is the largest probe size that the path
  delivers, or the minimum if there is none.
\<close>

theorem pmtu_discovers:
  assumes "sorted probe_sizes" and "attempts \<le> 255" and "quic_min_mtu \<le> mtu"
    and "rounds \<ge> length probe_sizes + max 1 attempts + 1"
  shows "\<exists>p. probe_rounds mtu rounds (new_probe probe_sizes attempts) = Some p \<and> pm_discovery_complete p \<and>
    pm_effective_mtu p = Max (insert quic_min_mtu {s \<in> set probe_sizes. s \<le> mtu})"
proof -
  have "path_inv probe_sizes attempts mtu (new_probe probe_sizes attempts)"
    using pmtu_reachable_inv [OF reach_new] assms(3) by (auto simp: path_inv_def new_probe_def)
  from probe_rounds_progress [OF assms(1,2) this, of rounds] obtain p where
      p: "probe_rounds mtu rounds (new_probe probe_sizes attempts) = Some p" "path_inv probe_sizes attempts mtu p" "work p = 0"
    using assms(4) by (auto simp: work_def new_probe_def)
  from p(3) have "pm_discovery_complete p" by (simp add: work_def split: if_splits)
  with p path_inv_complete [OF p(2) assms(1)] show ?thesis by blast
qed

theorem pmtu_discovers_witness:
  "\<exists>p. probe_rounds 1492 10 (new_probe default_probe_sizes 3) = Some p \<and> pm_discovery_complete p \<and> pm_effective_mtu p = 1350"
proof -
  have "{s \<in> set default_probe_sizes. s \<le> 1492} = {1200, 1350}" by (auto simp: default_probe_sizes_def)
  then show ?thesis
    using pmtu_discovers [of default_probe_sizes 3 1492 10] by (simp add: default_probe_sizes_def quic_min_mtu_def)
qed

end
