(* ===== verification/Pacer.thy ===== *)
theory Pacer
  imports C_Memory
begin

text \<open>
  The token bucket pacer (\<^verbatim>\<open>src/src/quic/pacer.zig\<close>). Times are \<open>int\<close> (\<^verbatim>\<open>i64\<close> nanoseconds) and sizes \<open>nat\<close>
  (\<^verbatim>\<open>usize\<close>, \<^verbatim>\<open>u64\<close>); where the arithmetic of the code would overflow its type, the value is \<open>None\<close>, the panic
  of a checked build.
\<close>

section \<open>The pacer\<close>

definition max_burst_packets :: nat where
  "max_burst_packets = 10"

record pacer =
  pc_budget :: nat
  pc_last_sent_ns :: "int option"
  pc_max_datagram_size :: nat

definition maxBurstSize :: "pacer \<Rightarrow> nat option" where
  "maxBurstSize self =
     (let n = max_burst_packets * pc_max_datagram_size self in if n < 2 ^ 64 then Some n else None)"

definition init_pacer :: "nat \<Rightarrow> pacer option" where
  "init_pacer max_datagram_size =
     (let p = \<lparr>pc_budget = 0, pc_last_sent_ns = None, pc_max_datagram_size = max_datagram_size\<rparr> in
      map_option (\<lambda>n. p\<lparr>pc_budget := n\<rparr>) (maxBurstSize p))"

definition budgetAt :: "pacer \<Rightarrow> int \<Rightarrow> nat \<Rightarrow> nat \<Rightarrow> nat option" where
  "budgetAt self now_ns cwnd smoothed_rtt_ns =
     (if smoothed_rtt_ns = 0 then maxBurstSize self
      else case pc_last_sent_ns self of
        None \<Rightarrow> maxBurstSize self
      | Some last_ns \<Rightarrow>
        if now_ns > last_ns \<and> now_ns - last_ns \<ge> 2 ^ 63 then None
        else let delta_ns = (if now_ns > last_ns then nat (now_ns - last_ns) else 0) in
          if delta_ns = 0 then Some (pc_budget self)
          else let numerator = cwnd * 5 * delta_ns; denominator = smoothed_rtt_ns * 4 in
            if numerator \<ge> 2 ^ 128 then None
            else let
              added = min (numerator div denominator) (2 ^ 64 - 1);
              new_budget = (if pc_budget self + added < 2 ^ 64 then pc_budget self + added else 2 ^ 64 - 1) in
            map_option (\<lambda>burst. min burst new_budget) (maxBurstSize self))"

definition canSend :: "pacer \<Rightarrow> int \<Rightarrow> nat \<Rightarrow> nat \<Rightarrow> nat \<Rightarrow> bool option" where
  "canSend self now_ns packet_size cwnd smoothed_rtt_ns =
     map_option (\<lambda>budget. budget \<ge> packet_size) (budgetAt self now_ns cwnd smoothed_rtt_ns)"

definition onPacketSent :: "pacer \<Rightarrow> int \<Rightarrow> nat \<Rightarrow> nat \<Rightarrow> nat \<Rightarrow> pacer option" where
  "onPacketSent self now_ns packet_size cwnd smoothed_rtt_ns =
     map_option (\<lambda>current_budget. self\<lparr>
         pc_budget := (if packet_size \<ge> current_budget then 0 else current_budget - packet_size),
         pc_last_sent_ns := Some now_ns\<rparr>)
       (budgetAt self now_ns cwnd smoothed_rtt_ns)"

definition reset_pacer :: "pacer \<Rightarrow> pacer option" where
  "reset_pacer self = map_option (\<lambda>n. self\<lparr>pc_budget := n, pc_last_sent_ns := None\<rparr>) (maxBurstSize self)"

section \<open>The sender that asks the pacer first\<close>

text \<open>A request to send: when, how large, and what congestion window and smoothed RTT were then.\<close>

datatype send = Send (send_time: int) (send_size: nat) (send_cwnd: nat) (send_rtt: nat)

text \<open>The bytes that go out when every packet is sent if the pacer allows it and dropped otherwise.\<close>

fun paced :: "pacer \<Rightarrow> send list \<Rightarrow> (nat \<times> pacer) option" where
  "paced p [] = Some (0, p)"
| "paced p (Send now n cwnd rtt # sends) =
     Option.bind (canSend p now n cwnd rtt) (\<lambda>allowed.
       if allowed then Option.bind (onPacketSent p now n cwnd rtt) (\<lambda>p.
         map_option (\<lambda>(bytes, p). (n + bytes, p)) (paced p sends))
       else paced p sends)"

text \<open>What the bucket gains in a time span, at a congestion window of at most \<open>C\<close> and an RTT of at least \<open>S\<close>.\<close>

definition gained :: "nat \<Rightarrow> nat \<Rightarrow> int \<Rightarrow> int \<Rightarrow> nat" where
  "gained C S t0 t1 = (C * 5 * nat (t1 - t0)) div (S * 4)"

fun times_within :: "int \<Rightarrow> send list \<Rightarrow> bool" where
  "times_within t [] \<longleftrightarrow> True"
| "times_within t (Send now n cwnd rtt # sends) \<longleftrightarrow> t \<le> now \<and> times_within now sends"

lemma times_within_mono: "times_within t sends \<Longrightarrow> t' \<le> t \<Longrightarrow> times_within t' sends"
  by (induction t sends rule: times_within.induct) auto

lemma gained_add: "a \<le> b \<Longrightarrow> b \<le> c \<Longrightarrow> gained C S a b + gained C S b c \<le> gained C S a c"
proof -
  assume "a \<le> b" "b \<le> c"
  then have "nat (c - a) = nat (b - a) + nat (c - b)" by simp
  then have "C * 5 * nat (c - a) = C * 5 * nat (b - a) + C * 5 * nat (c - b)" by (simp add: algebra_simps)
  then show ?thesis unfolding gained_def by (metis div_add1_eq le_add1)
qed

lemma budgetAt_bound:
  assumes "budgetAt p now cwnd rtt = Some b" and "pc_last_sent_ns p = Some last_ns" and "last_ns \<le> now"
    and "cwnd \<le> C" and "0 < S" and "S \<le> rtt"
  shows "b \<le> pc_budget p + gained C S last_ns now"
proof (cases "now = last_ns")
  case True
  with assms show ?thesis by (simp add: budgetAt_def)
next
  case False
  let ?d = "nat (now - last_ns)"
  have "cwnd * 5 * ?d div (rtt * 4) \<le> C * 5 * ?d div (rtt * 4)" using assms(4) by (intro div_le_mono mult_le_mono) simp_all
  also have "\<dots> \<le> C * 5 * ?d div (S * 4)" using assms(5,6) by (intro div_le_mono2) simp_all
  finally have "cwnd * 5 * ?d div (rtt * 4) \<le> gained C S last_ns now" by (simp add: gained_def)
  moreover define x where "x = cwnd * 5 * ?d div (rtt * 4)"
  then have "b \<le> pc_budget p + x"
    using assms False by (auto simp: budgetAt_def Let_def min_def split: if_splits)
  ultimately show ?thesis by (simp add: x_def)
qed

lemma paced_from:
  assumes "0 < S"
  shows "paced p sends = Some (bytes, p') \<Longrightarrow> pc_last_sent_ns p = Some last_ns \<Longrightarrow> times_within last_ns sends \<Longrightarrow>
    \<forall>x \<in> set sends. send_cwnd x \<le> C \<and> S \<le> send_rtt x \<and> send_time x \<le> t1 \<Longrightarrow>
    bytes \<le> pc_budget p + gained C S last_ns t1"
proof (induction p sends arbitrary: bytes last_ns rule: paced.induct)
  case (2 p now n cwnd rtt sends)
  from "2.prems" have now: "last_ns \<le> now" "now \<le> t1" "times_within now sends" "cwnd \<le> C" "S \<le> rtt" by auto
  from "2.prems"(1) obtain b where b: "budgetAt p now cwnd rtt = Some b" by (auto simp: canSend_def Option.bind_eq_Some_conv)
  show ?case
  proof (cases "n \<le> b")
    case True
    define p1 where "p1 = p\<lparr>pc_budget := b - n, pc_last_sent_ns := Some now\<rparr>"
    have sent: "onPacketSent p now n cwnd rtt = Some p1" using True b by (simp add: onPacketSent_def p1_def)
    then obtain bytes1 where rest: "paced p1 sends = Some (bytes1, p')" and sum: "bytes = n + bytes1"
      using "2.prems"(1) True b by (auto simp: canSend_def)
    have "bytes1 \<le> b - n + gained C S now t1"
      using "2.IH"(1) [of True p1 bytes1 now] True b sent rest now "2.prems"(4) by (auto simp: canSend_def p1_def)
    then show ?thesis
      using budgetAt_bound [OF b "2.prems"(2) now(1,4) assms now(5)] gained_add [OF now(1,2), of C S] True sum by simp
  next
    case False
    then show ?thesis
      using "2.IH"(2) [of False bytes last_ns] b "2.prems" now times_within_mono [OF now(3,1)] by (auto simp: canSend_def)
  qed
qed simp

text \<open>The bucket never holds more than one burst, however long the pacer was idle.\<close>

definition capped :: "nat \<Rightarrow> pacer \<Rightarrow> bool" where
  "capped burst p \<longleftrightarrow> maxBurstSize p = Some burst \<and> pc_budget p \<le> burst"

lemma budgetAt_capped: "capped burst p \<Longrightarrow> budgetAt p now cwnd rtt = Some b \<Longrightarrow> b \<le> burst"
  by (auto simp: capped_def budgetAt_def Let_def split: if_splits option.splits)

lemma onPacketSent_capped: "capped burst p \<Longrightarrow> onPacketSent p now n cwnd rtt = Some p' \<Longrightarrow> capped burst p'"
  using budgetAt_capped [of burst p now cwnd rtt]
  by (force simp: capped_def onPacketSent_def maxBurstSize_def)

lemma paced_capped: "paced p sends = Some (bytes, p') \<Longrightarrow> capped burst p \<Longrightarrow> capped burst p'"
proof (induction p sends arbitrary: bytes rule: paced.induct)
  case (2 p now n cwnd rtt sends)
  from "2.prems"(1) obtain allowed where a: "canSend p now n cwnd rtt = Some allowed"
    by (auto simp: Option.bind_eq_Some_conv)
  show ?case
  proof (cases allowed)
    case True
    with a "2.prems"(1) obtain p1 bytes1 where "onPacketSent p now n cwnd rtt = Some p1" "paced p1 sends = Some (bytes1, p')"
      by (auto simp: Option.bind_eq_Some_conv)
    with "2.IH"(1) [OF a True] onPacketSent_capped "2.prems"(2) show ?thesis by blast
  next
    case False
    with a "2.prems" "2.IH"(2) [OF a False] show ?thesis by simp
  qed
qed simp

lemma paced_window:
  assumes "0 < S"
  shows "paced p sends = Some (bytes, p') \<Longrightarrow> capped burst p \<Longrightarrow>
    times_within t0 sends \<Longrightarrow> \<forall>x \<in> set sends. send_cwnd x \<le> C \<and> S \<le> send_rtt x \<and> send_time x \<le> t1 \<Longrightarrow>
    bytes \<le> burst + gained C S t0 t1"
proof (induction p sends arbitrary: bytes t0 rule: paced.induct)
  case (2 p now n cwnd rtt sends)
  from "2.prems" have now: "t0 \<le> now" "now \<le> t1" "times_within now sends" by auto
  from "2.prems"(1) obtain b where b: "budgetAt p now cwnd rtt = Some b" by (auto simp: canSend_def Option.bind_eq_Some_conv)
  then have cap: "b \<le> burst" using budgetAt_capped "2.prems"(2) by blast
  show ?case
  proof (cases "n \<le> b")
    case True
    define p1 where "p1 = p\<lparr>pc_budget := b - n, pc_last_sent_ns := Some now\<rparr>"
    have sent: "onPacketSent p now n cwnd rtt = Some p1" using True b by (simp add: onPacketSent_def p1_def)
    then obtain bytes1 where rest: "paced p1 sends = Some (bytes1, p')" and sum: "bytes = n + bytes1"
      using "2.prems"(1) True b by (auto simp: canSend_def)
    have "bytes1 \<le> b - n + gained C S now t1"
      using paced_from [OF assms rest, of now C t1] now "2.prems"(4) by (simp add: p1_def)
    then show ?thesis using gained_add [OF now(1,2), of C S] True sum cap by simp
  next
    case False
    then show ?thesis
      using "2.IH"(2) [of False bytes t0] b "2.prems" times_within_mono [OF now(3,1)] by (auto simp: canSend_def)
  qed
qed simp

text \<open>
  Property C39: the pacer bounds what is sent in every time span. Take any earlier traffic of a pacer, at any times and
  with any windows and RTTs, and then packets offered at non-decreasing times between \<open>t0\<close> and \<open>t1\<close>, with a congestion
  window of at most \<open>C\<close> and a smoothed RTT of at least \<open>S\<close>. If the sender sends exactly those packets that \<^verbatim>\<open>canSend\<close>
  allows and reports them with \<^verbatim>\<open>onPacketSent\<close>, the bytes sent between \<open>t0\<close> and \<open>t1\<close> are at most one burst of ten
  datagrams plus 1.25 times the window per RTT for the time elapsed: an idle time before \<open>t0\<close> earns no more than a burst.
\<close>

theorem paced_bounded:
  assumes "init_pacer max_datagram_size = Some p0" and "paced p0 earlier = Some (bytes0, p)"
    and "paced p sends = Some (bytes, p')" and "times_within t0 sends" and "0 < S"
    and "\<forall>x \<in> set sends. send_cwnd x \<le> C \<and> S \<le> send_rtt x \<and> send_time x \<le> t1"
  shows "bytes \<le> 10 * max_datagram_size + (5 * C * nat (t1 - t0)) div (4 * S)"
proof -
  from assms(1) have "capped (10 * max_datagram_size) p0"
    by (auto simp: capped_def init_pacer_def Let_def maxBurstSize_def max_burst_packets_def split: if_splits)
  from paced_window [OF assms(5,3) paced_capped [OF assms(2) this] assms(4,6)] show ?thesis
    by (simp add: gained_def mult.commute)
qed

text \<open>Two milliseconds of silence earn 30000 bytes at this rate, of which one burst is left; then a second burst is refused.\<close>

theorem paced_bounded_witness:
  "\<exists>p0 p p' bytes. init_pacer 1200 = Some p0 \<and> paced p0 [Send 0 12000 12000 1000000] = Some (12000, p) \<and>
     paced p [Send 2000000 12000 12000 1000000, Send 2000000 12000 12000 1000000, Send 2080000 1200 12000 1000000] =
       Some (bytes, p') \<and> bytes = 13200 \<and> bytes \<le> 13200"
proof -
  let ?p = "\<lambda>n t. \<lparr>pc_budget = n, pc_last_sent_ns = t, pc_max_datagram_size = 1200\<rparr>"
  let ?sends = "[Send 2000000 12000 12000 1000000, Send 2000000 12000 12000 1000000, Send 2080000 1200 12000 1000000]"
  have p0: "init_pacer 1200 = Some (?p 12000 None)"
    by (simp add: init_pacer_def Let_def maxBurstSize_def max_burst_packets_def)
  have p: "paced (?p 12000 None) [Send 0 12000 12000 1000000] = Some (12000, ?p 0 (Some 0))"
    by (simp add: canSend_def onPacketSent_def budgetAt_def maxBurstSize_def max_burst_packets_def Let_def)
  have run: "paced (?p 0 (Some 0)) ?sends = Some (13200, ?p 0 (Some 2080000))"
    by (simp add: canSend_def onPacketSent_def budgetAt_def maxBurstSize_def max_burst_packets_def Let_def)
  from paced_bounded [OF p0 p run, of 2000000 1000000 12000 2080000] show ?thesis using p0 p run by simp
qed

section \<open>The pacer does not block for ever\<close>

text \<open>
  Property C40: a packet of at most one burst is allowed after a bounded wait. Whatever is left in the bucket, once
  \<open>4 * rtt * n / (5 * cwnd)\<close> nanoseconds (rounded up) have passed since the last packet, \<^verbatim>\<open>canSend\<close> allows \<open>n\<close> bytes, as
  long as the elapsed time is within the range that the arithmetic of the code handles.
\<close>

theorem pacer_unblocks:
  assumes "maxBurstSize p = Some burst" and "n \<le> burst" and "pc_last_sent_ns p = Some t" and "0 < cwnd" and "0 < rtt"
    and "t + int ((4 * rtt * n) div (5 * cwnd) + 1) \<le> now" and "now - t < 2 ^ 63" and "5 * cwnd * nat (now - t) < 2 ^ 128"
  shows "canSend p now n cwnd rtt = Some True"
proof -
  let ?d = "nat (now - t)"
  have d: "(4 * rtt * n) div (5 * cwnd) + 1 \<le> ?d" using assms(6) by linarith
  have "4 * rtt * n < 5 * cwnd * ((4 * rtt * n) div (5 * cwnd) + 1)"
    using assms(4) by (metis Suc_eq_plus1 dividend_less_times_div mult_pos_pos zero_less_numeral mult_Suc_right add.commute)
  also have "\<dots> \<le> 5 * cwnd * ?d" using d by (rule mult_le_mono2)
  finally have "n * (rtt * 4) \<le> cwnd * 5 * ?d" by (simp add: mult.commute mult.left_commute)
  then have n: "n \<le> cwnd * 5 * ?d div (rtt * 4)" using assms(5) by (simp add: less_eq_div_iff_mult_less_eq)
  define x where "x = cwnd * 5 * ?d div (rtt * 4)"
  have burst: "burst < 2 ^ 64" using assms(1) by (auto simp: maxBurstSize_def Let_def split: if_splits)
  have now: "now > t" "?d \<noteq> 0" using d assms(6) by auto
  have num: "cwnd * 5 * ?d < 2 ^ 128" using assms(8) by (simp add: mult.commute)
  have "budgetAt p now cwnd rtt = Some (min burst
      (if pc_budget p + min x (2 ^ 64 - 1) < 2 ^ 64 then pc_budget p + min x (2 ^ 64 - 1) else 2 ^ 64 - 1))"
    using assms(1,3,5,7) now num by (simp add: budgetAt_def Let_def x_def)
  then show ?thesis using n burst assms(2) by (auto simp: canSend_def x_def [symmetric])
qed

theorem pacer_unblocks_witness:
  "canSend \<lparr>pc_budget = 0, pc_last_sent_ns = Some 0, pc_max_datagram_size = 1200\<rparr> 80001 1200 12000 1000000 = Some True"
  using pacer_unblocks [of "\<lparr>pc_budget = 0, pc_last_sent_ns = Some 0, pc_max_datagram_size = 1200\<rparr>" 12000 1200 0 12000 1000000 80001]
  by (simp add: maxBurstSize_def max_burst_packets_def)

end
