(* ===== verification/Session_Cache.thy ===== *)
theory Session_Cache
  imports Zig_Memory
begin

text \<open>
  The cache of session tickets (\<^verbatim>\<open>src/src/quic/session_cache.zig\<close>). Times are \<^verbatim>\<open>i64\<close> seconds, as \<open>int\<close> with the
  range check of a checked build: the value \<open>None\<close> of a function is its panic. The cache owns the server identity and
  the nonce of its tickets.
\<close>

section \<open>Tickets and the cache\<close>

definition in_i64 :: "int \<Rightarrow> int option" where
  "in_i64 x = (if - (2 ^ 63) \<le> x \<and> x < 2 ^ 63 then Some x else None)"

record session_ticket =
  st_server_id :: "byte slice"
  st_psk :: "byte list"
  st_lifetime_sec :: "32 word"
  st_age_add :: "32 word"
  st_nonce :: "byte slice"
  st_allows_early_data :: bool
  st_remembered_max_data :: u64
  st_remembered_max_stream_data :: u64
  st_remembered_max_streams_bidi :: u64
  st_remembered_max_streams_uni :: u64
  st_created_at_sec :: int

record session_cache =
  sc_tickets :: "session_ticket array_list"
  sc_max_entries :: nat

definition init_cache :: session_cache where
  "init_cache = \<lparr>sc_tickets = \<lparr>list_block = None, list_items = []\<rparr>, sc_max_entries = 16\<rparr>"

abbreviation ticket_key :: "session_ticket \<Rightarrow> byte list" where
  "ticket_key t \<equiv> elems (st_server_id t)"

abbreviation cache_items :: "session_cache \<Rightarrow> session_ticket list" where
  "cache_items cache \<equiv> list_items (sc_tickets cache)"

definition free_ticket :: "session_ticket \<Rightarrow> decoder \<Rightarrow> decoder" where
  "free_ticket t d = zig_free (st_nonce t) (zig_free (st_server_id t) d)"

definition deinit_cache :: "session_cache \<Rightarrow> decoder \<Rightarrow> decoder" where
  "deinit_cache self d = list_deinit (sc_tickets self) (fold free_ticket (cache_items self) d)"

fun find_ticket :: "byte list \<Rightarrow> session_ticket list \<Rightarrow> nat option" where
  "find_ticket server_id [] = None"
| "find_ticket server_id (existing # tickets) =
     (if ticket_key existing = server_id then Some 0 else map_option Suc (find_ticket server_id tickets))"

definition set_items :: "session_cache \<Rightarrow> session_ticket list \<Rightarrow> session_cache" where
  "set_items self tickets = self\<lparr>sc_tickets := (sc_tickets self)\<lparr>list_items := tickets\<rparr>\<rparr>"

text \<open>
  \<^verbatim>\<open>store\<close> returns the error union together with the cache and the allocator after it.
\<close>

definition store :: "(nat \<Rightarrow> bool) \<Rightarrow> session_cache \<Rightarrow> session_ticket \<Rightarrow> decoder \<Rightarrow>
    (unit zig_result \<times> session_cache \<times> decoder) option" where
  "store grow self ticket d =
     (case find_ticket (ticket_key ticket) (cache_items self) of
        Some i \<Rightarrow> Some (Inr (), set_items self ((cache_items self)[i := ticket]), free_ticket (cache_items self ! i) d)
      | None \<Rightarrow>
          (case (if length (cache_items self) \<ge> sc_max_entries self
                 then (case cache_items self of
                    [] \<Rightarrow> None
                  | oldest # tickets \<Rightarrow> Some (set_items self tickets, free_ticket oldest d))
                 else Some (self, d)) of
             None \<Rightarrow> None
           | Some (self, d) \<Rightarrow>
               (case list_append grow (sc_tickets self) ticket d of
                  (Inl e, d) \<Rightarrow> Some (Inl e, self, d)
                | (Inr tickets, d) \<Rightarrow> Some (Inr (), self\<lparr>sc_tickets := tickets\<rparr>, d))))"

definition expired :: "session_ticket \<Rightarrow> int \<Rightarrow> bool option" where
  "expired ticket now_sec =
     map_option (\<lambda>elapsed. elapsed < 0 \<or> elapsed > uint (st_lifetime_sec ticket))
       (in_i64 (now_sec - st_created_at_sec ticket))"

fun retrieve_loop :: "session_ticket list \<Rightarrow> byte list \<Rightarrow> int \<Rightarrow> session_ticket option option" where
  "retrieve_loop [] server_id now_sec = Some None"
| "retrieve_loop (ticket # tickets) server_id now_sec =
     (if ticket_key ticket \<noteq> server_id then retrieve_loop tickets server_id now_sec
      else case expired ticket now_sec of
        None \<Rightarrow> None
      | Some True \<Rightarrow> retrieve_loop tickets server_id now_sec
      | Some False \<Rightarrow> Some (Some ticket))"

definition retrieve :: "session_cache \<Rightarrow> byte list \<Rightarrow> int \<Rightarrow> session_ticket option option" where
  "retrieve self = retrieve_loop (cache_items self)"

definition cache_count :: "session_cache \<Rightarrow> nat" where
  "cache_count self = length (cache_items self)"

fun prune_loop :: "session_ticket list \<Rightarrow> int \<Rightarrow> decoder \<Rightarrow> (session_ticket list \<times> decoder) option" where
  "prune_loop [] now_sec d = Some ([], d)"
| "prune_loop (ticket # tickets) now_sec d =
     (case expired ticket now_sec of
        None \<Rightarrow> None
      | Some True \<Rightarrow> prune_loop tickets now_sec (free_ticket ticket d)
      | Some False \<Rightarrow> map_option (map_prod (Cons ticket) id) (prune_loop tickets now_sec d))"

definition pruneExpired :: "session_cache \<Rightarrow> int \<Rightarrow> decoder \<Rightarrow> (session_cache \<times> decoder) option" where
  "pruneExpired self now_sec d = map_option (map_prod (set_items self) id) (prune_loop (cache_items self) now_sec d)"

section \<open>What the cache holds\<close>

definition ticket_own :: "session_ticket \<Rightarrow> nat multiset" where
  "ticket_own t = mset (owned_ids (st_nonce t)) + mset (owned_ids (st_server_id t))"

definition ticket_wf :: "session_ticket \<Rightarrow> bool" where
  "ticket_wf t \<longleftrightarrow> slice_wf (st_nonce t) \<and> slice_wf (st_server_id t)"

definition tickets_own :: "session_ticket list \<Rightarrow> nat multiset" where
  "tickets_own ts = sum_list (map ticket_own ts)"

definition cache_own :: "session_cache \<Rightarrow> nat multiset" where
  "cache_own cache = tickets_own (cache_items cache) + mset (block_ids (list_block (sc_tickets cache)))"

text \<open>The invariant: one ticket per server, no more than there is room for, and all of them owned.\<close>

definition cache_inv :: "session_cache \<Rightarrow> bool" where
  "cache_inv cache \<longleftrightarrow> 0 < sc_max_entries cache \<and> length (cache_items cache) \<le> sc_max_entries cache \<and>
     distinct (map ticket_key (cache_items cache)) \<and> list_all ticket_wf (cache_items cache)"

lemma set_items_simps [simp]:
  "cache_items (set_items cache ts) = ts" "sc_max_entries (set_items cache ts) = sc_max_entries cache"
  "list_block (sc_tickets (set_items cache ts)) = list_block (sc_tickets cache)"
  by (simp_all add: set_items_def)

lemma find_ticket_Some:
  "find_ticket k ts = Some i \<Longrightarrow> i < length ts \<and> ticket_key (ts ! i) = k"
  by (induction ts arbitrary: i) (auto split: if_splits)

lemma find_ticket_None: "find_ticket k ts = None \<longleftrightarrow> k \<notin> ticket_key ` set ts"
  by (induction ts) auto

lemma free_ticket_frees:
  assumes "ticket_wf t" and "holds (own + ticket_own t) live d"
  shows "holds own live (free_ticket t d)" "al_bad (free_ticket t d) = al_bad d"
proof -
  have wf: "slice_wf (st_nonce t)" "slice_wf (st_server_id t)" using assms(1) by (auto simp: ticket_wf_def)
  have "holds (own + mset (owned_ids (st_nonce t)) + mset (owned_ids (st_server_id t))) live d"
    using assms(2) by (simp add: ticket_own_def add.assoc)
  note 1 = holds_free [OF wf(2) this]
  note 2 = holds_free [OF wf(1) 1(1)]
  show "holds own live (free_ticket t d)" "al_bad (free_ticket t d) = al_bad d"
    unfolding free_ticket_def using 1 2 by simp_all
qed

lemma tickets_own_simps [simp]:
  "tickets_own [] = {#}" "tickets_own (t # ts) = ticket_own t + tickets_own ts"
  "tickets_own (ts @ us) = tickets_own ts + tickets_own us"
  by (simp_all add: tickets_own_def)

lemma tickets_own_update:
  "i < length ts \<Longrightarrow> tickets_own (ts[i := t]) + ticket_own (ts ! i) = tickets_own ts + ticket_own t"
  by (induction ts arbitrary: i) (auto simp: less_Suc_eq_0_disj ac_simps split: nat.splits)

lemma retrieve_loop_distinct:
  assumes "distinct (map ticket_key ts)" and "t \<in> set ts"
  shows "retrieve_loop ts (ticket_key t) now =
    map_option (\<lambda>old. if old then None else Some t) (expired t now)"
proof -
  have absent: "retrieve_loop us k now = Some None" if "k \<notin> ticket_key ` set us" for us k
    using that by (induction us) auto
  from assms show ?thesis
  proof (induction ts)
    case (Cons u us)
    show ?case
    proof (cases "t = u")
      case True
      with Cons.prems(1) absent [of "ticket_key u" us] show ?thesis
        by (cases "expired t now") (auto split: bool.splits)
    next
      case False
      with Cons.prems have "t \<in> set us" "ticket_key u \<noteq> ticket_key t" by (auto simp: image_iff)
      with Cons show ?thesis by simp
    qed
  qed simp
qed

lemma retrieve_loop_absent: "k \<notin> ticket_key ` set ts \<Longrightarrow> retrieve_loop ts k now = Some None"
  by (induction ts) auto

section \<open>The cache as a bounded map\<close>

definition cache_map :: "session_cache \<Rightarrow> byte list \<Rightarrow> session_ticket option" where
  "cache_map cache = map_of (map (\<lambda>t. (ticket_key t, t)) (cache_items cache))"

text \<open>The map after room was made for a new server: the oldest ticket goes when the cache is full.\<close>

definition make_room :: "session_cache \<Rightarrow> byte list \<Rightarrow> byte list \<Rightarrow> session_ticket option" where
  "make_room cache k =
     (if k \<in> dom (cache_map cache) \<or> length (cache_items cache) < sc_max_entries cache then cache_map cache
      else (cache_map cache)(ticket_key (hd (cache_items cache)) := None))"

lemma map_of_tickets:
  "distinct (map ticket_key ts) \<Longrightarrow> map_of (map (\<lambda>t. (ticket_key t, t)) ts) k = Some t \<longleftrightarrow> t \<in> set ts \<and> ticket_key t = k"
  by (induction ts) (auto simp: image_iff)

lemma map_of_tickets_dom: "dom (map_of (map (\<lambda>t. (ticket_key t, t)) ts)) = ticket_key ` set ts"
  by (simp add: dom_map_of_conv_image_fst image_image)

lemma retrieve_map:
  assumes "cache_inv cache"
  shows "retrieve cache k now =
    (case cache_map cache k of None \<Rightarrow> Some None | Some t \<Rightarrow> map_option (\<lambda>old. if old then None else Some t) (expired t now))"
proof (cases "cache_map cache k")
  case None
  then have "k \<notin> dom (cache_map cache)" by (simp add: domIff)
  then have "k \<notin> ticket_key ` set (cache_items cache)" unfolding cache_map_def map_of_tickets_dom .
  with None show ?thesis by (simp add: retrieve_def retrieve_loop_absent)
next
  case (Some t)
  have dist: "distinct (map ticket_key (cache_items cache))" using assms by (simp add: cache_inv_def)
  from Some have t: "t \<in> set (cache_items cache)" "ticket_key t = k"
    unfolding cache_map_def map_of_tickets [OF dist] by blast+
  from retrieve_loop_distinct [OF dist t(1)] have
      "retrieve cache k now = map_option (\<lambda>old. if old then None else Some t) (expired t now)"
    unfolding t(2) retrieve_def .
  with Some show ?thesis by simp
qed

lemma map_of_update:
  assumes "distinct (map ticket_key ts)" and "i < length ts" and "ticket_key (ts ! i) = ticket_key t"
  shows "map_of (map (\<lambda>t. (ticket_key t, t)) (ts[i := t])) = (map_of (map (\<lambda>t. (ticket_key t, t)) ts))(ticket_key t \<mapsto> t)"
  using assms
proof (induction ts arbitrary: i)
  case (Cons u us)
  then show ?case
  proof (cases i)
    case (Suc j)
    with Cons.prems have "us ! j \<in> set us" "ticket_key (us ! j) = ticket_key t" by auto
    with Cons.prems(1) have "ticket_key u \<noteq> ticket_key t" by (auto simp: image_iff)
    with Cons Suc show ?thesis by auto
  qed (auto simp: fun_eq_iff)
qed simp

lemma map_of_append_new:
  assumes "ticket_key t \<notin> ticket_key ` set ts"
  shows "map_of (map (\<lambda>t. (ticket_key t, t)) (ts @ [t])) = (map_of (map (\<lambda>t. (ticket_key t, t)) ts))(ticket_key t \<mapsto> t)"
  using assms by (induction ts) (auto simp: fun_eq_iff)

lemma store_known:
  assumes "cache_inv cache" and "ticket_wf t" and "holds (cache_own cache + ticket_own t) live d"
    and "find_ticket (ticket_key t) (cache_items cache) = Some i"
  defines "cache' \<equiv> set_items cache ((cache_items cache)[i := t])" and "d' \<equiv> free_ticket (cache_items cache ! i) d"
  shows "cache_inv cache' \<and> al_bad d' = al_bad d \<and> holds (cache_own cache') live d' \<and>
    cache_map cache' = (cache_map cache)(ticket_key t \<mapsto> t)"
proof -
  note i = find_ticket_Some [OF assms(4)]
  have keys: "map ticket_key ((cache_items cache)[i := t]) = map ticket_key (cache_items cache)"
    using i by (simp add: map_update) (metis list_update_id nth_map)
  have "cache_own cache + ticket_own t = cache_own cache' + ticket_own (cache_items cache ! i)"
    using tickets_own_update [of i "cache_items cache" t] i by (simp add: cache_own_def cache'_def ac_simps)
  with assms(3) have held: "holds (cache_own cache' + ticket_own (cache_items cache ! i)) live d" by simp
  have wf: "ticket_wf (cache_items cache ! i)" using assms(1) i by (auto simp: cache_inv_def list_all_length)
  have "list_all ticket_wf ((cache_items cache)[i := t])"
    using assms(1,2) i by (auto simp: cache_inv_def list_all_length nth_list_update)
  with assms(1) keys have "cache_inv cache'" by (simp add: cache_inv_def cache'_def)
  moreover have "cache_map cache' = (cache_map cache)(ticket_key t \<mapsto> t)"
    using assms(1) i map_of_update [of "cache_items cache" i t] by (simp add: cache_map_def cache'_def cache_inv_def)
  ultimately show ?thesis using free_ticket_frees [OF wf held] by (simp add: d'_def)
qed

lemma append_new:
  assumes "cache_inv cache" and "length (cache_items cache) < sc_max_entries cache" and "ticket_wf t"
    and "holds (cache_own cache + ticket_own t) live d" and "ticket_key t \<notin> ticket_key ` set (cache_items cache)"
    and "list_append grow (sc_tickets cache) t d = (r, d')"
  shows "al_bad d' = al_bad d \<and> (case r of
      Inl e \<Rightarrow> holds (cache_own cache + ticket_own t) live d'
    | Inr ts \<Rightarrow> cache_inv (cache\<lparr>sc_tickets := ts\<rparr>) \<and> holds (cache_own (cache\<lparr>sc_tickets := ts\<rparr>)) live d' \<and>
        cache_map (cache\<lparr>sc_tickets := ts\<rparr>) = (cache_map cache)(ticket_key t \<mapsto> t))"
proof -
  have held: "holds ((tickets_own (cache_items cache) + ticket_own t) + mset (block_ids (list_block (sc_tickets cache)))) live d"
    using assms(4) by (simp add: cache_own_def ac_simps)
  from list_append_safe [OF held assms(6)] assms(1-3,5) map_of_append_new [OF assms(5)] show ?thesis
    by (auto simp: cache_own_def cache_inv_def cache_map_def ac_simps split: sum.splits)
qed

lemma room_made:
  assumes "cache_inv cache" and "holds (cache_own cache + ticket_own t) live d"
    and new: "ticket_key t \<notin> ticket_key ` set (cache_items cache)"
  obtains cache1 d1 where "cache_inv cache1" "length (cache_items cache1) < sc_max_entries cache1" "al_bad d1 = al_bad d"
    "holds (cache_own cache1 + ticket_own t) live d1" "cache_map cache1 = make_room cache (ticket_key t)"
    "ticket_key t \<notin> ticket_key ` set (cache_items cache1)"
    "store grow cache t d = (case list_append grow (sc_tickets cache1) t d1 of
       (Inl e, d) \<Rightarrow> Some (Inl e, cache1, d) | (Inr ts, d) \<Rightarrow> Some (Inr (), cache1\<lparr>sc_tickets := ts\<rparr>, d))"
proof (cases "length (cache_items cache) < sc_max_entries cache")
  case True
  have none: "find_ticket (ticket_key t) (cache_items cache) = None" using new by (simp add: find_ticket_None)
  show ?thesis by (rule that [of cache d]) (use assms True none in \<open>simp_all add: make_room_def store_def\<close>)
next
  case False
  with assms(1) obtain oldest ts where items: "cache_items cache = oldest # ts"
    by (cases "cache_items cache") (auto simp: cache_inv_def)
  have none: "find_ticket (ticket_key t) (cache_items cache) = None" using new by (simp add: find_ticket_None)
  let ?cache = "set_items cache ts" and ?d = "free_ticket oldest d"
  have inv: "cache_inv ?cache" "length ts < sc_max_entries cache" "ticket_wf oldest"
    using assms(1) items by (auto simp: cache_inv_def)
  have "holds ((cache_own ?cache + ticket_own t) + ticket_own oldest) live d"
    using assms(2) by (simp add: cache_own_def items ac_simps)
  note freed = free_ticket_frees [OF inv(3) this]
  have gone: "map_of (map (\<lambda>t. (ticket_key t, t)) ts) (ticket_key oldest) = None"
    using assms(1) items by (auto simp: cache_inv_def map_of_eq_None_iff image_image)
  then have "cache_map ?cache = (cache_map cache)(ticket_key oldest := None)"
    by (auto simp: cache_map_def items fun_eq_iff)
  moreover have "ticket_key t \<notin> dom (cache_map cache)" using new by (simp add: cache_map_def map_of_tickets_dom)
  ultimately have "cache_map ?cache = make_room cache (ticket_key t)" using False by (simp add: make_room_def items)
  moreover have "store grow cache t d = (case list_append grow (sc_tickets ?cache) t ?d of
       (Inl e, d) \<Rightarrow> Some (Inl e, ?cache, d) | (Inr ts, d) \<Rightarrow> Some (Inr (), ?cache\<lparr>sc_tickets := ts\<rparr>, d))"
    using False none by (simp add: store_def items)
  ultimately show ?thesis using that [of ?cache ?d] inv freed new items by simp
qed

text \<open>
  Property C35: the cache is a bounded map that loses no memory. Storing a ticket, whatever allocation fails, never
  panics and keeps one ticket per server and at most \<^verbatim>\<open>max_entries\<close> of them; a stored ticket replaces the one of the same server,
  otherwise the oldest one makes room in a full cache; every buffer is owned by the cache or the caller and none
  is freed twice; and from then on the new ticket is what \<^verbatim>\<open>retrieve\<close> returns for its server for as long as it is
  valid.
\<close>

theorem session_store_refines:
  assumes "cache_inv cache" and "ticket_wf t" and "holds (cache_own cache + ticket_own t) live d"
  shows "\<exists>r cache' d'. store grow cache t d = Some (r, cache', d') \<and> cache_inv cache' \<and> al_bad d' = al_bad d \<and>
    (case r of
       Inl e \<Rightarrow> cache_map cache' = make_room cache (ticket_key t) \<and> holds (cache_own cache' + ticket_own t) live d'
     | Inr _ \<Rightarrow> cache_map cache' = (make_room cache (ticket_key t))(ticket_key t \<mapsto> t) \<and> holds (cache_own cache') live d' \<and>
         (\<forall>now. expired t now = Some False \<longrightarrow> retrieve cache' (ticket_key t) now = Some (Some t)))"
proof (cases "find_ticket (ticket_key t) (cache_items cache)")
  case (Some i)
  then have "ticket_key t \<in> dom (cache_map cache)"
    using find_ticket_None [of "ticket_key t" "cache_items cache"] by (simp add: cache_map_def map_of_tickets_dom)
  with Some store_known [OF assms Some] show ?thesis by (simp add: store_def make_room_def retrieve_map)
next
  case None
  then have new: "ticket_key t \<notin> ticket_key ` set (cache_items cache)" by (simp add: find_ticket_None)
  obtain cache1 d1 where room: "cache_inv cache1" "length (cache_items cache1) < sc_max_entries cache1" "al_bad d1 = al_bad d"
      "holds (cache_own cache1 + ticket_own t) live d1" "cache_map cache1 = make_room cache (ticket_key t)"
      "ticket_key t \<notin> ticket_key ` set (cache_items cache1)"
      "store grow cache t d = (case list_append grow (sc_tickets cache1) t d1 of
         (Inl e, d) \<Rightarrow> Some (Inl e, cache1, d) | (Inr ts, d) \<Rightarrow> Some (Inr (), cache1\<lparr>sc_tickets := ts\<rparr>, d))"
    by (rule room_made [OF assms(1,3) new])
  obtain r d' where a: "list_append grow (sc_tickets cache1) t d1 = (r, d')" by fastforce
  note new' = append_new [OF room(1,2) assms(2) room(4,6) a]
  show ?thesis
  proof (cases r)
    case (Inl e)
    with new' a room(1,3,5,7) show ?thesis by simp
  next
    case (Inr ts)
    with new' have inv: "cache_inv (cache1\<lparr>sc_tickets := ts\<rparr>)" by simp
    from Inr new' a room(3,5,7) retrieve_map [OF inv] show ?thesis by simp
  qed
qed

theorem session_store_refines_witness:
  "let t = \<lparr>st_server_id = Owned 0 [104], st_psk = replicate 32 1, st_lifetime_sec = 7200, st_age_add = 5,
       st_nonce = Owned 1 [9], st_allows_early_data = True, st_remembered_max_data = 0, st_remembered_max_stream_data = 0,
       st_remembered_max_streams_bidi = 0, st_remembered_max_streams_uni = 0, st_created_at_sec = 1000\<rparr>;
     d = no_alloc\<lparr>al_next := 2, al_live := [1, 0]\<rparr> in
   \<exists>cache' d'. store (\<lambda>n. n = 0) init_cache t d = Some (Inr (), cache', d') \<and> cache_inv cache' \<and> holds (cache_own cache') [] d' \<and>
     retrieve cache' [104] 5000 = Some (Some t)"
proof -
  let ?t = "\<lparr>st_server_id = Owned 0 [104], st_psk = replicate 32 1, st_lifetime_sec = 7200, st_age_add = 5,
       st_nonce = Owned 1 [9], st_allows_early_data = True, st_remembered_max_data = 0, st_remembered_max_stream_data = 0,
       st_remembered_max_streams_bidi = 0, st_remembered_max_streams_uni = 0, st_created_at_sec = 1000\<rparr>"
  let ?d = "no_alloc\<lparr>al_next := 2, al_live := [1, 0]\<rparr>"
  have "cache_inv init_cache" by (simp add: cache_inv_def init_cache_def)
  moreover have "ticket_wf ?t" by (simp add: ticket_wf_def)
  moreover have "holds (cache_own init_cache + ticket_own ?t) [] ?d"
    by (simp add: holds_def cache_own_def init_cache_def ticket_own_def block_ids_def add_mset_commute)
  moreover have "\<exists>cache' d'. store (\<lambda>n. n = 0) init_cache ?t ?d = Some (Inr (), cache', d')"
    by (simp add: store_def init_cache_def list_append_def zig_alloc_def Let_def)
  moreover have "expired ?t 5000 = Some False" by (simp add: expired_def in_i64_def)
  ultimately show ?thesis
    using session_store_refines [of init_cache ?t "[]" ?d "\<lambda>n. n = 0"] unfolding Let_def by fastforce
qed

text \<open>Pruning keeps the tickets that are still valid, in their order, and releases the others; \<^verbatim>\<open>deinit\<close> releases all.\<close>

lemma prune_loop_exact:
  assumes "list_all ticket_wf ts" and "holds (own + tickets_own ts) live d" and "\<forall>t \<in> set ts. expired t now \<noteq> None"
  shows "\<exists>d'. prune_loop ts now d = Some (filter (\<lambda>t. expired t now = Some False) ts, d') \<and> al_bad d' = al_bad d \<and>
    holds (own + tickets_own (filter (\<lambda>t. expired t now = Some False) ts)) live d'"
  using assms
proof (induction ts arbitrary: own d)
  case (Cons t ts)
  let ?keep = "filter (\<lambda>t. expired t now = Some False) ts"
  from Cons.prems(1,3) obtain old where old: "expired t now = Some old" and wf: "ticket_wf t" "list_all ticket_wf ts"
      "\<forall>t \<in> set ts. expired t now \<noteq> None" by auto
  show ?case
  proof (cases old)
    case True
    have "holds ((own + tickets_own ts) + ticket_own t) live d" using Cons.prems(2) by (simp add: ac_simps)
    note freed = free_ticket_frees [OF wf(1) this]
    from Cons.IH [OF wf(2) freed(1) wf(3)] obtain d' where
        "prune_loop ts now (free_ticket t d) = Some (?keep, d')" "al_bad d' = al_bad (free_ticket t d)"
        "holds (own + tickets_own ?keep) live d'" by blast
    with freed(2) old True show ?thesis by simp
  next
    case False
    have "holds ((own + ticket_own t) + tickets_own ts) live d" using Cons.prems(2) by (simp add: ac_simps)
    from Cons.IH [OF wf(2) this wf(3)] obtain d' where
        "prune_loop ts now d = Some (?keep, d')" "al_bad d' = al_bad d"
        "holds ((own + ticket_own t) + tickets_own ?keep) live d'" by blast
    with old False show ?thesis by (simp add: add.assoc)
  qed
qed simp

theorem session_prune_exact:
  assumes "cache_inv cache" and "holds (cache_own cache) live d" and "\<forall>t \<in> set (cache_items cache). expired t now \<noteq> None"
  shows "\<exists>cache' d'. pruneExpired cache now d = Some (cache', d') \<and> cache_inv cache' \<and> al_bad d' = al_bad d \<and>
    holds (cache_own cache') live d' \<and> cache_items cache' = filter (\<lambda>t. expired t now = Some False) (cache_items cache)"
proof -
  let ?keep = "filter (\<lambda>t. expired t now = Some False) (cache_items cache)"
  have "holds (mset (block_ids (list_block (sc_tickets cache))) + tickets_own (cache_items cache)) live d"
    using assms(2) by (simp add: cache_own_def ac_simps)
  moreover have "list_all ticket_wf (cache_items cache)" using assms(1) by (simp add: cache_inv_def)
  moreover have "cache_inv (set_items cache ?keep)"
    using assms(1) le_trans [OF length_filter_le]
    by (auto simp: cache_inv_def list_all_iff distinct_map inj_on_def)
  ultimately obtain d' where "prune_loop (cache_items cache) now d = Some (?keep, d')" "al_bad d' = al_bad d"
      "holds (mset (block_ids (list_block (sc_tickets cache))) + tickets_own ?keep) live d'" "cache_inv (set_items cache ?keep)"
    using prune_loop_exact [of "cache_items cache" _ live d now] assms(3) by blast
  then show ?thesis by (simp add: pruneExpired_def cache_own_def add.commute)
qed

lemma session_deinit_frees:
  assumes "cache_inv cache" and "holds (cache_own cache) live d"
  shows "al_live (deinit_cache cache d) = live" "al_bad (deinit_cache cache d) = al_bad d"
proof -
  have "holds own live (fold free_ticket ts d) \<and> al_bad (fold free_ticket ts d) = al_bad d"
    if "list_all ticket_wf ts" "holds (own + tickets_own ts) live d" for ts own d
    using that
  proof (induction ts arbitrary: d)
    case (Cons t ts)
    have "holds ((own + tickets_own ts) + ticket_own t) live d" using Cons.prems(2) by (simp add: ac_simps)
    from free_ticket_frees [OF _ this] Cons show ?case by simp
  qed simp
  from this [of "cache_items cache" "mset (block_ids (list_block (sc_tickets cache)))" d]
    holds_free_block [of "{#}" "list_block (sc_tickets cache)" live "fold free_ticket (cache_items cache) d"] assms
  show "al_live (deinit_cache cache d) = live" "al_bad (deinit_cache cache d) = al_bad d"
    by (simp_all add: cache_inv_def cache_own_def deinit_cache_def list_deinit_def holds_none ac_simps)
qed

end
