(* ===== verification/Zero_Rtt.thy ===== *)
theory Zero_Rtt
  imports Session_Cache
begin

text \<open>
  0-RTT resumption (\<^verbatim>\<open>src/src/quic/zero_rtt.zig\<close>): the replay protection of the client and the resumption manager over the
  session cache. As there, the value \<open>None\<close> of a function is a panic (overflow of \<^verbatim>\<open>i64\<close> arithmetic).
\<close>

section \<open>Replay protection\<close>

record replay_entry =
  re_server_id :: "byte slice"
  re_timestamp :: int

record replay_protection =
  rp_last_timestamps :: "replay_entry array_list"
  rp_max_clock_skew_sec :: int

abbreviation rp_items :: "replay_protection \<Rightarrow> replay_entry list" where
  "rp_items self \<equiv> list_items (rp_last_timestamps self)"

definition init_replay :: replay_protection where
  "init_replay = \<lparr>rp_last_timestamps = \<lparr>list_block = None, list_items = []\<rparr>, rp_max_clock_skew_sec = 10\<rparr>"

definition deinit_replay :: "replay_protection \<Rightarrow> decoder \<Rightarrow> decoder" where
  "deinit_replay self d =
     list_deinit (rp_last_timestamps self) (fold (\<lambda>entry. zig_free (re_server_id entry)) (rp_items self) d)"

fun find_entry :: "byte list \<Rightarrow> replay_entry list \<Rightarrow> nat option" where
  "find_entry server_id [] = None"
| "find_entry server_id (entry # entries) =
     (if elems (re_server_id entry) = server_id then Some 0 else map_option Suc (find_entry server_id entries))"

definition dupe :: "byte list \<Rightarrow> (byte slice, decoder) zig" where
  "dupe data = zbind (zig_alloc (length data)) (\<lambda>i. zret (as_slice i data))"

text \<open>The body of the loop for the entry of the server.\<close>

definition validate_entry :: "replay_protection \<Rightarrow> nat \<Rightarrow> int \<Rightarrow> (bool \<times> replay_protection) option" where
  "validate_entry self i now_sec =
     (let entry = rp_items self ! i in
      if now_sec \<le> re_timestamp entry then Some (False, self)
      else Option.bind (in_i64 (now_sec - re_timestamp entry)) (\<lambda>elapsed.
        Option.bind (in_i64 (rp_max_clock_skew_sec self * 100)) (\<lambda>skew.
        if elapsed > skew then Some (False, self)
        else Some (True, self\<lparr>rp_last_timestamps := (rp_last_timestamps self)\<lparr>list_items :=
          (rp_items self)[i := entry\<lparr>re_timestamp := now_sec\<rparr>]\<rparr>\<rparr>))))"

definition validateAttempt :: "(nat \<Rightarrow> bool) \<Rightarrow> replay_protection \<Rightarrow> byte list \<Rightarrow> int \<Rightarrow> decoder \<Rightarrow>
    (bool zig_result \<times> replay_protection \<times> decoder) option" where
  "validateAttempt grow self server_id now_sec d =
     (case find_entry server_id (rp_items self) of
        Some i \<Rightarrow> map_option (\<lambda>(valid, self). (Inr valid, self, d)) (validate_entry self i now_sec)
      | None \<Rightarrow>
          (case dupe server_id d of
             (Inl e, d) \<Rightarrow> Some (Inl e, self, d)
           | (Inr server_id, d) \<Rightarrow>
               (case list_append grow (rp_last_timestamps self) \<lparr>re_server_id = server_id, re_timestamp = now_sec\<rparr> d of
                  (Inl e, d) \<Rightarrow> Some (Inl e, self, d)
                | (Inr entries, d) \<Rightarrow> Some (Inr True, self\<lparr>rp_last_timestamps := entries\<rparr>, d))))"

section \<open>The resumption manager\<close>

datatype zero_rtt_state = Zero_rtt_none | Zero_rtt_offered | Zero_rtt_accepted | Zero_rtt_rejected

record resumption_manager =
  rm_cache :: session_cache
  rm_replay :: replay_protection
  rm_state :: zero_rtt_state
  rm_current_psk :: "byte list option"
  rm_early_data_sent :: bool

definition init_manager :: resumption_manager where
  "init_manager = \<lparr>rm_cache = init_cache, rm_replay = init_replay, rm_state = Zero_rtt_none, rm_current_psk = None,
     rm_early_data_sent = False\<rparr>"

definition deinit_manager :: "resumption_manager \<Rightarrow> decoder \<Rightarrow> decoder" where
  "deinit_manager self d = deinit_replay (rm_replay self) (deinit_cache (rm_cache self) d)"

definition attemptResumption :: "(nat \<Rightarrow> bool) \<Rightarrow> resumption_manager \<Rightarrow> byte list \<Rightarrow> int \<Rightarrow> decoder \<Rightarrow>
    (byte list option \<times> resumption_manager \<times> decoder) option" where
  "attemptResumption grow self server_id now_sec d =
     (case retrieve (rm_cache self) server_id now_sec of
        None \<Rightarrow> None
      | Some None \<Rightarrow> Some (None, self\<lparr>rm_state := Zero_rtt_none\<rparr>, d)
      | Some (Some ticket) \<Rightarrow>
          if \<not> st_allows_early_data ticket then Some (None, self\<lparr>rm_state := Zero_rtt_none\<rparr>, d)
          else (case validateAttempt grow (rm_replay self) server_id now_sec d of
             None \<Rightarrow> None
           | Some (Inl e, replay, d) \<Rightarrow> Some (None, self\<lparr>rm_replay := replay, rm_state := Zero_rtt_none\<rparr>, d)
           | Some (Inr valid, replay, d) \<Rightarrow>
               let self = self\<lparr>rm_replay := replay\<rparr> in
               if \<not> valid then Some (None, self\<lparr>rm_state := Zero_rtt_rejected\<rparr>, d)
               else Some (Some (st_psk ticket),
                 self\<lparr>rm_state := Zero_rtt_offered, rm_current_psk := Some (st_psk ticket)\<rparr>, d)))"

definition onServerAccepted :: "resumption_manager \<Rightarrow> resumption_manager" where
  "onServerAccepted self = (if rm_state self = Zero_rtt_offered then self\<lparr>rm_state := Zero_rtt_accepted\<rparr> else self)"

definition onServerRejected :: "resumption_manager \<Rightarrow> resumption_manager" where
  "onServerRejected self = self\<lparr>rm_state := Zero_rtt_rejected, rm_current_psk := None\<rparr>"

definition canSendEarlyData :: "resumption_manager \<Rightarrow> bool" where
  "canSendEarlyData self \<longleftrightarrow> rm_state self = Zero_rtt_offered \<or> rm_state self = Zero_rtt_accepted"

definition markEarlyDataSent :: "resumption_manager \<Rightarrow> resumption_manager" where
  "markEarlyDataSent self = self\<lparr>rm_early_data_sent := True\<rparr>"

section \<open>No attempt is accepted twice\<close>

text \<open>
  A run of attempts: the accepted ones, in order, and the state after the last. An attempt for which memory ran out
  is not accepted.
\<close>

fun attempts :: "(nat \<Rightarrow> bool) \<Rightarrow> replay_protection \<Rightarrow> (byte list \<times> int) list \<Rightarrow> decoder \<Rightarrow>
    ((byte list \<times> int) list \<times> replay_protection \<times> decoder) option" where
  "attempts grow self [] d = Some ([], self, d)"
| "attempts grow self ((server_id, now_sec) # requests) d =
     Option.bind (validateAttempt grow self server_id now_sec d) (\<lambda>(r, self, d).
       map_option (\<lambda>(accepted, self, d). (if r = Inr True then (server_id, now_sec) # accepted else accepted, self, d))
         (attempts grow self requests d))"

definition times_of :: "byte list \<Rightarrow> (byte list \<times> int) list \<Rightarrow> int list" where
  "times_of server_id accepted = map snd (filter (\<lambda>x. fst x = server_id) accepted)"

definition last_time :: "replay_protection \<Rightarrow> byte list \<Rightarrow> int option" where
  "last_time self server_id = map_option (\<lambda>i. re_timestamp (rp_items self ! i)) (find_entry server_id (rp_items self))"

lemma find_entry_Some: "find_entry k es = Some i \<Longrightarrow> i < length es \<and> elems (re_server_id (es ! i)) = k"
  by (induction es arbitrary: i) (auto split: if_splits)

lemma find_entry_update:
  "find_entry k es = Some i \<Longrightarrow> find_entry k' (es[i := (es ! i)\<lparr>re_timestamp := t\<rparr>]) = find_entry k' es"
  by (induction es arbitrary: i) (auto split: if_splits)

lemma find_entry_inj: "find_entry k es = Some i \<Longrightarrow> find_entry k' es = Some i \<Longrightarrow> k' = k"
  by (auto dest: find_entry_Some)

lemma find_entry_append:
  "find_entry k (es @ [e]) = (case find_entry k es of
      Some i \<Rightarrow> Some i | None \<Rightarrow> if elems (re_server_id e) = k then Some (length es) else None)"
  by (induction es) (auto split: option.splits)

lemma validate_last_time:
  assumes "validateAttempt grow self k now d = Some (r, self', d')"
  shows "rp_max_clock_skew_sec self' = rp_max_clock_skew_sec self \<and>
    (if r = Inr True then last_time self' = (last_time self)(k \<mapsto> now) \<and> (\<forall>t. last_time self k = Some t \<longrightarrow> t < now)
     else last_time self' = last_time self)"
proof (cases "find_entry k (rp_items self)")
  case (Some i)
  note i = find_entry_Some [OF Some]
  let ?entry = "rp_items self ! i"
  let ?self = "self\<lparr>rp_last_timestamps := (rp_last_timestamps self)\<lparr>list_items :=
      (rp_items self)[i := ?entry\<lparr>re_timestamp := now\<rparr>]\<rparr>\<rparr>"
  have upd: "last_time ?self = (last_time self)(k \<mapsto> now)"
  proof
    fix k'
    show "last_time ?self k' = ((last_time self)(k \<mapsto> now)) k'"
    proof (cases "find_entry k' (rp_items self)")
      case (Some j)
      then show ?thesis
        using i find_entry_update [OF \<open>find_entry k (rp_items self) = Some i\<close>, of k' now]
          find_entry_inj [OF \<open>find_entry k (rp_items self) = Some i\<close>, of k'] \<open>find_entry k (rp_items self) = Some i\<close>
        by (cases "j = i") (auto simp: last_time_def)
    next
      case None
      then show ?thesis
        using find_entry_update [OF \<open>find_entry k (rp_items self) = Some i\<close>, of k' now] \<open>find_entry k (rp_items self) = Some i\<close>
        by (auto simp: last_time_def)
    qed
  qed
  with assms Some show ?thesis
    by (auto simp: validateAttempt_def validate_entry_def Let_def last_time_def split: if_splits bind_splits)
next
  case None
  then have "last_time (self\<lparr>rp_last_timestamps := es\<rparr>) = (last_time self)(k \<mapsto> now)"
    if "list_items es = rp_items self @ [e]" "elems (re_server_id e) = k" "re_timestamp e = now" for es e
    using that by (auto simp: fun_eq_iff last_time_def find_entry_append nth_append split: option.splits dest: find_entry_Some)
  moreover have "last_time self k = None" using None by (simp add: last_time_def)
  ultimately show ?thesis
    using None assms
    by (auto simp: validateAttempt_def dupe_def zbind_def zret_def list_append_def split: prod.splits sum.splits if_splits)
qed

lemma attempts_last_time:
  assumes "attempts grow self requests d = Some (accepted, self', d')"
  shows "sorted_wrt (<) (times_of k accepted) \<and> (\<forall>t n. last_time self k = Some t \<longrightarrow> n \<in> set (times_of k accepted) \<longrightarrow> t < n)"
  using assms
proof (induction requests arbitrary: self d accepted)
  case (Cons request requests)
  obtain s now where request: "request = (s, now)" by fastforce
  from Cons.prems obtain r self1 d1 accepted1 where
      step: "validateAttempt grow self s now d = Some (r, self1, d1)"
    and rest: "attempts grow self1 requests d1 = Some (accepted1, self', d')"
    and accepted: "accepted = (if r = Inr True then (s, now) # accepted1 else accepted1)"
    by (auto simp: request split: bind_splits prod.splits)
  note IH = Cons.IH [OF rest]
  show ?case
  proof (cases "r = Inr True")
    case True
    with validate_last_time [OF step] have "last_time self1 = (last_time self)(s \<mapsto> now)" "\<forall>t. last_time self s = Some t \<longrightarrow> t < now"
      by auto
    with IH accepted True show ?thesis by (cases "s = k") (auto simp: times_of_def dest: less_trans)
  next
    case False
    with validate_last_time [OF step] IH accepted show ?thesis by auto
  qed
qed (simp add: times_of_def)

text \<open>
  Property C36: no 0-RTT attempt is replayed. Over any run of attempts on a new replay protection, whatever servers they
  are for and wherever an allocation fails, the accepted attempts of each server have strictly increasing times;
  so no time is accepted twice for one server.
\<close>

theorem replay_protected:
  assumes "attempts grow init_replay requests d = Some (accepted, self', d')"
  shows "sorted_wrt (<) (times_of server_id accepted)"
  using attempts_last_time [OF assms] by blast

theorem replay_protected_witness:
  "\<exists>self' d'. attempts (\<lambda>_. True) init_replay [([1], 5), ([2], 5), ([1], 5), ([1], 9)] no_alloc =
       Some ([([1], 5), ([2], 5), ([1], 9)], self', d') \<and>
     sorted_wrt (<) (times_of [1] [([1], 5), ([2], 5), ([1], 9)])"
proof -
  have "\<exists>self' d'. attempts (\<lambda>_. True) init_replay [([1], 5), ([2], 5), ([1], 5), ([1], 9)] no_alloc =
       Some ([([1], 5), ([2], 5), ([1], 9)], self', d')"
    by (simp add: init_replay_def validateAttempt_def validate_entry_def dupe_def zbind_def zret_def zig_alloc_def list_append_def
        as_slice_def free_block_def free_id_def in_i64_def Let_def)
  with replay_protected [of "\<lambda>_. True" "[([1], 5), ([2], 5), ([1], 5), ([1], 9)]" no_alloc _ _ _ "[1]"] show ?thesis by blast
qed

section \<open>A server that was not contacted for a while is locked out\<close>

lemma validate_locked:
  assumes "last_time self k = Some t" and "rp_max_clock_skew_sec self = 10" and "t + 1000 < now" and "now - t < 2 ^ 63"
  shows "validateAttempt grow self k now d = Some (Inr False, self, d)"
  using assms by (auto simp: last_time_def validateAttempt_def validate_entry_def Let_def in_i64_def)

text \<open>
  Property C37: the clock skew check locks servers out. With the default tolerance, once more than 1000 seconds have
  passed since the last accepted attempt for a server, no later attempt for it is ever accepted, whatever else
  happens in between: the check compares with the time of the last attempt, and a refused attempt does not move it.
\<close>

theorem replay_lockout:
  assumes "last_time self server_id = Some t" and "rp_max_clock_skew_sec self = 10"
    and "\<forall>now. (server_id, now) \<in> set requests \<longrightarrow> t + 1000 < now \<and> now - t < 2 ^ 63"
    and "attempts grow self requests d = Some (accepted, self', d')"
  shows "times_of server_id accepted = []"
  using assms
proof (induction requests arbitrary: self d accepted)
  case (Cons request requests)
  obtain s now where request: "request = (s, now)" by fastforce
  from Cons.prems(4) obtain r self1 d1 accepted1 where
      step: "validateAttempt grow self s now d = Some (r, self1, d1)"
    and rest: "attempts grow self1 requests d1 = Some (accepted1, self', d')"
    and accepted: "accepted = (if r = Inr True then (s, now) # accepted1 else accepted1)"
    by (auto simp: request split: bind_splits prod.splits)
  have skew: "rp_max_clock_skew_sec self1 = 10" using validate_last_time [OF step] Cons.prems(2) by simp
  have later: "\<forall>now. (server_id, now) \<in> set requests \<longrightarrow> t + 1000 < now \<and> now - t < 2 ^ 63" using Cons.prems(3) by simp
  have "last_time self1 server_id = Some t \<and> (s = server_id \<longrightarrow> r \<noteq> Inr True)"
  proof (cases "s = server_id")
    case True
    with validate_locked [OF Cons.prems(1,2)] Cons.prems(3) step Cons.prems(1) show ?thesis by (auto simp: request)
  next
    case False
    with validate_last_time [OF step] Cons.prems(1) show ?thesis by (auto split: if_splits)
  qed
  with Cons.IH [OF _ skew later rest] accepted show ?case by (auto simp: times_of_def)
qed (simp add: times_of_def)

theorem replay_lockout_witness:
  "let self = init_replay\<lparr>rp_last_timestamps := \<lparr>list_block = Some 1, list_items = [\<lparr>re_server_id = Owned 0 [1], re_timestamp = 0\<rparr>]\<rparr>\<rparr> in
   \<exists>self' d'. attempts (\<lambda>_. False) self [([1], 1001), ([1], 5000), ([1], 86400)] no_alloc = Some ([], self', d') \<and>
     times_of [1] [] = []"
proof -
  let ?self = "init_replay\<lparr>rp_last_timestamps := \<lparr>list_block = Some 1, list_items = [\<lparr>re_server_id = Owned 0 [1], re_timestamp = 0\<rparr>]\<rparr>\<rparr>"
  have run: "attempts (\<lambda>_. False) ?self [([1], 1001), ([1], 5000), ([1], 86400)] no_alloc = Some ([], ?self, no_alloc)"
    by (simp add: init_replay_def validateAttempt_def validate_entry_def in_i64_def Let_def)
  have "times_of [1] [] = []"
    by (rule replay_lockout [OF _ _ _ run, of "[1]" 0]) (auto simp: last_time_def init_replay_def)
  with run show ?thesis by (simp add: Let_def)
qed

section \<open>What a resumption rests on\<close>

theorem resumption_sound:
  assumes "cache_inv (rm_cache m)" and "attemptResumption grow m k now d = Some (Some psk, m', d')"
  shows "\<exists>t. cache_map (rm_cache m) k = Some t \<and> expired t now = Some False \<and> st_allows_early_data t \<and> psk = st_psk t \<and>
    (\<forall>last_sec. last_time (rm_replay m) k = Some last_sec \<longrightarrow> last_sec < now) \<and>
    canSendEarlyData m' \<and> rm_current_psk m' = Some psk \<and> last_time (rm_replay m') k = Some now"
proof -
  from assms(2) obtain t replay where
      t: "retrieve (rm_cache m) k now = Some (Some t)" "st_allows_early_data t" "psk = st_psk t"
    and v: "validateAttempt grow (rm_replay m) k now d = Some (Inr True, replay, d')"
    and m': "m' = m\<lparr>rm_replay := replay, rm_state := Zero_rtt_offered, rm_current_psk := Some (st_psk t)\<rparr>"
    by (auto simp: attemptResumption_def Let_def split: option.splits if_splits sum.splits prod.splits)
  from t(1) have "cache_map (rm_cache m) k = Some t" "expired t now = Some False"
    unfolding retrieve_map [OF assms(1)] by (auto split: option.splits if_splits)
  with t(2,3) m' validate_last_time [OF v] show ?thesis by (auto simp: canSendEarlyData_def)
qed

text \<open>
  The copy of the server identity leaks when the list cannot grow: after a failed first attempt the block is still
  live although no entry owns it.
\<close>

theorem replay_attempt_leaks:
  "\<exists>d'. validateAttempt (\<lambda>_. True) init_replay [1] 5 (no_alloc\<lparr>al_fails := (\<lambda>i. i = 1)\<rparr>) = Some (Inl OutOfMemory, init_replay, d') \<and>
     al_live d' = [0]"
  by (simp add: init_replay_def validateAttempt_def dupe_def zbind_def zret_def zig_alloc_def list_append_def as_slice_def Let_def)

end
