(* ===== verification/Migration.thy ===== *)
theory Migration
  imports C_Memory
begin

text \<open>
  Connection migration (\<^verbatim>\<open>src/src/quic/migration.zig\<close>): the anti-amplification counters, the detector of NAT rebindings and
  the manager of path validation. The counters are \<^verbatim>\<open>usize\<close> and the retries \<^verbatim>\<open>u8\<close>, both kept at their width: the value
  \<open>None\<close> of an operation is the panic of an overflow. The detector keeps the slice it is given and not a copy of the
  address, so an address is a reference, and the memory that says which bytes it refers to at the time of a call is an
  argument of the operations.
\<close>

definition in_usize :: "nat \<Rightarrow> nat option" where
  "in_usize n = (if n < 2 ^ 64 then Some n else None)"

lemma in_usize_eq_Some [simp]: "in_usize n = Some k \<longleftrightarrow> k = n \<and> n < 2 ^ 64"
  by (auto simp: in_usize_def)

section \<open>Anti-amplification\<close>

record anti_amplification =
  aa_bytes_received :: nat
  aa_bytes_sent :: nat
  aa_limit_factor :: nat

definition default_amplification :: anti_amplification where
  "default_amplification = \<lparr>aa_bytes_received = 0, aa_bytes_sent = 0, aa_limit_factor = 3\<rparr>"

definition onReceived :: "anti_amplification \<Rightarrow> nat \<Rightarrow> anti_amplification option" where
  "onReceived self bytes = map_option (\<lambda>n. self\<lparr>aa_bytes_received := n\<rparr>) (in_usize (aa_bytes_received self + bytes))"

definition onSent :: "anti_amplification \<Rightarrow> nat \<Rightarrow> anti_amplification option" where
  "onSent self bytes = map_option (\<lambda>n. self\<lparr>aa_bytes_sent := n\<rparr>) (in_usize (aa_bytes_sent self + bytes))"

definition sendBudget :: "anti_amplification \<Rightarrow> nat option" where
  "sendBudget self =
     map_option (\<lambda>limit. if aa_bytes_sent self \<ge> limit then 0 else limit - aa_bytes_sent self)
       (in_usize (aa_bytes_received self * aa_limit_factor self))"

definition isLimited :: "anti_amplification \<Rightarrow> bool option" where
  "isLimited self =
     (if aa_bytes_received self = 0 then Some False else map_option (\<lambda>budget. budget = 0) (sendBudget self))"

definition isPathValidated :: "anti_amplification \<Rightarrow> bool" where
  "isPathValidated self \<longleftrightarrow> 0 < aa_bytes_received self \<and> aa_bytes_sent self \<le> aa_bytes_received self"

definition reset_amplification :: "anti_amplification \<Rightarrow> anti_amplification" where
  "reset_amplification self = self\<lparr>aa_bytes_received := 0, aa_bytes_sent := 0\<rparr>"

section \<open>NAT rebinding\<close>

type_synonym addr_ref = nat
type_synonym addr_memory = "addr_ref \<Rightarrow> byte list"

record nat_rebinding_detector =
  nd_last_peer_addr :: "addr_ref option"
  nd_rebinding_count :: nat

definition default_detector :: nat_rebinding_detector where
  "default_detector = \<lparr>nd_last_peer_addr = None, nd_rebinding_count = 0\<rparr>"

definition checkPeerAddress :: "addr_memory \<Rightarrow> nat_rebinding_detector \<Rightarrow> addr_ref \<Rightarrow> (bool \<times> nat_rebinding_detector) option" where
  "checkPeerAddress mem self new_addr =
     (case nd_last_peer_addr self of
        Some addr \<Rightarrow>
          if mem addr \<noteq> mem new_addr
          then map_option (\<lambda>n. (True, self\<lparr>nd_rebinding_count := n, nd_last_peer_addr := Some new_addr\<rparr>))
                 (in_usize (nd_rebinding_count self + 1))
          else Some (False, self)
      | None \<Rightarrow> Some (False, self\<lparr>nd_last_peer_addr := Some new_addr\<rparr>))"

section \<open>The migration manager\<close>

datatype path_validation = Path_idle | Path_challenge_sent | Path_validated | Path_failed

record migration_manager =
  mm_anti_amplification :: anti_amplification
  mm_nat_detector :: nat_rebinding_detector
  mm_validation_state :: path_validation
  mm_challenge_retries :: nat
  mm_max_challenge_retries :: nat

definition default_manager :: migration_manager where
  "default_manager = \<lparr>mm_anti_amplification = default_amplification, mm_nat_detector = default_detector,
     mm_validation_state = Path_idle, mm_challenge_retries = 0, mm_max_challenge_retries = 3\<rparr>"

definition onDatagramReceived :: "addr_memory \<Rightarrow> migration_manager \<Rightarrow> addr_ref \<Rightarrow> nat \<Rightarrow> (bool \<times> migration_manager) option" where
  "onDatagramReceived mem self peer_addr bytes =
     Option.bind (checkPeerAddress mem (mm_nat_detector self) peer_addr) (\<lambda>(rebound, detector).
       let amplification = (if rebound then reset_amplification (mm_anti_amplification self) else mm_anti_amplification self) in
       map_option (\<lambda>amplification. (rebound, self\<lparr>mm_nat_detector := detector, mm_anti_amplification := amplification\<rparr>))
         (onReceived amplification bytes))"

definition onDatagramSent :: "migration_manager \<Rightarrow> nat \<Rightarrow> migration_manager option" where
  "onDatagramSent self bytes =
     map_option (\<lambda>amplification. self\<lparr>mm_anti_amplification := amplification\<rparr>) (onSent (mm_anti_amplification self) bytes)"

definition startValidation :: "migration_manager \<Rightarrow> migration_manager" where
  "startValidation self = self\<lparr>mm_validation_state := Path_challenge_sent, mm_challenge_retries := 0,
     mm_anti_amplification := (mm_anti_amplification self)\<lparr>aa_bytes_sent := 0\<rparr>\<rparr>"

definition onPathResponse :: "migration_manager \<Rightarrow> migration_manager" where
  "onPathResponse self =
     (if mm_validation_state self = Path_challenge_sent then self\<lparr>mm_validation_state := Path_validated\<rparr> else self)"

definition onChallengeTimeout :: "migration_manager \<Rightarrow> migration_manager option" where
  "onChallengeTimeout self =
     (if mm_challenge_retries self + 1 < 2 ^ 8
      then let self = self\<lparr>mm_challenge_retries := mm_challenge_retries self + 1\<rparr> in
        Some (if mm_challenge_retries self \<ge> mm_max_challenge_retries self then self\<lparr>mm_validation_state := Path_failed\<rparr> else self)
      else None)"

definition manager_canSend :: "migration_manager \<Rightarrow> bool option" where
  "manager_canSend self =
     (case mm_validation_state self of
        Path_idle \<Rightarrow> Some True
      | Path_validated \<Rightarrow> Some True
      | Path_challenge_sent \<Rightarrow> map_option Not (isLimited (mm_anti_amplification self))
      | Path_failed \<Rightarrow> Some False)"

section \<open>The amplification limit\<close>

text \<open>
  What happens to a server: a datagram arrives from an address, a datagram is sent, a validation starts, its response
  arrives, its timer fires. A trace lists the events, the latest first.
\<close>

datatype migration_event = Datagram_received addr_ref nat | Datagram_sent nat | Validation_started | Response_received | Timer_fired

text \<open>
  The traces of a server that asks \<^verbatim>\<open>canSend\<close> before it sends a datagram, none larger than \<open>mtu\<close>, and the state of its
  manager after them; nothing else is restricted. The bytes that an address refers to stay as they are (\<open>rebinding_missed\<close>
  below shows what a caller that reuses a buffer for its addresses risks).
\<close>

inductive migration_run :: "addr_memory \<Rightarrow> nat \<Rightarrow> migration_event list \<Rightarrow> migration_manager \<Rightarrow> bool" for mem mtu where
  run_init: "migration_run mem mtu [] default_manager"
| run_received: "migration_run mem mtu es m \<Longrightarrow> onDatagramReceived mem m addr bytes = Some (rebound, m') \<Longrightarrow>
    migration_run mem mtu (Datagram_received addr bytes # es) m'"
| run_sent: "migration_run mem mtu es m \<Longrightarrow> manager_canSend m = Some True \<Longrightarrow> bytes \<le> mtu \<Longrightarrow> onDatagramSent m bytes = Some m' \<Longrightarrow>
    migration_run mem mtu (Datagram_sent bytes # es) m'"
| run_start: "migration_run mem mtu es m \<Longrightarrow> migration_run mem mtu (Validation_started # es) (startValidation m)"
| run_response: "migration_run mem mtu es m \<Longrightarrow> migration_run mem mtu (Response_received # es) (onPathResponse m)"
| run_timeout: "migration_run mem mtu es m \<Longrightarrow> onChallengeTimeout m = Some m' \<Longrightarrow> migration_run mem mtu (Timer_fired # es) m'"

text \<open>
  The account of a trace, from the events alone: the address of the current path (that of the last datagram received), the
  bytes received from it since the path last changed, the bytes sent since the path last changed or a validation last
  started, and those of them that were sent before any byte had been received on the path.
\<close>

record path_account =
  ac_peer :: "byte list option"
  ac_received :: nat
  ac_sent :: nat
  ac_unprompted :: nat

fun account :: "addr_memory \<Rightarrow> migration_event list \<Rightarrow> path_account" where
  "account mem [] = \<lparr>ac_peer = None, ac_received = 0, ac_sent = 0, ac_unprompted = 0\<rparr>"
| "account mem (Datagram_received addr bytes # es) =
     (let acc = account mem es in
      if ac_peer acc = None \<or> ac_peer acc = Some (mem addr)
      then acc\<lparr>ac_peer := Some (mem addr), ac_received := ac_received acc + bytes\<rparr>
      else \<lparr>ac_peer = Some (mem addr), ac_received = bytes, ac_sent = 0, ac_unprompted = 0\<rparr>)"
| "account mem (Datagram_sent bytes # es) =
     (let acc = account mem es in
      acc\<lparr>ac_sent := ac_sent acc + bytes,
          ac_unprompted := (if ac_received acc = 0 then ac_unprompted acc + bytes else ac_unprompted acc)\<rparr>)"
| "account mem (Validation_started # es) = (account mem es)\<lparr>ac_sent := 0, ac_unprompted := 0\<rparr>"
| "account mem (Response_received # es) = account mem es"
| "account mem (Timer_fired # es) = account mem es"

lemma account_unprompted: "ac_received (account mem es) = 0 \<Longrightarrow> ac_sent (account mem es) = ac_unprompted (account mem es)"
  by (induction mem es rule: account.induct) (auto simp: Let_def split: if_splits)

lemmas migration_defs = default_manager_def default_amplification_def onDatagramReceived_def onDatagramSent_def
  startValidation_def onPathResponse_def onChallengeTimeout_def manager_canSend_def isLimited_def sendBudget_def onReceived_def
  onSent_def reset_amplification_def checkPeerAddress_def

text \<open>The manager keeps the account of the trace.\<close>

definition books_kept :: "addr_memory \<Rightarrow> path_account \<Rightarrow> migration_manager \<Rightarrow> bool" where
  "books_kept mem acc m \<longleftrightarrow> (let a = mm_anti_amplification m in
     aa_limit_factor a = 3 \<and> aa_bytes_received a = ac_received acc \<and> aa_bytes_sent a = ac_sent acc \<and>
     map_option mem (nd_last_peer_addr (mm_nat_detector m)) = ac_peer acc)"

lemma migration_books: "migration_run mem mtu es m \<Longrightarrow> books_kept mem (account mem es) m"
proof (induction rule: migration_run.induct)
  case (run_received es m addr bytes rebound m')
  then show ?case
    by (auto simp: books_kept_def migration_defs Let_def split: bind_splits option.splits if_splits)
next
  case (run_sent es m bytes m')
  then show ?case by (auto simp: books_kept_def onDatagramSent_def onSent_def Let_def)
next
  case (run_timeout es m m')
  then show ?case by (auto simp: books_kept_def onChallengeTimeout_def Let_def split: if_splits)
qed (simp_all add: books_kept_def migration_defs default_detector_def Let_def)

lemma canSend_exact:
  assumes "books_kept mem acc m" and "mm_validation_state m = Path_challenge_sent" and "3 * ac_received acc < 2 ^ 64"
  shows "manager_canSend m = Some (ac_received acc = 0 \<or> ac_sent acc < 3 * ac_received acc)"
  using assms by (auto simp: books_kept_def manager_canSend_def isLimited_def sendBudget_def in_usize_def Let_def)

lemma canSend_below:
  assumes "books_kept mem acc m" and "mm_validation_state m = Path_challenge_sent" and "manager_canSend m = Some True"
  shows "ac_received acc = 0 \<or> ac_sent acc < 3 * ac_received acc"
  using assms by (auto simp: books_kept_def manager_canSend_def isLimited_def sendBudget_def Let_def split: if_splits)

lemma amplification_within:
  assumes "migration_run mem mtu es m" and "mm_validation_state m = Path_challenge_sent"
  shows "ac_sent (account mem es) \<le> max (ac_unprompted (account mem es)) (3 * ac_received (account mem es) + mtu)"
  using assms
proof (induction rule: migration_run.induct)
  case (run_received es m addr bytes rebound m')
  then have "mm_validation_state m = Path_challenge_sent"
    by (auto simp: onDatagramReceived_def Let_def split: bind_splits)
  with run_received.IH show ?case by (auto simp: Let_def)
next
  case (run_sent es m bytes m')
  then have state: "mm_validation_state m = Path_challenge_sent" by (auto simp: onDatagramSent_def)
  from canSend_below [OF migration_books [OF run_sent.hyps(1)] state run_sent.hyps(2)] run_sent.hyps(3)
  show ?case using account_unprompted [of mem es] by (auto simp: Let_def)
next
  case (run_timeout es m m')
  then have "mm_validation_state m = Path_challenge_sent" by (auto simp: onChallengeTimeout_def Let_def split: if_splits)
  with run_timeout.IH show ?case by simp
qed (simp_all add: default_manager_def onPathResponse_def split: if_splits)

text \<open>
  Property C38: amplification while a path is being validated, against an account of the datagrams themselves. In every
  run of a server that sends a datagram of at most \<open>mtu\<close> bytes only when \<^verbatim>\<open>canSend\<close> allows it, whatever datagrams arrive and
  whatever changes of address, validations, responses and timeouts occur: while the validation of the path is open,
  \<^verbatim>\<open>canSend\<close> allows sending exactly when nothing has been received on the path or the bytes sent are below three times
  those received (unless three times the received bytes overflow); and the bytes sent since the validation started or the
  path changed are at most three times those received on the path plus one datagram, or all of them were sent before any
  byte had been received on the path, where the code has no limit.
\<close>

theorem migration_amplification_bounded:
  assumes "migration_run mem mtu es m" and "mm_validation_state m = Path_challenge_sent" and "acc = account mem es"
  shows "(3 * ac_received acc < 2 ^ 64 \<longrightarrow>
      manager_canSend m = Some (ac_received acc = 0 \<or> ac_sent acc < 3 * ac_received acc)) \<and>
    ac_sent acc \<le> max (ac_unprompted acc) (3 * ac_received acc + mtu)"
  using canSend_exact [OF migration_books [OF assms(1)] assms(2)] amplification_within [OF assms(1,2)] assms(3) by blast

definition example_run :: "migration_event list" where
  "example_run = [Datagram_sent 1200, Validation_started, Datagram_received 1 100, Datagram_sent 700, Datagram_received 0 50]"

lemma example_migration:
  "\<exists>m. migration_run (\<lambda>a. [word_of_nat a]) 1200 example_run m \<and> mm_validation_state m = Path_challenge_sent"
proof -
  let ?mem = "\<lambda>a :: nat. [word_of_nat a :: byte]"
  let ?m = "\<lambda>d r n s. default_manager\<lparr>mm_nat_detector := d, mm_validation_state := s,
      mm_anti_amplification := \<lparr>aa_bytes_received = r, aa_bytes_sent = n, aa_limit_factor = 3\<rparr>\<rparr>"
  let ?d0 = "\<lparr>nd_last_peer_addr = Some 0, nd_rebinding_count = 0\<rparr>"
  let ?d1 = "\<lparr>nd_last_peer_addr = Some 1, nd_rebinding_count = 1\<rparr>"
  have "migration_run ?mem 1200 [Datagram_received 0 50] (?m ?d0 50 0 Path_idle)"
    by (rule run_received [OF run_init, where rebound = False]) (simp add: migration_defs default_detector_def Let_def in_usize_def)
  then have "migration_run ?mem 1200 [Datagram_sent 700, Datagram_received 0 50] (?m ?d0 50 700 Path_idle)"
    by (rule run_sent) (simp_all add: migration_defs in_usize_def)
  then have "migration_run ?mem 1200 [Datagram_received 1 100, Datagram_sent 700, Datagram_received 0 50] (?m ?d1 100 0 Path_idle)"
    by (rule run_received [where rebound = True]) (simp add: migration_defs Let_def in_usize_def)
  from run_start [OF this]
  have "migration_run ?mem 1200 [Validation_started, Datagram_received 1 100, Datagram_sent 700, Datagram_received 0 50] (?m ?d1 100 0 Path_challenge_sent)"
    by (simp add: migration_defs)
  then have "migration_run ?mem 1200 example_run (?m ?d1 100 1200 Path_challenge_sent)"
    unfolding example_run_def by (rule run_sent) (simp_all add: migration_defs in_usize_def)
  moreover have "mm_validation_state (?m ?d1 100 1200 Path_challenge_sent) = Path_challenge_sent" by simp
  ultimately show ?thesis by blast
qed

theorem migration_amplification_bounded_witness:
  "\<exists>m. migration_run (\<lambda>a. [word_of_nat a]) 1200 example_run m \<and> manager_canSend m = Some False \<and>
     ac_received (account (\<lambda>a. [word_of_nat a]) example_run) = 100 \<and> ac_sent (account (\<lambda>a. [word_of_nat a]) example_run) = 1200 \<and>
     (1200 :: nat) \<le> 3 * 100 + 1200"
proof -
  obtain m where m: "migration_run (\<lambda>a. [word_of_nat a]) 1200 example_run m" "mm_validation_state m = Path_challenge_sent"
    using example_migration by blast
  have "account (\<lambda>a. [word_of_nat a]) example_run =
      \<lparr>ac_peer = Some [1], ac_received = 100, ac_sent = 1200, ac_unprompted = 0\<rparr>"
    by (simp add: example_run_def Let_def)
  with migration_amplification_bounded [OF m refl] m(1) show ?thesis by (intro exI [of _ m]) simp
qed

text \<open>
  Before the first byte has been received on a path under validation there is no limit: a server that starts a validation
  in that state may send any number of datagrams of any size.
\<close>

theorem unprompted_unlimited:
  assumes "sum_list ns < 2 ^ 64" and "\<forall>n \<in> set ns. n \<le> mtu"
  shows "\<exists>m. migration_run mem mtu (map Datagram_sent ns @ [Validation_started]) m \<and> manager_canSend m = Some True"
proof -
  define m where "m = (\<lambda>n. default_manager\<lparr>mm_validation_state := Path_challenge_sent,
    mm_anti_amplification := default_amplification\<lparr>aa_bytes_sent := n\<rparr>\<rparr>)"
  have open': "manager_canSend (m n) = Some True" for n by (simp add: m_def migration_defs)
  have "migration_run mem mtu (map Datagram_sent ns @ [Validation_started]) (m (sum_list ns))"
    using assms
  proof (induction ns)
    case Nil
    then show ?case using run_start [OF run_init, of mem mtu] by (simp add: m_def migration_defs)
  next
    case (Cons n ns)
    then have "migration_run mem mtu (map Datagram_sent ns @ [Validation_started]) (m (sum_list ns))" by simp
    from run_sent [OF this open', of n "m (n + sum_list ns)"] Cons.prems show ?case
      by (simp add: m_def onDatagramSent_def onSent_def in_usize_def add.commute)
  qed
  with open' show ?thesis by blast
qed

section \<open>Which changes of address are seen\<close>

text \<open>The answers of the detector on a sequence of addresses whose bytes do not change.\<close>

fun check_all :: "addr_memory \<Rightarrow> nat_rebinding_detector \<Rightarrow> addr_ref list \<Rightarrow> (bool list \<times> nat_rebinding_detector) option" where
  "check_all mem self [] = Some ([], self)"
| "check_all mem self (addr # addrs) =
     Option.bind (checkPeerAddress mem self addr) (\<lambda>(rebound, self).
       map_option (\<lambda>(rs, self). (rebound # rs, self)) (check_all mem self addrs))"

lemma check_all_after:
  assumes "check_all mem self addrs = Some (rs, self')" and "nd_last_peer_addr self = Some a"
  shows "rs = map2 (\<lambda>x y. mem x \<noteq> mem y) (a # addrs) addrs \<and>
    nd_rebinding_count self' = nd_rebinding_count self + length (filter id rs)"
  using assms
proof (induction addrs arbitrary: self rs a)
  case (Cons b addrs)
  from Cons.prems obtain rebound self1 rs1 where
      step: "checkPeerAddress mem self b = Some (rebound, self1)" "check_all mem self1 addrs = Some (rs1, self')" "rs = rebound # rs1"
    by (auto split: bind_splits)
  show ?case
  proof (cases "mem a = mem b")
    case True
    with step(1) Cons.prems(2) have "self1 = self" "\<not> rebound" by (auto simp: checkPeerAddress_def)
    with Cons.IH [OF step(2), of a] Cons.prems(2) step(3) True show ?thesis by (cases addrs) auto
  next
    case False
    with step(1) Cons.prems(2) have "nd_last_peer_addr self1 = Some b" "rebound" "nd_rebinding_count self1 = nd_rebinding_count self + 1"
      by (auto simp: checkPeerAddress_def)
    with Cons.IH [OF step(2), of b] step(3) False show ?thesis by auto
  qed
qed simp

theorem rebindings_exact:
  assumes "check_all mem default_detector (a # addrs) = Some (rs, self')"
  shows "rs = False # map2 (\<lambda>x y. mem x \<noteq> mem y) (a # addrs) addrs \<and> nd_rebinding_count self' = length (filter id rs)"
  using assms check_all_after [of mem "default_detector\<lparr>nd_last_peer_addr := Some a\<rparr>" addrs]
  by (auto simp: checkPeerAddress_def default_detector_def split: bind_splits)

text \<open>A caller that reads every address into one buffer is never told of a rebinding.\<close>

theorem rebinding_missed:
  "nd_last_peer_addr self = Some addr \<Longrightarrow> checkPeerAddress mem self addr = Some (False, self)"
  by (simp add: checkPeerAddress_def)

text \<open>A timer that fires after the response makes a validated path fail.\<close>

theorem late_timeouts_fail:
  assumes "mm_validation_state m = Path_validated" and "mm_challenge_retries m + 1 = mm_max_challenge_retries m" and "mm_max_challenge_retries m < 256"
  shows "\<exists>m'. onChallengeTimeout m = Some m' \<and> manager_canSend m' = Some False"
  using assms by (simp add: onChallengeTimeout_def manager_canSend_def)

end
