(* ===== verification/Huffman.thy ===== *)
theory Huffman
  imports C_Memory
begin

text \<open>
  The Huffman code of HTTP/3 header compression (\<^verbatim>\<open>src/src/h3/huffman.zig\<close>): the code table, the decoding trie that is built
  from it, the decoder and the encoder. A trie is the array of nodes of the source, indexed by \<^verbatim>\<open>u16\<close>. An output buffer
  is the number of bytes that it holds and the bytes written so far.
\<close>

unbundle bit_operations_syntax

section \<open>The code table\<close>

type_synonym u16 = "16 word"
type_synonym u32 = "32 word"

record huffman_entry =
  he_symbol :: u16
  he_code :: u32
  he_bit_len :: nat

definition huffman_table :: "huffman_entry list" where
  "huffman_table = map (\<lambda>(symbol, code, bit_len). \<lparr>he_symbol = symbol, he_code = code, he_bit_len = bit_len\<rparr>) [
    (0, 0x1ff8, 13), (1, 0x7fffd8, 23), (2, 0xfffffe2, 28), (3, 0xfffffe3, 28), (4, 0xfffffe4, 28),
    (5, 0xfffffe5, 28), (6, 0xfffffe6, 28), (7, 0xfffffe7, 28), (8, 0xfffffe8, 28), (9, 0xffffea, 24),
    (10, 0x3ffffffc, 30), (11, 0xfffffe9, 28), (12, 0xfffffea, 28), (13, 0x3ffffffd, 30), (14, 0xfffffeb, 28),
    (15, 0xfffffec, 28), (16, 0xfffffed, 28), (17, 0xfffffee, 28), (18, 0xfffffef, 28), (19, 0xffffff0, 28),
    (20, 0xffffff1, 28), (21, 0xffffff2, 28), (22, 0x3ffffffe, 30), (23, 0xffffff3, 28), (24, 0xffffff4, 28),
    (25, 0xffffff5, 28), (26, 0xffffff6, 28), (27, 0xffffff7, 28), (28, 0xffffff8, 28), (29, 0xffffff9, 28),
    (30, 0xffffffa, 28), (31, 0xffffffb, 28), (32, 0x14, 6), (33, 0x3f8, 10), (34, 0x3f9, 10), (35, 0xffa, 12),
    (36, 0x1ff9, 13), (37, 0x15, 6), (38, 0xf8, 8), (39, 0x7fa, 11), (40, 0x3fa, 10), (41, 0x3fb, 10), (42, 0xf9, 8),
    (43, 0x7fb, 11), (44, 0xfa, 8), (45, 0x16, 6), (46, 0x17, 6), (47, 0x18, 6), (48, 0x0, 5), (49, 0x1, 5),
    (50, 0x2, 5), (51, 0x19, 6), (52, 0x1a, 6), (53, 0x1b, 6), (54, 0x1c, 6), (55, 0x1d, 6), (56, 0x1e, 6),
    (57, 0x1f, 6), (58, 0x5c, 7), (59, 0xfb, 8), (60, 0x7ffc, 15), (61, 0x20, 6), (62, 0xffb, 12), (63, 0x3fc, 10),
    (64, 0x1ffa, 13), (65, 0x21, 6), (66, 0x5d, 7), (67, 0x5e, 7), (68, 0x5f, 7), (69, 0x60, 7), (70, 0x61, 7),
    (71, 0x62, 7), (72, 0x63, 7), (73, 0x64, 7), (74, 0x65, 7), (75, 0x66, 7), (76, 0x67, 7), (77, 0x68, 7),
    (78, 0x69, 7), (79, 0x6a, 7), (80, 0x6b, 7), (81, 0x6c, 7), (82, 0x6d, 7), (83, 0x6e, 7), (84, 0x6f, 7),
    (85, 0x70, 7), (86, 0x71, 7), (87, 0x72, 7), (88, 0xfc, 8), (89, 0x73, 7), (90, 0xfd, 8), (91, 0x1ffb, 13),
    (92, 0x7fff0, 19), (93, 0x1ffc, 13), (94, 0x3ffc, 14), (95, 0x22, 6), (96, 0x7ffd, 15), (97, 0x3, 5),
    (98, 0x23, 6), (99, 0x4, 5), (100, 0x24, 6), (101, 0x5, 5), (102, 0x25, 6), (103, 0x26, 6), (104, 0x27, 6),
    (105, 0x6, 5), (106, 0x74, 7), (107, 0x75, 7), (108, 0x28, 6), (109, 0x29, 6), (110, 0x2a, 6), (111, 0x7, 5),
    (112, 0x2b, 6), (113, 0x76, 7), (114, 0x2c, 6), (115, 0x8, 5), (116, 0x9, 5), (117, 0x2d, 6), (118, 0x77, 7),
    (119, 0x78, 7), (120, 0x79, 7), (121, 0x7a, 7), (122, 0x7b, 7), (123, 0x7ffe, 15), (124, 0x7fc, 11),
    (125, 0x3ffd, 14), (126, 0x1ffd, 13), (127, 0xffffffc, 28), (128, 0xfffe6, 20), (129, 0x3fffd2, 22),
    (130, 0xfffe7, 20), (131, 0xfffe8, 20), (132, 0x3fffd3, 22), (133, 0x3fffd4, 22), (134, 0x3fffd5, 22),
    (135, 0x7fffd9, 23), (136, 0x3fffd6, 22), (137, 0x7fffda, 23), (138, 0x7fffdb, 23), (139, 0x7fffdc, 23),
    (140, 0x7fffdd, 23), (141, 0x7fffde, 23), (142, 0xffffeb, 24), (143, 0x7fffdf, 23), (144, 0xffffec, 24),
    (145, 0xffffed, 24), (146, 0x3fffd7, 22), (147, 0x7fffe0, 23), (148, 0xffffee, 24), (149, 0x7fffe1, 23),
    (150, 0x7fffe2, 23), (151, 0x7fffe3, 23), (152, 0x7fffe4, 23), (153, 0x1fffdc, 21), (154, 0x3fffd8, 22),
    (155, 0x7fffe5, 23), (156, 0x3fffd9, 22), (157, 0x7fffe6, 23), (158, 0x7fffe7, 23), (159, 0xffffef, 24),
    (160, 0x3fffda, 22), (161, 0x1fffdd, 21), (162, 0xfffe9, 20), (163, 0x3fffdb, 22), (164, 0x3fffdc, 22),
    (165, 0x7fffe8, 23), (166, 0x7fffe9, 23), (167, 0x1fffde, 21), (168, 0x7fffea, 23), (169, 0x3fffdd, 22),
    (170, 0x3fffde, 22), (171, 0xfffff0, 24), (172, 0x1fffdf, 21), (173, 0x3fffdf, 22), (174, 0x7fffeb, 23),
    (175, 0x7fffec, 23), (176, 0x1fffe0, 21), (177, 0x1fffe1, 21), (178, 0x3fffe0, 22), (179, 0x1fffe2, 21),
    (180, 0x7fffed, 23), (181, 0x3fffe1, 22), (182, 0x7fffee, 23), (183, 0x7fffef, 23), (184, 0xfffea, 20),
    (185, 0x3fffe2, 22), (186, 0x3fffe3, 22), (187, 0x3fffe4, 22), (188, 0x7ffff0, 23), (189, 0x3fffe5, 22),
    (190, 0x3fffe6, 22), (191, 0x7ffff1, 23), (192, 0x3ffffe0, 26), (193, 0x3ffffe1, 26), (194, 0xfffeb, 20),
    (195, 0x7fff1, 19), (196, 0x3fffe7, 22), (197, 0x7ffff2, 23), (198, 0x3fffe8, 22), (199, 0x1ffffec, 25),
    (200, 0x3ffffe2, 26), (201, 0x3ffffe3, 26), (202, 0x3ffffe4, 26), (203, 0x7ffffde, 27), (204, 0x7ffffdf, 27),
    (205, 0x3ffffe5, 26), (206, 0xfffff1, 24), (207, 0x1ffffed, 25), (208, 0x7fff2, 19), (209, 0x1fffe3, 21),
    (210, 0x3ffffe6, 26), (211, 0x7ffffe0, 27), (212, 0x7ffffe1, 27), (213, 0x3ffffe7, 26), (214, 0x7ffffe2, 27),
    (215, 0xfffff2, 24), (216, 0x1fffe4, 21), (217, 0x1fffe5, 21), (218, 0x3ffffe8, 26), (219, 0x3ffffe9, 26),
    (220, 0xffffffd, 28), (221, 0x7ffffe3, 27), (222, 0x7ffffe4, 27), (223, 0x7ffffe5, 27), (224, 0xfffec, 20),
    (225, 0xfffff3, 24), (226, 0xfffed, 20), (227, 0x1fffe6, 21), (228, 0x3fffe9, 22), (229, 0x1fffe7, 21),
    (230, 0x1fffe8, 21), (231, 0x7ffff3, 23), (232, 0x3fffea, 22), (233, 0x3fffeb, 22), (234, 0x1ffffee, 25),
    (235, 0x1ffffef, 25), (236, 0xfffff4, 24), (237, 0xfffff5, 24), (238, 0x3ffffea, 26), (239, 0x7ffff4, 23),
    (240, 0x3ffffeb, 26), (241, 0x7ffffe6, 27), (242, 0x3ffffec, 26), (243, 0x3ffffed, 26), (244, 0x7ffffe7, 27),
    (245, 0x7ffffe8, 27), (246, 0x7ffffe9, 27), (247, 0x7ffffea, 27), (248, 0x7ffffeb, 27), (249, 0xffffffe, 28),
    (250, 0x7ffffec, 27), (251, 0x7ffffed, 27), (252, 0x7ffffee, 27), (253, 0x7ffffef, 27), (254, 0x7fffff0, 27),
    (255, 0x3ffffee, 26), (256, 0x3fffffff, 30)]"

section \<open>The decoding trie\<close>

abbreviation EOS_SYMBOL :: u16 where "EOS_SYMBOL \<equiv> 256"
abbreviation MAX_TRIE_NODES :: nat where "MAX_TRIE_NODES \<equiv> 1024"
abbreviation UNALLOCATED :: u16 where "UNALLOCATED \<equiv> 0xFFFF"

record trie_node =
  child_0 :: u16
  child_1 :: u16
  leaf_symbol_0 :: u16
  leaf_symbol_1 :: u16

definition empty_node :: trie_node where
  "empty_node = \<lparr>child_0 = UNALLOCATED, child_1 = UNALLOCATED, leaf_symbol_0 = 0, leaf_symbol_1 = 0\<rparr>"

record huffman_trie =
  ht_nodes :: "trie_node list"
  ht_count :: u16

definition empty_trie :: huffman_trie where
  "empty_trie = \<lparr>ht_nodes = replicate MAX_TRIE_NODES empty_node, ht_count = 1\<rparr>"

text \<open>The source chooses a field of a node by a bit, \<open>True\<close> for 1.\<close>

definition child :: "trie_node list \<Rightarrow> u16 \<Rightarrow> bool \<Rightarrow> u16" where
  "child nodes idx b = (if b then child_1 (nodes ! unat idx) else child_0 (nodes ! unat idx))"

definition leaf_symbol :: "trie_node list \<Rightarrow> u16 \<Rightarrow> bool \<Rightarrow> u16" where
  "leaf_symbol nodes idx b = (if b then leaf_symbol_1 (nodes ! unat idx) else leaf_symbol_0 (nodes ! unat idx))"

definition set_child :: "trie_node list \<Rightarrow> u16 \<Rightarrow> bool \<Rightarrow> u16 \<Rightarrow> trie_node list" where
  "set_child nodes idx b c = nodes[unat idx :=
     (if b then (nodes ! unat idx)\<lparr>child_1 := c\<rparr> else (nodes ! unat idx)\<lparr>child_0 := c\<rparr>)]"

definition set_leaf_symbol :: "trie_node list \<Rightarrow> u16 \<Rightarrow> bool \<Rightarrow> u16 \<Rightarrow> trie_node list" where
  "set_leaf_symbol nodes idx b s = nodes[unat idx :=
     (if b then (nodes ! unat idx)\<lparr>leaf_symbol_1 := s\<rparr> else (nodes ! unat idx)\<lparr>leaf_symbol_0 := s\<rparr>)]"

text \<open>The loop over the bits of one entry, most significant bit first.\<close>

function insert_code :: "huffman_trie \<Rightarrow> huffman_entry \<Rightarrow> u16 \<Rightarrow> nat \<Rightarrow> huffman_trie" where
  "insert_code trie entry node_idx i =
     (if i < he_bit_len entry then
        let bit_pos = he_bit_len entry - 1 - i;
            b = (drop_bit bit_pos (he_code entry) AND 1 = 1)
        in if i = he_bit_len entry - 1
           then insert_code (trie\<lparr>ht_nodes := set_leaf_symbol (ht_nodes trie) node_idx b (he_symbol entry)\<rparr>) entry node_idx (i + 1)
           else if child (ht_nodes trie) node_idx b = UNALLOCATED
           then insert_code (trie\<lparr>ht_nodes := set_child (ht_nodes trie) node_idx b (ht_count trie), ht_count := ht_count trie + 1\<rparr>)
                  entry (ht_count trie) (i + 1)
           else insert_code trie entry (child (ht_nodes trie) node_idx b) (i + 1)
      else trie)"
  by pat_completeness auto
termination by (relation "measure (\<lambda>(_, entry, _, i). he_bit_len entry - i)") auto

declare insert_code.simps [simp del]

definition buildDecodeTrie :: huffman_trie where
  "buildDecodeTrie = fold (\<lambda>entry trie. insert_code trie entry 0 0) huffman_table empty_trie"

abbreviation trie_nodes :: "trie_node list" where
  "trie_nodes \<equiv> ht_nodes buildDecodeTrie"

definition decodeTrieIsLeaf :: "u16 \<Rightarrow> bool \<Rightarrow> bool" where
  "decodeTrieIsLeaf idx b \<longleftrightarrow> leaf_symbol trie_nodes idx b \<noteq> 0 \<or> child trie_nodes idx b = UNALLOCATED"

section \<open>The decoder\<close>

datatype decode_error = InvalidHuffmanEncoding | Decode_OutputBufferTooSmall | EosSymbolDecoded | InvalidPadding

record decode_state =
  ds_out :: "byte list"
  ds_node :: u16
  ds_bits :: nat

definition decode_step :: "nat \<Rightarrow> bool \<Rightarrow> decode_state \<Rightarrow> decode_error + decode_state" where
  "decode_step cap b st =
     (let st = st\<lparr>ds_bits := ds_bits st + 1\<rparr>; node_idx = ds_node st in
      if decodeTrieIsLeaf node_idx b then
        let sym = leaf_symbol trie_nodes node_idx b in
        if sym = EOS_SYMBOL then Inl EosSymbolDecoded
        else if length (ds_out st) \<ge> cap then Inl Decode_OutputBufferTooSmall
        else Inr \<lparr>ds_out = ds_out st @ [ucast sym], ds_node = 0, ds_bits = 0\<rparr>
      else if child trie_nodes node_idx b = UNALLOCATED then Inl InvalidHuffmanEncoding
      else Inr (st\<lparr>ds_node := child trie_nodes node_idx b\<rparr>))"

fun decode_byte :: "nat \<Rightarrow> byte \<Rightarrow> nat \<Rightarrow> decode_state \<Rightarrow> decode_error + decode_state" where
  "decode_byte cap byte 0 st = Inr st"
| "decode_byte cap byte (Suc bit_idx) st =
     (case decode_step cap (drop_bit bit_idx byte AND 1 = 1) st of
        Inl e \<Rightarrow> Inl e
      | Inr st \<Rightarrow> decode_byte cap byte bit_idx st)"

fun decode_bytes :: "nat \<Rightarrow> byte list \<Rightarrow> decode_state \<Rightarrow> decode_error + decode_state" where
  "decode_bytes cap [] st = Inr st"
| "decode_bytes cap (byte # encoded) st =
     (case decode_byte cap byte 8 st of Inl e \<Rightarrow> Inl e | Inr st \<Rightarrow> decode_bytes cap encoded st)"

text \<open>The walk along the 1-branches that checks the padding; \<open>None\<close> where the source returns \<^verbatim>\<open>InvalidPadding\<close>.\<close>

fun padding_walk :: "nat \<Rightarrow> u16 \<Rightarrow> u16 option" where
  "padding_walk 0 check_idx = Some check_idx"
| "padding_walk (Suc n) check_idx =
     (if decodeTrieIsLeaf check_idx True then None
      else if child trie_nodes check_idx True = UNALLOCATED then None
      else padding_walk n (child trie_nodes check_idx True))"

definition huffman_decode :: "nat \<Rightarrow> byte list \<Rightarrow> decode_error + byte list" where
  "huffman_decode cap encoded =
     (case decode_bytes cap encoded \<lparr>ds_out = [], ds_node = 0, ds_bits = 0\<rparr> of
        Inl e \<Rightarrow> Inl e
      | Inr st \<Rightarrow>
          if ds_node st \<noteq> 0 then
            if ds_bits st > 7 then Inl InvalidPadding
            else if padding_walk (ds_bits st) 0 \<noteq> Some (ds_node st) then Inl InvalidPadding
            else Inr (ds_out st)
          else Inr (ds_out st))"

section \<open>The encoder\<close>

datatype encode_error = Encode_OutputBufferTooSmall

function emit_bytes :: "nat \<Rightarrow> 64 word \<Rightarrow> nat \<Rightarrow> byte list \<Rightarrow> encode_error + (64 word \<times> nat \<times> byte list)" where
  "emit_bytes cap bit_buf bit_count out =
     (if bit_count \<ge> 8 then
        let bit_count = bit_count - 8 in
        if length out \<ge> cap then Inl Encode_OutputBufferTooSmall
        else emit_bytes cap (bit_buf AND (push_bit bit_count 1 - 1)) bit_count
               (out @ [ucast (drop_bit bit_count bit_buf AND 0xff)])
      else Inr (bit_buf, bit_count, out))"
  by pat_completeness auto
termination by (relation "measure (\<lambda>(_, _, bit_count, _). bit_count)") auto

declare emit_bytes.simps [simp del]

fun encode_loop :: "nat \<Rightarrow> 64 word \<Rightarrow> nat \<Rightarrow> byte list \<Rightarrow> byte list \<Rightarrow> encode_error + (64 word \<times> nat \<times> byte list)" where
  "encode_loop cap bit_buf bit_count out [] = Inr (bit_buf, bit_count, out)"
| "encode_loop cap bit_buf bit_count out (byte # input) =
     (let entry = huffman_table ! unat byte in
      case emit_bytes cap (push_bit (he_bit_len entry) bit_buf OR ucast (he_code entry)) (bit_count + he_bit_len entry) out of
        Inl e \<Rightarrow> Inl e
      | Inr (bit_buf, bit_count, out) \<Rightarrow> encode_loop cap bit_buf bit_count out input)"

text \<open>The conversion of the last byte is checked: \<open>None\<close> is its panic.\<close>

definition huffman_encode :: "nat \<Rightarrow> byte list \<Rightarrow> (encode_error + byte list) option" where
  "huffman_encode cap input =
     (case encode_loop cap 0 0 [] input of
        Inl e \<Rightarrow> Some (Inl e)
      | Inr (bit_buf, bit_count, out) \<Rightarrow>
          if bit_count > 0 then
            if length out \<ge> cap then Some (Inl Encode_OutputBufferTooSmall)
            else let pad_len = 8 - bit_count; v = push_bit pad_len bit_buf OR (push_bit pad_len 1 - 1) in
              if unat v < 256 then Some (Inr (out @ [ucast v])) else None
          else Some (Inr out))"

end
