(* ===== verification/Qpack.thy ===== *)
theory Qpack
  imports Huffman
begin

text \<open>
  QPACK field sections without a dynamic table (\<^verbatim>\<open>src/src/h3/qpack.zig\<close>): the static table, string literals and
  integers with a prefix, the encoder and the decoder of a header block. An output buffer is its size and the bytes
  written so far; the value \<open>None\<close> of the encoder is the panic of a write past the end. Huffman strings are decoded into
  one scratch buffer that all decodes of the process share: its position is the state that the decoder threads. A
  decoded string is given by its bytes, which stay in the scratch buffer because the position never goes back.
\<close>

section \<open>The static table\<close>

record header_field =
  hf_name :: "byte list"
  hf_value :: "byte list"

definition ascii :: "string \<Rightarrow> byte list" where
  "ascii = map of_char"

definition static_table :: "header_field list" where
  "static_table = map (\<lambda>(name, val). \<lparr>hf_name = ascii name, hf_value = ascii val\<rparr>) [
    ('':authority'', ''''), ('':path'', ''/''), (''age'', ''0''), (''content-disposition'', ''''),
    (''content-length'', ''0''), (''cookie'', ''''), (''date'', ''''), (''etag'', ''''),
    (''if-modified-since'', ''''), (''if-none-match'', ''''), (''last-modified'', ''''), (''link'', ''''),
    (''location'', ''''), (''referer'', ''''), (''set-cookie'', ''''), ('':method'', ''CONNECT''),
    ('':method'', ''DELETE''), ('':method'', ''GET''), ('':method'', ''HEAD''), ('':method'', ''OPTIONS''),
    ('':method'', ''POST''), ('':method'', ''PUT''), ('':scheme'', ''http''), ('':scheme'', ''https''),
    ('':status'', ''103''), ('':status'', ''200''), ('':status'', ''304''), ('':status'', ''404''),
    ('':status'', ''503''), (''accept'', ''*/*''), (''accept'', ''application/dns-message''),
    (''accept-encoding'', ''gzip, deflate, br''), (''accept-ranges'', ''bytes''),
    (''access-control-allow-headers'', ''cache-control''), (''access-control-allow-headers'', ''content-type''),
    (''access-control-allow-origin'', ''*''), (''cache-control'', ''max-age=0''),
    (''cache-control'', ''max-age=2592000''), (''cache-control'', ''max-age=604800''),
    (''cache-control'', ''no-cache''), (''cache-control'', ''no-store''),
    (''cache-control'', ''public, max-age=31536000''), (''content-encoding'', ''br''),
    (''content-encoding'', ''gzip''), (''content-type'', ''application/dns-message''),
    (''content-type'', ''application/javascript''), (''content-type'', ''application/json''),
    (''content-type'', ''application/x-www-form-urlencoded''), (''content-type'', ''image/gif''),
    (''content-type'', ''image/jpeg''), (''content-type'', ''image/png''), (''content-type'', ''text/css''),
    (''content-type'', ''text/html; charset=utf-8''), (''content-type'', ''text/plain''),
    (''content-type'', ''text/plain;charset=utf-8''), (''range'', ''bytes=0-''),
    (''strict-transport-security'', ''max-age=31536000''),
    (''strict-transport-security'', ''max-age=31536000; includesubdomains''),
    (''strict-transport-security'', ''max-age=31536000; includesubdomains; preload''),
    (''vary'', ''accept-encoding''), (''vary'', ''origin''), (''x-content-type-options'', ''nosniff''),
    (''x-xss-protection'', ''1; mode=block''), ('':status'', ''100''), ('':status'', ''204''),
    ('':status'', ''206''), ('':status'', ''302''), ('':status'', ''400''), ('':status'', ''403''),
    ('':status'', ''421''), ('':status'', ''425''), ('':status'', ''500''), (''accept-language'', ''''),
    (''access-control-allow-credentials'', ''FALSE''), (''access-control-allow-credentials'', ''TRUE''),
    (''access-control-allow-headers'', ''*''), (''access-control-allow-methods'', ''get''),
    (''access-control-allow-methods'', ''get, post, options''), (''access-control-allow-methods'', ''options''),
    (''access-control-expose-headers'', ''content-length''), (''access-control-request-headers'', ''content-type''),
    (''access-control-request-method'', ''get''), (''access-control-request-method'', ''post''),
    (''alt-svc'', ''clear''), (''authorization'', ''''),
    (''content-security-policy'', ''script-src 'none'; object-src 'none'; base-uri 'none'' @ [CHR 0x27]),
    (''early-data'', ''1''), (''expect-ct'', ''''), (''forwarded'', ''''), (''if-range'', ''''), (''origin'', ''''),
    (''purpose'', ''prefetch''), (''server'', ''''), (''timing-allow-origin'', ''*''),
    (''upgrade-insecure-requests'', ''1''), (''user-agent'', ''''), (''x-forwarded-for'', ''''),
    (''x-frame-options'', ''deny''), (''x-frame-options'', ''sameorigin'')]"

fun find_index :: "('a \<Rightarrow> bool) \<Rightarrow> 'a list \<Rightarrow> nat \<Rightarrow> nat option" where
  "find_index p [] i = None"
| "find_index p (x # xs) i = (if p x then Some i else find_index p xs (i + 1))"

definition findStaticIndex :: "byte list \<Rightarrow> byte list \<Rightarrow> nat option" where
  "findStaticIndex name value = find_index (\<lambda>entry. hf_name entry = name \<and> hf_value entry = value) static_table 0"

definition findStaticNameIndex :: "byte list \<Rightarrow> nat option" where
  "findStaticNameIndex name = find_index (\<lambda>entry. hf_name entry = name) static_table 0"

section \<open>The encoder\<close>

definition put :: "nat \<Rightarrow> byte \<Rightarrow> byte list \<Rightarrow> byte list option" where
  "put cap b out = (if length out < cap then Some (out @ [b]) else None)"

definition put_all :: "nat \<Rightarrow> byte list \<Rightarrow> byte list \<Rightarrow> byte list option" where
  "put_all cap bs out = (if length out + length bs \<le> cap then Some (out @ bs) else None)"

fun encodeVarintToBuf :: "nat \<Rightarrow> byte list \<Rightarrow> nat \<Rightarrow> byte list option" where
  "encodeVarintToBuf cap out v =
     (if v \<ge> 128
      then Option.bind (put cap (0x80 OR word_of_nat (v mod 128)) out) (\<lambda>out. encodeVarintToBuf cap out (v div 128))
      else put cap (word_of_nat v) out)"

declare encodeVarintToBuf.simps [simp del]

text \<open>The loop that writes the length of a long string.\<close>

fun put_remaining :: "nat \<Rightarrow> byte list \<Rightarrow> nat \<Rightarrow> byte list option" where
  "put_remaining cap out remaining =
     (if remaining \<ge> 128
      then Option.bind (put cap (0x80 OR 127) out) (\<lambda>out. put_remaining cap out (remaining - 128))
      else put cap (word_of_nat remaining) out)"

declare put_remaining.simps [simp del]

text \<open>
  The two string encoders differ in the length \<open>lim\<close> from which on the length takes more than one byte, in the bits \<open>first\<close>
  of the first byte and in the Huffman flag \<open>h\<close>.
\<close>

definition string_to_buf :: "nat \<Rightarrow> byte \<Rightarrow> byte \<Rightarrow> nat \<Rightarrow> byte list \<Rightarrow> byte list \<Rightarrow> byte list option" where
  "string_to_buf lim first h cap out s =
     Option.bind (huffman_encode 16384 s) (\<lambda>encoded.
       let huffman_buf = (case encoded of Inl e \<Rightarrow> [] | Inr bs \<Rightarrow> bs);
           use_huffman = (huffman_buf \<noteq> [] \<and> length huffman_buf < length s \<and> length s < lim);
           payload = (if use_huffman then huffman_buf else s)
       in Option.bind
            (if length s < lim
             then put cap (first OR (if use_huffman then h else 0) OR word_of_nat (length payload)) out
             else Option.bind (put cap (first OR word_of_nat (lim - 1)) out) (\<lambda>out. put_remaining cap out (length s - (lim - 1))))
            (put_all cap payload))"

definition encodeStringToBuf4 :: "nat \<Rightarrow> byte list \<Rightarrow> byte list \<Rightarrow> byte list option" where
  "encodeStringToBuf4 = string_to_buf 8 0x20 0x08"

definition encodeStringToBuf :: "nat \<Rightarrow> byte list \<Rightarrow> byte list \<Rightarrow> byte list option" where
  "encodeStringToBuf = string_to_buf 128 0x00 0x80"

text \<open>An index with a prefix of which \<open>ones\<close> is the largest value.\<close>

definition put_index :: "nat \<Rightarrow> byte \<Rightarrow> nat \<Rightarrow> byte list \<Rightarrow> nat \<Rightarrow> byte list option" where
  "put_index cap first ones out idx =
     (if idx < ones then put cap (first OR word_of_nat idx) out
      else Option.bind (put cap (first OR word_of_nat ones) out) (\<lambda>out. encodeVarintToBuf cap out (idx - ones)))"

definition encode_field :: "nat \<Rightarrow> header_field \<Rightarrow> byte list \<Rightarrow> byte list option" where
  "encode_field cap field out =
     (case findStaticIndex (hf_name field) (hf_value field) of
        Some idx \<Rightarrow> put_index cap 0xc0 63 out idx
      | None \<Rightarrow>
          (case findStaticNameIndex (hf_name field) of
             Some name_idx \<Rightarrow>
               Option.bind (put_index cap 0x50 15 out name_idx) (\<lambda>out. encodeStringToBuf cap out (hf_value field))
           | None \<Rightarrow>
               Option.bind (encodeStringToBuf4 cap out (hf_name field)) (\<lambda>out. encodeStringToBuf cap out (hf_value field))))"

fun encode_fields :: "nat \<Rightarrow> header_field list \<Rightarrow> byte list \<Rightarrow> byte list option" where
  "encode_fields cap [] out = Some out"
| "encode_fields cap (field # fs) out = Option.bind (encode_field cap field out) (encode_fields cap fs)"

definition encodeHeaderBlock :: "nat \<Rightarrow> header_field list \<Rightarrow> byte list option" where
  "encodeHeaderBlock cap fs =
     Option.bind (put cap 0 []) (\<lambda>out. Option.bind (put cap 0 out) (encode_fields cap fs))"

section \<open>The decoder\<close>

datatype qpack_error = InvalidHeaderBlock | TooManyFields | DynamicTableUnsupported | InvalidStaticIndex
  | UnsupportedRepresentation | IncompleteString | InvalidVarint | Huffman_error decode_error

function varint_loop :: "byte list \<Rightarrow> nat \<Rightarrow> 64 word \<Rightarrow> nat \<Rightarrow> qpack_error + (64 word \<times> nat)" where
  "varint_loop data p result shift =
     (if p \<ge> length data then Inl IncompleteString
      else let byte = data ! p; result = result OR push_bit shift (ucast (byte AND 0x7f)) in
        if byte AND 0x80 = 0 then Inr (result, p + 1)
        else if shift + 7 \<ge> 63 then Inl InvalidVarint
        else varint_loop data (p + 1) result (shift + 7))"
  by pat_completeness auto
termination by (relation "measure (\<lambda>(data, p, _, _). length data - p)") auto

declare varint_loop.simps [simp del]

definition decodeVarintFromBuf :: "byte list \<Rightarrow> nat \<Rightarrow> qpack_error + (64 word \<times> nat)" where
  "decodeVarintFromBuf data pos = varint_loop data pos 0 0"

text \<open>An integer with a prefix: the bits \<open>ones\<close> of the first byte, and the continuation when they are all set.\<close>

definition prefixed :: "byte \<Rightarrow> byte list \<Rightarrow> nat \<Rightarrow> qpack_error + (nat \<times> nat)" where
  "prefixed ones data start =
     (let n = unat (data ! start AND ones) in
      if n = unat ones
      then (case decodeVarintFromBuf data (start + 1) of Inl e \<Rightarrow> Inl e | Inr (v, stop) \<Rightarrow> Inr (unat ones + unat v, stop))
      else Inr (n, start + 1))"

text \<open>The two string decoders differ in the prefix and in the Huffman flag.\<close>

definition decode_string :: "byte \<Rightarrow> byte \<Rightarrow> byte list \<Rightarrow> nat \<Rightarrow> nat \<Rightarrow> (qpack_error + (byte list \<times> nat)) \<times> nat" where
  "decode_string ones h data start scratch_pos =
     (if start \<ge> length data then (Inl IncompleteString, scratch_pos)
      else case prefixed ones data start of
        Inl e \<Rightarrow> (Inl e, scratch_pos)
      | Inr (len, pos) \<Rightarrow>
          if pos + len > length data then (Inl IncompleteString, scratch_pos)
          else let raw = take len (drop pos data) in
            if data ! start AND h \<noteq> 0
            then (case huffman_decode (16384 - scratch_pos) raw of
                Inl e \<Rightarrow> (Inl (Huffman_error e), scratch_pos)
              | Inr v \<Rightarrow> (Inr (v, pos + len), scratch_pos + length v))
            else (Inr (raw, pos + len), scratch_pos))"

definition decodeString4 :: "byte list \<Rightarrow> nat \<Rightarrow> nat \<Rightarrow> (qpack_error + (byte list \<times> nat)) \<times> nat" where
  "decodeString4 = decode_string 0x07 0x08"

definition decodeString :: "byte list \<Rightarrow> nat \<Rightarrow> nat \<Rightarrow> (qpack_error + (byte list \<times> nat)) \<times> nat" where
  "decodeString = decode_string 0x7f 0x80"

text \<open>The body of the loop of \<^verbatim>\<open>decodeHeaderBlock\<close>: the field at a position and the position after it.\<close>

definition decode_field :: "byte list \<Rightarrow> nat \<Rightarrow> nat \<Rightarrow> (qpack_error + (header_field \<times> nat)) \<times> nat" where
  "decode_field data pos scratch_pos =
     (let first = data ! pos in
      if first AND 0x80 \<noteq> 0 then
        (case prefixed 0x3f data pos of
           Inl e \<Rightarrow> (Inl e, scratch_pos)
         | Inr (index, next_pos) \<Rightarrow>
             if first AND 0x40 = 0 then (Inl DynamicTableUnsupported, scratch_pos)
             else if index \<ge> length static_table then (Inl InvalidStaticIndex, scratch_pos)
             else (Inr (static_table ! index, next_pos), scratch_pos))
      else if first AND 0x40 \<noteq> 0 then
        (case prefixed 0x0f data pos of
           Inl e \<Rightarrow> (Inl e, scratch_pos)
         | Inr (name_index, next_pos) \<Rightarrow>
             if first AND 0x10 = 0 then (Inl DynamicTableUnsupported, scratch_pos)
             else if name_index \<ge> length static_table then (Inl InvalidStaticIndex, scratch_pos)
             else (case decodeString data next_pos scratch_pos of
                 (Inl e, scratch_pos) \<Rightarrow> (Inl e, scratch_pos)
               | (Inr (value, stop), scratch_pos) \<Rightarrow>
                   (Inr (\<lparr>hf_name = hf_name (static_table ! name_index), hf_value = value\<rparr>, stop), scratch_pos)))
      else if first AND 0x20 \<noteq> 0 then
        (case decodeString4 data pos scratch_pos of
           (Inl e, scratch_pos) \<Rightarrow> (Inl e, scratch_pos)
         | (Inr (name, next_pos), scratch_pos) \<Rightarrow>
             (case decodeString data next_pos scratch_pos of
                (Inl e, scratch_pos) \<Rightarrow> (Inl e, scratch_pos)
              | (Inr (value, stop), scratch_pos) \<Rightarrow> (Inr (\<lparr>hf_name = name, hf_value = value\<rparr>, stop), scratch_pos)))
      else (Inl UnsupportedRepresentation, scratch_pos))"

text \<open>Every field takes at least one byte, so the loop ends.\<close>

lemma varint_loop_progress: "varint_loop data p result shift = Inr (v, stop) \<Longrightarrow> p < stop \<and> stop \<le> length data"
  by (induction data p result shift rule: varint_loop.induct)
    (auto simp: varint_loop.simps [of _ _ _ _] Let_def split: if_splits)

lemma prefixed_progress: "prefixed ones data start = Inr (n, stop) \<Longrightarrow> start < length data \<Longrightarrow> start < stop \<and> stop \<le> length data"
  by (auto simp: prefixed_def decodeVarintFromBuf_def Let_def split: if_splits sum.splits dest!: varint_loop_progress)

lemma decode_string_progress: "decode_string ones h data start sp = (Inr (v, stop), sp') \<Longrightarrow> start < stop \<and> stop \<le> length data"
  by (auto simp: decode_string_def Let_def split: if_splits sum.splits dest!: prefixed_progress)

lemma decode_field_progress:
  assumes "decode_field data pos sp = (Inr (field, stop), sp')" and "pos < length data"
  shows "pos < stop \<and> stop \<le> length data"
  using assms
  by (auto simp: decode_field_def decodeString_def decodeString4_def Let_def
      split: if_splits sum.splits prod.splits dest!: decode_string_progress prefixed_progress)

function decode_fields :: "byte list \<Rightarrow> nat \<Rightarrow> header_field list \<Rightarrow> nat \<Rightarrow> nat \<Rightarrow> (qpack_error + header_field list) \<times> nat" where
  "decode_fields data max_fields out pos scratch_pos =
     (if pos < length data then
        if length out \<ge> max_fields then (Inl TooManyFields, scratch_pos)
        else (case decode_field data pos scratch_pos of
            (Inl e, scratch_pos) \<Rightarrow> (Inl e, scratch_pos)
          | (Inr (field, pos), scratch_pos) \<Rightarrow> decode_fields data max_fields (out @ [field]) pos scratch_pos)
      else (Inr out, scratch_pos))"
  by pat_completeness auto
termination
  by (relation "measure (\<lambda>(data, _, _, pos, _). length data - pos)") (fastforce dest: decode_field_progress [OF sym])+

declare decode_fields.simps [simp del]

definition decodeHeaderBlock :: "byte list \<Rightarrow> nat \<Rightarrow> nat \<Rightarrow> (qpack_error + header_field list) \<times> nat" where
  "decodeHeaderBlock data max_fields scratch_pos =
     (if length data < 2 then (Inl InvalidHeaderBlock, scratch_pos) else decode_fields data max_fields [] 2 scratch_pos)"

end
