(* ===== verification/Huffman_Trie.thy ===== *)
theory Huffman_Trie
  imports Huffman
begin

text \<open>
  The decoding trie of \<^verbatim>\<open>huffman.zig\<close> represents the tree of the code: a prefix code is planted into a binary tree, each
  insertion into the array of nodes is shown to plant the code in the tree that the array represents, and the tree is
  evaluated once for the table: it has no open branch and 256 inner nodes.
\<close>

section \<open>Prefix codes as trees\<close>

datatype code_tree = Open | Leaf u16 | Node code_tree code_tree

fun plant :: "bool list \<Rightarrow> u16 \<Rightarrow> code_tree \<Rightarrow> code_tree option" where
  "plant [] s Open = Some (Leaf s)"
| "plant (b # bs) s Open = (if b then map_option (Node Open) (plant bs s Open) else map_option (\<lambda>l. Node l Open) (plant bs s Open))"
| "plant (b # bs) s (Node l r) = (if b then map_option (Node l) (plant bs s r) else map_option (\<lambda>l. Node l r) (plant bs s l))"
| "plant _ _ _ = None"

fun subtree :: "bool list \<Rightarrow> code_tree \<Rightarrow> code_tree option" where
  "subtree [] t = Some t"
| "subtree (b # bs) (Node l r) = subtree bs (if b then r else l)"
| "subtree (b # bs) _ = None"

fun inner_nodes :: "code_tree \<Rightarrow> nat" where
  "inner_nodes (Node l r) = Suc (inner_nodes l + inner_nodes r)"
| "inner_nodes _ = 0"

fun complete_tree :: "code_tree \<Rightarrow> bool" where
  "complete_tree Open = False"
| "complete_tree (Leaf s) = True"
| "complete_tree (Node l r) = (complete_tree l \<and> complete_tree r)"

definition low_bits :: "nat \<Rightarrow> 'a::semiring_bits \<Rightarrow> bool list" where
  "low_bits n w = map (bit w) (rev [0..<n])"

abbreviation code_bits :: "huffman_entry \<Rightarrow> bool list" where
  "code_bits e \<equiv> low_bits (he_bit_len e) (he_code e)"

definition plant_entry :: "huffman_entry \<Rightarrow> code_tree option \<Rightarrow> code_tree option" where
  "plant_entry e t = Option.bind t (plant (code_bits e) (he_symbol e))"

fun int_bits :: "nat \<Rightarrow> int \<Rightarrow> bool list \<Rightarrow> bool list" where
  "int_bits 0 k acc = acc"
| "int_bits (Suc n) k acc = int_bits n (k div 2) (odd k # acc)"

lemma int_bits_append: "int_bits n k acc = int_bits n k [] @ acc"
proof (induction n arbitrary: k acc)
  case (Suc n)
  show ?case by (simp add: Suc [of _ "odd k # acc"] Suc [of _ "[odd k]"])
qed simp

lemma low_bits_Suc: "low_bits (Suc n) w = low_bits n (w div 2) @ [odd w]"
proof -
  have "rev [0..<Suc n] = map Suc (rev [0..<n]) @ [0]" by (simp add: map_Suc_upt upt_conv_Cons flip: rev_map)
  then show ?thesis by (simp add: low_bits_def bit_Suc bit_0 comp_def)
qed

lemma low_bits_int: "low_bits n (k :: int) = int_bits n k []"
  by (induction n arbitrary: k) (simp_all add: low_bits_Suc int_bits_append [of _ _ "[_]"], simp add: low_bits_def)

lemma code_bits_int: "n \<le> 32 \<Longrightarrow> low_bits n (w :: u32) = int_bits n (uint w) []"
  unfolding low_bits_int [symmetric] by (simp add: low_bits_def bit_uint_iff)

lemma table_lengths: "list_all (\<lambda>e. 0 < he_bit_len e \<and> he_bit_len e \<le> 30 \<and> uint (he_code e) < 2 ^ he_bit_len e) huffman_table"
  by code_simp

lemma table_symbols: "map he_symbol huffman_table = map word_of_nat [0..<257]"
  by code_simp

definition plant_int :: "huffman_entry \<Rightarrow> code_tree option \<Rightarrow> code_tree option" where
  "plant_int e t = Option.bind t (plant (int_bits (he_bit_len e) (uint (he_code e)) []) (he_symbol e))"

lemma plant_int_table:
  "case fold plant_int huffman_table (Some (Node Open Open)) of None \<Rightarrow> False | Some t \<Rightarrow> complete_tree t \<and> inner_nodes t = 256"
  by code_simp

lemma plant_table:
  obtains t where "fold plant_entry huffman_table (Some (Node Open Open)) = Some t" "complete_tree t" "inner_nodes t = 256"
proof -
  have "fold plant_entry huffman_table (Some (Node Open Open)) = fold plant_int huffman_table (Some (Node Open Open))"
    using table_lengths by (intro fold_cong) (auto simp: fun_eq_iff plant_entry_def plant_int_def code_bits_int list_all_iff)
  with plant_int_table that show ?thesis by (auto split: option.splits)
qed

subsection \<open>What planting does to paths\<close>

lemma plant_same: "plant bs s t = Some t' \<Longrightarrow> subtree bs t' = Some (Leaf s)"
  by (induction bs s t arbitrary: t' rule: plant.induct) (auto split: if_splits)

lemma subtree_Open [simp]: "subtree p Open = Some t \<longleftrightarrow> p = [] \<and> t = Open"
  by (cases p) auto

lemma plant_leaf:
  "plant bs s t = Some t' \<Longrightarrow> subtree p t' = Some (Leaf x) \<longleftrightarrow> subtree p t = Some (Leaf x) \<or> p = bs \<and> x = s"
proof (induction bs s t arbitrary: t' p rule: plant.induct)
  case (1 s)
  then show ?case by (cases p) auto
next
  case (2 b bs s)
  then show ?case by (cases p) (auto split: if_splits)
next
  case (3 b bs s l r)
  then show ?case by (cases p) (auto split: if_splits)
qed simp_all

lemma plant_inner: "plant bs s t = Some t' \<Longrightarrow> inner_nodes t \<le> inner_nodes t'"
  by (induction bs s t arbitrary: t' rule: plant.induct) (fastforce split: if_splits)+

lemma subtree_append: "subtree (p @ q) t = Option.bind (subtree p t) (subtree q)"
  by (induction p t rule: subtree.induct) auto

section \<open>The array represents the tree\<close>

fun idxs :: "trie_node list \<Rightarrow> u16 \<Rightarrow> code_tree \<Rightarrow> u16 set" where
  "idxs nodes c (Node l r) = insert c (idxs nodes (child nodes c False) l \<union> idxs nodes (child nodes c True) r)"
| "idxs nodes c _ = {}"

text \<open>A slot of a node, with the child \<open>c\<close> and the leaf symbol \<open>s\<close>, represents a tree.\<close>

fun rep :: "trie_node list \<Rightarrow> u16 \<Rightarrow> u16 \<Rightarrow> code_tree \<Rightarrow> bool" where
  "rep nodes c s Open \<longleftrightarrow> c = UNALLOCATED \<and> s = 0"
| "rep nodes c s (Leaf x) \<longleftrightarrow> c = UNALLOCATED \<and> s = x"
| "rep nodes c s (Node l r) \<longleftrightarrow> c \<noteq> UNALLOCATED \<and> s = 0 \<and>
     rep nodes (child nodes c False) (leaf_symbol nodes c False) l \<and> rep nodes (child nodes c True) (leaf_symbol nodes c True) r \<and>
     idxs nodes (child nodes c False) l \<inter> idxs nodes (child nodes c True) r = {} \<and>
     c \<notin> idxs nodes (child nodes c False) l \<union> idxs nodes (child nodes c True) r"

abbreviation rep_slot :: "trie_node list \<Rightarrow> u16 \<Rightarrow> bool \<Rightarrow> code_tree \<Rightarrow> bool" where
  "rep_slot nodes i b \<equiv> rep nodes (child nodes i b) (leaf_symbol nodes i b)"

abbreviation slot_idxs :: "trie_node list \<Rightarrow> u16 \<Rightarrow> bool \<Rightarrow> code_tree \<Rightarrow> u16 set" where
  "slot_idxs nodes i b \<equiv> idxs nodes (child nodes i b)"

lemma same_node: "nodes' ! unat i = nodes ! unat i \<Longrightarrow> child nodes' i = child nodes i \<and> leaf_symbol nodes' i = leaf_symbol nodes i"
  by (simp add: child_def leaf_symbol_def fun_eq_iff)

lemma rep_frame:
  assumes "\<forall>i\<in>idxs nodes c t. nodes' ! unat i = nodes ! unat i"
  shows "idxs nodes' c t = idxs nodes c t \<and> rep nodes' c s t = rep nodes c s t"
  using assms
proof (induction t arbitrary: c s)
  case (Node l r)
  then have c: "child nodes' c = child nodes c" "leaf_symbol nodes' c = leaf_symbol nodes c" using same_node [of nodes' c nodes] by auto
  have l: "idxs nodes' (child nodes c False) l = idxs nodes (child nodes c False) l" "rep nodes' (child nodes c False) s l = rep nodes (child nodes c False) s l" for s
    using Node.prems by (auto simp: Node.IH(1))
  have r: "idxs nodes' (child nodes c True) r = idxs nodes (child nodes c True) r" "rep nodes' (child nodes c True) s r = rep nodes (child nodes c True) s r" for s
    using Node.prems by (auto simp: Node.IH(2))
  show ?case by (simp add: c l r)
qed auto

text \<open>
  The effect of an insertion below the slot \<open>b\<close> of node \<open>i\<close>, from count \<open>n\<close> to \<open>n'\<close>: the slot represents the new tree, over
  the old nodes and newly allocated ones, and nothing else is written.
\<close>

definition grown :: "trie_node list \<Rightarrow> u16 \<Rightarrow> trie_node list \<Rightarrow> u16 \<Rightarrow> u16 \<Rightarrow> bool \<Rightarrow> code_tree \<Rightarrow> code_tree \<Rightarrow> bool" where
  "grown nodes n nodes' n' i b t t' \<longleftrightarrow>
     length nodes' = length nodes \<and> unat n' + inner_nodes t = unat n + inner_nodes t' \<and>
     rep_slot nodes' i b t' \<and>
     slot_idxs nodes' i b t' \<subseteq> slot_idxs nodes i b t \<union> {j. unat n \<le> unat j \<and> unat j < unat n'} \<and>
     child nodes' i (\<not> b) = child nodes i (\<not> b) \<and> leaf_symbol nodes' i (\<not> b) = leaf_symbol nodes i (\<not> b) \<and>
     (\<forall>j. j \<noteq> i \<longrightarrow> j \<notin> slot_idxs nodes i b t \<longrightarrow> \<not> (unat n \<le> unat j \<and> unat j < unat n') \<longrightarrow> nodes' ! unat j = nodes ! unat j)"

definition sprout :: "bool \<Rightarrow> code_tree \<Rightarrow> code_tree \<Rightarrow> code_tree" where
  "sprout b t u = (if b then Node u t else Node t u)"

lemma rep_sprout:
  "rep nodes c s (sprout b t u) \<longleftrightarrow> c \<noteq> UNALLOCATED \<and> s = 0 \<and> rep_slot nodes c b t \<and> rep_slot nodes c (\<not> b) u \<and>
     slot_idxs nodes c b t \<inter> slot_idxs nodes c (\<not> b) u = {} \<and> c \<notin> slot_idxs nodes c b t \<union> slot_idxs nodes c (\<not> b) u"
  "idxs nodes c (sprout b t u) = insert c (slot_idxs nodes c b t \<union> slot_idxs nodes c (\<not> b) u)"
  "inner_nodes (sprout b t u) = Suc (inner_nodes t + inner_nodes u)"
  by (auto simp: sprout_def)

lemma plant_sprout:
  "plant (b # bs) s (sprout b t u) = map_option (\<lambda>t. sprout b t u) (plant bs s t)"
  "plant (b # bs) s Open = map_option (\<lambda>t. sprout b t Open) (plant bs s Open)"
  by (simp_all add: sprout_def)

lemma Node_sprout: obtains t u where "Node l r = sprout b t u"
  by (cases b) (auto simp: sprout_def)

lemma sprout_grown:
  assumes "rep nodes c s (sprout b t u)" and below: "\<forall>j\<in>idxs nodes c (sprout b t u). unat j < unat n"
    and grown: "grown nodes n nodes' n' c b t t'"
  shows "rep nodes' c s (sprout b t' u) \<and>
    idxs nodes' c (sprout b t' u) \<subseteq> idxs nodes c (sprout b t u) \<union> {j. unat n \<le> unat j \<and> unat j < unat n'}"
proof -
  note parts = assms(1) [unfolded rep_sprout]
  have same: "nodes' ! unat j = nodes ! unat j" if "j \<in> slot_idxs nodes c (\<not> b) u" for j
  proof -
    have "j \<noteq> c" "j \<notin> slot_idxs nodes c b t" "unat j < unat n" using that parts below by (auto simp: rep_sprout)
    with grown show ?thesis by (simp add: grown_def)
  qed
  have other: "child nodes' c (\<not> b) = child nodes c (\<not> b)" "leaf_symbol nodes' c (\<not> b) = leaf_symbol nodes c (\<not> b)"
    using grown by (simp_all add: grown_def)
  have frame: "idxs nodes' (child nodes c (\<not> b)) u = slot_idxs nodes c (\<not> b) u" "rep nodes' (child nodes c (\<not> b)) x u = rep nodes (child nodes c (\<not> b)) x u" for x
    using rep_frame [of nodes "child nodes c (\<not> b)" u nodes'] same by auto
  have new: "slot_idxs nodes' c b t' \<subseteq> slot_idxs nodes c b t \<union> {j. unat n \<le> unat j \<and> unat j < unat n'}" "rep_slot nodes' c b t'"
    using grown by (simp_all add: grown_def)
  have low: "unat c < unat n" "\<forall>j\<in>slot_idxs nodes c (\<not> b) u. unat j < unat n" using below by (simp_all add: rep_sprout)
  have "c \<notin> slot_idxs nodes' c b t'" using subsetD [OF new(1), of c] parts low(1) by auto
  moreover have "slot_idxs nodes' c b t' \<inter> slot_idxs nodes c (\<not> b) u = {}"
  proof (rule ccontr)
    assume "\<not> ?thesis"
    then obtain j where "j \<in> slot_idxs nodes' c b t'" "j \<in> slot_idxs nodes c (\<not> b) u" by blast
    with subsetD [OF new(1), of j] parts low(2) show False by auto
  qed
  ultimately show ?thesis using new parts unfolding rep_sprout other frame by blast
qed

fun graft :: "trie_node list \<Rightarrow> u16 \<Rightarrow> u16 \<Rightarrow> bool list \<Rightarrow> u16 \<Rightarrow> trie_node list \<times> u16" where
  "graft nodes n i [] s = (nodes, n)"
| "graft nodes n i [b] s = (set_leaf_symbol nodes i b s, n)"
| "graft nodes n i (b # b' # bs) s =
     (if child nodes i b = UNALLOCATED then graft (set_child nodes i b n) (n + 1) n (b' # bs) s
      else graft nodes n (child nodes i b) (b' # bs) s)"

lemma set_slot [simp]:
  "unat i < length nodes \<Longrightarrow> child (set_child nodes i b c) i = (child nodes i)(b := c)"
  "unat i < length nodes \<Longrightarrow> leaf_symbol (set_child nodes i b c) i = leaf_symbol nodes i"
  "unat i < length nodes \<Longrightarrow> child (set_leaf_symbol nodes i b c) i = child nodes i"
  "unat i < length nodes \<Longrightarrow> leaf_symbol (set_leaf_symbol nodes i b c) i = (leaf_symbol nodes i)(b := c)"
  "j \<noteq> i \<Longrightarrow> set_child nodes i b c ! unat j = nodes ! unat j"
  "j \<noteq> i \<Longrightarrow> set_leaf_symbol nodes i b c ! unat j = nodes ! unat j"
  "length (set_child nodes i b c) = length nodes"
  "length (set_leaf_symbol nodes i b c) = length nodes"
  by (auto simp: set_child_def set_leaf_symbol_def child_def leaf_symbol_def fun_eq_iff word_unat_eq_iff)

lemma empty_slot [simp]:
  "nodes ! unat i = empty_node \<Longrightarrow> child nodes i b = UNALLOCATED"
  "nodes ! unat i = empty_node \<Longrightarrow> leaf_symbol nodes i b = 0"
  by (simp_all add: empty_node_def child_def leaf_symbol_def)

lemma grown_leaf:
  assumes "unat i < length nodes" "rep_slot nodes i b Open"
  shows "grown nodes n (set_leaf_symbol nodes i b s) n i b Open (Leaf s)"
  using assms by (auto simp: grown_def)

lemma word_idx_simps:
  fixes n :: u16
  assumes "unat n < 1024"
  shows "unat (n + 1) = unat n + 1" "n \<noteq> UNALLOCATED"
  using assms by (auto simp: unat_word_ariths)

lemma graft_grown:
  assumes "plant bs s t = Some t'" and "rep_slot nodes i b t"
    and "unat n + inner_nodes t' \<le> 1024 + inner_nodes t" and "length nodes = 1024"
    and "\<forall>j\<in>insert i (slot_idxs nodes i b t). unat j < unat n" and "i \<notin> slot_idxs nodes i b t"
    and "\<forall>j :: u16. unat n \<le> unat j \<longrightarrow> unat j < 1024 \<longrightarrow> nodes ! unat j = empty_node" and "unat n \<le> 1024"
    and "graft nodes n i (b # bs) s = (nodes', n')"
  shows "grown nodes n nodes' n' i b t t'"
  using assms
proof (induction bs arbitrary: t t' nodes n i b)
  case Nil
  then show ?case by (cases t) (auto intro!: grown_leaf)
next
  case (Cons b' bs)
  note prems = Cons.prems
  show ?case
  proof (cases t)
    case Open
    then obtain u where u: "plant bs s Open = Some u" "t' = sprout b' u Open" using prems(1) by (auto simp: plant_sprout(2) simp del: plant.simps)
    let ?nodes = "set_child nodes i b n"
    have n: "unat n < 1024" using prems(3) Open u(2) by (simp add: rep_sprout)
    have ne: "i \<noteq> n" "unat i < 1024" using prems(5,8) by auto
    have blank: "?nodes ! unat n = empty_node" using ne n prems(7) [rule_format, of n] by simp
    have blanks: "\<forall>j :: u16. unat (n + 1) \<le> unat j \<longrightarrow> unat j < 1024 \<longrightarrow> ?nodes ! unat j = empty_node"
    proof (intro allI impI)
      fix j :: u16 assume j: "unat (n + 1) \<le> unat j" "unat j < 1024"
      with prems(5) n have "j \<noteq> i" by (auto simp: word_idx_simps)
      with j n prems(7) [rule_format, of j] show "?nodes ! unat j = empty_node" by (simp add: word_idx_simps)
    qed
    have g: "grown ?nodes (n + 1) nodes' n' n b' Open u"
    proof (rule Cons.IH [OF u(1) _ _ _ _ _ blanks])
      show "graft ?nodes (n + 1) n (b' # bs) s = (nodes', n')" using prems(2,9) Open by simp
    qed (use blank n prems(3,4) u(2) Open in \<open>simp_all add: word_idx_simps rep_sprout\<close>)
    have r: "rep nodes' n 0 (sprout b' u Open) \<and> idxs nodes' n (sprout b' u Open) \<subseteq> idxs ?nodes n (sprout b' Open Open) \<union> {j. unat (n + 1) \<le> unat j \<and> unat j < unat n'}"
      using blank n by (intro sprout_grown [OF _ _ g]) (auto simp: rep_sprout word_idx_simps)
    note g = g [unfolded grown_def word_idx_simps(1) [OF n]]
    have count: "unat n' = unat n + Suc (inner_nodes u)" using g by simp
    have "nodes' ! unat i = ?nodes ! unat i" using g ne prems(5) by simp
    from same_node [OF this] have i: "child nodes' i = (child nodes i)(b := n)" "leaf_symbol nodes' i = leaf_symbol nodes i"
      using ne prems(4) by simp_all
    have rest: "nodes' ! unat j = nodes ! unat j" if j: "j \<noteq> i" "\<not> (unat n \<le> unat j \<and> unat j < unat n')" for j
    proof -
      have "j \<noteq> n" using j(2) count by auto
      with j g have "nodes' ! unat j = ?nodes ! unat j" by simp
      with j(1) show ?thesis by simp
    qed
    have sub: "slot_idxs nodes' i b t' \<subseteq> {j. unat n \<le> unat j \<and> unat j < unat n'}"
      using r count blank n by (auto simp: i u(2) rep_sprout word_idx_simps)
    show ?thesis unfolding grown_def Open
      using g r i rest sub count prems(2) by (simp add: Open u(2) rep_sprout)
  next
    case (Node l r)
    obtain v w where t: "t = sprout b' v w" using Node Node_sprout by metis
    with prems(1) obtain v' where v': "plant bs s v = Some v'" "t' = sprout b' v' w" by (auto simp: plant_sprout(1) simp del: plant.simps)
    let ?c = "child nodes i b"
    note rep = prems(2) [unfolded t rep_sprout]
    have g: "grown nodes n nodes' n' ?c b' v v'"
    proof (rule Cons.IH [OF v'(1) _ _ prems(4) _ _ prems(7,8)])
      show "graft nodes n ?c (b' # bs) s = (nodes', n')" using prems(9) rep by simp
      show "\<forall>j\<in>insert ?c (slot_idxs nodes ?c b' v). unat j < unat n" using prems(5) by (simp add: t rep_sprout)
    qed (use rep prems(3) in \<open>simp_all add: t v' rep_sprout\<close>)
    have "\<forall>j\<in>idxs nodes ?c (sprout b' v w). unat j < unat n" using prems(5) t by simp
    note r = sprout_grown [OF prems(2) [unfolded t] this g]
    note g = g [unfolded grown_def]
    have "nodes' ! unat i = nodes ! unat i" using g prems(5,6) by (simp add: t rep_sprout)
    note i = same_node [OF this]
    have rest: "nodes' ! unat j = nodes ! unat j" if "j \<noteq> i" "j \<notin> slot_idxs nodes i b t" "\<not> (unat n \<le> unat j \<and> unat j < unat n')" for j
      using that g by (simp add: t rep_sprout)
    show ?thesis unfolding grown_def
      using g r i rest by (simp add: t v' rep_sprout(3))
  next
    case Leaf
    with prems(1) show ?thesis by simp
  qed
qed

lemma bit_and_1: "drop_bit i (w :: 'a::len word) AND 1 = 1 \<longleftrightarrow> bit w i"
  by (simp add: and_one_eq bit_iff_odd_drop_bit mod2_eq_if)

lemma length_low_bits [simp]: "length (low_bits n w) = n"
  by (simp add: low_bits_def)

lemma nth_low_bits: "i < n \<Longrightarrow> low_bits n w ! i = bit w (n - 1 - i)"
  by (simp add: low_bits_def rev_nth)

lemma insert_code_graft:
  "i < he_bit_len e \<Longrightarrow> insert_code trie e idx i =
    (case graft (ht_nodes trie) (ht_count trie) idx (drop i (code_bits e)) (he_symbol e) of
       (nodes, n) \<Rightarrow> trie\<lparr>ht_nodes := nodes, ht_count := n\<rparr>)"
proof (induction trie e idx i rule: insert_code.induct)
  case (1 trie e idx i)
  let ?b = "bit (he_code e) (he_bit_len e - 1 - i)"
  have bits: "drop i (code_bits e) = ?b # drop (Suc i) (code_bits e)"
    using "1.prems" by (simp add: Cons_nth_drop_Suc [symmetric] nth_low_bits)
  show ?case
  proof (cases "i = he_bit_len e - 1")
    case True
    with "1.prems" have len: "he_bit_len e = Suc i" by simp
    with bits show ?thesis
      by (simp add: insert_code.simps [of trie e idx i] insert_code.simps [of _ e idx "Suc i"] bit_and_1 Let_def)
  next
    case False
    with "1.prems" have "Suc i < he_bit_len e" by simp
    then obtain b' bs where bs: "drop (Suc i) (code_bits e) = b' # bs" by (metis Cons_nth_drop_Suc length_low_bits)
    show ?thesis
      using 1 False \<open>Suc i < he_bit_len e\<close> bits
      by (subst insert_code.simps) (simp add: bs bit_and_1 Let_def split: prod.splits)
  qed
qed

definition trie_ok :: "huffman_trie \<Rightarrow> code_tree \<Rightarrow> bool" where
  "trie_ok trie t \<longleftrightarrow> (let nodes = ht_nodes trie; n = ht_count trie in
     length nodes = 1024 \<and> unat n = inner_nodes t \<and> rep nodes 0 0 t \<and> (\<forall>j\<in>idxs nodes 0 t. unat j < unat n) \<and>
     (\<forall>j :: u16. unat n \<le> unat j \<longrightarrow> unat j < 1024 \<longrightarrow> nodes ! unat j = empty_node))"

lemma trie_ok_insert:
  assumes "trie_ok trie (Node l r)" and "plant (code_bits e) (he_symbol e) (Node l r) = Some t'"
    and "inner_nodes t' \<le> 1024" and "0 < he_bit_len e"
  shows "trie_ok (insert_code trie e 0 0) t'"
proof -
  obtain b bs where bits: "code_bits e = b # bs" using assms(4) by (metis length_low_bits length_greater_0_conv list.exhaust)
  obtain t u where t: "Node l r = sprout b t u" using Node_sprout by metis
  then obtain v where v: "plant bs (he_symbol e) t = Some v" "t' = sprout b v u"
    using assms(2) by (auto simp: bits t plant_sprout(1) simp del: plant.simps)
  obtain nodes' n' where g: "graft (ht_nodes trie) (ht_count trie) 0 (b # bs) (he_symbol e) = (nodes', n')" by fastforce
  note ok = assms(1) [unfolded trie_ok_def Let_def t rep_sprout]
  have grown: "grown (ht_nodes trie) (ht_count trie) nodes' n' 0 b t v"
  proof (rule graft_grown [OF v(1) _ _ _ _ _ _ _ g])
    show "\<forall>j\<in>insert 0 (slot_idxs (ht_nodes trie) 0 b t). unat j < unat (ht_count trie)" using ok by blast
    show "unat (ht_count trie) + inner_nodes v \<le> 1024 + inner_nodes t" using ok assms(3) v(2) by (simp add: rep_sprout)
    show "unat (ht_count trie) \<le> 1024"
      using ok assms(3) v(2) plant_inner [OF v(1)] by (simp add: rep_sprout)
  qed (use ok in simp_all)
  have rep: "rep (ht_nodes trie) 0 0 (sprout b t u)"
      and low: "\<forall>j\<in>idxs (ht_nodes trie) 0 (sprout b t u). unat j < unat (ht_count trie)"
    using assms(1) by (auto simp: trie_ok_def Let_def t)
  note r = sprout_grown [OF rep low grown]
  have count: "unat n' = inner_nodes t'" "unat (ht_count trie) \<le> unat n'"
    using grown ok v(2) plant_inner [OF v(1)] by (simp_all add: grown_def rep_sprout)
  have "nodes' ! unat j = empty_node" if "unat n' \<le> unat j" "unat j < 1024" for j :: u16
  proof -
    have "unat (ht_count trie) \<le> unat j" using that count by simp
    moreover from this have "j \<noteq> 0" "j \<notin> slot_idxs (ht_nodes trie) 0 b t" using low leD by (fastforce simp: rep_sprout(2))+
    ultimately show ?thesis using grown that ok by (simp add: grown_def)
  qed
  moreover have "unat j < unat n'" if "j \<in> idxs nodes' 0 t'" for j
  proof -
    have "j \<in> idxs (ht_nodes trie) 0 (sprout b t u) \<union> {j. unat (ht_count trie) \<le> unat j \<and> unat j < unat n'}" using r that v(2) by blast
    with low count(2) show ?thesis by (auto dest: order_less_le_trans)
  qed
  moreover have "length nodes' = 1024" using grown ok by (simp add: grown_def)
  ultimately show ?thesis
    using r count v(2) by (simp add: trie_ok_def insert_code_graft [OF assms(4)] bits g)
qed

lemma plant_entry_None [simp]: "fold plant_entry es None = None"
  by (induction es) (simp_all add: plant_entry_def)

lemma fold_plant_Cons:
  "fold plant_entry (e # es) (Some t) = Some t' \<longleftrightarrow>
     (\<exists>u. plant (code_bits e) (he_symbol e) t = Some u \<and> fold plant_entry es (Some u) = Some t')"
  by (cases "plant (code_bits e) (he_symbol e) t") (simp_all add: plant_entry_def [of e])

lemma plant_Node: "plant bs s t = Some t' \<Longrightarrow> bs \<noteq> [] \<Longrightarrow> \<exists>l r. t' = Node l r"
  by (cases "(bs, s, t)" rule: plant.cases) (auto split: if_splits)

lemma fold_plant_inner: "fold plant_entry es (Some t) = Some t' \<Longrightarrow> inner_nodes t \<le> inner_nodes t'"
proof (induction es arbitrary: t)
  case (Cons e es)
  then obtain u where u: "plant (code_bits e) (he_symbol e) t = Some u" "fold plant_entry es (Some u) = Some t'"
    unfolding fold_plant_Cons by blast
  with Cons.IH plant_inner [OF u(1)] show ?case by fastforce
qed simp

lemma fold_plant_leaf:
  "fold plant_entry es (Some t) = Some t' \<Longrightarrow>
     subtree p t' = Some (Leaf x) \<longleftrightarrow> subtree p t = Some (Leaf x) \<or> (\<exists>e\<in>set es. p = code_bits e \<and> x = he_symbol e)"
proof (induction es arbitrary: t)
  case (Cons e es)
  then obtain u where u: "plant (code_bits e) (he_symbol e) t = Some u" "fold plant_entry es (Some u) = Some t'"
    unfolding fold_plant_Cons by blast
  with Cons.IH plant_leaf [OF u(1)] show ?case by auto
qed simp

lemma fold_insert_ok:
  assumes "trie_ok trie (Node l r)" "fold plant_entry es (Some (Node l r)) = Some t'" "inner_nodes t' \<le> 1024"
    and "list_all (\<lambda>e. 0 < he_bit_len e) es"
  shows "trie_ok (fold (\<lambda>e trie. insert_code trie e 0 0) es trie) t'"
  using assms
proof (induction es arbitrary: trie l r)
  case (Cons e es)
  then obtain u where u: "plant (code_bits e) (he_symbol e) (Node l r) = Some u" "fold plant_entry es (Some u) = Some t'"
    unfolding fold_plant_Cons by blast
  have "code_bits e \<noteq> []" using Cons.prems(4) by (auto simp flip: length_0_conv)
  with plant_Node [OF u(1)] obtain l' r' where "u = Node l' r'" by auto
  moreover have "trie_ok (insert_code trie e 0 0) u"
    using Cons.prems fold_plant_inner [OF u(2)] u(1) by (intro trie_ok_insert) auto
  ultimately show ?case using Cons.IH u(2) Cons.prems by simp
qed simp

lemma empty_trie_ok: "trie_ok empty_trie (Node Open Open)"
proof -
  have "ht_nodes empty_trie ! unat j = empty_node" if "unat j < 1024" for j :: u16 using that by (simp add: empty_trie_def)
  then show ?thesis by (simp add: trie_ok_def Let_def) (simp add: empty_trie_def)
qed

text \<open>The tree of the code, and what the rest of the proofs needs of it.\<close>

definition code_tree :: code_tree where
  "code_tree = the (fold plant_entry huffman_table (Some (Node Open Open)))"

lemma fold_code_tree: "fold plant_entry huffman_table (Some (Node Open Open)) = Some code_tree"
  using plant_table by (metis code_tree_def option.sel)

lemma code_tree_complete: "complete_tree code_tree"
  using plant_table fold_code_tree by (metis option.inject)

lemma code_tree_rep: "rep trie_nodes 0 0 code_tree"
proof -
  have "inner_nodes code_tree = 256" using plant_table fold_code_tree by (metis option.inject)
  then have "trie_ok buildDecodeTrie code_tree"
    unfolding buildDecodeTrie_def
    using table_lengths by (intro fold_insert_ok [OF empty_trie_ok fold_code_tree]) (auto simp: list_all_iff)
  then show ?thesis by (simp add: trie_ok_def Let_def)
qed

lemma code_tree_leaf: "subtree p code_tree = Some (Leaf x) \<longleftrightarrow> (\<exists>e\<in>set huffman_table. p = code_bits e \<and> x = he_symbol e)"
proof -
  have "subtree p (Node Open Open) \<noteq> Some (Leaf x)" by (cases p) auto
  with fold_plant_leaf [OF fold_code_tree] show ?thesis by blast
qed

end
