(* ===== verification/Huffman_Proofs.thy ===== *)
theory Huffman_Proofs
  imports Huffman_Trie
begin

text \<open>
  The decoder of \<^verbatim>\<open>huffman.zig\<close> is the exact inverse of its encoder: the decoder walks the tree of the code bit by bit, and
  the encoder packs the codes of its input, padded with ones.
\<close>

section \<open>Walking the trie\<close>

fun descend :: "trie_node list \<Rightarrow> u16 \<Rightarrow> bool list \<Rightarrow> u16" where
  "descend nodes c [] = c"
| "descend nodes c (b # bs) = descend nodes (child nodes c b) bs"

lemma descend_append: "descend nodes c (p @ q) = descend nodes (descend nodes c p) q"
  by (induction p arbitrary: c) auto

lemma rep_descend:
  assumes "rep nodes c s t" and "subtree p t = Some (Node l r)"
  shows "rep nodes (descend nodes c p) 0 (Node l r) \<and> descend nodes c p \<in> idxs nodes c t"
  using assms
proof (induction p arbitrary: c s t)
  case (Cons b p)
  then obtain l' r' where t: "t = Node l' r'" by (cases t) auto
  with Cons.prems have "rep_slot nodes c b (if b then r' else l')" "subtree p (if b then r' else l') = Some (Node l r)" by auto
  from Cons.IH [OF this] t show ?case by (auto split: if_splits)
qed auto

lemma descend_below:
  assumes "rep nodes c s (Node l r)" and "subtree (b # p) (Node l r) = Some (Node l' r')"
  shows "descend nodes c (b # p) \<in> slot_idxs nodes c b (if b then r else l)"
proof -
  have "rep_slot nodes c b (if b then r else l)" using assms(1) by (cases b) simp_all
  from rep_descend [OF this] assms(2) show ?thesis by simp
qed

lemma descend_inj:
  assumes "rep nodes c s t" and "subtree p t = Some (Node l r)" and "subtree q t = Some (Node l' r')"
    and "descend nodes c p = descend nodes c q"
  shows "p = q"
  using assms
proof (induction p arbitrary: c s t q)
  case Nil
  then have t: "t = Node l r" by simp
  show ?case
  proof (cases q)
    case (Cons b q')
    with descend_below [of nodes c s l r b q'] Nil.prems show ?thesis by (cases b) (simp_all add: t)
  qed simp
next
  case (Cons b p)
  then obtain l1 r1 where t: "t = Node l1 r1" by (cases t) auto
  note below = descend_below [OF Cons.prems(1,2) [unfolded t]]
  have slot: "rep_slot nodes c b (if b then r1 else l1)" using Cons.prems(1) by (cases b) (simp_all add: t)
  show ?case
  proof (cases q)
    case Nil
    with below Cons.prems(1,4) show ?thesis by (cases b) (simp_all add: t)
  next
    case q: (Cons b' q')
    show ?thesis
    proof (cases "b' = b")
      case True
      with Cons.IH [OF slot, of q'] Cons.prems(2,3,4) q show ?thesis by (simp add: t)
    next
      case False
      have "descend nodes c q \<in> slot_idxs nodes c b' (if b' then r1 else l1)"
        using descend_below [OF Cons.prems(1) [unfolded t], of b' q'] Cons.prems(3) by (simp add: t q)
      with False below Cons.prems(1,4) show ?thesis by (cases b; cases b') (auto simp: t)
    qed
  qed
qed

lemma complete_subtree: "complete_tree t \<Longrightarrow> subtree p t = Some u \<Longrightarrow> complete_tree u"
  by (induction p t rule: subtree.induct) (auto split: if_splits)

abbreviation is_node :: "code_tree option \<Rightarrow> bool" where
  "is_node t \<equiv> \<exists>l r. t = Some (Node l r)"

lemma prefix_node:
  assumes "subtree (p @ b # q) t = Some u"
  shows "is_node (subtree p t)"
proof (cases "subtree p t")
  case (Some v)
  with assms show ?thesis by (cases v) (simp_all add: subtree_append)
qed (use assms in \<open>simp add: subtree_append\<close>)

abbreviation reaches :: "bool list \<Rightarrow> code_tree option" where
  "reaches p \<equiv> subtree p code_tree"

definition at :: "byte list \<Rightarrow> bool list \<Rightarrow> decode_state" where
  "at out p = \<lparr>ds_out = out, ds_node = descend trie_nodes 0 p, ds_bits = length p\<rparr>"

lemma slot_at:
  assumes "is_node (reaches p)"
  obtains u where "reaches (p @ [b]) = Some u" "rep_slot trie_nodes (descend trie_nodes 0 p) b u" "complete_tree u"
proof -
  from assms obtain l r where p: "reaches p = Some (Node l r)" by blast
  have "reaches (p @ [b]) = Some (if b then r else l)" by (simp add: subtree_append p)
  moreover have "rep_slot trie_nodes (descend trie_nodes 0 p) b (if b then r else l)"
    using rep_descend [OF code_tree_rep p] by (cases b) simp_all
  moreover have "complete_tree (if b then r else l)" using complete_subtree [OF code_tree_complete p] by simp
  ultimately show ?thesis using that by blast
qed

lemma step_at:
  assumes "is_node (reaches p)"
  shows "case reaches (p @ [b]) of
      Some (Leaf x) \<Rightarrow> decode_step cap b (at out p) =
        (if x = EOS_SYMBOL then Inl EosSymbolDecoded else if cap \<le> length out then Inl Decode_OutputBufferTooSmall
         else Inr (at (out @ [ucast x]) []))
    | Some (Node l r) \<Rightarrow> decode_step cap b (at out p) = Inr (at out (p @ [b]))
    | _ \<Rightarrow> False"
proof -
  obtain u where "reaches (p @ [b]) = Some u" "rep_slot trie_nodes (descend trie_nodes 0 p) b u" "complete_tree u"
    using slot_at [OF assms] by metis
  then show ?thesis
    by (cases u) (auto simp: decode_step_def at_def decodeTrieIsLeaf_def descend_append Let_def)
qed

fun decode_bools :: "nat \<Rightarrow> bool list \<Rightarrow> decode_state \<Rightarrow> decode_error + decode_state" where
  "decode_bools cap [] st = Inr st"
| "decode_bools cap (b # bs) st = (case decode_step cap b st of Inl e \<Rightarrow> Inl e | Inr st \<Rightarrow> decode_bools cap bs st)"

abbreviation bits_of :: "byte list \<Rightarrow> bool list" where
  "bits_of bytes \<equiv> concat (map (low_bits 8) bytes)"

lemma decode_bools_append:
  "decode_bools cap (xs @ ys) st = (case decode_bools cap xs st of Inl e \<Rightarrow> Inl e | Inr st \<Rightarrow> decode_bools cap ys st)"
  by (induction xs arbitrary: st) (auto split: sum.splits)

lemma decode_byte_bools: "decode_byte cap byte n st = decode_bools cap (low_bits n byte) st"
  by (induction n arbitrary: st) (simp_all add: low_bits_def bit_and_1 split: sum.splits)

lemma decode_bytes_bools: "decode_bytes cap bytes st = decode_bools cap (bits_of bytes) st"
  by (induction bytes arbitrary: st) (simp_all add: decode_byte_bools decode_bools_append split: sum.splits)

section \<open>What the decoder accepts\<close>

abbreviation code_of :: "byte \<Rightarrow> bool list" where
  "code_of x \<equiv> code_bits (huffman_table ! unat x)"

lemma length_table: "length huffman_table = 257"
  using arg_cong [OF table_symbols, of length] by simp

lemma nth_symbol: "i < 257 \<Longrightarrow> he_symbol (huffman_table ! i) = word_of_nat i"
  using arg_cong [OF table_symbols, of "\<lambda>xs. xs ! i"] length_table by (simp del: upt_Suc)

lemma unat_byte: "unat (x :: byte) < 256"
  using unsigned_less [of x] by simp

lemma ucast_byte_symbol: "(word_of_nat (unat (x :: byte)) :: u16) \<noteq> EOS_SYMBOL \<and> ucast (word_of_nat (unat x) :: u16) = x"
proof -
  have "unat (word_of_nat (unat x) :: u16) = unat x"
    unfolding unat_of_nat using unat_byte [of x] by (simp add: take_bit_eq_mod)
  moreover have "ucast (word_of_nat (unat x) :: u16) = x" by (rule bit_eqI) (auto simp: bit_simps)
  ultimately show ?thesis using unat_byte [of x] by (auto simp del: unsigned_of_nat)
qed

lemma reaches_code: "\<exists>s. reaches (code_of x) = Some (Leaf s) \<and> s \<noteq> EOS_SYMBOL \<and> ucast s = x"
proof -
  have "huffman_table ! unat x \<in> set huffman_table" using unat_byte [of x] length_table by simp
  with code_tree_leaf nth_symbol [of "unat x"] unat_byte [of x] ucast_byte_symbol [of x] show ?thesis by force
qed

lemma reaches_symbol:
  assumes "reaches p = Some (Leaf s)" "s \<noteq> EOS_SYMBOL"
  shows "p = code_of (ucast s)"
proof -
  obtain i where i: "i < 257" "p = code_bits (huffman_table ! i)" "s = word_of_nat i"
    using assms(1) code_tree_leaf nth_symbol length_table by (metis in_set_conv_nth)
  with assms(2) have "i < 256" by (cases "i = 256") auto
  then have "unat (ucast s :: byte) = i" by (simp add: i(3) unat_of_nat unsigned_ucast_eq take_bit_eq_mod)
  with i(2) show ?thesis by simp
qed

lemma reaches_ones: "k < 30 \<Longrightarrow> is_node (reaches (replicate k True))"
proof -
  assume k: "k < 30"
  have "code_bits (huffman_table ! 256) = replicate 30 True" by code_simp
  then have "reaches (replicate 30 True) \<noteq> None"
    using code_tree_leaf [of "replicate 30 True" "he_symbol (huffman_table ! 256)"] length_table by (metis lessI nth_mem numeral_eq_Suc option.distinct(1) pred_numeral_simps(3))
  moreover have "replicate 30 True = replicate k True @ True # replicate (29 - k) True"
    using k by (simp flip: replicate_Suc replicate_add)
  ultimately show ?thesis using prefix_node by force
qed

lemma decode_code:
  assumes "reaches (p @ q) = Some (Leaf s)" and "s \<noteq> EOS_SYMBOL" and "q \<noteq> []"
  shows "decode_bools cap (q @ rest) (at out p) =
    (if length out < cap then decode_bools cap rest (at (out @ [ucast s]) []) else Inl Decode_OutputBufferTooSmall)"
  using assms(1,3)
proof (induction q arbitrary: p)
  case (Cons b q)
  have node: "is_node (reaches p)"
    using prefix_node [OF Cons.prems(1)] .
  show ?case
  proof (cases q)
    case Nil
    with step_at [OF node, where b = b and cap = cap and out = out] Cons.prems(1) assms(2) show ?thesis by simp
  next
    case (Cons b' q')
    have "is_node (reaches (p @ [b]))"
      using prefix_node [of "p @ [b]" b' q'] Cons.prems(1) Cons by simp
    with step_at [OF node, where b = b and cap = cap and out = out] Cons.IH [of "p @ [b]"] Cons.prems(1) Cons show ?thesis by auto
  qed
qed simp

lemma decode_symbol:
  "decode_bools cap (code_of x @ rest) (at out []) =
    (if length out < cap then decode_bools cap rest (at (out @ [x]) []) else Inl Decode_OutputBufferTooSmall)"
proof -
  obtain s where s: "reaches (code_of x) = Some (Leaf s)" "s \<noteq> EOS_SYMBOL" "ucast s = x" using reaches_code by blast
  have "code_of x \<noteq> []"
  proof
    assume "code_of x = []"
    with s(1) have "code_tree = Leaf s" by simp
    moreover obtain l r where "code_tree = Node l r" using reaches_ones [of 0] by auto
    ultimately show False by (metis code_tree.distinct(5))
  qed
  with decode_code [of "[]" "code_of x" s cap rest out] s show ?thesis by simp
qed

lemma decode_codes:
  "decode_bools cap (concat (map code_of xs) @ rest) (at out []) =
    (if xs = [] \<or> length out + length xs \<le> cap then decode_bools cap rest (at (out @ xs) []) else Inl Decode_OutputBufferTooSmall)"
proof (induction xs arbitrary: out)
  case (Cons x xs)
  show ?case
    using decode_symbol [of cap x "concat (map code_of xs) @ rest" out] Cons.IH [of "out @ [x]"] by auto
qed simp

lemma decode_ones:
  "m + k < 30 \<Longrightarrow> decode_bools cap (replicate k True) (at out (replicate m True)) = Inr (at out (replicate (m + k) True))"
proof (induction k arbitrary: m)
  case (Suc k)
  have "replicate m True @ [True] = replicate (Suc m) True" by (simp add: replicate_append_same)
  with step_at [where p = "replicate m True" and b = True and cap = cap and out = out] reaches_ones [of m] reaches_ones [of "Suc m"] Suc.prems
  have "decode_step cap True (at out (replicate m True)) = Inr (at out (replicate (Suc m) True))" by auto
  with Suc.IH [of "Suc m"] Suc.prems show ?case by simp
qed simp

lemma padding_ones:
  "m + k < 30 \<Longrightarrow> padding_walk k (descend trie_nodes 0 (replicate m True)) = Some (descend trie_nodes 0 (replicate (m + k) True))"
proof (induction k arbitrary: m)
  case (Suc k)
  have app: "replicate m True @ [True] = replicate (Suc m) True" by (simp add: replicate_append_same)
  obtain u where u: "reaches (replicate (Suc m) True) = Some u" "rep_slot trie_nodes (descend trie_nodes 0 (replicate m True)) True u"
    using slot_at [of "replicate m True" True] reaches_ones [of m] Suc.prems unfolding app by auto
  have down: "child trie_nodes (descend trie_nodes 0 (replicate m True)) True = descend trie_nodes 0 (replicate (Suc m) True)"
    unfolding app [symmetric] by (simp add: descend_append)
  obtain l r where "u = Node l r" using u(1) reaches_ones [of "Suc m"] Suc.prems by auto
  with u(2) have "padding_walk (Suc k) (descend trie_nodes 0 (replicate m True)) = padding_walk k (descend trie_nodes 0 (replicate (Suc m) True))"
    unfolding down [symmetric] by (simp add: decodeTrieIsLeaf_def)
  with Suc.IH [of "Suc m"] Suc.prems show ?case by simp
qed simp

lemma decode_bools_Inr:
  assumes "decode_bools cap bs (at out p) = Inr st" and "is_node (reaches p)" and "length out \<le> cap"
  shows "\<exists>xs q. st = at (out @ xs) q \<and> p @ bs = concat (map code_of xs) @ q \<and> is_node (reaches q) \<and> length (out @ xs) \<le> cap"
  using assms
proof (induction bs arbitrary: out p)
  case Nil
  then show ?case by (intro exI [of _ "[]"] exI [of _ p]) simp
next
  case (Cons b bs)
  note step = step_at [OF Cons.prems(2), where b = b and cap = cap and out = out]
  show ?case
  proof (cases "is_node (reaches (p @ [b]))")
    case True
    with step Cons.IH [of out "p @ [b]"] Cons.prems show ?thesis by auto
  next
    case False
    with step obtain s where s: "reaches (p @ [b]) = Some (Leaf s)" by (auto split: option.splits code_tree.splits)
    with step Cons.prems(1) have ok: "s \<noteq> EOS_SYMBOL" "length out < cap" "decode_bools cap bs (at (out @ [ucast s]) []) = Inr st"
      by (auto split: if_splits)
    have "is_node (reaches [])" using reaches_ones [of 0] by simp
    with Cons.IH [OF ok(3)] ok(2) obtain xs q where
        "st = at ((out @ [ucast s]) @ xs) q" "bs = concat (map code_of xs) @ q" "is_node (reaches q)" "length (out @ [ucast s] @ xs) \<le> cap"
      by auto
    then show ?thesis using reaches_symbol [OF s ok(1)] by (intro exI [of _ "ucast s # xs"] exI [of _ q]) simp
  qed
qed

lemma decode_exact:
  "huffman_decode cap bs = Inr out \<longleftrightarrow>
     length out \<le> cap \<and> (\<exists>k<8. bits_of bs = concat (map code_of out) @ replicate k True)"
proof -
  have start: "\<lparr>ds_out = [], ds_node = 0, ds_bits = 0\<rparr> = at [] []" by (simp add: at_def)
  have root: "is_node (reaches [])" using reaches_ones [of 0] by simp
  have zero: "descend trie_nodes 0 q = 0 \<longleftrightarrow> q = []" if "is_node (reaches q)" for q
    using that root descend_inj [OF code_tree_rep, of q _ _ "[]"] by auto
  have walk: "padding_walk k 0 = Some (descend trie_nodes 0 (replicate k True))" if "k < 30" for k
    using padding_ones [of 0 k] that by simp
  show ?thesis
  proof
    assume decoded: "huffman_decode cap bs = Inr out"
    then obtain st where st: "decode_bools cap (bits_of bs) (at [] []) = Inr st"
      by (auto simp: huffman_decode_def decode_bytes_bools start split: sum.splits)
    from decode_bools_Inr [OF this root] obtain xs q where q:
        "st = at xs q" "bits_of bs = concat (map code_of xs) @ q" "is_node (reaches q)" "length xs \<le> cap"
      by auto
    have "\<exists>k<8. q = replicate k True \<and> xs = out"
    proof (cases "q = []")
      case False
      with decoded st zero [OF q(3)]
      have pad: "length q < 8" "padding_walk (length q) 0 = Some (descend trie_nodes 0 q)" "xs = out"
        unfolding huffman_decode_def decode_bytes_bools start by (auto simp: q(1) at_def split: if_splits)
      obtain l r where ones: "reaches (replicate (length q) True) = Some (Node l r)" using reaches_ones [of "length q"] pad(1) by auto
      obtain l' r' where node: "reaches q = Some (Node l' r')" using q(3) by blast
      have "descend trie_nodes 0 (replicate (length q) True) = descend trie_nodes 0 q" using walk [of "length q"] pad by simp
      from descend_inj [OF code_tree_rep ones node this] have "q = replicate (length q) True" by (rule sym)
      with pad(1,3) show ?thesis by blast
    next
      case True
      with q(1) decoded st show ?thesis
        unfolding huffman_decode_def decode_bytes_bools start by (auto simp: at_def split: if_splits)
    qed
    with q(2,4) show "length out \<le> cap \<and> (\<exists>k<8. bits_of bs = concat (map code_of out) @ replicate k True)" by blast
  next
    assume "length out \<le> cap \<and> (\<exists>k<8. bits_of bs = concat (map code_of out) @ replicate k True)"
    then obtain k where k: "k < 8" "bits_of bs = concat (map code_of out) @ replicate k True" "length out \<le> cap" by blast
    have "decode_bools cap (bits_of bs) (at [] []) = Inr (at out (replicate k True))"
      using decode_codes [of cap out "replicate k True" "[]"] decode_ones [of 0 k cap out] k by simp
    with walk [of k] zero [of "replicate k True"] reaches_ones [of k] k(1)
    show "huffman_decode cap bs = Inr out" by (simp add: huffman_decode_def decode_bytes_bools start) (simp add: at_def)
  qed
qed

text \<open>The code is complete, so the decoder never reports an invalid encoding.\<close>

theorem decode_never_invalid: "huffman_decode cap bs \<noteq> Inl InvalidHuffmanEncoding"
proof -
  have "decode_bools cap bits (at out p) \<noteq> Inl InvalidHuffmanEncoding" if "is_node (reaches p)" for bits out p
    using that
  proof (induction bits arbitrary: out p)
    case (Cons b bits)
    note step = step_at [OF Cons.prems, where b = b and cap = cap and out = out]
    show ?case
    proof (cases "is_node (reaches (p @ [b]))")
      case True
      with step Cons.IH [OF True, of out] show ?thesis by auto
    next
      case False
      have "is_node (reaches [])" using reaches_ones [of 0] by simp
      note IH = Cons.IH [OF this]
      from False step obtain s where "reaches (p @ [b]) = Some (Leaf s)" by (auto split: option.splits code_tree.splits)
      with step IH [of "out @ [ucast s]"] show ?thesis by auto
    qed
  qed simp
  from this [of "[]" "bits_of bs" "[]"] reaches_ones [of 0] show ?thesis
    by (auto simp: huffman_decode_def decode_bytes_bools at_def split: sum.splits if_splits)
qed

section \<open>What the encoder writes\<close>

definition fits :: "nat \<Rightarrow> 'a::len word \<Rightarrow> bool" where
  "fits n w \<longleftrightarrow> (\<forall>i\<ge>n. \<not> bit w i)"

lemma fits_less: "fits n (w :: 'a::len word) \<longleftrightarrow> uint w < 2 ^ n"
proof -
  have "fits n w \<longleftrightarrow> (\<forall>i. bit w i \<longrightarrow> i < n)" by (auto simp: fits_def not_le [symmetric])
  also have "\<dots> \<longleftrightarrow> take_bit n w = w" by (auto simp: bit_eq_iff bit_take_bit_iff dest: bit_imp_le_length)
  also have "\<dots> \<longleftrightarrow> take_bit n (uint w) = uint w" by (simp add: word_uint_eq_iff unsigned_take_bit_eq)
  also have "\<dots> \<longleftrightarrow> uint w < 2 ^ n" by (simp add: take_bit_int_eq_self_iff)
  finally show ?thesis .
qed

lemma mask_shifted: "push_bit n 1 - 1 = (mask n :: 'a::len word)"
  by (simp add: mask_eq_exp_minus_1)

lemma low_bits_split:
  assumes "8 \<le> c" "c \<le> 64"
  shows "low_bits c (w :: 64 word) =
    low_bits 8 (ucast (drop_bit (c - 8) w AND 0xff) :: byte) @ low_bits (c - 8) (w AND (push_bit (c - 8) 1 - 1))"
proof (rule nth_equalityI)
  fix i assume "i < length (low_bits c w)"
  then have i: "i < c" by simp
  have ff: "(0xff :: 64 word) = mask 8" by (simp add: mask_eq_exp_minus_1)
  show "low_bits c w ! i = (low_bits 8 (ucast (drop_bit (c - 8) w AND 0xff) :: byte) @ low_bits (c - 8) (w AND (push_bit (c - 8) 1 - 1))) ! i"
  proof (cases "i < 8")
    case True
    with assms i have "c - 8 + (8 - 1 - i) = c - 1 - i" by simp
    moreover have "7 - i < (8 :: nat)" "7 - i < (64 :: nat)" using True by simp_all
    ultimately show ?thesis using True i assms
      by (simp add: nth_append nth_low_bits ff bit_simps)
  next
    case False
    with i assms have "c - 8 - 1 - (i - 8) = c - 1 - i" by simp
    with False i assms show ?thesis
      unfolding mask_shifted by (simp add: nth_append nth_low_bits bit_simps) auto
  qed
qed (use assms in simp)

lemma low_bits_join:
  assumes "fits c w" "fits n code" "c + n \<le> 64"
  shows "low_bits (c + n) (push_bit n w OR ucast (code :: 'a::len word) :: 64 word) = low_bits c w @ low_bits n code"
    and "fits (c + n) (push_bit n w OR ucast code :: 64 word)"
proof -
  show "low_bits (c + n) (push_bit n w OR ucast code :: 64 word) = low_bits c w @ low_bits n code"
  proof (rule nth_equalityI)
    fix i assume "i < length (low_bits (c + n) (push_bit n w OR ucast code :: 64 word))"
    then have i: "i < c + n" by simp
    show "low_bits (c + n) (push_bit n w OR ucast code :: 64 word) ! i = (low_bits c w @ low_bits n code) ! i"
    proof (cases "i < c")
      case True
      with assms i have "n \<le> c + n - 1 - i" "c + n - 1 - i - n = c - 1 - i" "c + n - 1 - i < 64" by simp_all
      moreover from this assms(2) have "\<not> bit code (c + n - 1 - i)" by (simp add: fits_def)
      ultimately show ?thesis using True i by (simp add: nth_append nth_low_bits bit_simps)
    next
      case False
      with assms i have "c + n - 1 - i < n" "n - 1 - (i - c) = c + n - 1 - i" "c + n - 1 - i < 64" by simp_all
      then show ?thesis using False i by (simp add: nth_append nth_low_bits bit_simps)
    qed
  qed simp
  show "fits (c + n) (push_bit n w OR ucast code :: 64 word)"
    using assms(1,2) by (auto simp: fits_def bit_simps)
qed

lemma fits_mask: "fits n (w AND (push_bit n 1 - 1))"
  unfolding mask_shifted by (simp add: fits_def bit_simps)

lemma emit_bytes_bits:
  assumes "emit_bytes cap buf count out = r" and "fits count buf" and "count \<le> 64"
  shows "case r of
      Inl e \<Rightarrow> 8 * cap < length (bits_of out @ low_bits count buf)
    | Inr (buf', count', out') \<Rightarrow> bits_of out' @ low_bits count' buf' = bits_of out @ low_bits count buf \<and> count' < 8 \<and>
        fits count' buf' \<and> (length out \<le> cap \<longrightarrow> length out' \<le> cap)"
  using assms
proof (induction cap buf count out arbitrary: r rule: emit_bytes.induct)
  case (1 cap buf count out)
  have len: "length (bits_of xs) = 8 * length xs" for xs by (induction xs) simp_all
  show ?case
  proof (cases "8 \<le> count")
    case True
    show ?thesis
    proof (cases "cap \<le> length out")
      case True
      with \<open>8 \<le> count\<close> "1.prems"(1) show ?thesis by (auto simp: emit_bytes.simps [of cap buf] len)
    next
      case False
      with True "1.prems"(1) have "emit_bytes cap (buf AND (push_bit (count - 8) 1 - 1)) (count - 8) (out @ [ucast (drop_bit (count - 8) buf AND 0xff)]) = r"
        by (simp add: emit_bytes.simps [of cap buf] Let_def)
      from "1.IH" [OF True refl False this fits_mask] "1.prems"(3) low_bits_split [OF True, of buf] False
      show ?thesis by (auto split: sum.splits)
    qed
  next
    case False
    with "1.prems" show ?thesis by (auto simp: emit_bytes.simps [of cap buf])
  qed
qed

lemma table_entry: "he_bit_len (huffman_table ! unat (x :: byte)) \<le> 30 \<and> fits (he_bit_len (huffman_table ! unat x)) (he_code (huffman_table ! unat x))"
proof -
  have "huffman_table ! unat x \<in> set huffman_table" using unat_byte [of x] length_table by simp
  with table_lengths show ?thesis by (auto simp: list_all_iff fits_less)
qed

lemma encode_loop_bits:
  assumes "encode_loop cap buf count out xs = r" and "fits count buf" and "count < 8"
  shows "case r of
      Inl e \<Rightarrow> 8 * cap < length (bits_of out @ low_bits count buf @ concat (map code_of xs))
    | Inr (buf', count', out') \<Rightarrow> bits_of out' @ low_bits count' buf' = bits_of out @ low_bits count buf @ concat (map code_of xs) \<and>
        count' < 8 \<and> fits count' buf' \<and> (length out \<le> cap \<longrightarrow> length out' \<le> cap)"
  using assms
proof (induction xs arbitrary: buf count out)
  case (Cons x xs)
  let ?e = "huffman_table ! unat x"
  let ?buf = "push_bit (he_bit_len ?e) buf OR ucast (he_code ?e)"
  note e = table_entry [of x]
  have join: "low_bits (count + he_bit_len ?e) ?buf = low_bits count buf @ code_of x" "fits (count + he_bit_len ?e) ?buf"
    using low_bits_join [of count buf "he_bit_len ?e" "he_code ?e"] Cons.prems(2,3) e by auto
  note emit = emit_bytes_bits [OF refl join(2), of cap out]
  show ?case
  proof (cases "emit_bytes cap ?buf (count + he_bit_len ?e) out")
    case (Inl err)
    with emit Cons.prems e show ?thesis by (auto simp: join(1))
  next
    case (Inr st)
    obtain buf' count' out' where st: "st = (buf', count', out')" by (cases st)
    with emit Inr Cons.prems(3) e have st': "bits_of out' @ low_bits count' buf' = bits_of out @ low_bits count buf @ code_of x"
        "count' < 8" "fits count' buf'" "length out \<le> cap \<longrightarrow> length out' \<le> cap"
      by (auto simp: join(1))
    have "encode_loop cap buf' count' out' xs = r" using Cons.prems(1) Inr st by (simp add: Let_def)
    note IH = Cons.IH [OF this st'(3,2)]
    have "length (bits_of out') + count' = length (bits_of out) + count + length (code_of x)"
      using arg_cong [OF st'(1), of length] by simp
    with IH st'(1,4) show ?thesis by (auto split: sum.splits)
  qed
qed auto

lemma length_bits_of: "length (bits_of xs) = 8 * length xs"
  by (induction xs) simp_all

lemma last_byte:
  assumes "fits count (buf :: 64 word)" "count < 8"
  defines "v \<equiv> push_bit (8 - count) buf OR (push_bit (8 - count) 1 - 1)"
  shows "unat v < 256" "low_bits 8 (ucast v :: byte) = low_bits count buf @ replicate (8 - count) True"
proof -
  have "fits (8 - count) (mask (8 - count) :: 64 word)" by (simp add: fits_def bit_simps)
  from low_bits_join [OF assms(1) this] assms(2)
  have v: "low_bits 8 v = low_bits count buf @ low_bits (8 - count) (mask (8 - count) :: 64 word)" "fits 8 v"
    unfolding v_def mask_shifted by simp_all
  from v(2) have "int (unat v) < 256" unfolding fits_less by simp
  then show "unat v < 256" by linarith
  have "low_bits 8 (ucast v :: byte) = low_bits 8 v" by (auto simp: low_bits_def bit_simps)
  moreover have "low_bits (8 - count) (mask (8 - count) :: 64 word) = replicate (8 - count) True"
    using assms(2) by (intro nth_equalityI) (auto simp: nth_low_bits bit_simps)
  ultimately show "low_bits 8 (ucast v :: byte) = low_bits count buf @ replicate (8 - count) True" using v(1) by simp
qed

definition encode_result :: "nat \<Rightarrow> bool list \<Rightarrow> encode_error + byte list \<Rightarrow> bool" where
  "encode_result cap codes r \<longleftrightarrow> (case r of
      Inl e \<Rightarrow> 8 * cap < length codes
    | Inr bs \<Rightarrow> length bs \<le> cap \<and> (\<exists>k<8. bits_of bs = codes @ replicate k True))"

lemma encode_result_Inr: "length bs \<le> cap \<Longrightarrow> k < 8 \<Longrightarrow> bits_of bs = codes @ replicate k True \<Longrightarrow> encode_result cap codes (Inr bs)"
  by (auto simp: encode_result_def)

lemma encode_bits: "\<exists>r. huffman_encode cap xs = Some r \<and> encode_result cap (concat (map code_of xs)) r"
proof (cases "encode_loop cap 0 0 [] xs")
  case (Inl e)
  with encode_loop_bits [OF refl, of 0 0 cap "[]" xs] show ?thesis by (auto simp: huffman_encode_def fits_def encode_result_def)
next
  case (Inr st)
  obtain buf count out where st: "st = (buf, count, out)" by (cases st)
  with encode_loop_bits [OF refl, of 0 0 cap "[]" xs] Inr
  have loop: "bits_of out @ low_bits count buf = concat (map code_of xs)" "count < 8" "fits count buf" "length out \<le> cap"
    by (auto simp: fits_def low_bits_def)
  have len: "length (concat (map code_of xs)) = 8 * length out + count"
    using arg_cong [OF loop(1), of length] unfolding length_append length_bits_of by simp
  consider "count = 0" | "0 < count" "cap \<le> length out" | "0 < count" "length out < cap" by linarith
  then show ?thesis
  proof cases
    case 1
    have "bits_of out = concat (map code_of xs) @ replicate 0 True" using loop(1) 1 by (simp add: low_bits_def)
    from encode_result_Inr [OF loop(4) _ this] 1 Inr st show ?thesis by (simp add: huffman_encode_def)
  next
    case 2
    with Inr st len show ?thesis by (simp add: huffman_encode_def encode_result_def)
  next
    case 3
    note v = last_byte [OF loop(3,2)]
    let ?v = "push_bit (8 - count) buf OR (push_bit (8 - count) 1 - 1)"
    have bits: "bits_of (out @ [ucast ?v]) = concat (map code_of xs) @ replicate (8 - count) True"
      unfolding loop(1) [symmetric] using v(2) by simp
    have "huffman_encode cap xs = Some (Inr (out @ [ucast ?v]))"
      using 3 Inr st v(1) by (simp add: huffman_encode_def Let_def)
    with encode_result_Inr [OF _ _ bits, of cap] 3 show ?thesis by simp
  qed
qed

lemma decode_encoded:
  assumes "huffman_encode n xs = Some (Inr bs)"
  shows "huffman_decode cap bs = (if xs = [] \<or> length xs \<le> cap then Inr xs else Inl Decode_OutputBufferTooSmall)"
proof -
  obtain k where k: "k < 8" "bits_of bs = concat (map code_of xs) @ replicate k True"
    using encode_bits [of n xs] assms by (auto simp: encode_result_def)
  show ?thesis
  proof (cases "xs = [] \<or> length xs \<le> cap")
    case True
    with k decode_exact [of cap bs xs] show ?thesis by auto
  next
    case False
    with decode_codes [of cap xs "replicate k True" "[]"] k(2) show ?thesis
      by (simp add: huffman_decode_def decode_bytes_bools at_def)
  qed
qed

lemma low_bits_inj: "low_bits 8 (x :: byte) = low_bits 8 y \<Longrightarrow> x = y"
proof (rule bit_eqI)
  fix n assume eq: "low_bits 8 x = low_bits 8 y" and "possible_bit TYPE(byte) n"
  then have "n < 8" by (simp add: possible_bit_word)
  then show "bit x n \<longleftrightarrow> bit y n" using arg_cong [OF eq, of "\<lambda>l. l ! (7 - n)"] by (simp add: nth_low_bits)
qed

lemma bits_of_inj: "bits_of xs = bits_of ys \<Longrightarrow> xs = ys"
proof (induction xs arbitrary: ys)
  case Nil
  then have "length (bits_of ys) = 0" by simp
  then show ?case unfolding length_bits_of by simp
next
  case (Cons x xs)
  have "length (bits_of (x # xs)) = length (bits_of ys)" using Cons.prems by (rule arg_cong)
  then obtain y ys' where ys: "ys = y # ys'" unfolding length_bits_of by (cases ys) auto
  from Cons.prems have "low_bits 8 x = low_bits 8 y \<and> bits_of xs = bits_of ys'" unfolding ys by simp
  with Cons.IH low_bits_inj ys show ?case by blast
qed

lemma padding_unique:
  assumes "bits_of xs = codes @ replicate k True" "bits_of ys = codes @ replicate k' True" "k < 8" "k' < 8"
  shows "xs = ys"
proof -
  have "8 * length xs = length codes + k" "8 * length ys = length codes + k'"
    using arg_cong [OF assms(1), of length] arg_cong [OF assms(2), of length] by (simp_all add: length_bits_of)
  with assms(3,4) have "k = k'" by arith
  with assms(1,2) bits_of_inj show ?thesis by simp
qed

text \<open>
  Property C31: the Huffman decoder is the exact inverse of the encoder. Decoding bytes into a buffer gives some
  output exactly when the output fits and encoding it gives back those bytes and no others: what the encoder writes is
  decoded to its input, and every other byte string is refused (padding that is too long or not all ones, a code cut off
  at the end, the end-of-string symbol).
\<close>

theorem huffman_decode_inverse:
  "huffman_decode cap bs = Inr out \<longleftrightarrow> length out \<le> cap \<and> huffman_encode (length bs) out = Some (Inr bs)"
proof -
  obtain r where r: "huffman_encode (length bs) out = Some r" "encode_result (length bs) (concat (map code_of out)) r"
    using encode_bits by blast
  have "(\<exists>k<8. bits_of bs = concat (map code_of out) @ replicate k True) \<longleftrightarrow> r = Inr bs"
  proof (cases r)
    case (Inl e)
    have "length (concat (map code_of out)) \<le> 8 * length bs" if "bits_of bs = concat (map code_of out) @ replicate k True" for k
      using arg_cong [OF that, of length] unfolding length_append length_bits_of by simp
    with r(2) Inl show ?thesis unfolding encode_result_def by (auto simp: not_le [symmetric])
  next
    case (Inr bs')
    with r(2) obtain k where k: "k < 8" "bits_of bs' = concat (map code_of out) @ replicate k True" by (auto simp: encode_result_def)
    with padding_unique [OF k(2) _ k(1), of bs] Inr show ?thesis by blast
  qed
  with r(1) decode_exact show ?thesis by simp
qed

end
