(* ===== verification/Qpack_Proofs.thy ===== *)
theory Qpack_Proofs
  imports Qpack Huffman_Proofs
begin

text \<open>
  Which header blocks of \<^verbatim>\<open>qpack.zig\<close> survive encoding and decoding: exactly the strings whose length the encoder writes as the
  decoder reads it, and as long as the shared scratch buffer has room.
\<close>

section \<open>First bytes\<close>

lemma word_of_nat_mask:
  assumes "k < 2 ^ n"
  shows "word_of_nat k AND mask n = (word_of_nat k :: byte)"
proof -
  have "take_bit n (word_of_nat k) = (word_of_nat k :: byte)"
    using assms by (simp add: take_bit_nat_eq_self flip: of_nat_take_bit)
  then show ?thesis by (simp add: take_bit_eq_mask)
qed

lemma prefix_byte:
  assumes "(first :: byte) AND mask n = 0" "k < 2 ^ n" "n \<le> 8"
  shows "unat ((first OR word_of_nat k) AND mask n) = k"
proof -
  have "k < 256" using assms(2,3) power_increasing [of n 8 "2 :: nat"] by simp
  moreover have "(first OR word_of_nat k) AND mask n = (word_of_nat k :: byte)"
    using assms(1) word_of_nat_mask [OF assms(2)] by (simp add: bit.conj_disj_distrib2)
  ultimately show ?thesis by (simp add: unsigned_of_nat take_bit_eq_mod)
qed

lemma prefix_flag:
  assumes "m AND mask n = 0" "k < 2 ^ n"
  shows "((first :: byte) OR word_of_nat k) AND m = first AND m"
proof -
  have "(word_of_nat k :: byte) AND m = word_of_nat k AND (m AND mask n)"
    using word_of_nat_mask [OF assms(2)] by (metis (no_types, lifting) and.assoc and.commute)
  then show ?thesis using assms(1) by (simp add: bit.conj_disj_distrib2)
qed

lemma unat_mask_byte: "n \<le> 8 \<Longrightarrow> unat (mask n :: byte) = 2 ^ n - 1"
  using prefix_byte [of 0 n "2 ^ n - 1"] by (simp add: of_nat_diff flip: mask_eq_exp_minus_1)

lemma masks: "(0x3f :: byte) = mask 6" "(0x0f :: byte) = mask 4" "(0x07 :: byte) = mask 3" "(0x7f :: byte) = mask 7"
  by (simp_all add: mask_eq_exp_minus_1)

text \<open>Every encoder appends its bytes when they fit and panics otherwise.\<close>

lemma put_put_all: "put cap b out = put_all cap [b] out"
  by (auto simp: put_def put_all_def)

lemma put_all_bind [simp]:
  "Option.bind (put_all cap xs out) (put_all cap ys) = put_all cap (xs @ ys) out"
  "Option.bind (put_all cap xs out) (\<lambda>out. put_all cap ys out) = put_all cap (xs @ ys) out"
  by (auto simp: put_all_def)

section \<open>Integers\<close>

lemma low7:
  assumes "v < 128"
  shows "(word_of_nat v :: byte) AND 0x80 = 0" "ucast ((word_of_nat v :: byte) AND 0x7f) = (word_of_nat v :: 64 word)"
    "unat (word_of_nat v :: 64 word) = v"
proof -
  show "(word_of_nat v :: byte) AND 0x80 = 0" using prefix_flag [of "0x80" 7 v 0] assms by (simp add: masks [symmetric])
  have "(word_of_nat v :: byte) AND 0x7f = word_of_nat v" unfolding masks using word_of_nat_mask [of v 7] assms by simp
  moreover have "ucast (word_of_nat v :: byte) = (word_of_nat v :: 64 word)"
    using assms by (simp add: word_eq_iff_unsigned unsigned_ucast_eq unsigned_of_nat take_bit_eq_mod)
  ultimately show "ucast ((word_of_nat v :: byte) AND 0x7f) = (word_of_nat v :: 64 word)" by simp
  show "unat (word_of_nat v :: 64 word) = v" using assms by (simp add: unsigned_of_nat take_bit_eq_mod)
qed

lemma small_varint:
  assumes "v < 128"
  shows "decodeVarintFromBuf (pre @ word_of_nat v # post) (length pre) = Inr (word_of_nat v, length pre + 1)"
  using low7 [OF assms] by (simp add: decodeVarintFromBuf_def varint_loop.simps [of _ "length pre"] nth_append Let_def)

lemma prefixed_short:
  assumes "first AND mask n = 0" "k < 2 ^ n - 1" "n \<le> 8"
  shows "prefixed (mask n) (pre @ (first OR word_of_nat k) # post) (length pre) = Inr (k, length pre + 1)"
proof -
  have "unat (mask n :: byte) = 2 ^ n - 1" by (rule unat_mask_byte [OF assms(3)])
  then show ?thesis using prefix_byte [of first n k] assms by (simp add: prefixed_def nth_append Let_def)
qed

lemma prefixed_long:
  assumes "first AND mask n = 0" "n \<le> 8" "0 < n" "k < 128"
  shows "prefixed (mask n) (pre @ (first OR word_of_nat (2 ^ n - 1)) # word_of_nat k # post) (length pre) =
    Inr (2 ^ n - 1 + k, length pre + 2)"
proof -
  have "unat (mask n :: byte) = 2 ^ n - 1" by (rule unat_mask_byte [OF assms(2)])
  moreover have "unat (word_of_nat k :: 64 word) = k" using assms(4) by (simp add: unsigned_of_nat take_bit_eq_mod)
  ultimately show ?thesis
    using prefix_byte [of first n "2 ^ n - 1"] assms small_varint [OF assms(4), of "pre @ [first OR word_of_nat (2 ^ n - 1)]" post]
    by (simp add: prefixed_def nth_append Let_def)
qed

section \<open>Strings\<close>

text \<open>The bytes that the encoder of a string writes, and whether they are Huffman coded.\<close>

definition huffman_form :: "byte list \<Rightarrow> byte list" where
  "huffman_form s = (case huffman_encode 16384 s of Some (Inr bs) \<Rightarrow> bs | _ \<Rightarrow> [])"

definition shrinks :: "nat \<Rightarrow> byte list \<Rightarrow> bool" where
  "shrinks lim s \<longleftrightarrow> huffman_form s \<noteq> [] \<and> length (huffman_form s) < length s \<and> length s < lim"

definition payload :: "nat \<Rightarrow> byte list \<Rightarrow> byte list" where
  "payload lim s = (if shrinks lim s then huffman_form s else s)"

definition long_length :: "nat \<Rightarrow> byte list" where
  "long_length n = replicate (n div 128) 0xff @ [word_of_nat (n mod 128)]"

definition string_bytes :: "nat \<Rightarrow> byte \<Rightarrow> byte \<Rightarrow> byte list \<Rightarrow> byte list" where
  "string_bytes lim first h s =
     (if length s < lim then [first OR (if shrinks lim s then h else 0) OR word_of_nat (length (payload lim s))]
      else (first OR word_of_nat (lim - 1)) # long_length (length s - (lim - 1))) @ payload lim s"

text \<open>Whether the decoder reads the length that the encoder wrote.\<close>

definition string_ok :: "nat \<Rightarrow> byte list \<Rightarrow> bool" where
  "string_ok lim s \<longleftrightarrow> (if length s < lim then length (payload lim s) < lim - 1 else length s - (lim - 1) < 128)"

lemma put_remaining_eq: "put_remaining cap out n = put_all cap (long_length n) out"
proof (induction cap out n rule: put_remaining.induct)
  case (1 cap out n)
  show ?case
  proof (cases "n \<ge> 128")
    case True
    then have "n div 128 = Suc ((n - 128) div 128)" "n mod 128 = (n - 128) mod 128" by (simp_all add: le_div_geq le_mod_geq)
    with True have n: "long_length n = [0xff] @ long_length (n - 128)" by (simp add: long_length_def)
    have "put_remaining cap out n = Option.bind (put_all cap [0xff] out) (\<lambda>out. put_remaining cap out (n - 128))"
      using True by (simp add: put_remaining.simps [of cap out n] put_put_all)
    also have "\<dots> = Option.bind (put_all cap [0xff] out) (put_all cap (long_length (n - 128)))"
      using "1.IH" [OF True] by (auto simp: put_put_all put_all_def split: bind_splits)
    finally show ?thesis by (simp add: n)
  next
    case False
    then show ?thesis by (simp add: put_remaining.simps [of cap out n] long_length_def put_put_all)
  qed
qed

lemma string_to_buf_eq: "string_to_buf lim first h cap out s = put_all cap (string_bytes lim first h s) out"
proof -
  obtain r where r: "huffman_encode 16384 s = Some r" using encode_bits by blast
  then have "huffman_form s = (case r of Inl e \<Rightarrow> [] | Inr bs \<Rightarrow> bs)" by (auto simp: huffman_form_def split: sum.splits)
  with r show ?thesis
    by (simp add: string_to_buf_def Let_def string_bytes_def payload_def shrinks_def put_put_all put_remaining_eq)
qed

lemma shrinks_decode:
  assumes "shrinks lim s"
  shows "huffman_decode cap (payload lim s) = (if length s \<le> cap then Inr s else Inl Decode_OutputBufferTooSmall)"
proof -
  have "huffman_encode 16384 s = Some (Inr (huffman_form s))"
    using assms by (auto simp: shrinks_def huffman_form_def split: option.splits sum.splits)
  from decode_encoded [OF this, of cap] assms show ?thesis by (auto simp: payload_def shrinks_def)
qed

definition scratch_used :: "nat \<Rightarrow> byte list \<Rightarrow> nat" where
  "scratch_used lim s = (if shrinks lim s then length s else 0)"

text \<open>A prefix of \<open>n\<close> bits, with the Huffman flag above it and the other bits in \<open>first\<close>.\<close>

definition string_prefix :: "nat \<Rightarrow> byte \<Rightarrow> byte \<Rightarrow> bool" where
  "string_prefix n first h \<longleftrightarrow> 0 < n \<and> n < 8 \<and> first AND mask n = 0 \<and> h AND mask n = 0 \<and> first AND h = 0 \<and> h \<noteq> 0"

lemma string_roundtrip:
  assumes "string_prefix n first h" and "string_ok (2 ^ n) s"
  defines "w \<equiv> string_bytes (2 ^ n) first h s"
  shows "decode_string (mask n) h (pre @ w @ post) (length pre) sp =
    (if shrinks (2 ^ n) s \<and> 16384 - sp < length s then (Inl (Huffman_error Decode_OutputBufferTooSmall), sp)
     else (Inr (s, length pre + length w), sp + scratch_used (2 ^ n) s))"
proof (cases "length s < 2 ^ n")
  case True
  let ?f = "first OR (if shrinks (2 ^ n) s then h else 0)"
  have w: "w = (?f OR word_of_nat (length (payload (2 ^ n) s))) # payload (2 ^ n) s" using True by (simp add: w_def string_bytes_def or.assoc)
  have len: "length (payload (2 ^ n) s) < 2 ^ n - 1" using assms(2) True by (simp add: string_ok_def)
  have f: "?f AND mask n = 0" using assms(1) by (simp add: string_prefix_def bit.conj_disj_distrib2)
  have "(?f OR word_of_nat (length (payload (2 ^ n) s))) AND h = ?f AND h"
    using len assms(1) by (intro prefix_flag [of _ n]) (simp_all add: string_prefix_def)
  then have flag: "(?f OR word_of_nat (length (payload (2 ^ n) s))) AND h \<noteq> 0 \<longleftrightarrow> shrinks (2 ^ n) s"
    using assms(1) by (simp add: string_prefix_def bit.conj_disj_distrib2)
  show ?thesis
    using prefixed_short [OF f len, of pre "payload (2 ^ n) s @ post"] flag shrinks_decode [of "2 ^ n" s] assms(1)
    by (auto simp: decode_string_def w nth_append Let_def scratch_used_def string_prefix_def payload_def)
next
  case False
  then have raw: "\<not> shrinks (2 ^ n) s" "payload (2 ^ n) s = s" by (simp_all add: shrinks_def payload_def)
  let ?k = "length s - (2 ^ n - 1)"
  have k: "?k < 128" using assms(2) False by (simp add: string_ok_def)
  have w: "w = (first OR word_of_nat (2 ^ n - 1)) # word_of_nat ?k # s"
    using False k by (simp add: w_def string_bytes_def raw long_length_def)
  have "(first OR word_of_nat (2 ^ n - 1)) AND h = first AND h"
    using assms(1) by (intro prefix_flag [of _ n]) (simp_all add: string_prefix_def)
  then have flag: "(first OR word_of_nat (2 ^ n - 1)) AND h = 0" using assms(1) by (simp add: string_prefix_def)
  have "2 ^ n - 1 + ?k = length s" using False by simp
  with prefixed_long [of first n ?k pre "s @ post"] flag raw k assms(1) show ?thesis
    by (simp add: decode_string_def w nth_append Let_def scratch_used_def string_prefix_def)
qed

section \<open>Lengths that are read differently\<close>

lemma or_shifted:
  fixes a b :: "64 word"
  assumes "unat a < 2 ^ n" "unat b < 2 ^ m" "n + m \<le> 64"
  shows "unat (a OR push_bit n b) = unat a + unat b * 2 ^ n"
proof -
  have "fits n a" using assms(1) unfolding fits_less uint_nat by (metis of_nat_less_numeral_power_cancel_iff)
  then have "a AND push_bit n b = 0" by (intro bit_eqI) (auto simp: fits_def bit_simps not_le)
  then have "a OR push_bit n b = a + push_bit n b" by (simp add: disjunctive_add_eq_or)
  moreover have "unat a + unat b * 2 ^ n < 2 ^ (n + m)"
  proof -
    have "unat b * 2 ^ n + 2 ^ n \<le> 2 ^ m * 2 ^ n" using assms(2) by (metis Suc_leI add.commute mult_Suc mult_le_mono1)
    with assms(1) show ?thesis by (simp add: power_add mult.commute)
  qed
  moreover have "(2 :: nat) ^ (n + m) \<le> 2 ^ 64" using assms(3) by (rule power_increasing) simp
  ultimately show ?thesis
    by (simp add: unat_word_ariths unsigned_push_bit_eq push_bit_nat_def take_bit_eq_mod)
qed

lemma varint_ff:
  assumes "unat result < 2 ^ shift" "shift + 7 * k \<le> 56" "r < 128"
  shows "\<exists>v. varint_loop (pre @ replicate k 0xff @ word_of_nat r # post) (length pre) result shift = Inr (v, length pre + k + 1) \<and>
    unat v = unat result + (2 ^ (7 * k) - 1 + r * 2 ^ (7 * k)) * 2 ^ shift"
  using assms
proof (induction k arbitrary: pre result shift)
  case 0
  then show ?case
    using or_shifted [of result shift "word_of_nat r" 7] low7 [of r]
    by (simp add: varint_loop.simps [of _ "length pre"] nth_append Let_def)
next
  case (Suc k)
  let ?result = "result OR push_bit shift 0x7f :: 64 word"
  have r: "unat ?result = unat result + 127 * 2 ^ shift" using or_shifted [of result shift "0x7f" 7] Suc.prems by simp
  have "unat ?result < 2 ^ (shift + 7)" using r Suc.prems(1) by (simp add: power_add)
  from Suc.IH [OF this, of "pre @ [0xff]"] Suc.prems obtain v where
      v: "varint_loop ((pre @ [0xff]) @ replicate k 0xff @ word_of_nat r # post) (length (pre @ [0xff])) ?result (shift + 7) = Inr (v, length (pre @ [0xff]) + k + 1)"
      "unat v = unat ?result + (2 ^ (7 * k) - 1 + r * 2 ^ (7 * k)) * 2 ^ (shift + 7)"
    by auto
  have "varint_loop (pre @ replicate (Suc k) 0xff @ word_of_nat r # post) (length pre) result shift = Inr (v, length pre + Suc k + 1)"
    using v(1) Suc.prems(2) by (simp add: varint_loop.simps [of _ "length pre"] nth_append Let_def)
  moreover have "unat v = unat result + (2 ^ (7 * Suc k) - 1 + r * 2 ^ (7 * Suc k)) * 2 ^ shift"
  proof -
    obtain q :: nat where q: "(2 :: nat) ^ (7 * k) = Suc q" by (metis not0_implies_Suc power_not_zero zero_neq_numeral)
    have "(2 :: nat) ^ (7 * Suc k) = 128 * Suc q" using q by (simp add: power_add)
    with v(2) r q show ?thesis by (simp add: power_add algebra_simps)
  qed
  ultimately show ?case by blast
qed

lemma varint_ff_fails:
  assumes "63 \<le> shift + 7 * k" "0 < k"
  shows "varint_loop (pre @ replicate k 0xff @ post) (length pre) result shift = Inl InvalidVarint"
  using assms
proof (induction k arbitrary: pre result shift)
  case (Suc k)
  show ?case
  proof (cases "63 \<le> shift + 7")
    case True
    then show ?thesis by (simp add: varint_loop.simps [of _ "length pre"] nth_append Let_def)
  next
    case False
    with Suc.IH [of "shift + 7" "pre @ [0xff]"] Suc.prems show ?thesis
      by (cases k) (simp_all add: varint_loop.simps [of _ "length pre"] nth_append Let_def)
  qed
qed simp

lemma power_128: "128 * (i + 2) + 128 < (2 :: nat) ^ (7 * (i + 2))"
proof (induction i)
  case (Suc i)
  have eq: "(2 :: nat) ^ (7 * (Suc i + 2)) = 128 * 2 ^ (7 * (i + 2))" by (simp add: power_add)
  have "128 * (Suc i + 2) + 128 < 128 * x" if "128 * (i + 2) + 128 < x" for x :: nat
  proof -
    have "128 * (Suc i + 2) + 128 < x + x" using that by (simp add: algebra_simps)
    also have "x + x \<le> 128 * x" by simp
    finally show ?thesis .
  qed
  from this [OF Suc] show ?case unfolding eq .
qed simp

lemma long_length_wrong:
  assumes "128 \<le> n" "decodeVarintFromBuf (pre @ long_length n @ post) (length pre) = Inr (v, stop)"
  shows "unat v \<noteq> n"
proof -
  let ?k = "n div 128" and ?r = "n mod 128"
  have k: "0 < ?k" using assms(1) by (simp add: div_greater_zero_iff)
  show ?thesis
  proof (cases "7 * ?k \<le> 56")
    case True
    then have v: "unat v = 2 ^ (7 * ?k) - 1 + ?r * 2 ^ (7 * ?k)"
      using varint_ff [of 0 0 ?k ?r pre post] assms(2) by (auto simp: decodeVarintFromBuf_def long_length_def)
    obtain j where j: "?k = Suc j" using k by (metis Suc_pred)
    show ?thesis
    proof (cases j)
      case 0
      with v j have "unat v = 127 + 128 * ?r" "n = 128 + ?r" using div_mult_mod_eq [of n 128] by simp_all
      moreover have "127 + 128 * r \<noteq> 128 + r" for r :: nat by presburger
      ultimately show ?thesis by metis
    next
      case (Suc i)
      with j have "?k = i + 2" by simp
      then have "128 * ?k + 128 < 2 ^ (7 * ?k)" using power_128 [of i] by simp
      moreover have "n < 128 * ?k + 128" using div_mult_mod_eq [of n 128] mod_less_divisor [of 128 n] by linarith
      ultimately show ?thesis using v by linarith
    qed
  next
    case False
    then have "decodeVarintFromBuf (pre @ long_length n @ post) (length pre) = Inl InvalidVarint"
      using varint_ff_fails [of 0 ?k pre "word_of_nat ?r # post" 0] k by (simp add: decodeVarintFromBuf_def long_length_def)
    with assms(2) show ?thesis by simp
  qed
qed

lemma raw_string_length:
  assumes "decode_string ones h data start sp = (Inr (v, stop), sp')" "data ! start AND h = 0"
  shows "\<exists>pos. prefixed ones data start = Inr (length v, pos) \<and> pos + length v \<le> length data"
  using assms by (auto simp: decode_string_def Let_def split: sum.splits if_splits)

lemma all_ones_length:
  assumes "prefixed 0x7f (0x7f # rest) 0 = Inr (n, pos)"
  obtains v where "decodeVarintFromBuf (0x7f # rest) 1 = Inr (v, pos)" "n = 127 + unat v"
  using assms by (auto simp: prefixed_def Let_def split: sum.splits)

lemma string_lost:
  assumes "\<not> string_ok 128 s"
  shows "decodeString (string_bytes 128 0 0x80 s) 0 sp \<noteq> (Inr (s, stop), sp')"
proof
  assume decoded: "decodeString (string_bytes 128 0 0x80 s) 0 sp = (Inr (s, stop), sp')"
  define rest where "rest = (if length s < 128 then s else long_length (length s - 127) @ s)"
  have raw: "\<not> shrinks 128 s" and long: "length s = 127 \<or> 128 \<le> length s - 127"
    using assms by (auto simp: string_ok_def payload_def shrinks_def split: if_splits)
  then have w: "string_bytes 128 0 0x80 s = 0x7f # rest" by (auto simp: string_bytes_def payload_def rest_def)
  from raw_string_length [OF decoded [unfolded decodeString_def w]] obtain pos where
      pos: "prefixed 0x7f (0x7f # rest) 0 = Inr (length s, pos)" "pos + length s \<le> length (0x7f # rest)"
    by auto
  obtain v where v: "decodeVarintFromBuf (0x7f # rest) 1 = Inr (v, pos)" "length s = 127 + unat v"
    using all_ones_length [OF pos(1)] .
  show False
  proof (cases "length s = 127")
    case True
    with varint_loop_progress [of "0x7f # rest" 1 0 0 v pos] v(1) pos(2) show False by (simp add: decodeVarintFromBuf_def rest_def)
  next
    case False
    with long have n: "128 \<le> length s - 127" by simp
    from v(1) n long_length_wrong [OF n, of "[0x7f]" s v pos] v(2) show False by (simp add: rest_def)
  qed
qed

lemma value_prefix: "string_prefix 7 0 0x80" and name_prefix: "string_prefix 3 0x20 0x08"
  by (simp_all add: string_prefix_def masks [symmetric])

lemma string_ok_value: "string_ok 128 s \<longleftrightarrow> length s < 255 \<and> (length s = 127 \<longrightarrow> shrinks 128 s)"
  by (auto simp: string_ok_def payload_def shrinks_def)

text \<open>
  Property C33: which header values survive. What \<^verbatim>\<open>encodeStringToBuf\<close> writes for a string is read back by \<^verbatim>\<open>decodeString\<close>, with room in
  the scratch buffer, exactly when the string has fewer than 255 bytes and is not an incompressible string of 127
  bytes: the encoder writes longer lengths as a sum of 128s where the decoder reads digits to base 128, and it writes the
  length 127 in the prefix, where it means that a continuation follows.
\<close>

theorem qpack_string_exact:
  assumes "encodeStringToBuf cap [] s = Some bs" and "sp + length s \<le> 16384"
  shows "(\<exists>stop sp'. decodeString bs 0 sp = (Inr (s, stop), sp')) \<longleftrightarrow> length s < 255 \<and> (length s = 127 \<longrightarrow> shrinks 128 s)"
proof -
  have bs: "bs = string_bytes 128 0 0x80 s"
    using assms(1) by (simp add: encodeStringToBuf_def string_to_buf_eq put_all_def split: if_splits)
  have "\<not> 16384 - sp < length s" using assms(2) by linarith
  then have "\<exists>stop sp'. decodeString bs 0 sp = (Inr (s, stop), sp')" if "string_ok 128 s"
    using string_roundtrip [OF value_prefix, of s "[]" "[]" sp] that
    unfolding bs decodeString_def by (simp add: masks [symmetric])
  with string_lost [of s sp] bs show ?thesis unfolding string_ok_value [symmetric] by blast
qed

theorem qpack_string_exact_witness:
  "let s = replicate 255 0x61 in \<exists>bs. encodeStringToBuf 300 [] s = Some bs \<and>
     \<not> (\<exists>stop sp'. decodeString bs 0 0 = (Inr (s, stop), sp'))"
proof -
  let ?s = "replicate 255 0x61 :: byte list"
  have "\<exists>bs. encodeStringToBuf 300 [] ?s = Some bs"
    by (simp add: encodeStringToBuf_def string_to_buf_eq put_all_def string_bytes_def payload_def shrinks_def long_length_def)
  then obtain bs where bs: "encodeStringToBuf 300 [] ?s = Some bs" by blast
  moreover from qpack_string_exact [OF bs, of 0] have "\<not> (\<exists>stop sp'. decodeString bs 0 0 = (Inr (?s, stop), sp'))" by simp
  ultimately show ?thesis unfolding Let_def by blast
qed

section \<open>Header blocks\<close>

definition index_bytes :: "byte \<Rightarrow> nat \<Rightarrow> nat \<Rightarrow> byte list" where
  "index_bytes first n idx = (if idx < 2 ^ n - 1 then [first OR word_of_nat idx]
     else [first OR word_of_nat (2 ^ n - 1), word_of_nat (idx - (2 ^ n - 1))])"

lemma put_index_eq:
  assumes "idx < 128"
  shows "put_index cap first (2 ^ n - 1) out idx = put_all cap (index_bytes first n idx) out"
proof -
  define v where "v = idx - (2 ^ n - 1)"
  have "v < 128" unfolding v_def by (rule le_less_trans [OF diff_le_self assms])
  then have "encodeVarintToBuf cap out v = put_all cap [word_of_nat v] out" for out by (simp add: encodeVarintToBuf.simps put_put_all)
  then show ?thesis
    unfolding put_index_def index_bytes_def v_def [symmetric] by (simp add: put_put_all)
qed

lemma index_roundtrip:
  assumes "first AND mask n = 0" "0 < n" "n \<le> 8" "idx < 128"
  shows "prefixed (mask n) (pre @ index_bytes first n idx @ post) (length pre) = Inr (idx, length pre + length (index_bytes first n idx))"
proof (cases "idx < 2 ^ n - 1")
  case True
  with prefixed_short [OF assms(1) True assms(3), of pre post] show ?thesis by (simp add: index_bytes_def)
next
  case False
  have "idx - (2 ^ n - 1) < 128" by (rule le_less_trans [OF diff_le_self assms(4)])
  moreover have "2 ^ n - 1 + (idx - (2 ^ n - 1)) = idx" using False by simp
  ultimately have "prefixed (mask n) (pre @ (first OR word_of_nat (2 ^ n - 1)) # word_of_nat (idx - (2 ^ n - 1)) # post) (length pre) = Inr (idx, length pre + 2)"
    using prefixed_long [OF assms(1,3,2), of "idx - (2 ^ n - 1)" pre post] by metis
  with False show ?thesis
    unfolding index_bytes_def by (simp only: if_False append_Cons append_Nil list.size) simp
qed

lemma index_first:
  assumes "m AND mask n = 0"
  shows "(index_bytes first n idx @ rest) ! 0 AND m = first AND m"
  using assms prefix_flag [of m n "2 ^ n - 1" first] prefix_flag [of m n idx first] by (auto simp: index_bytes_def)

lemma string_first:
  assumes "m AND mask n = 0" "m AND h = 0"
  shows "(string_bytes (2 ^ n) first h s @ rest) ! 0 AND m = first AND m"
proof (cases "length s < 2 ^ n")
  case True
  let ?f = "first OR (if shrinks (2 ^ n) s then h else 0)"
  have "length (payload (2 ^ n) s) < 2 ^ n" using True by (auto simp: payload_def shrinks_def)
  then have "(?f OR word_of_nat (length (payload (2 ^ n) s))) AND m = ?f AND m" by (rule prefix_flag [OF assms(1)])
  moreover have "h AND m = 0" using assms(2) by (simp add: and.commute)
  then have "?f AND m = first AND m" by (simp add: bit.conj_disj_distrib2)
  ultimately show ?thesis using True by (simp add: string_bytes_def or.assoc)
next
  case False
  with prefix_flag [OF assms(1), of "2 ^ n - 1" first] show ?thesis by (simp add: string_bytes_def)
qed

definition field_bytes :: "header_field \<Rightarrow> byte list" where
  "field_bytes f =
     (case findStaticIndex (hf_name f) (hf_value f) of
        Some idx \<Rightarrow> index_bytes 0xc0 6 idx
      | None \<Rightarrow>
          (case findStaticNameIndex (hf_name f) of
             Some idx \<Rightarrow> index_bytes 0x50 4 idx
           | None \<Rightarrow> string_bytes 8 0x20 0x08 (hf_name f)) @ string_bytes 128 0 0x80 (hf_value f))"

definition field_ok :: "header_field \<Rightarrow> bool" where
  "field_ok f \<longleftrightarrow> findStaticIndex (hf_name f) (hf_value f) \<noteq> None \<or>
     string_ok 128 (hf_value f) \<and> (findStaticNameIndex (hf_name f) \<noteq> None \<or> string_ok 8 (hf_name f))"

text \<open>The room that a field takes in the scratch buffer.\<close>

definition field_scratch :: "header_field \<Rightarrow> nat" where
  "field_scratch f =
     (if findStaticIndex (hf_name f) (hf_value f) \<noteq> None then 0
      else (if findStaticNameIndex (hf_name f) \<noteq> None then 0 else scratch_used 8 (hf_name f)) + scratch_used 128 (hf_value f))"

lemma length_static_table: "length static_table = 99"
  by (simp add: static_table_def)

lemma find_index_Some: "find_index p xs i = Some j \<Longrightarrow> i \<le> j \<and> j < i + length xs \<and> p (xs ! (j - i))"
proof (induction xs arbitrary: i)
  case (Cons x xs)
  then show ?case by (cases "p x") (fastforce simp: nth_Cons' Suc_le_eq)+
qed simp

lemma find_index_hit: "i < length xs \<Longrightarrow> p (xs ! i) \<Longrightarrow> find_index p xs j \<noteq> None"
proof (induction xs arbitrary: i j)
  case (Cons x xs)
  then show ?case by (cases i) auto
qed simp

lemma findStaticIndex_Some: "findStaticIndex n v = Some i \<Longrightarrow> i < 99 \<and> static_table ! i = \<lparr>hf_name = n, hf_value = v\<rparr>"
  unfolding findStaticIndex_def by (drule find_index_Some) (auto simp: length_static_table)

lemma findStaticNameIndex_Some: "findStaticNameIndex n = Some i \<Longrightarrow> i < 99 \<and> hf_name (static_table ! i) = n"
  unfolding findStaticNameIndex_def by (drule find_index_Some) (auto simp: length_static_table)

lemma encode_field_eq: "encode_field cap f out = put_all cap (field_bytes f) out"
proof -
  have index: "put_index cap 0xc0 63 out i = put_all cap (index_bytes 0xc0 6 i) out" if "i < 99" for out i
    using put_index_eq [of i cap "0xc0" 6 out] that by simp
  have name: "put_index cap 0x50 15 out i = put_all cap (index_bytes 0x50 4 i) out" if "i < 99" for out i
    using put_index_eq [of i cap "0x50" 4 out] that by simp
  show ?thesis
    unfolding encode_field_def encodeStringToBuf_def encodeStringToBuf4_def field_bytes_def string_to_buf_eq
    by (auto simp: index name dest!: findStaticIndex_Some findStaticNameIndex_Some split: option.splits)
qed

lemma encode_fields_eq: "encode_fields cap fs out = put_all cap (concat (map field_bytes fs)) out \<or> fs = [] \<and> cap < length out"
proof (induction fs arbitrary: out)
  case (Cons f fs)
  show ?case
  proof (cases "length out + length (field_bytes f) \<le> cap")
    case True
    with Cons.IH [of "out @ field_bytes f"] show ?thesis by (auto simp: encode_field_eq put_all_def)
  next
    case False
    then show ?thesis by (auto simp: encode_field_eq put_all_def)
  qed
qed (simp add: put_all_def)

definition block_bytes :: "header_field list \<Rightarrow> byte list" where
  "block_bytes fs = [0, 0] @ concat (map field_bytes fs)"

theorem encodeHeaderBlock_eq: "encodeHeaderBlock cap fs = (if length (block_bytes fs) \<le> cap then Some (block_bytes fs) else None)"
proof -
  have "encodeHeaderBlock cap fs = Option.bind (put_all cap [0, 0] []) (encode_fields cap fs)"
    by (auto simp: encodeHeaderBlock_def put_put_all put_all_def)
  also have "\<dots> = put_all cap (block_bytes fs) []"
    using encode_fields_eq [of cap fs "[0, 0]"] by (auto simp: put_all_def block_bytes_def)
  finally show ?thesis by (simp add: put_all_def)
qed

lemma decode_value:
  assumes "string_ok 128 s" "sp + scratch_used 128 s \<le> 16384"
  shows "decodeString (pre @ string_bytes 128 0 0x80 s @ post) (length pre) sp =
    (Inr (s, length pre + length (string_bytes 128 0 0x80 s)), sp + scratch_used 128 s)"
  using string_roundtrip [OF value_prefix, of s pre post sp] assms
  by (auto simp: decodeString_def masks [symmetric] scratch_used_def split: if_splits)

lemma decode_name:
  assumes "string_ok 8 s" "sp + scratch_used 8 s \<le> 16384"
  shows "decodeString4 (pre @ string_bytes 8 0x20 0x08 s @ post) (length pre) sp =
    (Inr (s, length pre + length (string_bytes 8 0x20 0x08 s)), sp + scratch_used 8 s)"
  using string_roundtrip [OF name_prefix, of s pre post sp] assms
  by (auto simp: decodeString4_def masks [symmetric] scratch_used_def split: if_splits)

lemma field_roundtrip:
  assumes "field_ok f" "sp + field_scratch f \<le> 16384"
  shows "decode_field (pre @ field_bytes f @ post) (length pre) sp = (Inr (f, length pre + length (field_bytes f)), sp + field_scratch f)"
proof (cases "findStaticIndex (hf_name f) (hf_value f)")
  case (Some i)
  note i = findStaticIndex_Some [OF Some]
  have "prefixed 0x3f (pre @ index_bytes 0xc0 6 i @ post) (length pre) = Inr (i, length pre + length (index_bytes 0xc0 6 i))"
    using index_roundtrip [of "0xc0" 6 i pre post] i by (simp add: masks [symmetric])
  moreover have "(pre @ index_bytes 0xc0 6 i @ post) ! length pre AND m = 0xc0 AND m" if "m AND 0x3f = 0" for m
    using index_first [of m 6 "0xc0" i post] that by (simp add: nth_append masks [symmetric])
  ultimately show ?thesis
    using i Some by (simp add: decode_field_def field_bytes_def field_scratch_def length_static_table Let_def)
next
  case None
  note exact = this
  then have v: "string_ok 128 (hf_value f)" using assms(1) by (simp add: field_ok_def)
  show ?thesis
  proof (cases "findStaticNameIndex (hf_name f)")
    case (Some i)
    note i = findStaticNameIndex_Some [OF Some]
    let ?w = "index_bytes 0x50 4 i" and ?v = "string_bytes 128 0 0x80 (hf_value f)"
    have "prefixed 0x0f (pre @ ?w @ ?v @ post) (length pre) = Inr (i, length pre + length ?w)"
      using index_roundtrip [of "0x50" 4 i pre "?v @ post"] i by (simp add: masks [symmetric])
    moreover have "(pre @ ?w @ ?v @ post) ! length pre AND m = 0x50 AND m" if "m AND 0x0f = 0" for m
      using index_first [of m 4 "0x50" i "?v @ post"] that by (simp add: nth_append masks [symmetric])
    moreover have "decodeString (pre @ ?w @ ?v @ post) (length pre + length ?w) sp = (Inr (hf_value f, length pre + length ?w + length ?v), sp + field_scratch f)"
      using decode_value [OF v, of sp "pre @ ?w" post] assms(2) Some exact by (simp add: field_scratch_def)
    ultimately show ?thesis
      using i Some exact by (simp add: decode_field_def field_bytes_def length_static_table Let_def)
  next
    case None
    let ?w = "string_bytes 8 0x20 0x08 (hf_name f)" and ?v = "string_bytes 128 0 0x80 (hf_value f)"
    have n: "string_ok 8 (hf_name f)" using assms(1) exact None by (simp add: field_ok_def)
    have sp: "field_scratch f = scratch_used 8 (hf_name f) + scratch_used 128 (hf_value f)" using exact None by (simp add: field_scratch_def)
    have "(pre @ ?w @ ?v @ post) ! length pre AND m = 0x20 AND m" if "m AND 0x07 = 0" "m AND 0x08 = 0" for m
      using string_first [of m 3 "0x08" "0x20" "hf_name f" "?v @ post"] that by (simp add: nth_append masks [symmetric])
    moreover have "decodeString4 (pre @ ?w @ ?v @ post) (length pre) sp = (Inr (hf_name f, length pre + length ?w), sp + scratch_used 8 (hf_name f))"
      using decode_name [OF n, of sp pre "?v @ post"] assms(2) sp by simp
    moreover have "decodeString (pre @ ?w @ ?v @ post) (length pre + length ?w) (sp + scratch_used 8 (hf_name f)) =
        (Inr (hf_value f, length pre + length ?w + length ?v), sp + field_scratch f)"
      using decode_value [OF v, of "sp + scratch_used 8 (hf_name f)" "pre @ ?w" post] assms(2) sp by (simp add: add.assoc)
    ultimately show ?thesis
      using None exact by (simp add: decode_field_def field_bytes_def Let_def)
  qed
qed

lemma fields_roundtrip:
  assumes "list_all field_ok fs" "length acc + length fs \<le> max_fields" "sp + sum_list (map field_scratch fs) \<le> 16384"
  shows "decode_fields (pre @ concat (map field_bytes fs)) max_fields acc (length pre) sp =
    (Inr (acc @ fs), sp + sum_list (map field_scratch fs))"
  using assms
proof (induction fs arbitrary: pre acc sp)
  case Nil
  then show ?case by (simp add: decode_fields.simps)
next
  case (Cons f fs)
  let ?post = "concat (map field_bytes fs)"
  have dec: "decode_field (pre @ field_bytes f @ ?post) (length pre) sp = (Inr (f, length pre + length (field_bytes f)), sp + field_scratch f)"
    using Cons.prems by (intro field_roundtrip) simp_all
  have "field_bytes f \<noteq> []" by (auto simp: field_bytes_def index_bytes_def string_bytes_def split: option.splits)
  then have "decode_fields (pre @ field_bytes f @ ?post) max_fields acc (length pre) sp =
      decode_fields (pre @ field_bytes f @ ?post) max_fields (acc @ [f]) (length pre + length (field_bytes f)) (sp + field_scratch f)"
    using dec Cons.prems(2) by (simp add: decode_fields.simps [of _ _ _ "length pre"])
  with Cons.IH [of "acc @ [f]" "sp + field_scratch f" "pre @ field_bytes f"] Cons.prems show ?case by (simp add: add.assoc)
qed

text \<open>
  Property C32: header blocks survive. A header block that the encoder wrote is decoded to the same fields in the same order,
  with static table entries, static names and literal names as they come, when the decoder has room for the fields
  and for the Huffman strings, and the lengths of the literal strings are ones that the encoder writes correctly.
\<close>

theorem qpack_roundtrip:
  assumes "encodeHeaderBlock cap fs = Some bs" and "list_all field_ok fs" and "length fs \<le> max_fields"
    and "sp + sum_list (map field_scratch fs) \<le> 16384"
  shows "decodeHeaderBlock bs max_fields sp = (Inr fs, sp + sum_list (map field_scratch fs))"
proof -
  have bs: "bs = [0, 0] @ concat (map field_bytes fs)"
    using assms(1) by (simp add: encodeHeaderBlock_eq block_bytes_def split: if_splits)
  with fields_roundtrip [of fs "[]" max_fields sp "[0, 0]"] assms(2-4) show ?thesis
    by (simp add: decodeHeaderBlock_def numeral_2_eq_2)
qed

lemma field_scratch_le: "field_scratch f \<le> length (hf_name f) + length (hf_value f)"
  by (simp add: field_scratch_def scratch_used_def)

theorem qpack_roundtrip_witness:
  "let fs = [\<lparr>hf_name = ascii '':method'', hf_value = ascii ''GET''\<rparr>, \<lparr>hf_name = ascii '':path'', hf_value = ascii ''/x''\<rparr>,
      \<lparr>hf_name = ascii ''x-a'', hf_value = ascii ''b''\<rparr>] in
   \<exists>bs sp. encodeHeaderBlock (length (block_bytes fs)) fs = Some bs \<and> decodeHeaderBlock bs 3 0 = (Inr fs, sp)"
proof -
  let ?f = "\<lparr>hf_name = ascii '':method'', hf_value = ascii ''GET''\<rparr>"
  let ?g = "\<lparr>hf_name = ascii '':path'', hf_value = ascii ''/x''\<rparr>"
  let ?h = "\<lparr>hf_name = ascii ''x-a'', hf_value = ascii ''b''\<rparr>"
  let ?fs = "[?f, ?g, ?h]"
  have "static_table ! 17 = ?f" "hf_name (static_table ! 1) = ascii '':path''" by (simp_all add: static_table_def)
  then have "findStaticIndex (ascii '':method'') (ascii ''GET'') \<noteq> None" "findStaticNameIndex (ascii '':path'') \<noteq> None"
    unfolding findStaticIndex_def findStaticNameIndex_def
    by (intro find_index_hit [of 17] find_index_hit [of 1]; simp add: length_static_table)+
  moreover have "string_ok 8 (ascii ''x-a'')" by (auto simp: string_ok_def payload_def shrinks_def ascii_def)
  ultimately have ok: "list_all field_ok ?fs" by (simp add: field_ok_def string_ok_value ascii_def)
  have room: "0 + sum_list (map field_scratch ?fs) \<le> 16384"
    using field_scratch_le [of ?f] field_scratch_le [of ?g] field_scratch_le [of ?h] by (simp add: ascii_def)
  have bs: "encodeHeaderBlock (length (block_bytes ?fs)) ?fs = Some (block_bytes ?fs)" by (simp add: encodeHeaderBlock_eq)
  from qpack_roundtrip [OF bs ok _ room, of 3] bs show ?thesis unfolding Let_def by fastforce
qed

section \<open>The scratch buffer fills up\<close>

lemma decode_string_scratch:
  assumes "decode_string ones h data start sp = (r, sp')"
  shows "sp \<le> sp' \<and> (sp \<le> 16384 \<longrightarrow> sp' \<le> 16384)"
  using assms by (auto simp: decode_string_def Let_def decode_exact split: sum.splits if_splits)

lemma decode_field_scratch:
  assumes "decode_field data pos sp = (r, sp')"
  shows "sp \<le> sp' \<and> (sp \<le> 16384 \<longrightarrow> sp' \<le> 16384)"
  using assms
  by (auto simp: decode_field_def Let_def decodeString_def decodeString4_def split: sum.splits if_splits prod.splits
      dest!: decode_string_scratch)

lemma decode_fields_scratch:
  "decode_fields data max_fields out pos sp = (r, sp') \<Longrightarrow> sp \<le> sp' \<and> (sp \<le> 16384 \<longrightarrow> sp' \<le> 16384)"
proof (induction data max_fields out pos sp rule: decode_fields.induct)
  case (1 data max_fields out pos sp)
  obtain r1 sp1 where f: "decode_field data pos sp = (r1, sp1)" by fastforce
  note sp1 = decode_field_scratch [OF f]
  show ?case
  proof (cases "pos < length data \<and> \<not> length out \<ge> max_fields")
    case True
    show ?thesis
    proof (cases r1)
      case (Inl e)
      with True f sp1 "1.prems" show ?thesis by (simp add: decode_fields.simps [of data])
    next
      case (Inr x)
      obtain field pos1 where x: "x = (field, pos1)" by (cases x)
      with True f Inr "1.prems" have "decode_fields data max_fields (out @ [field]) pos1 sp1 = (r, sp')"
        by (simp add: decode_fields.simps [of data _ _ pos])
      from "1.IH" [OF _ _ f [symmetric] Inr x [symmetric] this] True sp1 show ?thesis by fastforce
    qed
  next
    case False
    with "1.prems" show ?thesis by (auto simp: decode_fields.simps [of data _ _ pos] split: if_splits)
  qed
qed

definition scratch_after :: "nat \<Rightarrow> byte list list \<Rightarrow> nat \<Rightarrow> nat" where
  "scratch_after max_fields blocks sp = fold (\<lambda>data sp. snd (decodeHeaderBlock data max_fields sp)) blocks sp"

lemma scratch_after_ge: "sp \<le> scratch_after max_fields blocks sp"
proof (induction blocks arbitrary: sp)
  case (Cons data blocks)
  have "sp \<le> snd (decodeHeaderBlock data max_fields sp)"
    using decode_fields_scratch [of data max_fields "[]" 2 sp] by (auto simp: decodeHeaderBlock_def prod_eq_iff)
  with Cons [of "snd (decodeHeaderBlock data max_fields sp)"] show ?case by (simp add: scratch_after_def)
qed (simp add: scratch_after_def)

text \<open>
  Property C34: the scratch buffer is never given back. Once it has less room than a string that the encoder writes in
  Huffman code, that string is refused for ever, whatever header blocks are decoded in between: the position of
  the buffer only grows, over all connections of the process.
\<close>

theorem qpack_scratch_exhausted:
  assumes "16384 - sp < length s" and "shrinks 128 s" and "encodeStringToBuf cap [] s = Some bs"
  shows "decodeString bs 0 (scratch_after max_fields blocks sp) =
    (Inl (Huffman_error Decode_OutputBufferTooSmall), scratch_after max_fields blocks sp)"
proof -
  have bs: "bs = string_bytes 128 0 0x80 s"
    using assms(3) by (simp add: encodeStringToBuf_def string_to_buf_eq put_all_def split: if_splits)
  have "string_ok 128 s" using assms(2) by (auto simp: string_ok_def payload_def shrinks_def)
  moreover have "16384 - scratch_after max_fields blocks sp < length s" using assms(1) scratch_after_ge [of sp max_fields blocks] by linarith
  ultimately show ?thesis
    using string_roundtrip [OF value_prefix, of s "[]" "[]"] assms(2) by (simp add: bs decodeString_def masks [symmetric])
qed

theorem qpack_scratch_exhausted_witness:
  "let s = [0x61, 0x61, 0x61] in \<exists>bs. shrinks 128 s \<and> encodeStringToBuf 10 [] s = Some bs \<and>
     decodeString bs 0 (scratch_after 16 [bs, [0, 0]] 16384) = (Inl (Huffman_error Decode_OutputBufferTooSmall), scratch_after 16 [bs, [0, 0]] 16384)"
proof -
  let ?s = "[0x61, 0x61, 0x61] :: byte list"
  have entry: "huffman_table ! 97 = \<lparr>he_symbol = 97, he_code = 3, he_bit_len = 5\<rparr>" by code_simp
  have "huffman_encode 16384 ?s = Some (Inr [0x18, 0xc7])"
    by (simp add: huffman_encode_def entry emit_bytes.simps Let_def)
  then have form: "huffman_form ?s = [0x18, 0xc7]" by (simp add: huffman_form_def)
  then have shrinks: "shrinks 128 ?s" by (simp add: shrinks_def)
  have "\<exists>bs. encodeStringToBuf 10 [] ?s = Some bs"
    by (simp add: encodeStringToBuf_def string_to_buf_eq put_all_def string_bytes_def payload_def shrinks form)
  then obtain bs where bs: "encodeStringToBuf 10 [] ?s = Some bs" by blast
  from qpack_scratch_exhausted [OF _ shrinks bs, of 16384 16 "[bs, [0, 0]]"] bs shrinks show ?thesis by (simp add: Let_def)
qed

end
