(* ===== verification/Spec2Isabelle.thy ===== *)
theory Spec2Isabelle
  imports Demo_Backend OpenSSL_Backend_Proofs Pair_Context OpenSSL_Probe Tls_Backend Frame_Payload Received_Ranges
    Wire_Len Transport_Parameters_Codec Pmtu Pacer Zero_Rtt Migration
    Qpack_Proofs
begin

text \<open>
  Verification of \<^verbatim>\<open>quicz\<close>, a QUIC transport in Zig with TLS backends behind a C ABI.

  \<^bold>\<open>The parts and how they interact.\<close> A connection exchanges packets. A packet carries a truncated packet number
  and a payload of frames; the receiver reconstructs the number, refuses a number it has seen, decodes the
  frames, closes the connection when a frame is malformed or must not be there, and acknowledges what it
  received. What it sends is sized before it is written, paced, and kept within the size that the path was probed
  for; a path that changes is validated before much is sent on it, and a client that resumes a session may send data
  with its first packet. CRYPTO frames carry TLS bytes: the transport hands them to a TLS backend through a table of C
  callbacks and pulls the bytes that TLS wants to send, the traffic secrets and the peer's transport
  parameters from it. The repository has two such backends (a demo without cryptography, an adapter to OpenSSL),
  a program that runs two OpenSSL endpoints against each other and records the transcript, and a probe of the
  OpenSSL that it is linked with. HTTP/3 sits on top; its headers are compressed with a static table and a
  Huffman code.

  \<^bold>\<open>The theories.\<close> Each theory says in its first lines which file it models; names are those of the source, fields of
  a C struct carry a prefix (\<open>be_\<close>, \<open>ep_\<close>, \<open>pt_\<close>).

  \<^item> \<^verbatim>\<open>C_Memory\<close>: the prelude of the C part. Bytes, \<^verbatim>\<open>size_t\<close> and \<^verbatim>\<open>int\<close> are words of 8, 64 and 32 bits; a call that reads
    or writes outside an array is \<open>None\<close>; resources are events \<open>Acquire\<close> and \<open>Release\<close> whose balance is taken.
    \<^verbatim>\<open>Byte_Queue\<close>: the contract of a bounded byte buffer (locale \<open>byte_queue\<close>).
  \<^item> \<^verbatim>\<open>Tls_Abi\<close> (\<^verbatim>\<open>tls_backend_c_abi.h\<close>): status codes and secrets, and the locale \<open>mailbox\<close>, an output that is handed
    over once. \<^verbatim>\<open>Demo_Backend\<close> (\<^verbatim>\<open>tls_c_abi_demo_backend.c\<close>): the demo backend, every function over a record of
    its static variables; interprets both locales.
  \<^item> \<^verbatim>\<open>OpenSSL_Api\<close>: OpenSSL as a parameter. A call of \<^verbatim>\<open>SSL_do_handshake\<close> is a tree: either an answer, or a callback
    into the program together with the reaction to its result. \<^verbatim>\<open>OpenSSL_Backend\<close>
    (\<^verbatim>\<open>tls_openssl_backend_adapter.c\<close>) models every function of the adapter; \<^verbatim>\<open>OpenSSL_Backend_Callbacks\<close>,
    \<^verbatim>\<open>_Handshake\<close>, \<^verbatim>\<open>_Calls\<close> and \<^verbatim>\<open>_Proofs\<close> prove it for every such tree: no access out of bounds over any run of
    calls, every byte OpenSSL sends delivered in order, resources released once, a confirmed handshake
    leaves nothing pending; and the defects listed at the end.
  \<^item> \<^verbatim>\<open>Pair_Transcript\<close>, \<^verbatim>\<open>Pair_Endpoint\<close>, \<^verbatim>\<open>Pair_Exchange\<close>, \<^verbatim>\<open>Pair_Recording\<close>, \<^verbatim>\<open>Pair_Transcript_Proofs\<close>, \<^verbatim>\<open>Pair_Context\<close>
    (\<^verbatim>\<open>tls_openssl_pair_transcript.c\<close>): the run of two endpoints ends after at most 80 rounds for every OpenSSL,
    moves bytes in order and records the complete transcript, compared with what an observer of the callbacks saw,
    and the last secrets.
    \<^verbatim>\<open>OpenSSL_Probe\<close> (\<^verbatim>\<open>tls_openssl_probe.c\<close>).
  \<^item> \<^verbatim>\<open>Tls_Backend\<close> (\<^verbatim>\<open>tls_backend.zig\<close>): the adapters through which the Zig transport calls either C backend, with
    the locale \<open>pull_contract\<close> that \<open>mailbox\<close> implies; properties of the composition down to the C code.
  \<^item> \<^verbatim>\<open>Zig_Buffer\<close> (\<^verbatim>\<open>buffer.zig\<close>): the prelude of the Zig part. Error unions with state, \<^verbatim>\<open>try\<close>, \<^verbatim>\<open>errdefer\<close>, readers and
    writers, an allocator that may fail at any call and that records bad frees; the calculi \<open>reads\<close>, \<open>writes\<close>,
    \<open>advances\<close>, \<open>moves\<close>, \<open>mem_safe\<close> and \<open>yields\<close> that carry the codec proofs.
    \<^verbatim>\<open>Zig_Memory\<close>: ownership of allocated blocks (\<open>holds\<close>, \<open>balanced\<close>) and \<^verbatim>\<open>std.ArrayList\<close>, whose growth policy is a
    parameter.
  \<^item> \<^verbatim>\<open>Packet_Number\<close> (\<^verbatim>\<open>packet.zig\<close>): variable-length integers and packet numbers; reconstruction finds the closest
    number with the given low bytes. \<^verbatim>\<open>Packet_Header\<close>, \<^verbatim>\<open>Packet_Header_Proofs\<close> (the rest of \<^verbatim>\<open>packet.zig\<close>): long and
    short headers and packets, Version Negotiation and Retry; packets are parsed back as they were written, the
    parsers leak nothing, and no datagram is a packet of two kinds.
  \<^item> \<^verbatim>\<open>Frame\<close>, \<^verbatim>\<open>Frame_Proofs\<close> (\<^verbatim>\<open>frame.zig\<close>): the frame codec. Every valid frame is encoded as the wire format says and
    decoded back in both modes, decoded frames are valid, decoding makes progress, memory is balanced.
  \<^item> \<^verbatim>\<open>Frame_Payload\<close> (\<^verbatim>\<open>frame_rules.zig\<close>, \<^verbatim>\<open>transport_error.zig\<close>, \<^verbatim>\<open>frame_payload.zig\<close>): which packet carries which
    frames, and the walk that decides how to close a connection.
  \<^item> \<^verbatim>\<open>Received_Ranges\<close> (\<^verbatim>\<open>packet_number_space.zig\<close>): the bounded history of received packet numbers refines a set,
    accepts no number twice and yields an ACK frame of exactly its members.
  \<^item> \<^verbatim>\<open>Wire_Len\<close> (\<^verbatim>\<open>wire_len.zig\<close>, \<^verbatim>\<open>stream_id.zig\<close>): the predicted size of a frame is the size that is written, the binary
    searches find the largest payload that fits, and the padding loops end at the required datagram size.
  \<^item> \<^verbatim>\<open>Transport_Parameters\<close>, \<^verbatim>\<open>_Memory\<close>, \<^verbatim>\<open>_Codec\<close> (\<^verbatim>\<open>transport_parameters.zig\<close>): what is encoded is parsed back, what is parsed
    is within the limits of the protocol, and memory is balanced on every path.
  \<^item> \<^verbatim>\<open>Pmtu\<close> (\<^verbatim>\<open>pmtu.zig\<close>): path MTU discovery ends at the largest probe size that the path delivers. \<^verbatim>\<open>Pacer\<close>
    (\<^verbatim>\<open>pacer.zig\<close>): what is sent under the pacer in any time span is bounded by burst and rate, and the pacer
    always unblocks. \<^verbatim>\<open>Migration\<close> (\<^verbatim>\<open>migration.zig\<close>): amplification while a path is being validated, against an account
    of the datagrams, and the case in which the code has no limit.
  \<^item> \<^verbatim>\<open>Session_Cache\<close> (\<^verbatim>\<open>session_cache.zig\<close>): the ticket cache refines a bounded map and owns its tickets exactly.
    \<^verbatim>\<open>Zero_Rtt\<close> (\<^verbatim>\<open>zero_rtt.zig\<close>): replay protection accepts strictly increasing times per server, and the lockout that
    its clock check leads to; a resumption rests on an unexpired ticket of that server.
  \<^item> \<^verbatim>\<open>Huffman\<close>, \<^verbatim>\<open>Huffman_Trie\<close>, \<^verbatim>\<open>Huffman_Proofs\<close> (\<^verbatim>\<open>h3/huffman.zig\<close>): the trie that is built in an array of nodes represents
    the tree of the code, and decoding is the exact inverse of encoding. \<^verbatim>\<open>Qpack\<close>, \<^verbatim>\<open>Qpack_Proofs\<close> (\<^verbatim>\<open>h3/qpack.zig\<close>, without
    the dynamic table): header blocks are decoded as they were encoded, exactly which string lengths are not, and how
    the shared scratch buffer runs full.

  \<^bold>\<open>Bounds.\<close> They are those of the code: 4 levels, CRYPTO buffers of 8192 bytes (adapter), 65536 (pair) and 128
  (demo), 512 bytes of transport parameters, 80 rounds of the pair run, 32 received ranges, 16 session tickets, 1024 trie
  nodes (256 are used). No fuel is used: loops of the code are structural or have a termination proof, except the
  padding loop of \<^verbatim>\<open>Wire_Len\<close>, a \<^verbatim>\<open>partial_function\<close> that is proved to return. In the theories from \<^verbatim>\<open>Pmtu\<close> on, \<open>None\<close> is the
  panic of checked arithmetic; integers are kept at their width, \<^verbatim>\<open>i64\<close> as \<open>int\<close> with the range check written out.

  \<^bold>\<open>Assumptions.\<close> OpenSSL is a parameter, and what it does with the CRYPTO bytes is not restricted: the properties
  about them are stated against a record of what it sent, consumed and passed over, taken at the callbacks
  (\<open>observe\<close> in \<^verbatim>\<open>OpenSSL_Api\<close>). Where a property needs more of it, the hypothesis is named and documented in the theory
  that uses it: \<open>alpn_reported\<close> (\<^verbatim>\<open>OpenSSL_Backend_Calls\<close>) says that a protocol it reports is as long as it says. A line of
  the key log has no NUL byte in it, so that its length is that of \<^verbatim>\<open>strlen\<close>; the structures that secrets are
  pulled into are not NULL. In the Zig part a slice is shorter than \<open>2 ^ 64\<close> bytes, and DATAGRAM data shorter than
  \<open>2 ^ 62\<close>, where the additions of \<^verbatim>\<open>datagramFrameWireLen\<close> stay in range.

  \<^bold>\<open>Not modelled.\<close> Packet protection and the TLS 1.3 implementation in Zig (cryptographic primitives of the Zig
  library); the connection and endpoint state machines (\<^verbatim>\<open>connection.zig\<close>, \<^verbatim>\<open>endpoint*.zig\<close>: tens of thousands of
  lines over sockets, clocks and hash maps); loss recovery and congestion control (\<^verbatim>\<open>recovery.zig\<close>, \<^verbatim>\<open>cubic.zig\<close>,
  \<^verbatim>\<open>hybrid_slow_start.zig\<close>: their window growth is computed in floating point); the dynamic table of QPACK and the rest of HTTP/3; multipath, offload
  and metrics helpers that the transport does not call; the runtime, logging, command line tools, examples in Zig,
  tests and build files. The header files of the C part declare what the C files define.
\<close>

end
